(* ===== verification/C_Prelude.thy ===== *)
theory C_Prelude
  imports Main "HOL-Library.Word"
begin

unbundle bit_operations_syntax

text \<open>
  The vocabulary that every component of the development shares.

  \<^item> \<open>byte\<close>, \<open>u16\<close>, \<open>u32\<close>: the machine integers of the program. All configurations of
    the top-level Makefile compile with \<open>-m32\<close>, so \<open>unsigned\<close>, \<open>int\<close>, \<open>long\<close> and
    pointers have 32 bits.
  \<^item> \<open>fault\<close> and \<open>'a c\<close>: the outcome of running a piece of C. \<open>Inr v\<close> is a normal return
    with value \<open>v\<close>; \<open>Inl f\<close> says that the run left the defined behaviour of C (or called
    \<open>exit\<close>) and why.
  \<^item> \<open>c_bind\<close>: sequencing of two such pieces.
  \<^item> \<open>c_nth\<close>, \<open>c_upd\<close>, \<open>mem_read\<close>, \<open>mem_write\<close>: array indexing and \<open>memcpy\<close> with the
    bounds check that C leaves to the programmer.
  \<^item> \<open>reach\<close> and the locale \<open>transition_system\<close>: reachable states of a step relation, and
    the induction that lifts an invariant of single steps to all of them.
  Memory returned by \<open>malloc\<close> is assumed to be available wherever the source does not
  check for \<open>NULL\<close> itself.
\<close>

section \<open>Machine integers and outcomes\<close>

type_synonym byte = "8 word"
type_synonym u16 = "16 word"
type_synonym u32 = "32 word"

datatype fault =
    NullDeref        \<comment> \<open>a null pointer is dereferenced\<close>
  | OutOfBounds      \<comment> \<open>an access past the end of an object\<close>
  | WildPointer      \<comment> \<open>an uninitialised or dangling pointer or index is used\<close>
  | SignedOverflow   \<comment> \<open>a signed result that the type cannot represent\<close>
  | LibraryMisuse    \<comment> \<open>a library is used in a way that it does not allow\<close>
  | Hangs            \<comment> \<open>a loop that nobody ends\<close>
  | ExitCall int     \<comment> \<open>the program called \<open>exit\<close>\<close>
  | AbortCall        \<comment> \<open>the program called \<open>abort\<close>\<close>

type_synonym 'a c = "fault + 'a"

definition c_bind :: "'a c \<Rightarrow> ('a \<Rightarrow> 'b c) \<Rightarrow> 'b c" where
  "c_bind m f = (case m of Inl e \<Rightarrow> Inl e | Inr x \<Rightarrow> f x)"

lemma c_bind_Inl [simp]: "c_bind (Inl e) f = Inl e"
  by (simp add: c_bind_def)

lemma c_bind_Inr [simp]: "c_bind (Inr x) f = f x"
  by (simp add: c_bind_def)

lemma c_bind_cong [fundef_cong]:
  assumes "m = m'" and "\<And>x. m' = Inr x \<Longrightarrow> f x = f' x"
  shows "c_bind m f = c_bind m' f'"
  using assms by (cases m') (simp_all add: c_bind_def)

lemma c_bind_eq_Inr: "(c_bind m f = Inr y) = (\<exists>x. m = Inr x \<and> f x = Inr y)"
  by (cases m) simp_all

lemma c_bind_assoc: "c_bind (c_bind m f) g = c_bind m (\<lambda>x. c_bind (f x) g)"
  by (cases m) simp_all

text \<open>A result of signed arithmetic.\<close>

definition c_int :: "int \<Rightarrow> int c" where
  "c_int x = (if - (2 ^ 31) \<le> x \<and> x < 2 ^ 31 then Inr x else Inl SignedOverflow)"

text \<open>Two facts about 32-bit values that stay away from the wrap-around.\<close>

lemma unat_Suc_u32: "unat (x :: u32) < 2 ^ 32 - 1 \<Longrightarrow> unat (x + 1) = Suc (unat x)"
  by (simp add: unat_word_ariths)

lemma unat_of_nat_u32: "n < 2 ^ 32 \<Longrightarrow> unat (of_nat n :: u32) = n"
  by (simp add: unsigned_of_nat take_bit_nat_eq_self)

lemma unat_of_nat_u16: "n < 2 ^ 16 \<Longrightarrow> unat (of_nat n :: u16) = n"
  by (simp add: unsigned_of_nat take_bit_nat_eq_self)

lemma sint_small:
  assumes "unat (w :: u32) < 2 ^ 31"
  shows "sint w = int (unat w)"
proof -
  have "int (unat w) < int (2 ^ 31)" using assms by (rule of_nat_less_iff [THEN iffD2])
  then have "uint w < 2 ^ 31" by simp
  then have "signed_take_bit 31 (uint w) = uint w"
    by (intro signed_take_bit_int_eq_self) (auto intro: order_trans [of _ 0])
  then show ?thesis by (simp add: sint_uint)
qed

named_theorems c_ok \<open>steps that succeed, with the side condition that makes them\<close>

section \<open>Checked indexing\<close>

definition c_nth :: "'a list \<Rightarrow> nat \<Rightarrow> 'a c" where
  "c_nth xs i = (if i < length xs then Inr (xs ! i) else Inl OutOfBounds)"

definition c_upd :: "'a list \<Rightarrow> nat \<Rightarrow> 'a \<Rightarrow> 'a list c" where
  "c_upd xs i x = (if i < length xs then Inr (xs[i := x]) else Inl OutOfBounds)"

lemma c_nth_ok [c_ok]: "i < length xs \<Longrightarrow> c_nth xs i = Inr (xs ! i)"
  by (simp add: c_nth_def)

lemma c_upd_ok [c_ok]: "i < length xs \<Longrightarrow> c_upd xs i x = Inr (xs[i := x])"
  by (simp add: c_upd_def)

lemma c_nth_eq_Inr: "(c_nth xs i = Inr y) = (i < length xs \<and> y = xs ! i)"
  by (auto simp: c_nth_def)

lemma c_upd_eq_Inr: "(c_upd xs i x = Inr ys) = (i < length xs \<and> ys = xs[i := x])"
  by (auto simp: c_upd_def)

section \<open>Copies between byte arrays\<close>

text \<open>
  \<open>mem_read m off n\<close> is the source side of a \<open>memcpy\<close> of \<open>n\<close> bytes from \<open>&m[off]\<close>,
  \<open>mem_write m off ys\<close> its destination side.
\<close>

definition mem_read :: "'a list \<Rightarrow> nat \<Rightarrow> nat \<Rightarrow> 'a list c" where
  "mem_read m off n =
     (if off + n \<le> length m then Inr (take n (drop off m)) else Inl OutOfBounds)"

definition mem_write :: "'a list \<Rightarrow> nat \<Rightarrow> 'a list \<Rightarrow> 'a list c" where
  "mem_write m off ys =
     (if off + length ys \<le> length m
      then Inr (take off m @ ys @ drop (off + length ys) m) else Inl OutOfBounds)"

lemma mem_read_ok [c_ok]: "off + n \<le> length m \<Longrightarrow> mem_read m off n = Inr (take n (drop off m))"
  by (simp add: mem_read_def)

lemma mem_write_ok [c_ok]:
  "off + length ys \<le> length m \<Longrightarrow>
     mem_write m off ys = Inr (take off m @ ys @ drop (off + length ys) m)"
  by (simp add: mem_write_def)

lemma mem_write_middle: "length xs = off \<Longrightarrow> length old = length new \<Longrightarrow>
    mem_write (xs @ old @ ys) off new = Inr (xs @ new @ ys)"
  by (simp add: mem_write_def)

lemma length_mem_write: "mem_write m off ys = Inr m' \<Longrightarrow> length m' = length m"
  by (auto simp: mem_write_def split: if_splits)

lemma mem_read_write_same:
  assumes "mem_write m off ys = Inr m'"
  shows "mem_read m' off (length ys) = Inr ys"
  using assms by (auto simp: mem_write_def mem_read_def split: if_splits)

text \<open>A region that the written one does not overlap reads as before.\<close>

lemma take_drop_overwrite:
  assumes "off + length ys \<le> length m" and "a + n \<le> length m"
    and "a + n \<le> off \<or> off + length ys \<le> a"
  shows "take n (drop a (take off m @ ys @ drop (off + length ys) m)) = take n (drop a m)"
  using assms(3)
proof
  assume "a + n \<le> off"
  then have "n \<le> off - a" and "off - a \<le> length m - a" and "a \<le> off"
    using assms(1) by auto
  then show ?thesis using assms(1) by (simp add: drop_take)
next
  assume h: "off + length ys \<le> a"
  have "off \<le> length m" using assms(1) by simp
  with h have "drop a (take off m @ ys @ drop (off + length ys) m) = drop a m"
    by (simp add: min_absorb2)
  then show ?thesis by simp
qed

lemma mem_read_write_disjoint:
  assumes "mem_write m off ys = Inr m'" and "a + n \<le> off \<or> off + length ys \<le> a"
  shows "mem_read m' a n = mem_read m a n"
proof -
  have len: "length m' = length m" using assms(1) by (rule length_mem_write)
  have m': "m' = take off m @ ys @ drop (off + length ys) m" "off + length ys \<le> length m"
    using assms(1) by (auto simp: mem_write_def split: if_splits)
  show ?thesis
  proof (cases "a + n \<le> length m")
    case True
    with take_drop_overwrite [OF m'(2) True assms(2)] len show ?thesis
      unfolding mem_read_def m'(1) by simp
  qed (simp add: mem_read_def len)
qed

section \<open>Little-endian integers in memory\<close>

text \<open>The i386 keeps an \<open>unsigned\<close> as four bytes, the low one first, an
  \<open>unsigned short\<close> as two.\<close>

definition le32 :: "u32 \<Rightarrow> byte list" where
  "le32 w = [ucast w, ucast (drop_bit 8 w), ucast (drop_bit 16 w), ucast (drop_bit 24 w)]"

definition of_le32 :: "byte list \<Rightarrow> u32" where
  "of_le32 bs = (ucast (bs ! 0) :: u32) OR push_bit 8 (ucast (bs ! 1))
     OR push_bit 16 (ucast (bs ! 2)) OR push_bit 24 (ucast (bs ! 3))"

definition le16 :: "u16 \<Rightarrow> byte list" where
  "le16 w = [ucast w, ucast (drop_bit 8 w)]"

definition of_le16 :: "byte list \<Rightarrow> u16" where
  "of_le16 bs = (ucast (bs ! 0) :: u16) OR push_bit 8 (ucast (bs ! 1))"

lemma length_le32 [simp]: "length (le32 w) = 4"
  by (simp add: le32_def)

lemma length_le16 [simp]: "length (le16 w) = 2"
  by (simp add: le16_def)

lemma of_le32_le32 [simp]: "of_le32 (le32 w) = w"
proof -
  have "(ucast (ucast w :: byte) :: u32) OR push_bit 8 (ucast (ucast (drop_bit 8 w) :: byte))
     OR push_bit 16 (ucast (ucast (drop_bit 16 w) :: byte))
     OR push_bit 24 (ucast (ucast (drop_bit 24 w) :: byte)) = w"
    apply (rule bit_word_eqI)
    apply (simp only: bit_or_iff bit_push_bit_iff bit_unsigned_iff bit_drop_bit_eq o_def)
    apply (auto simp: bit_simps)
    subgoal for n by (cases "n < 24") auto
    done
  then show ?thesis by (simp only: of_le32_def le32_def nth_Cons_0 nth_Cons_Suc numeral_eq_Suc
        One_nat_def pred_numeral_simps BitM.simps)
qed

lemma of_le16_le16 [simp]: "of_le16 (le16 w) = w"
proof -
  have "(ucast (ucast w :: byte) :: u16) OR push_bit 8 (ucast (ucast (drop_bit 8 w) :: byte)) = w"
    apply (rule bit_word_eqI)
    apply (simp only: bit_or_iff bit_push_bit_iff bit_unsigned_iff bit_drop_bit_eq o_def)
    apply (auto simp: bit_simps)
    done
  then show ?thesis by (simp add: of_le16_def le16_def)
qed

text \<open>Records of equal size behind each other in memory.\<close>

lemma length_concat_const:
  assumes "\<And>x. x \<in> set xs \<Longrightarrow> length (f x) = w"
  shows "length (concat (map f xs)) = w * length xs"
  using assms by (induction xs) auto

lemma take_drop_concat:
  assumes "\<And>x. x \<in> set xs \<Longrightarrow> length (f x) = w" and "i < length xs"
  shows "take w (drop (w * i) (concat (map f xs))) = f (xs ! i)"
  using assms
proof (induction xs arbitrary: i)
  case Nil
  then show ?case by simp
next
  case (Cons x xs)
  then show ?case by (cases i) auto
qed

lemma upt_split: "i \<le> j \<Longrightarrow> j \<le> k \<Longrightarrow> [i..<k] = [i..<j] @ [j..<k]"
  using upt_add_eq_append [of i j "k - j"] by simp

text \<open>A list cut into pieces of equal size is the concatenation of the pieces.\<close>

lemma concat_take_drop:
  "length xs = w * k \<Longrightarrow> concat (map (\<lambda>i. take w (drop (i * w) xs)) [0..<k]) = xs"
proof (induction k arbitrary: xs)
  case 0
  then show ?case by simp
next
  case (Suc k)
  then have "length (drop w xs) = w * k" by simp
  then have IH: "concat (map (\<lambda>i. take w (drop (i * w) (drop w xs))) [0..<k]) = drop w xs"
    by (rule Suc.IH)
  have "map (\<lambda>i. take w (drop (i * w) xs)) [0..<Suc k] =
      take w xs # map (\<lambda>i. take w (drop (i * w) (drop w xs))) [0..<k]"
    by (simp add: upt_conv_Cons map_Suc_upt [symmetric] o_def algebra_simps del: upt_Suc)
  with IH show ?case by simp
qed

section \<open>Reachable states and invariants\<close>

inductive reach :: "('s \<Rightarrow> bool) \<Rightarrow> ('s \<Rightarrow> 's \<Rightarrow> bool) \<Rightarrow> 's \<Rightarrow> bool"
  for init step where
  reach_init: "init s \<Longrightarrow> reach init step s"
| reach_step: "reach init step s \<Longrightarrow> step s t \<Longrightarrow> reach init step t"

locale transition_system =
  fixes init :: "'s \<Rightarrow> bool"
    and step :: "'s \<Rightarrow> 's \<Rightarrow> bool"
    and inv :: "'s \<Rightarrow> bool"
  assumes init_inv: "init s \<Longrightarrow> inv s"
    and step_inv: "step s t \<Longrightarrow> inv s \<Longrightarrow> inv t"
begin

lemma reach_inv: "reach init step s \<Longrightarrow> inv s"
  by (induction rule: reach.induct) (auto intro: init_inv step_inv)

end

end
