(* ===== verification/Block_Store.thy ===== *)
theory Block_Store
  imports C_Prelude
begin

text \<open>
  The storage layer: \<open>src/logrw/block.c\<close>.

  A virtual disk is one \<open>malloc\<close>ed object: a header with the two sizes and, behind it, the
  bytes of all blocks. The record \<open>blocks_t\<close> keeps the header fields at their 32 bits and
  the payload as the list of the bytes that were really allocated, so a wrapped size
  computation shows up as an access out of bounds. \<open>block_read\<close> and \<open>block_write\<close> are the
  builds without \<open>SIMULATE_IO_DELAY\<close>; \<open>Io_Delay\<close> has the builds with it. The two image
  functions use a map from path names to file contents for the operating system's files.
  \<open>block_free\<close> only returns the memory; \<open>Log_Dump\<close> has the dump functions.
\<close>

section \<open>The virtual disk\<close>

record blocks_t =
  bks_block_size :: u32
  bks_num_blocks :: u32
  bks_blocks :: "byte list"

definition sizeof_blocks_t :: u32 where
  "sizeof_blocks_t = 8"

text \<open>\<open>alloc_blocks\<close> is \<open>malloc(sizeof(blocks_t) + n)\<close>: the size is computed in 32 bits, and an
  object too small for the header is written past its end as soon as a field is set.\<close>

definition alloc_blocks :: "u32 \<Rightarrow> nat c" where
  "alloc_blocks n =
     (let size = sizeof_blocks_t + n in
      if unat size < unat sizeof_blocks_t then Inl OutOfBounds
      else Inr (unat size - unat sizeof_blocks_t))"

definition block_new :: "u32 \<Rightarrow> u32 \<Rightarrow> blocks_t option c" where
  "block_new num_blocks block_sz =
     (if num_blocks * block_sz = 0 then Inr None
      else c_bind (alloc_blocks (num_blocks * block_sz)) (\<lambda>len.
        Inr (Some \<lparr>bks_block_size = block_sz, bks_num_blocks = num_blocks,
                   bks_blocks = replicate len 0\<rparr>)))"

definition block_size :: "blocks_t \<Rightarrow> u32" where
  "block_size bks = bks_block_size bks"

definition block_num_blocks :: "blocks_t \<Rightarrow> u32" where
  "block_num_blocks bks = bks_num_blocks bks"

text \<open>\<open>block_read\<close> copies a block into the caller's buffer and returns the status and the buffer
  as it is afterwards.\<close>

definition block_read :: "blocks_t \<Rightarrow> u32 \<Rightarrow> byte list \<Rightarrow> (int \<times> byte list) c" where
  "block_read bks block_no block =
     (if block_no \<ge> bks_num_blocks bks then Inr (-1, block)
      else
        c_bind (mem_read (bks_blocks bks) (unat (block_no * bks_block_size bks))
                  (unat (bks_block_size bks))) (\<lambda>bytes.
        c_bind (mem_write block 0 bytes) (\<lambda>block'.
        Inr (0, block'))))"

definition block_write :: "blocks_t \<Rightarrow> u32 \<Rightarrow> byte list \<Rightarrow> (int \<times> blocks_t) c" where
  "block_write bks block_no block =
     (if block_no \<ge> bks_num_blocks bks then Inr (-1, bks)
      else
        c_bind (mem_read block 0 (unat (bks_block_size bks))) (\<lambda>bytes.
        c_bind (mem_write (bks_blocks bks) (unat (block_no * bks_block_size bks)) bytes)
          (\<lambda>blocks'. Inr (0, bks\<lparr>bks_blocks := blocks'\<rparr>))))"

section \<open>Disk images in files\<close>

text \<open>The operating system's side: file contents by path name. One \<open>read\<close> or \<open>write\<close> call
  transfers at most \<open>0x7ffff000\<close> bytes. \<open>open\<close> without \<open>O_TRUNC\<close> keeps the old contents behind
  the bytes that are written.\<close>

type_synonym files = "string \<Rightarrow> byte list option"

definition os_transfer :: "nat \<Rightarrow> byte list \<Rightarrow> byte list" where
  "os_transfer n bs = take (min n 0x7FFFF000) bs"

definition block_load :: "files \<Rightarrow> string option \<Rightarrow> blocks_t option c" where
  "block_load fs file =
     (case file of None \<Rightarrow> Inr None
      | Some path \<Rightarrow>
     (case fs path of None \<Rightarrow> Inr None
      | Some contents \<Rightarrow>
        let b = os_transfer 4 contents in
        if length b \<noteq> 4 then Inr None else
        let rest = drop 4 contents; n = os_transfer 4 rest in
        if length n \<noteq> 4 then Inr None else
        let block_size = of_le32 b; num_blocks = of_le32 n; rest' = drop 4 rest in
        c_bind (alloc_blocks (num_blocks * block_size)) (\<lambda>len.
          let payload = os_transfer (unat (num_blocks * block_size)) rest' in
          if length payload \<noteq> unat (num_blocks * block_size) then Inr None
          else Inr (Some \<lparr>bks_block_size = block_size, bks_num_blocks = num_blocks,
                          bks_blocks = payload\<rparr>))))"

definition blocks_image :: "blocks_t \<Rightarrow> byte list" where
  "blocks_image bks = le32 (bks_block_size bks) @ le32 (bks_num_blocks bks) @ bks_blocks bks"

definition block_store ::
    "(string \<Rightarrow> bool) \<Rightarrow> files \<Rightarrow> blocks_t option \<Rightarrow> string option \<Rightarrow> (int \<times> files) c" where
  "block_store writable fs bksp file =
     (if bksp = None \<and> file = None then Inr (-1, fs)
      else case file of None \<Rightarrow> Inr (-1, fs)
      | Some path \<Rightarrow>
        if \<not> writable path then Inr (-1, fs)
        else
          let old = (case fs path of None \<Rightarrow> [] | Some bs \<Rightarrow> bs) in
          case bksp of None \<Rightarrow> Inl NullDeref
          | Some bks \<Rightarrow>
            let size = sizeof_blocks_t + bks_block_size bks * bks_num_blocks bks in
            c_bind (mem_read (blocks_image bks) 0 (unat size)) (\<lambda>image.
              let written = os_transfer (unat size) image;
                  fs' = fs(path \<mapsto> written @ drop (length written) old) in
              if length written \<noteq> unat size then Inr (-1, fs') else Inr (0, fs')))"

section \<open>Well-formed disks\<close>

text \<open>The payload holds all blocks and its size did not wrap.\<close>

definition blocks_wf :: "blocks_t \<Rightarrow> bool" where
  "blocks_wf bks \<longleftrightarrow>
     unat (bks_num_blocks bks) * unat (bks_block_size bks) < 2 ^ 32
   \<and> length (bks_blocks bks) = unat (bks_num_blocks bks) * unat (bks_block_size bks)"

definition block_at :: "blocks_t \<Rightarrow> nat \<Rightarrow> byte list" where
  "block_at bks i =
     take (unat (bks_block_size bks)) (drop (i * unat (bks_block_size bks)) (bks_blocks bks))"

lemma block_region:
  assumes "i < unat nb"
  shows "i * unat bs + unat bs \<le> unat nb * unat (bs :: u32)"
proof -
  have "(i + 1) * unat bs \<le> unat nb * unat bs"
    using assms by (intro mult_right_mono) auto
  then show ?thesis by (simp add: algebra_simps)
qed

lemma unat_block_offset:
  assumes "blocks_wf bks" and "n < bks_num_blocks bks"
  shows "unat (n * bks_block_size bks) = unat n * unat (bks_block_size bks)"
proof -
  have "unat n < unat (bks_num_blocks bks)" using assms(2) by (simp add: word_less_nat_alt)
  then have "unat n * unat (bks_block_size bks)
      \<le> unat (bks_num_blocks bks) * unat (bks_block_size bks)"
    by (intro mult_right_mono) auto
  also have "\<dots> < 2 ^ 32" using assms(1) by (simp add: blocks_wf_def)
  finally show ?thesis by (simp add: unat_word_ariths)
qed

lemma block_in_payload:
  assumes "blocks_wf bks" and "n < bks_num_blocks bks"
  shows "unat n * unat (bks_block_size bks) + unat (bks_block_size bks)
           \<le> length (bks_blocks bks)"
  using block_region [of "unat n" "bks_num_blocks bks" "bks_block_size bks"] assms
  by (simp add: blocks_wf_def word_less_nat_alt)

lemma length_block_at:
  assumes "blocks_wf bks" and "i < unat (bks_num_blocks bks)"
  shows "length (block_at bks i) = unat (bks_block_size bks)"
  using block_region [OF assms(2), of "bks_block_size bks"] assms(1)
  by (simp add: block_at_def blocks_wf_def)

text \<open>Reading a block that exists fills the front of the buffer with it.\<close>

lemma block_read_ok:
  assumes "blocks_wf bks" and "n < bks_num_blocks bks"
    and "unat (bks_block_size bks) \<le> length buf"
  shows "block_read bks n buf =
     Inr (0, block_at bks (unat n) @ drop (unat (bks_block_size bks)) buf)"
proof -
  have "length (block_at bks (unat n)) = unat (bks_block_size bks)"
    using length_block_at assms(1,2) by (simp add: word_less_nat_alt)
  then show ?thesis
    using assms block_in_payload [OF assms(1,2)]
    by (simp add: block_read_def unat_block_offset mem_read_ok mem_write_ok block_at_def
        not_le [symmetric])
qed

lemma block_read_out_of_range:
  "bks_num_blocks bks \<le> n \<Longrightarrow> block_read bks n buf = Inr (-1, buf)"
  by (simp add: block_read_def)

lemma block_write_ok:
  assumes "blocks_wf bks" and "n < bks_num_blocks bks"
    and "unat (bks_block_size bks) \<le> length buf"
  shows "\<exists>bks'. block_write bks n buf = Inr (0, bks') \<and> blocks_wf bks'
     \<and> bks_block_size bks' = bks_block_size bks \<and> bks_num_blocks bks' = bks_num_blocks bks
     \<and> mem_write (bks_blocks bks) (unat n * unat (bks_block_size bks))
         (take (unat (bks_block_size bks)) buf) = Inr (bks_blocks bks')"
proof -
  let ?off = "unat n * unat (bks_block_size bks)" and ?bs = "unat (bks_block_size bks)"
  let ?ys = "take ?bs buf"
  obtain m' where m': "mem_write (bks_blocks bks) ?off ?ys = Inr m'"
    using block_in_payload [OF assms(1,2)] assms(3) by (simp add: mem_write_def)
  then have "length m' = length (bks_blocks bks)" by (rule length_mem_write)
  then show ?thesis
    using m' assms
    by (simp add: block_write_def unat_block_offset mem_read_ok blocks_wf_def
        not_le [symmetric])
qed

lemma block_write_out_of_range:
  "bks_num_blocks bks \<le> n \<Longrightarrow> block_write bks n buf = Inr (-1, bks)"
  by (simp add: block_write_def)

section \<open>Reading back what was written\<close>

lemma block_at_write:
  assumes "blocks_wf bks" and "n < bks_num_blocks bks"
    and "unat (bks_block_size bks) \<le> length buf" and "block_write bks n buf = Inr (r, bks')"
    and "i < unat (bks_num_blocks bks)"
  shows "block_at bks' i =
     (if i = unat n then take (unat (bks_block_size bks)) buf else block_at bks i)"
proof -
  let ?bs = "unat (bks_block_size bks)"
  have sz: "bks_block_size bks' = bks_block_size bks"
    and w: "mem_write (bks_blocks bks) (unat n * ?bs) (take ?bs buf) = Inr (bks_blocks bks')"
    using block_write_ok [OF assms(1-3)] assms(4) by auto
  have inb: "i * ?bs + ?bs \<le> length (bks_blocks bks)"
    using block_region [OF assms(5)] assms(1) by (simp add: blocks_wf_def)
  have rd: "mem_read (bks_blocks bks') (i * ?bs) ?bs = Inr (block_at bks' i)"
    using inb length_mem_write [OF w] by (simp add: mem_read_ok block_at_def sz)
  show ?thesis
  proof (cases "i = unat n")
    case True
    with mem_read_write_same [OF w] rd assms(3) show ?thesis by simp
  next
    case False
    then have "i * ?bs + ?bs \<le> unat n * ?bs \<or> unat n * ?bs + ?bs \<le> i * ?bs"
      using mult_right_mono [of "i + 1" "unat n" ?bs] mult_right_mono [of "unat n + 1" i ?bs]
      by (simp add: algebra_simps) arith
    then have "mem_read (bks_blocks bks') (i * ?bs) ?bs = mem_read (bks_blocks bks) (i * ?bs) ?bs"
      using assms(3) by (intro mem_read_write_disjoint [OF w]) simp
    with rd inb False show ?thesis by (simp add: mem_read_ok block_at_def)
  qed
qed

lemma block_write_at:
  assumes "blocks_wf a" and "n < bks_num_blocks a" and "unat (bks_block_size a) \<le> length buf"
  obtains a' where "block_write a n buf = Inr (0, a')" and "blocks_wf a'"
    and "bks_block_size a' = bks_block_size a" and "bks_num_blocks a' = bks_num_blocks a"
    and "\<And>i. i < unat (bks_num_blocks a) \<Longrightarrow> block_at a' i =
       (if i = unat n then take (unat (bks_block_size a)) buf else block_at a i)"
  using block_write_ok [OF assms] block_at_write [OF assms] by blast

lemma block_new_wf:
  assumes "0 < unat nb * unat bs" and "unat nb * unat bs + 8 < 2 ^ 32"
  shows "\<exists>bks. block_new nb bs = Inr (Some bks) \<and> blocks_wf bks
     \<and> bks_num_blocks bks = nb \<and> bks_block_size bks = bs
     \<and> (\<forall>i < unat nb. block_at bks i = replicate (unat bs) 0)"
proof -
  have m: "unat (nb * bs) = unat nb * unat bs"
    using assms(2) by (simp add: unat_word_ariths)
  have s: "unat (8 + nb * bs) = 8 + unat nb * unat bs"
    using assms(2) m by (simp add: unat_word_ariths)
  have nz: "nb * bs \<noteq> 0" using assms(1) m by (metis less_irrefl unat_0)
  have "block_at \<lparr>bks_block_size = bs, bks_num_blocks = nb,
      bks_blocks = replicate (unat nb * unat bs) 0\<rparr> i = replicate (unat bs) 0"
    if "i < unat nb" for i
    using block_region [OF that, of bs] by (simp add: block_at_def)
  then show ?thesis
    using assms(2) nz s
    by (simp add: block_new_def alloc_blocks_def sizeof_blocks_t_def Let_def blocks_wf_def)
qed

section \<open>Properties\<close>

text \<open>After a block has been written, reading it returns what was written, and reading any
  other block returns what it held before.\<close>

lemma block_read_after_write:
  assumes "blocks_wf bks" and "n < bks_num_blocks bks"
    and "unat (bks_block_size bks) \<le> length buf"
  shows "\<exists>bks'. block_write bks n buf = Inr (0, bks') \<and> blocks_wf bks'
    \<and> (\<forall>m out. m < bks_num_blocks bks \<longrightarrow> unat (bks_block_size bks) \<le> length out \<longrightarrow>
         block_read bks' m out = Inr (0,
           (if m = n then take (unat (bks_block_size bks)) buf else block_at bks (unat m))
           @ drop (unat (bks_block_size bks)) out))"
proof -
  obtain bks' where w: "block_write bks n buf = Inr (0, bks')" "blocks_wf bks'"
    "bks_block_size bks' = bks_block_size bks" "bks_num_blocks bks' = bks_num_blocks bks"
    and at: "\<And>i. i < unat (bks_num_blocks bks) \<Longrightarrow> block_at bks' i =
       (if i = unat n then take (unat (bks_block_size bks)) buf else block_at bks i)"
    using block_write_at [OF assms] by blast
  have same: "unat m = unat n \<longleftrightarrow> m = n" for m by (simp add: word_unat_eq_iff)
  show ?thesis
    using w at by (intro exI [of _ bks']) (simp add: block_read_ok word_less_nat_alt same)
qed

theorem block_read_after_write_witness:
  "\<exists>bks'. block_write \<lparr>bks_block_size = 2, bks_num_blocks = 2, bks_blocks = [1, 2, 3, 4]\<rparr> 1 [8, 9]
      = Inr (0, bks')
    \<and> block_read bks' 1 [0, 0] = Inr (0, [8, 9]) \<and> block_read bks' 0 [0, 0] = Inr (0, [1, 2])"
proof -
  let ?bks = "\<lparr>bks_block_size = 2, bks_num_blocks = 2, bks_blocks = [1, 2, 3, 4]\<rparr>"
  obtain bks' where w: "block_write ?bks 1 [8, 9] = Inr (0, bks')"
    and r: "\<And>m out. m < 2 \<Longrightarrow> 2 \<le> length out \<Longrightarrow> block_read bks' m out =
      Inr (0, (if m = 1 then take 2 [8, 9] else block_at ?bks (unat m)) @ drop 2 out)"
    using block_read_after_write [of ?bks 1 "[8, 9]"] by (auto simp: blocks_wf_def)
  show ?thesis using w r [of 1 "[0, 0]"] r [of 0 "[0, 0]"]
    by (intro exI [of _ bks']) (simp add: block_at_def)
qed

text \<open>C23: An image that \<open>block_store\<close> wrote is read back by \<open>block_load\<close> as the same disk, also when
  the file existed before and was longer, as long as one \<open>write\<close> can transfer it.\<close>

theorem block_image_roundtrip:
  assumes "blocks_wf bks" and "8 + length (bks_blocks bks) \<le> 0x7FFFF000" and "writable path"
  shows "\<exists>fs'. block_store writable fs (Some bks) (Some path) = Inr (0, fs')
    \<and> block_load fs' (Some path) = Inr (Some bks)"
proof -
  let ?bs = "bks_block_size bks" and ?nb = "bks_num_blocks bks"
  let ?len = "length (bks_blocks bks)" and ?image = "blocks_image bks"
  define old where "old = (case fs path of None \<Rightarrow> [] | Some bs \<Rightarrow> bs)"
  define rest where "rest = drop (8 + ?len) old"
  have len: "?len = unat ?nb * unat ?bs" using assms(1) by (simp add: blocks_wf_def)
  have prod: "unat (?nb * ?bs) = ?len" "unat (?bs * ?nb) = ?len"
    using assms(1) len by (simp_all add: blocks_wf_def unat_word_ariths mult.commute)
  have size: "unat (sizeof_blocks_t + ?bs * ?nb) = 8 + ?len"
    using prod(2) assms(2) by (simp add: sizeof_blocks_t_def unat_word_ariths)
  have image: "length ?image = 8 + ?len" by (simp add: blocks_image_def)
  have full: "os_transfer (8 + ?len) ?image = ?image"
    using assms(2) image by (simp add: os_transfer_def)
  have st: "block_store writable fs (Some bks) (Some path) = Inr (0, fs(path \<mapsto> ?image @ rest))"
    using assms(3) size full image
    by (simp add: block_store_def Let_def mem_read_ok old_def [symmetric] rest_def)
  have alloc: "alloc_blocks (?nb * ?bs) = Inr ?len"
    using size prod by (simp add: alloc_blocks_def sizeof_blocks_t_def mult.commute Let_def)
  have "block_load (fs(path \<mapsto> ?image @ rest)) (Some path) = Inr (Some bks)"
    using alloc prod(1) assms(2)
    by (simp add: block_load_def os_transfer_def blocks_image_def Let_def drop_append)
  with st show ?thesis by blast
qed

theorem block_image_roundtrip_witness:
  "\<exists>fs'. block_store (\<lambda>p. True) (\<lambda>p. Some (replicate 99 7))
      (Some \<lparr>bks_block_size = 2, bks_num_blocks = 1, bks_blocks = [5, 6]\<rparr>) (Some ''disk'') = Inr (0, fs')
    \<and> block_load fs' (Some ''disk'') =
      Inr (Some \<lparr>bks_block_size = 2, bks_num_blocks = 1, bks_blocks = [5, 6]\<rparr>)"
  by (rule block_image_roundtrip) (simp_all add: blocks_wf_def)

text \<open>The size of a disk is computed in 32 bits. When it wraps around, \<open>block_new\<close> returns a disk
  that is smaller than its header says, and reading one of its blocks leaves the allocated
  memory.\<close>

lemma block_new_wraps:
  "\<exists>bks. block_new 0x10001 0x10000 = Inr (Some bks) \<and> bks_num_blocks bks = 0x10001
    \<and> length (bks_blocks bks) = 0x10000 \<and> block_read bks 1 buf = Inl OutOfBounds"
  by (simp add: block_new_def alloc_blocks_def sizeof_blocks_t_def Let_def block_read_def mem_read_def
      word_le_nat_alt)

end
