(* ===== verification/Log_Store.thy ===== *)
theory Log_Store
  imports Block_Store
begin

text \<open>
  The log-structured store: \<open>src/logrw/logrw.c\<close>.

  A log has two arrays of blocks. Every write goes to the next free block of the active
  array; \<open>registo\<close> maps a register to the index of its latest block, with the indices of
  the second array counted on from the end of the first. When the active array is full, the
  live blocks of all registers are copied to the front of the other one (the two flips).

  The operations return, beside status and data, the calls they make on the readers/writer
  lock of the log, so that lock discipline is a statement about values. The prints are not
  modelled.
\<close>

section \<open>The log\<close>

record logrw_struct =
  registo :: "u32 list"
  livre :: u32
  array_activo :: int
  num_reg :: u32
  array_1 :: "blocks_t option"
  array_2 :: "blocks_t option"
  tempo :: int

datatype lock_call = RdLock | WrLock | Unlock

text \<open>Memory from \<open>malloc\<close> whose first contents are never looked at.\<close>

definition fresh_bytes :: "nat \<Rightarrow> byte list" where
  "fresh_bytes n = replicate n 0"

definition deref :: "'a option \<Rightarrow> 'a c" where
  "deref p = (case p of None \<Rightarrow> Inl NullDeref | Some x \<Rightarrow> Inr x)"

lemma deref_Some [simp]: "deref (Some x) = Inr x"
  by (simp add: deref_def)

definition logrw_init :: "u32 \<Rightarrow> u32 \<Rightarrow> u32 \<Rightarrow> logrw_struct option c" where
  "logrw_init nreg array_dim bloco_dim =
     (if nreg \<ge> array_dim then Inr None
      else if unat (nreg * 4) < unat nreg * 4 then Inl OutOfBounds
      else
        c_bind (block_new bloco_dim array_dim) (\<lambda>a1.
        c_bind (block_new bloco_dim array_dim) (\<lambda>a2.
        Inr (Some \<lparr>registo = replicate (unat nreg) 0, livre = 0, array_activo = 0,
                   num_reg = nreg, array_1 = a1, array_2 = a2, tempo = 0\<rparr>))))"

definition logrw_num_registers :: "logrw_struct \<Rightarrow> int" where
  "logrw_num_registers log = sint (num_reg log)"

definition logrw_read ::
    "logrw_struct \<Rightarrow> u32 \<Rightarrow> byte list \<Rightarrow> (int \<times> byte list \<times> lock_call list) c" where
  "logrw_read log register_no block =
     c_bind (c_nth (registo log) (unat register_no)) (\<lambda>indice.
     c_bind (deref (array_1 log)) (\<lambda>a1.
     if indice < block_num_blocks a1 then
       c_bind (block_read a1 indice block) (\<lambda>(rc, block').
         if rc = 0 then Inr (0, block', [WrLock, Unlock])
         else Inr (-1, block', [WrLock, Unlock]))
     else
       c_bind (deref (array_2 log)) (\<lambda>a2.
       c_bind (block_read a2 (indice - block_num_blocks a2) block) (\<lambda>(rc, block').
         if rc = 0 then Inr (0, block', [WrLock, Unlock])
         else Inr (-1, block', [WrLock, Unlock])))))"

section \<open>Writing\<close>

text \<open>The loop that copies every register from the first array to the second, over the
  registers still to be copied.\<close>

fun flip_1_2 :: "nat list \<Rightarrow> logrw_struct \<Rightarrow> byte list \<Rightarrow> logrw_struct c" where
  "flip_1_2 [] log block_aux = Inr log"
| "flip_1_2 (i # is) log block_aux =
     c_bind (deref (array_1 log)) (\<lambda>a1.
     c_bind (c_nth (registo log) i) (\<lambda>r.
     c_bind (block_read a1 r block_aux) (\<lambda>(rc, block_aux').
     if rc = -1 then flip_1_2 is log block_aux'
     else
       c_bind (deref (array_2 log)) (\<lambda>a2.
       c_bind (block_write a2 (livre log - block_num_blocks a1) block_aux') (\<lambda>(rc', a2').
       if rc' = 0 then
         flip_1_2 is (log\<lparr>array_2 := Some a2', registo := (registo log)[i := livre log],
                          livre := livre log + 1\<rparr>) block_aux'
       else flip_1_2 is (log\<lparr>array_2 := Some a2'\<rparr>) block_aux')))))"

text \<open>The loop of the other direction.\<close>

fun flip_2_1 :: "nat list \<Rightarrow> logrw_struct \<Rightarrow> byte list \<Rightarrow> logrw_struct c" where
  "flip_2_1 [] log block_aux = Inr log"
| "flip_2_1 (i # is) log block_aux =
     c_bind (deref (array_1 log)) (\<lambda>a1.
     c_bind (deref (array_2 log)) (\<lambda>a2.
     c_bind (c_nth (registo log) i) (\<lambda>r.
     c_bind (block_read a2 (r - block_num_blocks a1) block_aux) (\<lambda>(rc, block_aux').
     if rc = -1 then flip_2_1 is log block_aux'
     else
       c_bind (block_write a1 (livre log) block_aux') (\<lambda>(rc', a1').
       if rc' = 0 then
         flip_2_1 is (log\<lparr>array_1 := Some a1', registo := (registo log)[i := livre log],
                          livre := livre log + 1\<rparr>) block_aux'
       else flip_2_1 is (log\<lparr>array_1 := Some a1'\<rparr>) block_aux')))))"

text \<open>The two ways of appending the requested block: \<open>put_1\<close> and \<open>put_2\<close> write it to the free
  block of the first and of the second array and record it as the register's latest.\<close>

definition put_1 :: "logrw_struct \<Rightarrow> u32 \<Rightarrow> byte list \<Rightarrow> (int \<times> logrw_struct \<times> lock_call list) c" where
  "put_1 log register_no block =
     c_bind (deref (array_1 log)) (\<lambda>a1.
     c_bind (block_write a1 (livre log) block) (\<lambda>(rc, a1').
     if rc = 0 then
       c_bind (c_upd (registo log) (unat register_no) (livre log)) (\<lambda>regs.
       Inr (0, log\<lparr>array_1 := Some a1', registo := regs, livre := livre log + 1\<rparr>,
            [RdLock, Unlock]))
     else Inr (-1, log\<lparr>array_1 := Some a1'\<rparr>, [RdLock, Unlock])))"

definition put_2 :: "logrw_struct \<Rightarrow> u32 \<Rightarrow> byte list \<Rightarrow> (int \<times> logrw_struct \<times> lock_call list) c" where
  "put_2 log register_no block =
     c_bind (deref (array_1 log)) (\<lambda>a1.
     c_bind (deref (array_2 log)) (\<lambda>a2.
     c_bind (block_write a2 (livre log - block_num_blocks a1) block) (\<lambda>(rc, a2').
     if rc = 0 then
       c_bind (c_upd (registo log) (unat register_no) (livre log)) (\<lambda>regs.
       Inr (0, log\<lparr>array_2 := Some a2', registo := regs, livre := livre log + 1\<rparr>,
            [RdLock, Unlock]))
     else Inr (-1, log\<lparr>array_2 := Some a2'\<rparr>, [RdLock, Unlock]))))"

definition logrw_write ::
    "logrw_struct \<Rightarrow> u32 \<Rightarrow> byte list \<Rightarrow> (int \<times> logrw_struct \<times> lock_call list) c" where
  "logrw_write log register_no block =
     c_bind (deref (array_1 log)) (\<lambda>a1.
     let block_aux = fresh_bytes (unat (block_size a1));
         regs = [0..<nat (logrw_num_registers log)] in
     if livre log = block_num_blocks a1 then
       c_bind (flip_1_2 regs (log\<lparr>array_activo := 1\<rparr>) block_aux) (\<lambda>log'.
       put_2 log' register_no block)
     else if livre log = 2 * block_num_blocks a1 then
       c_bind (flip_2_1 regs (log\<lparr>array_activo := 0, livre := 0\<rparr>) block_aux) (\<lambda>log'.
       put_1 log' register_no block)
     else if livre log < block_num_blocks a1 then put_1 log register_no block
     else if livre log > block_num_blocks a1 then put_2 log register_no block
     else Inl WildPointer)"

section \<open>Loading and storing\<close>

text \<open>Both functions pass a local \<open>char*\<close> that was never assigned as the buffer: its first use,
  by the \<open>memcpy\<close> of a read that succeeds, goes through a wild pointer.\<close>

definition wild_block_read :: "blocks_t \<Rightarrow> u32 \<Rightarrow> int c" where
  "wild_block_read bks block_no =
     (if block_no \<ge> bks_num_blocks bks then Inr (-1) else Inl WildPointer)"

fun logrw_load_loop :: "nat list \<Rightarrow> blocks_t \<Rightarrow> logrw_struct \<Rightarrow> logrw_struct c" where
  "logrw_load_loop [] bks log = Inr log"
| "logrw_load_loop (i # is) bks log =
     c_bind (wild_block_read bks (of_nat i)) (\<lambda>rc. logrw_load_loop is bks log)"

definition logrw_load :: "blocks_t option \<Rightarrow> logrw_struct option c" where
  "logrw_load bksp =
     (case bksp of None \<Rightarrow> Inr None
      | Some bks \<Rightarrow>
        c_bind (logrw_init (block_num_blocks bks) (block_num_blocks bks + 10) (block_size bks))
          (\<lambda>logp. c_bind (deref logp) (\<lambda>log.
          c_bind (logrw_load_loop [0..<Suc (unat (num_reg log))] bks log) (\<lambda>log'.
          Inr (Some log')))))"

text \<open>\<open>wild_log_read\<close> is \<open>logrw_read\<close> with that buffer.\<close>

definition wild_log_read :: "logrw_struct \<Rightarrow> u32 \<Rightarrow> int c" where
  "wild_log_read log register_no =
     c_bind (c_nth (registo log) (unat register_no)) (\<lambda>indice.
     c_bind (deref (array_1 log)) (\<lambda>a1.
     if indice < block_num_blocks a1 then wild_block_read a1 indice
     else c_bind (deref (array_2 log)) (\<lambda>a2.
       wild_block_read a2 (indice - block_num_blocks a2))))"

fun logrw_store_loop :: "nat list \<Rightarrow> logrw_struct \<Rightarrow> int c" where
  "logrw_store_loop [] lbks = Inr 0"
| "logrw_store_loop (i # is) lbks =
     c_bind (wild_log_read lbks (of_nat i)) (\<lambda>rc. logrw_store_loop is lbks)"

definition logrw_store :: "logrw_struct option \<Rightarrow> int c" where
  "logrw_store lbksp =
     (case lbksp of None \<Rightarrow> Inr (-1)
      | Some lbks \<Rightarrow>
        c_bind (deref (array_1 lbks)) (\<lambda>a1.
        c_bind (block_new (block_size a1) (block_num_blocks a1)) (\<lambda>blk.
        logrw_store_loop [0..<nat (logrw_num_registers lbks + 1)] lbks)))"

section \<open>Well-formed logs and what they hold\<close>

text \<open>
  \<open>log_arrays log a1 a2\<close>: both arrays exist and have the same shape, the indices of both fit
  in 32 bits, and an array has more blocks than there are registers, so that the live blocks
  and one more fit in it. \<open>log_inv\<close> adds what the writes maintain: every register points below
  the free index, and into the active array once the log has moved on to the second one.
  A log that was never written (\<open>livre = 0\<close>) has all registers at block 0.
\<close>

definition log_arrays :: "logrw_struct \<Rightarrow> blocks_t \<Rightarrow> blocks_t \<Rightarrow> bool" where
  "log_arrays log a1 a2 \<longleftrightarrow>
     array_1 log = Some a1 \<and> array_2 log = Some a2 \<and> blocks_wf a1 \<and> blocks_wf a2
   \<and> bks_num_blocks a2 = bks_num_blocks a1 \<and> bks_block_size a2 = bks_block_size a1
   \<and> unat (num_reg log) < unat (bks_num_blocks a1) \<and> unat (bks_num_blocks a1) < 2 ^ 31
   \<and> length (registo log) = unat (num_reg log)"

definition reg_range :: "nat \<Rightarrow> nat \<Rightarrow> nat \<Rightarrow> bool" where
  "reg_range N free r \<longleftrightarrow> (if free \<le> N then r < max 1 free else N \<le> r \<and> r < free)"

definition log_inv :: "logrw_struct \<Rightarrow> bool" where
  "log_inv log \<longleftrightarrow> (\<exists>a1 a2. log_arrays log a1 a2
   \<and> unat (livre log) \<le> 2 * unat (bks_num_blocks a1)
   \<and> (\<forall>r \<in> set (registo log). reg_range (unat (bks_num_blocks a1)) (unat (livre log)) (unat r)))"

text \<open>The contents of the block with a given log index, and of a register.\<close>

definition index_block :: "logrw_struct \<Rightarrow> nat \<Rightarrow> byte list" where
  "index_block log k =
     (case (array_1 log, array_2 log) of (Some a1, Some a2) \<Rightarrow>
        (let N = unat (bks_num_blocks a1) in
         if k < N then block_at a1 k else block_at a2 (k - N))
      | _ \<Rightarrow> [])"

definition reg_block :: "logrw_struct \<Rightarrow> nat \<Rightarrow> byte list" where
  "reg_block log i = index_block log (unat (registo log ! i))"

definition log_block_size :: "logrw_struct \<Rightarrow> nat" where
  "log_block_size log =
     (case array_1 log of None \<Rightarrow> 0 | Some a1 \<Rightarrow> unat (bks_block_size a1))"

lemma log_arraysD:
  assumes "log_arrays log a1 a2"
  shows "array_1 log = Some a1" "array_2 log = Some a2" "blocks_wf a1" "blocks_wf a2"
    "bks_num_blocks a2 = bks_num_blocks a1" "bks_block_size a2 = bks_block_size a1"
    "unat (num_reg log) < unat (bks_num_blocks a1)" "unat (bks_num_blocks a1) < 2 ^ 31"
    "length (registo log) = unat (num_reg log)"
  using assms by (simp_all add: log_arrays_def)

lemma index_block_eq:
  assumes "log_arrays log a1 a2"
  shows "index_block log k = (if k < unat (bks_num_blocks a1) then block_at a1 k
     else block_at a2 (k - unat (bks_num_blocks a1)))"
  using assms by (simp add: index_block_def log_arrays_def Let_def)

text \<open>One step of the first flip, at register \<open>i\<close>.\<close>

definition flipping :: "blocks_t \<Rightarrow> nat \<Rightarrow> (nat \<Rightarrow> byte list) \<Rightarrow> logrw_struct \<Rightarrow> bool" where
  "flipping a1 i old log \<longleftrightarrow> (\<exists>a2. log_arrays log a1 a2
     \<and> unat (livre log) = unat (bks_num_blocks a1) + i
     \<and> (\<forall>j < unat (num_reg log). reg_block log j = old j
          \<and> (if j < i then unat (registo log ! j) = unat (bks_num_blocks a1) + j
             else unat (registo log ! j) < unat (bks_num_blocks a1))))"

lemma flippingI:
  assumes "log_arrays log a1 a2" and "unat (livre log) = unat (bks_num_blocks a1)"
    and "\<And>j. j < unat (num_reg log) \<Longrightarrow> reg_block log j = old j"
    and "\<And>j. j < unat (num_reg log) \<Longrightarrow> unat (registo log ! j) < unat (bks_num_blocks a1)"
  shows "flipping a1 0 old log"
  unfolding flipping_def using assms by auto

lemma flip_1_2_step:
  assumes fl: "flipping a1 i old log" and i: "i < unat (num_reg log)"
    and aux: "length aux = unat (bks_block_size a1)"
  obtains log' aux' where "flip_1_2 (i # is) log aux = flip_1_2 is log' aux'"
    and "flipping a1 (Suc i) old log'" and "num_reg log' = num_reg log"
    and "length aux' = unat (bks_block_size a1)"
proof -
  let ?N = "unat (bks_num_blocks a1)" and ?B = "unat (bks_block_size a1)"
  obtain a2 where arr: "log_arrays log a1 a2" and lv: "unat (livre log) = ?N + i"
    and reg: "\<And>j. j < unat (num_reg log) \<Longrightarrow> reg_block log j = old j
          \<and> (if j < i then unat (registo log ! j) = ?N + j else unat (registo log ! j) < ?N)"
    using fl unfolding flipping_def by blast
  note a = log_arraysD [OF arr]
  let ?r = "registo log ! i"
  have r: "?r < bks_num_blocks a1" using reg [OF i] by (simp add: word_less_nat_alt)
  have lb: "length (block_at a1 (unat ?r)) = ?B"
    using length_block_at [OF a(3)] r by (simp add: word_less_nat_alt)
  have rd: "block_read a1 ?r aux = Inr (0, block_at a1 (unat ?r))"
    using block_read_ok [OF a(3) r] aux by simp
  let ?k = "livre log - bks_num_blocks a1"
  have k: "unat ?k = i" using lv by (simp add: unat_sub word_le_nat_alt)
  have kN: "?k < bks_num_blocks a2" using k i a(5,7) by (simp add: word_less_nat_alt)
  obtain a2' where w: "block_write a2 ?k (block_at a1 (unat ?r)) = Inr (0, a2')"
    and wf: "blocks_wf a2'" and sz: "bks_block_size a2' = bks_block_size a2"
      "bks_num_blocks a2' = bks_num_blocks a2"
    and at: "\<And>j. j < unat (bks_num_blocks a2) \<Longrightarrow> block_at a2' j =
       (if j = unat ?k then take (unat (bks_block_size a2)) (block_at a1 (unat ?r))
        else block_at a2 j)"
    using block_write_at [OF a(4) kN, of "block_at a1 (unat ?r)"] lb a(6) by auto
  let ?log' = "log\<lparr>array_2 := Some a2', registo := (registo log)[i := livre log],
                   livre := livre log + 1\<rparr>"
  have arr': "log_arrays ?log' a1 a2'"
    using a wf sz by (simp add: log_arrays_def)
  have lv': "unat (livre ?log') = ?N + Suc i"
    using lv i a(7,8) unat_Suc_u32 [of "livre log"] by simp
  have old: "old i = block_at a1 (unat ?r)"
    using reg [OF i] r by (auto simp: reg_block_def index_block_eq [OF arr])
  have "reg_block ?log' j = old j \<and> (if j < Suc i then unat (registo ?log' ! j) = ?N + j
      else unat (registo ?log' ! j) < ?N)" if j': "j < unat (num_reg ?log')" for j
  proof (cases "j = i")
    case True
    then show ?thesis
      using lv old at [of i] k kN i a lb
      by (simp add: reg_block_def index_block_eq [OF arr'] word_less_nat_alt)
  next
    case False
    have j: "j < unat (num_reg log)" using j' by simp
    have "j < ?N" using j a(7) by simp
    then show ?thesis
      using False reg [OF j] at [of j] k a
      by (auto simp: reg_block_def index_block_eq [OF arr'] index_block_eq [OF arr] split: if_splits)
  qed
  then have "\<forall>j < unat (num_reg ?log'). reg_block ?log' j = old j
      \<and> (if j < Suc i then unat (registo ?log' ! j) = ?N + j else unat (registo ?log' ! j) < ?N)"
    by blast
  with arr' lv' have "flipping a1 (Suc i) old ?log'"
    unfolding flipping_def by blast
  moreover have "flip_1_2 (i # is) log aux = flip_1_2 is ?log' (block_at a1 (unat ?r))"
    using a i rd w by (simp add: c_nth_ok block_num_blocks_def)
  ultimately show ?thesis using that lb by simp
qed

lemma flip_1_2_loop:
  assumes "flipping a1 i old log" and "i \<le> n" and "n = unat (num_reg log)"
    and "length aux = unat (bks_block_size a1)"
  shows "\<exists>log'. flip_1_2 [i..<n] log aux = Inr log' \<and> flipping a1 n old log'
     \<and> num_reg log' = num_reg log"
  using assms
proof (induction "n - i" arbitrary: i log aux)
  case 0
  then show ?case by auto
next
  case (Suc m)
  then have i: "i < n" by simp
  then obtain log' aux' where st: "flip_1_2 (i # [Suc i..<n]) log aux = flip_1_2 [Suc i..<n] log' aux'"
    and fl: "flipping a1 (Suc i) old log'" and nr: "num_reg log' = num_reg log"
    and aux': "length aux' = unat (bks_block_size a1)"
    using flip_1_2_step [OF Suc.prems(1) _ Suc.prems(4), of "[Suc i..<n]"] Suc.prems(3) by auto
  have "\<exists>log''. flip_1_2 [Suc i..<n] log' aux' = Inr log'' \<and> flipping a1 n old log''
     \<and> num_reg log'' = num_reg log'"
    using Suc.hyps(1) [of "Suc i" log' aux'] Suc.hyps(2) i fl nr aux' Suc.prems(3) by simp
  with st nr i show ?case by (simp add: upt_conv_Cons)
qed

text \<open>The second flip, back into the first array.\<close>

definition flipping_back :: "blocks_t \<Rightarrow> nat \<Rightarrow> (nat \<Rightarrow> byte list) \<Rightarrow> logrw_struct \<Rightarrow> bool" where
  "flipping_back a2 i old log \<longleftrightarrow> (\<exists>a1. log_arrays log a1 a2
     \<and> unat (livre log) = i
     \<and> (\<forall>j < unat (num_reg log). reg_block log j = old j
          \<and> (if j < i then unat (registo log ! j) = j
             else unat (bks_num_blocks a2) \<le> unat (registo log ! j)
               \<and> unat (registo log ! j) < 2 * unat (bks_num_blocks a2))))"

lemma flipping_backI:
  assumes "log_arrays log a1 a2" and "livre log = 0"
    and "\<And>j. j < unat (num_reg log) \<Longrightarrow> reg_block log j = old j"
    and "\<And>j. j < unat (num_reg log) \<Longrightarrow> unat (bks_num_blocks a2) \<le> unat (registo log ! j)
      \<and> unat (registo log ! j) < 2 * unat (bks_num_blocks a2)"
  shows "flipping_back a2 0 old log"
  unfolding flipping_back_def using assms by auto

lemma flip_2_1_step:
  assumes fl: "flipping_back a2 i old log" and i: "i < unat (num_reg log)"
    and aux: "length aux = unat (bks_block_size a2)"
  obtains log' aux' where "flip_2_1 (i # is) log aux = flip_2_1 is log' aux'"
    and "flipping_back a2 (Suc i) old log'" and "num_reg log' = num_reg log"
    and "length aux' = unat (bks_block_size a2)"
proof -
  let ?N = "unat (bks_num_blocks a2)" and ?B = "unat (bks_block_size a2)"
  obtain a1 where arr: "log_arrays log a1 a2" and lv: "unat (livre log) = i"
    and reg: "\<And>j. j < unat (num_reg log) \<Longrightarrow> reg_block log j = old j
          \<and> (if j < i then unat (registo log ! j) = j
             else ?N \<le> unat (registo log ! j) \<and> unat (registo log ! j) < 2 * ?N)"
    using fl unfolding flipping_back_def by blast
  note a = log_arraysD [OF arr]
  let ?r = "registo log ! i - bks_num_blocks a1"
  have r: "?N \<le> unat (registo log ! i)" "unat (registo log ! i) < 2 * ?N"
    using reg [OF i] by auto
  have ur: "unat ?r = unat (registo log ! i) - ?N"
    using r(1) a(5) by (simp add: unat_sub word_le_nat_alt)
  have rN: "?r < bks_num_blocks a2" using r ur by (simp add: word_less_nat_alt)
  have lb: "length (block_at a2 (unat ?r)) = ?B"
    using length_block_at [OF a(4)] rN by (simp add: word_less_nat_alt)
  have rd: "block_read a2 ?r aux = Inr (0, block_at a2 (unat ?r))"
    using block_read_ok [OF a(4) rN] aux by simp
  have kN: "livre log < bks_num_blocks a1" using lv i a(7) by (simp add: word_less_nat_alt)
  obtain a1' where w: "block_write a1 (livre log) (block_at a2 (unat ?r)) = Inr (0, a1')"
    and wf: "blocks_wf a1'" and sz: "bks_block_size a1' = bks_block_size a1"
      "bks_num_blocks a1' = bks_num_blocks a1"
    and at: "\<And>j. j < unat (bks_num_blocks a1) \<Longrightarrow> block_at a1' j =
       (if j = unat (livre log) then take (unat (bks_block_size a1)) (block_at a2 (unat ?r))
        else block_at a1 j)"
    using block_write_at [OF a(3) kN, of "block_at a2 (unat ?r)"] lb a(6) by auto
  let ?log' = "log\<lparr>array_1 := Some a1', registo := (registo log)[i := livre log],
                   livre := livre log + 1\<rparr>"
  have arr': "log_arrays ?log' a1' a2"
    using a wf sz by (simp add: log_arrays_def)
  have lv': "unat (livre ?log') = Suc i"
    using lv i a(7,8) unat_Suc_u32 [of "livre log"] by simp
  have old: "old i = block_at a2 (unat ?r)"
    using reg [OF i] r ur a(5) by (auto simp: reg_block_def index_block_eq [OF arr])
  have "reg_block ?log' j = old j \<and> (if j < Suc i then unat (registo ?log' ! j) = j
      else ?N \<le> unat (registo ?log' ! j) \<and> unat (registo ?log' ! j) < 2 * ?N)"
    if j': "j < unat (num_reg ?log')" for j
  proof (cases "j = i")
    case True
    then show ?thesis
      using lv old at [of i] kN i a lb sz
      by (simp add: reg_block_def index_block_eq [OF arr'] word_less_nat_alt)
  next
    case False
    have j: "j < unat (num_reg log)" using j' by simp
    have "j < ?N" using j a(5,7) by simp
    then show ?thesis
      using False reg [OF j] at [of j] lv a sz
      by (auto simp: reg_block_def index_block_eq [OF arr'] index_block_eq [OF arr] split: if_splits)
  qed
  then have "\<forall>j < unat (num_reg ?log'). reg_block ?log' j = old j
      \<and> (if j < Suc i then unat (registo ?log' ! j) = j
         else ?N \<le> unat (registo ?log' ! j) \<and> unat (registo ?log' ! j) < 2 * ?N)"
    by blast
  with arr' lv' have "flipping_back a2 (Suc i) old ?log'"
    unfolding flipping_back_def by blast
  moreover have "flip_2_1 (i # is) log aux = flip_2_1 is ?log' (block_at a2 (unat ?r))"
    using a i rd w by (simp add: c_nth_ok block_num_blocks_def)
  ultimately show ?thesis using that lb by simp
qed

lemma flip_2_1_loop:
  assumes "flipping_back a2 i old log" and "i \<le> n" and "n = unat (num_reg log)"
    and "length aux = unat (bks_block_size a2)"
  shows "\<exists>log'. flip_2_1 [i..<n] log aux = Inr log' \<and> flipping_back a2 n old log'
     \<and> num_reg log' = num_reg log"
  using assms
proof (induction "n - i" arbitrary: i log aux)
  case 0
  then show ?case by auto
next
  case (Suc m)
  then have i: "i < n" by simp
  then obtain log' aux' where st: "flip_2_1 (i # [Suc i..<n]) log aux = flip_2_1 [Suc i..<n] log' aux'"
    and fl: "flipping_back a2 (Suc i) old log'" and nr: "num_reg log' = num_reg log"
    and aux': "length aux' = unat (bks_block_size a2)"
    using flip_2_1_step [OF Suc.prems(1) _ Suc.prems(4), of "[Suc i..<n]"] Suc.prems(3) by auto
  have "\<exists>log''. flip_2_1 [Suc i..<n] log' aux' = Inr log'' \<and> flipping_back a2 n old log''
     \<and> num_reg log'' = num_reg log'"
    using Suc.hyps(1) [of "Suc i" log' aux'] Suc.hyps(2) i fl nr aux' Suc.prems(3) by simp
  with st nr i show ?case by (simp add: upt_conv_Cons)
qed


lemma log_invI:
  assumes "log_arrays log a1 a2" and "unat (livre log) \<le> 2 * unat (bks_num_blocks a1)"
    and "\<And>j. j < unat (num_reg log) \<Longrightarrow>
      reg_range (unat (bks_num_blocks a1)) (unat (livre log)) (unat (registo log ! j))"
  shows "log_inv log"
  unfolding log_inv_def using assms log_arraysD(9) [OF assms(1)]
  by (auto simp: in_set_conv_nth intro!: exI)

lemma log_invE:
  assumes "log_inv log"
  obtains a1 a2 where "log_arrays log a1 a2"
    and "unat (livre log) \<le> 2 * unat (bks_num_blocks a1)"
    and "\<And>j. j < unat (num_reg log) \<Longrightarrow>
      reg_range (unat (bks_num_blocks a1)) (unat (livre log)) (unat (registo log ! j))"
proof -
  obtain a1 a2 where a: "log_arrays log a1 a2"
    "unat (livre log) \<le> 2 * unat (bks_num_blocks a1)"
    "\<forall>r \<in> set (registo log). reg_range (unat (bks_num_blocks a1)) (unat (livre log)) (unat r)"
    using assms unfolding log_inv_def by blast
  show ?thesis
    by (rule that [OF a(1,2)]) (use a(3) log_arraysD(9) [OF a(1)] in auto)
qed

text \<open>What a successful write leaves behind, from the state \<open>log\<close> that the block is appended to.\<close>

definition appended :: "logrw_struct \<Rightarrow> nat \<Rightarrow> byte list \<Rightarrow> logrw_struct \<Rightarrow> bool" where
  "appended log r blk log' \<longleftrightarrow> log_inv log' \<and> livre log' \<noteq> 0 \<and> num_reg log' = num_reg log
   \<and> log_block_size log' = log_block_size log
   \<and> (\<forall>i < unat (num_reg log).
        reg_block log' i = (if i = r \<or> livre log = 0 then blk else reg_block log i))"

lemma put_1_ok:
  assumes arr: "log_arrays log a1 a2" and lv: "livre log < bks_num_blocks a1"
    and reg: "\<And>j. j < unat (num_reg log) \<Longrightarrow> unat (registo log ! j) < max 1 (unat (livre log))"
    and r: "unat r < unat (num_reg log)" and buf: "unat (bks_block_size a1) \<le> length buf"
  shows "\<exists>log'. put_1 log r buf = Inr (0, log', [RdLock, Unlock])
     \<and> appended log (unat r) (take (unat (bks_block_size a1)) buf) log'"
proof -
  let ?N = "unat (bks_num_blocks a1)" and ?blk = "take (unat (bks_block_size a1)) buf"
  note a = log_arraysD [OF arr]
  obtain a1' where w: "block_write a1 (livre log) buf = Inr (0, a1')"
    and wf: "blocks_wf a1'" and sz: "bks_block_size a1' = bks_block_size a1"
      "bks_num_blocks a1' = bks_num_blocks a1"
    and at: "\<And>i. i < ?N \<Longrightarrow> block_at a1' i =
       (if i = unat (livre log) then ?blk else block_at a1 i)"
    using block_write_at [OF a(3) lv buf] by blast
  let ?log' = "log\<lparr>array_1 := Some a1', registo := (registo log)[unat r := livre log],
                   livre := livre log + 1\<rparr>"
  have lvN: "unat (livre log) < ?N" using lv by (simp add: word_less_nat_alt)
  have arr': "log_arrays ?log' a1' a2" using a wf sz by (simp add: log_arrays_def)
  have lv': "unat (livre ?log') = Suc (unat (livre log))"
    using lvN a(8) unat_Suc_u32 [of "livre log"] by simp
  have "log_inv ?log'"
  proof (rule log_invI [OF arr'])
    fix j assume "j < unat (num_reg ?log')"
    then show "reg_range (unat (bks_num_blocks a1')) (unat (livre ?log')) (unat (registo ?log' ! j))"
      using reg [of j] lv' lvN sz a(9) by (cases "j = unat r") (auto simp: reg_range_def max_def split: if_splits)
  qed (use lv' lvN sz in simp)
  moreover have "reg_block ?log' i = (if i = unat r \<or> livre log = 0 then ?blk else reg_block log i)"
    if "i < unat (num_reg log)" for i
    using reg [OF that] lvN a(9) that sz at
    by (cases "i = unat r")
      (auto simp: reg_block_def index_block_eq [OF arr'] index_block_eq [OF arr] unat_eq_zero max_def
        split: if_splits)
  moreover have "livre ?log' \<noteq> 0" using lv' by auto
  moreover have "put_1 log r buf = Inr (0, ?log', [RdLock, Unlock])"
    using a w r by (simp add: put_1_def c_upd_ok)
  ultimately show ?thesis
    using a(1) sz by (auto simp: appended_def log_block_size_def)
qed

lemma put_2_ok:
  assumes arr: "log_arrays log a1 a2"
    and lv: "unat (bks_num_blocks a1) \<le> unat (livre log)"
      "unat (livre log) < 2 * unat (bks_num_blocks a1)"
    and reg: "\<And>j. j < unat (num_reg log) \<Longrightarrow>
      unat (bks_num_blocks a1) \<le> unat (registo log ! j) \<and> unat (registo log ! j) < unat (livre log)"
    and r: "unat r < unat (num_reg log)" and buf: "unat (bks_block_size a1) \<le> length buf"
  shows "\<exists>log'. put_2 log r buf = Inr (0, log', [RdLock, Unlock])
     \<and> appended log (unat r) (take (unat (bks_block_size a1)) buf) log'"
proof -
  let ?N = "unat (bks_num_blocks a1)" and ?blk = "take (unat (bks_block_size a1)) buf"
  note a = log_arraysD [OF arr]
  let ?k = "livre log - bks_num_blocks a1"
  have k: "unat ?k = unat (livre log) - ?N" using lv(1) by (simp add: unat_sub word_le_nat_alt)
  have kN: "?k < bks_num_blocks a2" using k lv a(5) by (simp add: word_less_nat_alt)
  obtain a2' where w: "block_write a2 ?k buf = Inr (0, a2')"
    and wf: "blocks_wf a2'" and sz: "bks_block_size a2' = bks_block_size a2"
      "bks_num_blocks a2' = bks_num_blocks a2"
    and at: "\<And>i. i < unat (bks_num_blocks a2) \<Longrightarrow> block_at a2' i =
       (if i = unat ?k then take (unat (bks_block_size a2)) buf else block_at a2 i)"
    using block_write_at [OF a(4) kN] buf a(6) by auto
  let ?log' = "log\<lparr>array_2 := Some a2', registo := (registo log)[unat r := livre log],
                   livre := livre log + 1\<rparr>"
  have arr': "log_arrays ?log' a1 a2'" using a wf sz by (simp add: log_arrays_def)
  have lv': "unat (livre ?log') = Suc (unat (livre log))"
    using lv(2) a(8) unat_Suc_u32 [of "livre log"] by simp
  have "log_inv ?log'"
  proof (rule log_invI [OF arr'])
    fix j assume "j < unat (num_reg ?log')"
    then show "reg_range ?N (unat (livre ?log')) (unat (registo ?log' ! j))"
      using reg [of j] lv' lv a(9) by (cases "j = unat r") (auto simp: reg_range_def)
  qed (use lv' lv in simp)
  moreover have "livre log \<noteq> 0" using lv(1) a(7) by auto
  moreover have "reg_block ?log' i = (if i = unat r then ?blk else reg_block log i)"
    if i: "i < unat (num_reg log)" for i
  proof (cases "i = unat r")
    case True
    then show ?thesis
      using lv a i k at [of "unat ?k"] kN
      by (simp add: reg_block_def index_block_eq [OF arr'] word_less_nat_alt)
  next
    case False
    have "unat (registo log ! i) - ?N \<noteq> unat ?k" and "unat (registo log ! i) - ?N < ?N"
      using reg [OF i] k lv by auto
    then show ?thesis
      using False reg [OF i] lv a i at [of "unat (registo log ! i) - ?N"]
      by (simp add: reg_block_def index_block_eq [OF arr'] index_block_eq [OF arr])
  qed
  moreover have "livre ?log' \<noteq> 0" using lv' by auto
  moreover have "put_2 log r buf = Inr (0, ?log', [RdLock, Unlock])"
    using a w r by (simp add: put_2_def c_upd_ok block_num_blocks_def)
  ultimately show ?thesis
    using a(1) by (auto simp: appended_def log_block_size_def)
qed


lemma appended_cong:
  assumes "appended log' r blk log''" and "num_reg log' = num_reg log"
    and "log_block_size log' = log_block_size log" and "livre log = 0 \<longleftrightarrow> livre log' = 0"
    and "\<And>i. i < unat (num_reg log) \<Longrightarrow> reg_block log' i = reg_block log i"
  shows "appended log r blk log''"
  using assms by (simp add: appended_def)

lemma num_registers_eq:
  assumes "log_arrays log a1 a2"
  shows "nat (logrw_num_registers log) = unat (num_reg log)"
  using log_arraysD(7,8) [OF assms] sint_small [of "num_reg log"] by (simp add: logrw_num_registers_def)

text \<open>A write to a log whose first array is full moves the registers to the second one first.\<close>

lemma write_flips_to_2:
  assumes arr: "log_arrays log a1 a2" and r: "unat r < unat (num_reg log)"
    and buf: "log_block_size log \<le> length buf" and flip12: "unat (livre log) = unat (bks_num_blocks a1)"
    and reg: "\<And>j. j < unat (num_reg log) \<Longrightarrow>
      reg_range (unat (bks_num_blocks a1)) (unat (livre log)) (unat (registo log ! j))"
  shows "\<exists>log'. logrw_write log r buf = Inr (0, log', [RdLock, Unlock])
     \<and> appended log (unat r) (take (log_block_size log) buf) log'"
proof -
  note a = log_arraysD [OF arr]
  let ?N = "unat (bks_num_blocks a1)" and ?n = "unat (num_reg log)"
  let ?blk = "take (unat (bks_block_size a1)) buf"
  have B: "log_block_size log = unat (bks_block_size a1)" using a(1) by (simp add: log_block_size_def)
  have nreg: "nat (logrw_num_registers log) = ?n" using num_registers_eq [OF arr] .
  have fresh: "length (fresh_bytes (unat (block_size a1))) = unat (bks_block_size a1)"
    by (simp add: fresh_bytes_def block_size_def)
  let ?log0 = "log\<lparr>array_activo := 1\<rparr>"
  have arr0: "log_arrays ?log0 a1 a2" using arr by (simp add: log_arrays_def)
  have below: "unat (registo log ! j) < ?N" if "j < ?n" for j
    using reg [OF that] flip12 a(7) by (simp add: reg_range_def)
  have "flipping a1 0 (reg_block log) ?log0"
    by (rule flippingI [OF arr0]) (simp_all add: flip12 below reg_block_def index_block_def)
  then obtain log' where fl: "flip_1_2 [0..<?n] ?log0 (fresh_bytes (unat (block_size a1))) = Inr log'"
    and inv': "flipping a1 ?n (reg_block log) log'" and "num_reg log' = num_reg ?log0"
    using flip_1_2_loop [OF _ le0 _ fresh, of "reg_block log" ?log0 ?n] by fastforce
  then have nr: "num_reg log' = num_reg log" by simp
  obtain a2' where arr': "log_arrays log' a1 a2'" and lv': "unat (livre log') = ?N + ?n"
    and reg': "\<And>j. j < ?n \<Longrightarrow> reg_block log' j = reg_block log j
      \<and> unat (registo log' ! j) = ?N + j"
    using inv' nr unfolding flipping_def by auto
  obtain log'' where put: "put_2 log' r buf = Inr (0, log'', [RdLock, Unlock])"
    and ap: "appended log' (unat r) ?blk log''"
    using put_2_ok [OF arr', of r buf] lv' reg' nr r buf B a(7) by auto
  have "livre log = bks_num_blocks a1" using flip12 by (simp add: word_unat_eq_iff)
  then have "logrw_write log r buf = Inr (0, log'', [RdLock, Unlock])"
    using a(1) fl put by (simp add: logrw_write_def nreg block_num_blocks_def Let_def)
  moreover have "appended log (unat r) ?blk log''"
    by (rule appended_cong [OF ap nr])
      (use flip12 lv' a(1,7) reg' log_arraysD(1) [OF arr'] in \<open>auto simp: log_block_size_def\<close>)
  ultimately show ?thesis using B by auto
qed

text \<open>And when the second array is full, back to the first.\<close>

lemma write_flips_to_1:
  assumes arr: "log_arrays log a1 a2" and r: "unat r < unat (num_reg log)"
    and buf: "log_block_size log \<le> length buf"
    and flip21: "unat (livre log) = 2 * unat (bks_num_blocks a1)" "0 < unat (bks_num_blocks a1)"
    and reg: "\<And>j. j < unat (num_reg log) \<Longrightarrow>
      reg_range (unat (bks_num_blocks a1)) (unat (livre log)) (unat (registo log ! j))"
  shows "\<exists>log'. logrw_write log r buf = Inr (0, log', [RdLock, Unlock])
     \<and> appended log (unat r) (take (log_block_size log) buf) log'"
proof -
  note a = log_arraysD [OF arr]
  let ?N = "unat (bks_num_blocks a1)" and ?n = "unat (num_reg log)"
  let ?blk = "take (unat (bks_block_size a1)) buf"
  have B: "log_block_size log = unat (bks_block_size a1)" using a(1) by (simp add: log_block_size_def)
  have nreg: "nat (logrw_num_registers log) = ?n" using num_registers_eq [OF arr] .
  have fresh: "length (fresh_bytes (unat (block_size a1))) = unat (bks_block_size a1)"
    by (simp add: fresh_bytes_def block_size_def)
  have two: "unat (2 * bks_num_blocks a1) = 2 * ?N" using a(8) by (simp add: unat_word_ariths)
  let ?log0 = "log\<lparr>array_activo := 0, livre := 0\<rparr>"
  have arr0: "log_arrays ?log0 a1 a2" using arr by (simp add: log_arrays_def)
  have above: "?N \<le> unat (registo log ! j) \<and> unat (registo log ! j) < 2 * ?N" if "j < ?n" for j
    using reg [OF that] flip21 by (simp add: reg_range_def)
  have "flipping_back a2 0 (reg_block log) ?log0"
    by (rule flipping_backI [OF arr0]) (simp_all add: a(5) above reg_block_def index_block_def)
  then obtain log' where fl: "flip_2_1 [0..<?n] ?log0 (fresh_bytes (unat (block_size a1))) = Inr log'"
    and inv': "flipping_back a2 ?n (reg_block log) log'" and "num_reg log' = num_reg ?log0"
    using flip_2_1_loop [OF _ le0 _ fresh [folded a(6)], of "reg_block log" ?log0 ?n] by fastforce
  then have nr: "num_reg log' = num_reg log" by simp
  obtain a1' where arr': "log_arrays log' a1' a2" and lv': "unat (livre log') = ?n"
    and reg': "\<And>j. j < ?n \<Longrightarrow> reg_block log' j = reg_block log j
      \<and> unat (registo log' ! j) = j"
    using inv' nr unfolding flipping_back_def by auto
  note a' = log_arraysD [OF arr']
  obtain log'' where put: "put_1 log' r buf = Inr (0, log'', [RdLock, Unlock])"
    and ap: "appended log' (unat r) (take (unat (bks_block_size a1')) buf) log''"
    using put_1_ok [OF arr', of r buf] lv' reg' nr r buf B a a' by (auto simp: word_less_nat_alt)
  have "livre log = 2 * bks_num_blocks a1" "livre log \<noteq> bks_num_blocks a1"
    using flip21 two by (auto simp: word_unat_eq_iff)
  then have "logrw_write log r buf = Inr (0, log'', [RdLock, Unlock])"
    using a(1) fl put by (simp add: logrw_write_def nreg block_num_blocks_def Let_def)
  moreover have "appended log (unat r) ?blk log''"
    by (rule appended_cong [OF _ nr])
      (use ap flip21 lv' r a a' reg' in \<open>auto simp: log_block_size_def\<close>)
  ultimately show ?thesis using B by auto
qed

lemma logrw_write_ok:
  assumes inv: "log_inv log" and r: "unat r < unat (num_reg log)"
    and buf: "log_block_size log \<le> length buf"
  shows "\<exists>log'. logrw_write log r buf = Inr (0, log', [RdLock, Unlock])
     \<and> appended log (unat r) (take (log_block_size log) buf) log'"
proof -
  obtain a1 a2 where arr: "log_arrays log a1 a2"
    and lv: "unat (livre log) \<le> 2 * unat (bks_num_blocks a1)"
    and reg: "\<And>j. j < unat (num_reg log) \<Longrightarrow>
      reg_range (unat (bks_num_blocks a1)) (unat (livre log)) (unat (registo log ! j))"
    using log_invE [OF inv] by blast
  note a = log_arraysD [OF arr]
  let ?N = "unat (bks_num_blocks a1)" and ?n = "unat (num_reg log)"
  let ?blk = "take (unat (bks_block_size a1)) buf"
  have B: "log_block_size log = unat (bks_block_size a1)" using a(1) by (simp add: log_block_size_def)
  have two: "unat (2 * bks_num_blocks a1) = 2 * ?N"
    using a(8) by (simp add: unat_word_ariths)
  consider (flip12) "unat (livre log) = ?N" | (flip21) "unat (livre log) = 2 * ?N" "0 < ?N"
    | (first) "unat (livre log) < ?N" | (second) "?N < unat (livre log)" "unat (livre log) < 2 * ?N"
    using lv a(7) by linarith
  then show ?thesis
  proof cases
    case flip12
    then show ?thesis by (rule write_flips_to_2 [OF arr r buf _ reg])
  next
    case flip21
    then show ?thesis by (rule write_flips_to_1 [OF arr r buf _ _ reg])
  next
    case first
    have "\<exists>log'. put_1 log r buf = Inr (0, log', [RdLock, Unlock]) \<and> appended log (unat r) ?blk log'"
      by (rule put_1_ok [OF arr])
        (use first reg r buf B in \<open>auto simp: word_less_nat_alt reg_range_def\<close>)
    moreover have "livre log < bks_num_blocks a1" "livre log \<noteq> bks_num_blocks a1"
      "livre log \<noteq> 2 * bks_num_blocks a1"
      using first two by (auto simp: word_unat_eq_iff word_less_nat_alt)
    ultimately show ?thesis
      using a(1) B by (simp add: logrw_write_def block_num_blocks_def Let_def)
  next
    case second
    have "\<exists>log'. put_2 log r buf = Inr (0, log', [RdLock, Unlock]) \<and> appended log (unat r) ?blk log'"
      by (rule put_2_ok [OF arr]) (use second reg r buf B in \<open>auto simp: reg_range_def\<close>)
    moreover have "bks_num_blocks a1 < livre log" "livre log \<noteq> bks_num_blocks a1"
      "livre log \<noteq> 2 * bks_num_blocks a1" "\<not> livre log < bks_num_blocks a1"
      using second two by (auto simp: word_unat_eq_iff word_less_nat_alt)
    ultimately show ?thesis
      using a(1) B by (simp add: logrw_write_def block_num_blocks_def Let_def)
  qed
qed

section \<open>Reading and initialising\<close>

lemma reg_in_array:
  assumes "reg_range N free r" and "free \<le> 2 * N" and "0 < N"
  shows "r < 2 * N"
  using assms by (auto simp: reg_range_def split: if_splits)

lemma logrw_read_ok:
  assumes inv: "log_inv log" and r: "unat r < unat (num_reg log)"
    and buf: "log_block_size log \<le> length buf"
  shows "logrw_read log r buf =
     Inr (0, reg_block log (unat r) @ drop (log_block_size log) buf, [WrLock, Unlock])"
proof -
  obtain a1 a2 where arr: "log_arrays log a1 a2"
    and lv: "unat (livre log) \<le> 2 * unat (bks_num_blocks a1)"
    and reg: "\<And>j. j < unat (num_reg log) \<Longrightarrow>
      reg_range (unat (bks_num_blocks a1)) (unat (livre log)) (unat (registo log ! j))"
    using log_invE [OF inv] by blast
  note a = log_arraysD [OF arr]
  let ?N = "unat (bks_num_blocks a1)" and ?k = "registo log ! unat r"
  have B: "log_block_size log = unat (bks_block_size a1)" using a(1) by (simp add: log_block_size_def)
  have k: "unat ?k < 2 * ?N" using reg_in_array [OF reg [OF r] lv] a(7) by simp
  show ?thesis
  proof (cases "?k < bks_num_blocks a1")
    case True
    then show ?thesis
      using a r B buf
      by (simp add: logrw_read_def c_nth_ok block_num_blocks_def block_read_ok reg_block_def
          index_block_eq [OF arr] word_less_nat_alt)
  next
    case False
    then have u: "unat (?k - bks_num_blocks a2) = unat ?k - ?N"
      using a(5) by (simp add: unat_sub)
    with k False have "?k - bks_num_blocks a2 < bks_num_blocks a2"
      using a(5) by (simp add: word_less_nat_alt)
    then show ?thesis
      using a r B buf False u
      by (simp add: logrw_read_def c_nth_ok block_num_blocks_def block_read_ok reg_block_def
          index_block_eq [OF arr] word_less_nat_alt)
  qed
qed

text \<open>\<open>logrw_init\<close> hands its two sizes to \<open>block_new\<close> in the order of the header, which is not
  the order of the implementation: the arrays get \<open>bloco_dim\<close> blocks of \<open>array_dim\<close> bytes.\<close>

lemma logrw_init_ok:
  assumes "nreg < array_dim" and "unat nreg < unat bloco_dim" and "unat bloco_dim < 2 ^ 31"
    and "unat bloco_dim * unat array_dim + 8 < 2 ^ 32" and "unat nreg < 2 ^ 30"
  shows "\<exists>log. logrw_init nreg array_dim bloco_dim = Inr (Some log) \<and> log_inv log
     \<and> livre log = 0 \<and> num_reg log = nreg \<and> log_block_size log = unat array_dim
     \<and> (\<forall>i < unat nreg. reg_block log i = replicate (unat array_dim) 0)"
proof -
  have "0 < unat bloco_dim * unat array_dim"
    using assms(1,2) by (simp add: word_less_nat_alt)
  then obtain a where a: "block_new bloco_dim array_dim = Inr (Some a)" "blocks_wf a"
    "bks_num_blocks a = bloco_dim" "bks_block_size a = array_dim"
    "\<forall>i < unat bloco_dim. block_at a i = replicate (unat array_dim) 0"
    using block_new_wf assms(4) by blast
  let ?log = "\<lparr>registo = replicate (unat nreg) 0, livre = 0, array_activo = 0,
                   num_reg = nreg, array_1 = Some a, array_2 = Some a, tempo = 0\<rparr>"
  have arr: "log_arrays ?log a a" using a assms by (simp add: log_arrays_def)
  have "unat (nreg * 4) = unat nreg * 4" using assms(5) by (simp add: unat_word_ariths)
  then have "logrw_init nreg array_dim bloco_dim = Inr (Some ?log)"
    using assms(1) a by (simp add: logrw_init_def)
  moreover have "log_inv ?log" by (rule log_invI [OF arr]) (simp_all add: reg_range_def)
  moreover have "reg_block ?log i = replicate (unat array_dim) 0" if "i < unat nreg" for i
    using a assms(2) that by (simp add: reg_block_def index_block_eq [OF arr])
  ultimately show ?thesis using a by (simp add: log_block_size_def)
qed

section \<open>Sequences of writes\<close>

fun logrw_writes :: "logrw_struct \<Rightarrow> (u32 \<times> byte list) list \<Rightarrow> logrw_struct c" where
  "logrw_writes log [] = Inr log"
| "logrw_writes log ((r, b) # ws) =
     c_bind (logrw_write log r b) (\<lambda>(rc, log', calls). logrw_writes log' ws)"

text \<open>The specification: the value of the last write to a register, if there is one.\<close>

fun last_write :: "(u32 \<times> byte list) list \<Rightarrow> nat \<Rightarrow> byte list option" where
  "last_write [] i = None"
| "last_write ((r, b) # ws) i =
     (case last_write ws i of Some b' \<Rightarrow> Some b' | None \<Rightarrow> if unat r = i then Some b else None)"

definition writes_ok :: "logrw_struct \<Rightarrow> (u32 \<times> byte list) list \<Rightarrow> bool" where
  "writes_ok log ws \<longleftrightarrow>
     list_all (\<lambda>(r, b). unat r < unat (num_reg log) \<and> length b = log_block_size log) ws"

lemma logrw_writes_primed:
  assumes "log_inv log" and "livre log \<noteq> 0" and "writes_ok log ws"
  shows "\<exists>log'. logrw_writes log ws = Inr log' \<and> log_inv log'
     \<and> num_reg log' = num_reg log \<and> log_block_size log' = log_block_size log
     \<and> (\<forall>i < unat (num_reg log). reg_block log' i =
          (case last_write ws i of Some b \<Rightarrow> b | None \<Rightarrow> reg_block log i))"
  using assms
proof (induction ws arbitrary: log)
  case Nil
  then show ?case by simp
next
  case (Cons w ws)
  obtain r b where w: "w = (r, b)" by (cases w)
  have r: "unat r < unat (num_reg log)" and b: "length b = log_block_size log"
    and ws: "writes_ok log ws"
    using Cons.prems(3) w by (simp_all add: writes_ok_def)
  obtain log1 where st: "logrw_write log r b = Inr (0, log1, [RdLock, Unlock])"
    and ap: "appended log (unat r) b log1"
    using logrw_write_ok [OF Cons.prems(1) r, of b] b by auto
  have ws1: "writes_ok log1 ws" using ws ap by (simp add: writes_ok_def appended_def)
  obtain log' where "logrw_writes log1 ws = Inr log'" "log_inv log'"
    "num_reg log' = num_reg log1" "log_block_size log' = log_block_size log1"
    "\<forall>i < unat (num_reg log1). reg_block log' i =
          (case last_write ws i of Some b \<Rightarrow> b | None \<Rightarrow> reg_block log1 i)"
    using Cons.IH [of log1] ap ws1 by (auto simp: appended_def)
  then show ?case
    using st ap w Cons.prems(2) by (auto simp: appended_def split: option.splits)
qed

section \<open>A small log\<close>

text \<open>Two registers, arrays of three blocks of four bytes: fresh, and after one write to
  register 0.\<close>

definition small_array :: "byte list \<Rightarrow> blocks_t" where
  "small_array b = \<lparr>bks_block_size = 4, bks_num_blocks = 3, bks_blocks = b @ replicate 8 0\<rparr>"

definition small_log :: logrw_struct where
  "small_log = \<lparr>registo = [0, 0], livre = 0, array_activo = 0, num_reg = 2,
     array_1 = Some (small_array [0, 0, 0, 0]), array_2 = Some (small_array [0, 0, 0, 0]), tempo = 0\<rparr>"

lemma small_log_init: "logrw_init 2 4 3 = Inr (Some small_log)"
proof -
  have "replicate 12 (0 :: byte) = [0, 0, 0, 0] @ replicate 8 0" "replicate 2 (0 :: u32) = [0, 0]"
    by (simp_all add: numeral_eq_Suc)
  then show ?thesis
    by (simp add: logrw_init_def block_new_def alloc_blocks_def sizeof_blocks_t_def Let_def
        small_log_def small_array_def)
qed

lemma small_log_inv: "log_inv small_log" "livre small_log = 0" "num_reg small_log = 2"
    "log_block_size small_log = 4"
  using logrw_init_ok [of 2 4 3] by (auto simp: small_log_init)

section \<open>Properties\<close>

text \<open>C10: From a fresh log whose arrays have more blocks than there are registers (\<open>nreg < bloco_dim\<close>), fewer than
  \<open>2 ^ 31\<close> blocks, and a size in bytes that fits in 32 bits, any sequence of writes of whole blocks to existing
  registers succeeds, however often the log has to move its live blocks to the other array. Afterwards a read of a register returns the block that was
  last written to it; a register that was never written reads as the very first block
  that was written to the log, because all registers start at block 0.\<close>

theorem logrw_last_write:
  assumes "logrw_init nreg array_dim bloco_dim = Inr (Some log)"
    and "unat nreg < unat bloco_dim" and "unat bloco_dim < 2 ^ 31"
    and "unat bloco_dim * unat array_dim + 8 < 2 ^ 32"
    and "ws = (r0, b0) # ws'" and "writes_ok log ws"
    and "unat r < unat nreg" and "unat array_dim \<le> length buf"
  shows "\<exists>log'. logrw_writes log ws = Inr log' \<and> logrw_read log' r buf =
    Inr (0, (case last_write ws (unat r) of Some b \<Rightarrow> b | None \<Rightarrow> b0) @ drop (unat array_dim) buf,
      [WrLock, Unlock])"
proof -
  have n4: "unat (nreg * 4) < 2 ^ 32" using unsigned_less [of "nreg * 4"] by simp
  have lt: "nreg < array_dim" "unat nreg < 2 ^ 30"
    using assms(1) n4 by (auto simp: logrw_init_def not_le not_less split: if_splits)
  obtain log0 where l0: "logrw_init nreg array_dim bloco_dim = Inr (Some log0)" "log_inv log0"
    "livre log0 = 0" "num_reg log0 = nreg" "log_block_size log0 = unat array_dim"
    using logrw_init_ok [OF lt(1) assms(2-4) lt(2)] by blast
  then have log: "log0 = log" using assms(1) by simp
  have r0: "unat r0 < unat (num_reg log)" "length b0 = log_block_size log" "writes_ok log ws'"
    using assms(5,6) by (simp_all add: writes_ok_def)
  obtain log1 where w: "logrw_write log r0 b0 = Inr (0, log1, [RdLock, Unlock])"
    and ap: "appended log (unat r0) b0 log1"
    using logrw_write_ok [of log r0 b0] l0 log r0 by auto
  have first: "reg_block log1 i = b0" if "i < unat nreg" for i
    using ap that l0 log by (simp add: appended_def)
  have ws': "writes_ok log1 ws'" using r0(3) ap by (simp add: writes_ok_def appended_def)
  obtain log' where l': "logrw_writes log1 ws' = Inr log'" "log_inv log'"
    "num_reg log' = num_reg log1" "log_block_size log' = log_block_size log1"
    and reg: "\<forall>i < unat (num_reg log1). reg_block log' i =
      (case last_write ws' i of Some b \<Rightarrow> b | None \<Rightarrow> reg_block log1 i)"
    using logrw_writes_primed [OF _ _ ws'] ap unfolding appended_def by blast
  have sizes: "num_reg log1 = nreg" "log_block_size log1 = unat array_dim"
    using ap l0 log by (simp_all add: appended_def)
  have "reg_block log' (unat r) = (case last_write ws (unat r) of Some b \<Rightarrow> b | None \<Rightarrow> b0)"
    using reg first assms(5,7) sizes by (auto split: option.splits)
  moreover have "logrw_writes log ws = Inr log'" using w l'(1) assms(5) by simp
  ultimately show ?thesis
    using logrw_read_ok [OF l'(2), of r buf] l'(3,4) sizes assms(7,8) by auto
qed

theorem logrw_last_write_witness:
  "\<exists>log'. logrw_writes small_log [(1, [1, 1, 1, 1]), (1, [2, 2, 2, 2]), (1, [3, 3, 3, 3]), (1, [4, 4, 4, 4])]
      = Inr log' \<and> logrw_read log' 0 [9, 9, 9, 9] = Inr (0, [1, 1, 1, 1], [WrLock, Unlock])"
  using logrw_last_write [OF small_log_init, of
      "[(1, [1, 1, 1, 1]), (1, [2, 2, 2, 2]), (1, [3, 3, 3, 3]), (1, [4, 4, 4, 4])]" _ _ _ 0 "[9, 9, 9, 9]"]
  by (simp add: writes_ok_def small_log_inv)

text \<open>The arrays need more blocks than there are registers, and nothing in \<open>logrw.c\<close> sees to it: with three registers
  and arrays of two blocks, the third register does not read its only write.\<close>

definition few_log :: logrw_struct where
  "few_log =
     (let a = \<lparr>bks_block_size = 4, bks_num_blocks = 2, bks_blocks = [0, 0, 0, 0, 0, 0, 0, 0]\<rparr> in
      \<lparr>registo = [0, 0, 0], livre = 0, array_activo = 0, num_reg = 3, array_1 = Some a, array_2 = Some a, tempo = 0\<rparr>)"

lemma few_log_loses:
  "logrw_init 3 4 2 = Inr (Some few_log)"
  "\<exists>log. logrw_writes few_log [(0, [1, 1, 1, 1]), (1, [2, 2, 2, 2]), (2, [3, 3, 3, 3])] = Inr log
    \<and> logrw_read log 2 [0, 0, 0, 0] = Inr (0, [1, 1, 1, 1], [WrLock, Unlock])"
proof -
  have "replicate 8 (0 :: byte) = [0, 0, 0, 0, 0, 0, 0, 0]" "replicate 3 (0 :: u32) = [0, 0, 0]"
    by (simp_all add: numeral_eq_Suc)
  then show "logrw_init 3 4 2 = Inr (Some few_log)"
    by (simp add: logrw_init_def block_new_def alloc_blocks_def sizeof_blocks_t_def Let_def few_log_def)
  have "c_bind (logrw_writes few_log [(0, [1, 1, 1, 1]), (1, [2, 2, 2, 2]), (2, [3, 3, 3, 3])])
      (\<lambda>log. logrw_read log 2 [0, 0, 0, 0]) = Inr (0, [1, 1, 1, 1], [WrLock, Unlock])"
    by code_simp
  then show "\<exists>log. logrw_writes few_log [(0, [1, 1, 1, 1]), (1, [2, 2, 2, 2]), (2, [3, 3, 3, 3])] = Inr log
    \<and> logrw_read log 2 [0, 0, 0, 0] = Inr (0, [1, 1, 1, 1], [WrLock, Unlock])"
    by (simp only: c_bind_eq_Inr)
qed
text \<open>A write to a log that has been written before changes one register and no other; it
  takes the lock for reading and releases it, and the log stays well formed.\<close>

lemma logrw_write_one_register:
  assumes "log_inv log" and "livre log \<noteq> 0" and "unat r < unat (num_reg log)"
    and "length buf = log_block_size log"
  shows "\<exists>log'. logrw_write log r buf = Inr (0, log', [RdLock, Unlock]) \<and> log_inv log'
    \<and> num_reg log' = num_reg log
    \<and> (\<forall>i < unat (num_reg log). reg_block log' i = (if i = unat r then buf else reg_block log i))"
proof -
  obtain log' where "logrw_write log r buf = Inr (0, log', [RdLock, Unlock])"
    "appended log (unat r) buf log'"
    using logrw_write_ok [OF assms(1,3), of buf] assms(4) by auto
  then show ?thesis using assms(2) by (auto simp: appended_def)
qed

theorem logrw_write_one_register_witness:
  "\<exists>log log'. livre log \<noteq> 0 \<and> logrw_write log 1 [7, 7, 7, 7] = Inr (0, log', [RdLock, Unlock])
    \<and> reg_block log' 0 = reg_block log 0 \<and> reg_block log' 1 = [7, 7, 7, 7]"
proof -
  obtain log where log: "log_inv log" "livre log \<noteq> 0" "num_reg log = 2" "log_block_size log = 4"
    using logrw_write_ok [of small_log 0 "[5, 5, 5, 5]"] small_log_inv by (auto simp: appended_def)
  from logrw_write_one_register [of log 1 "[7, 7, 7, 7]"] log
  obtain log' where "logrw_write log 1 [7, 7, 7, 7] = Inr (0, log', [RdLock, Unlock])"
    and r: "\<forall>i < 2. reg_block log' i = (if i = 1 then [7, 7, 7, 7] else reg_block log i)" by auto
  moreover have "reg_block log' 0 = reg_block log 0" "reg_block log' 1 = [7, 7, 7, 7]" using r by simp_all
  ultimately show ?thesis using log(2) by blast
qed

text \<open>The first write to a fresh log is seen through every register.\<close>

lemma logrw_first_write_everywhere:
  assumes "log_inv log" and "livre log = 0" and "unat r < unat (num_reg log)"
    and "unat i < unat (num_reg log)" and "length buf = log_block_size log"
    and "length out = log_block_size log"
  shows "\<exists>log'. logrw_write log r buf = Inr (0, log', [RdLock, Unlock])
    \<and> logrw_read log' i out = Inr (0, buf, [WrLock, Unlock])"
proof -
  obtain log' where w: "logrw_write log r buf = Inr (0, log', [RdLock, Unlock])"
    and ap: "appended log (unat r) buf log'"
    using logrw_write_ok [OF assms(1,3), of buf] assms(5) by auto
  then have "log_inv log'" "num_reg log' = num_reg log" "log_block_size log' = log_block_size log"
    "reg_block log' (unat i) = buf"
    using assms(2,4) by (simp_all add: appended_def)
  then have "logrw_read log' i out = Inr (0, buf, [WrLock, Unlock])"
    using logrw_read_ok [of log' i out] assms(4,6) by simp
  with w show ?thesis by blast
qed

theorem logrw_first_write_everywhere_witness:
  "\<exists>log'. logrw_write small_log 0 [1, 2, 3, 4] = Inr (0, log', [RdLock, Unlock])
    \<and> logrw_read log' 1 [0, 0, 0, 0] = Inr (0, [1, 2, 3, 4], [WrLock, Unlock])"
  by (rule logrw_first_write_everywhere) (simp_all add: small_log_inv)

text \<open>\<open>logrw_init\<close> passes its sizes to \<open>block_new\<close> in the wrong order: each array has
  \<open>bloco_dim\<close> blocks of \<open>array_dim\<close> bytes.\<close>

lemma logrw_init_swapped:
  assumes "logrw_init nreg array_dim bloco_dim = Inr (Some log)"
    and "array_1 log = Some a" and "array_2 log = Some b"
  shows "bks_num_blocks a = bloco_dim \<and> bks_block_size a = array_dim
    \<and> bks_num_blocks b = bloco_dim \<and> bks_block_size b = array_dim"
  using assms
  by (auto simp: logrw_init_def block_new_def c_bind_eq_Inr Let_def split: if_splits)

lemma logrw_init_swapped_witness:
  "\<exists>log a b. logrw_init 2 4 3 = Inr (Some log) \<and> array_1 log = Some a \<and> array_2 log = Some b
    \<and> bks_num_blocks a = 3 \<and> bks_block_size a = 4"
  using logrw_init_swapped [OF small_log_init] small_log_init by (simp add: small_log_def)

text \<open>\<open>logrw_load\<close> of a disk, whenever it gets past allocating the log, copies the first
  block through a pointer that was never set.\<close>

lemma logrw_load_wild:
  assumes "logrw_init (block_num_blocks bks) (block_num_blocks bks + 10) (block_size bks) =
      Inr (Some log)"
    and "0 < bks_num_blocks bks"
  shows "logrw_load (Some bks) = Inl WildPointer"
proof -
  have "[0..<Suc (unat (num_reg log))] = 0 # [1..<Suc (unat (num_reg log))]"
    by (simp add: upt_conv_Cons del: upt_Suc)
  then show ?thesis
    using assms by (simp add: logrw_load_def wild_block_read_def not_le del: upt_Suc)
qed

lemma logrw_load_wild_witness:
  "logrw_load (Some \<lparr>bks_block_size = 4, bks_num_blocks = 2, bks_blocks = replicate 8 0\<rparr>) =
    Inl WildPointer"
proof -
  have "\<exists>log. logrw_init 2 12 4 = Inr (Some log)"
    using logrw_init_ok [of 2 12 4] by auto
  then show ?thesis
    by (elim exE) (rule logrw_load_wild, simp_all add: block_num_blocks_def block_size_def)
qed

end
