(* ===== verification/Disk_Interface.thy ===== *)
theory Disk_Interface
  imports Log_Store
begin

text \<open>
  The interface between the file system and the storage below it: the macros
  \<open>DISK_READ\<close>, \<open>DISK_WRITE\<close> of \<open>src/include/fs.h\<close>, and the bound on block numbers that
  \<open>src/sofs/fs.c\<close> passes to its allocator. The build selects one of two storages by
  \<open>USE_LOG_SOFS\<close>; here a build is a record of operations, and the file system takes it as an
  argument. The locale \<open>disk\<close> states the laws of a disk of 512-byte blocks that the file
  system needs, over a view of the storage: when it is fit for use, what its blocks hold and
  how many there are. Both storages are interpretations.
\<close>

section \<open>Operations and builds\<close>

record 'd disk_ops =
  DISK_READ :: "'d \<Rightarrow> u32 \<Rightarrow> byte list \<Rightarrow> (int \<times> byte list \<times> 'd) c"
  DISK_WRITE :: "'d \<Rightarrow> u32 \<Rightarrow> byte list \<Rightarrow> (int \<times> 'd) c"
  DISK_BLOCKS :: "'d \<Rightarrow> u32"

definition BLOCK_SIZE :: nat where
  "BLOCK_SIZE = 512"

definition NUM_BLOCKS :: u32 where
  "NUM_BLOCKS = 8 * 1024 * 2"

definition DIM_ACTIVE_ARRAY :: "u32 \<Rightarrow> u32" where
  "DIM_ACTIVE_ARRAY num_blocks = num_blocks * 10"

text \<open>The simple block allocator.\<close>

definition block_disk :: "blocks_t disk_ops" where
  "block_disk =
     \<lparr>DISK_READ = (\<lambda>bks no block.
        c_bind (block_read bks no block) (\<lambda>(rc, block'). Inr (rc, block', bks))),
      DISK_WRITE = block_write,
      DISK_BLOCKS = block_num_blocks\<rparr>"

text \<open>The log, \<open>USE_LOG_SOFS\<close>.\<close>

definition log_disk :: "logrw_struct disk_ops" where
  "log_disk =
     \<lparr>DISK_READ = (\<lambda>log no block.
        c_bind (logrw_read log no block) (\<lambda>(rc, block', calls). Inr (rc, block', log))),
      DISK_WRITE = (\<lambda>log no block.
        c_bind (logrw_write log no block) (\<lambda>(rc, log', calls). Inr (rc, log'))),
      DISK_BLOCKS = (\<lambda>log. DIM_ACTIVE_ARRAY NUM_BLOCKS)\<rparr>"

text \<open>\<open>DISK_INIT(NUM_BLOCKS,BLOCK_SIZE)\<close> of the two builds.\<close>

definition block_disk_init :: "blocks_t option c" where
  "block_disk_init = block_new NUM_BLOCKS (of_nat BLOCK_SIZE)"

definition log_disk_init :: "logrw_struct option c" where
  "log_disk_init = logrw_init NUM_BLOCKS (DIM_ACTIVE_ARRAY NUM_BLOCKS) (of_nat BLOCK_SIZE)"

section \<open>The laws\<close>

text \<open>The bitmap of the file system has room for this many blocks.\<close>

definition BMAP_BITS :: nat where
  "BMAP_BITS = 8 * BLOCK_SIZE"

record 'd disk_view =
  dv_ok :: "'d \<Rightarrow> bool"
  dv_block :: "'d \<Rightarrow> nat \<Rightarrow> byte list"
  dv_cap :: "'d \<Rightarrow> nat"

locale disk =
  fixes D :: "'d disk_ops" and V :: "'d disk_view"
  assumes disk_read: "dv_ok V d \<Longrightarrow> unat n < dv_cap V d \<Longrightarrow> length buf = BLOCK_SIZE \<Longrightarrow>
      DISK_READ D d n buf = Inr (0, dv_block V d (unat n), d)"
    and disk_write: "dv_ok V d \<Longrightarrow> unat n < dv_cap V d \<Longrightarrow> length buf = BLOCK_SIZE \<Longrightarrow>
      \<exists>d'. DISK_WRITE D d n buf = Inr (0, d') \<and> dv_ok V d' \<and> dv_cap V d' = dv_cap V d
        \<and> DISK_BLOCKS D d' = DISK_BLOCKS D d
        \<and> (\<forall>i < dv_cap V d. dv_block V d' i = (if i = unat n then buf else dv_block V d i))"
    and disk_block_length: "dv_ok V d \<Longrightarrow> i < dv_cap V d \<Longrightarrow> length (dv_block V d i) = BLOCK_SIZE"
    and disk_bound: "dv_ok V d \<Longrightarrow> i < unat (DISK_BLOCKS D d) \<Longrightarrow> i < BMAP_BITS \<Longrightarrow> i < dv_cap V d"

section \<open>The two storages as disks\<close>

definition block_view :: "blocks_t disk_view" where
  "block_view =
     \<lparr>dv_ok = (\<lambda>bks. blocks_wf bks \<and> unat (bks_block_size bks) = BLOCK_SIZE),
      dv_block = block_at,
      dv_cap = (\<lambda>bks. unat (bks_num_blocks bks))\<rparr>"

interpretation bd: disk block_disk block_view
proof unfold_locales
  fix d :: blocks_t and n :: u32 and buf :: "byte list"
  assume d: "dv_ok block_view d" and n: "unat n < dv_cap block_view d"
    and buf: "length buf = BLOCK_SIZE"
  then have wf: "blocks_wf d" and n': "n < bks_num_blocks d"
    and sz: "unat (bks_block_size d) = BLOCK_SIZE"
    by (simp_all add: block_view_def word_less_nat_alt)
  show "DISK_READ block_disk d n buf = Inr (0, dv_block block_view d (unat n), d)"
    using block_read_ok [OF wf n', of buf] sz buf by (simp add: block_disk_def block_view_def)
  show "\<exists>d'. DISK_WRITE block_disk d n buf = Inr (0, d') \<and> dv_ok block_view d'
      \<and> dv_cap block_view d' = dv_cap block_view d
      \<and> DISK_BLOCKS block_disk d' = DISK_BLOCKS block_disk d
      \<and> (\<forall>i < dv_cap block_view d. dv_block block_view d' i =
           (if i = unat n then buf else dv_block block_view d i))"
    by (rule block_write_at [OF wf n', of buf])
      (use sz buf in \<open>auto simp: block_disk_def block_view_def block_num_blocks_def\<close>)
next
  fix d i
  show "dv_ok block_view d \<Longrightarrow> i < dv_cap block_view d \<Longrightarrow>
      length (dv_block block_view d i) = BLOCK_SIZE"
    by (simp add: block_view_def length_block_at)
  show "i < unat (DISK_BLOCKS block_disk d) \<Longrightarrow> i < dv_cap block_view d"
    by (simp add: block_view_def block_disk_def block_num_blocks_def)
qed

text \<open>A log is fit for use once it has been written: before the first write all registers share
  one block (\<open>Log_Store\<close>). It needs blocks of 512 bytes, and a register for every bit of the
  bitmap, because the bound of the log build is not its number of registers.\<close>

definition log_view :: "logrw_struct disk_view" where
  "log_view =
     \<lparr>dv_ok = (\<lambda>log. log_inv log \<and> livre log \<noteq> 0 \<and> log_block_size log = BLOCK_SIZE
        \<and> BMAP_BITS \<le> unat (num_reg log)),
      dv_block = reg_block,
      dv_cap = (\<lambda>log. unat (num_reg log))\<rparr>"

lemma length_reg_block:
  assumes "log_inv log" and "i < unat (num_reg log)"
  shows "length (reg_block log i) = log_block_size log"
proof -
  obtain a1 a2 where arr: "log_arrays log a1 a2"
    and lv: "unat (livre log) \<le> 2 * unat (bks_num_blocks a1)"
    and reg: "\<And>j. j < unat (num_reg log) \<Longrightarrow>
      reg_range (unat (bks_num_blocks a1)) (unat (livre log)) (unat (registo log ! j))"
    using log_invE [OF assms(1)] by blast
  note a = log_arraysD [OF arr]
  have "unat (registo log ! i) < 2 * unat (bks_num_blocks a1)"
    using reg_in_array [OF reg [OF assms(2)] lv] a(7) by simp
  then show ?thesis
    using a by (auto simp: reg_block_def index_block_eq [OF arr] length_block_at log_block_size_def)
qed

interpretation ld: disk log_disk log_view
proof unfold_locales
  fix d :: logrw_struct and n :: u32 and buf :: "byte list"
  assume d: "dv_ok log_view d" and n: "unat n < dv_cap log_view d"
    and buf: "length buf = BLOCK_SIZE"
  then have inv: "log_inv d" "livre d \<noteq> 0" and r: "unat n < unat (num_reg d)"
    and sz: "log_block_size d = BLOCK_SIZE" and cap: "BMAP_BITS \<le> unat (num_reg d)"
    by (simp_all add: log_view_def)
  show "DISK_READ log_disk d n buf = Inr (0, dv_block log_view d (unat n), d)"
    using logrw_read_ok [OF inv(1) r, of buf] sz buf by (simp add: log_disk_def log_view_def)
  obtain d' where "logrw_write d n buf = Inr (0, d', [RdLock, Unlock])"
    and "appended d (unat n) (take (log_block_size d) buf) d'"
    using logrw_write_ok [OF inv(1) r, of buf] sz buf by auto
  then show "\<exists>d'. DISK_WRITE log_disk d n buf = Inr (0, d') \<and> dv_ok log_view d'
      \<and> dv_cap log_view d' = dv_cap log_view d
      \<and> DISK_BLOCKS log_disk d' = DISK_BLOCKS log_disk d
      \<and> (\<forall>i < dv_cap log_view d. dv_block log_view d' i =
           (if i = unat n then buf else dv_block log_view d i))"
    using inv(2) sz buf cap by (auto simp: log_disk_def log_view_def appended_def)
next
  fix d i
  show "dv_ok log_view d \<Longrightarrow> i < dv_cap log_view d \<Longrightarrow>
      length (dv_block log_view d i) = BLOCK_SIZE"
    by (simp add: log_view_def length_reg_block)
  show "dv_ok log_view d \<Longrightarrow> i < BMAP_BITS \<Longrightarrow> i < dv_cap log_view d"
    by (simp add: log_view_def)
qed

end
