(* ===== verification/Fs_Layout.thy ===== *)
theory Fs_Layout
  imports Disk_Interface
begin

text \<open>
  The data of the file system, \<open>src/sofs/fs.c\<close> and \<open>src/include/fs.h\<close>: inodes and the inode
  table, directory entries, the two bitmaps, and how they are laid out in the bytes of the
  blocks. The word operations of the bitmap macros are related to sets of numbers, and the
  byte images of the inode table are shown to be read back as they were written.
\<close>

section \<open>Inodes\<close>

definition INODE_NUM_BLKS :: nat where
  "INODE_NUM_BLKS = 10"

definition ITAB_NUM_BLKS :: nat where
  "ITAB_NUM_BLKS = 8"

text \<open>The type field keeps the integer of the C enumeration: what is loaded from a disk can be
  neither of the two.\<close>

definition FS_DIR :: u32 where
  "FS_DIR = 1"

definition FS_FILE :: u32 where
  "FS_FILE = 2"

record fs_inode_t =
  itype :: u32
  isize :: u32
  iblocks :: "u32 list"
  ireserved :: "u32 list"

definition SIZEOF_INODE :: nat where
  "SIZEOF_INODE = 64"

definition ITAB_SIZE :: nat where
  "ITAB_SIZE = ITAB_NUM_BLKS * BLOCK_SIZE div SIZEOF_INODE"

text \<open>The file system structure. \<open>'d\<close> is the storage that the build selects.\<close>

record 'd fs_t =
  fs_blocks :: 'd
  inode_bmap :: "byte list"
  blk_bmap :: "byte list"
  inode_tab :: "fs_inode_t list"

definition fsi_inode_init :: "fs_inode_t \<Rightarrow> u32 \<Rightarrow> fs_inode_t" where
  "fsi_inode_init inode ty =
     inode\<lparr>itype := ty, isize := 0, iblocks := replicate INODE_NUM_BLKS 0,
           ireserved := replicate 4 0\<rparr>"

text \<open>\<open>OFFSET_TO_BLOCKS\<close>, in the unsigned arithmetic of its argument.\<close>

definition OFFSET_TO_BLOCKS :: "u32 \<Rightarrow> u32" where
  "OFFSET_TO_BLOCKS pos = pos div 512 + (if pos mod 512 > 0 then 1 else 0)"

lemma blocks_round_up: "n div 512 + (if n mod 512 > 0 then 1 else 0) = (n + 511) div (512 :: nat)"
proof -
  define q r where "q = n div 512" and "r = n mod 512"
  have n: "n = 512 * q + r" and r: "r < 512" by (simp_all add: q_def r_def)
  have "(n + 511) div 512 = q + (if r > 0 then 1 else 0)"
    by (rule div_nat_eqI) (use r in \<open>simp_all add: n split: if_split\<close>)
  then show ?thesis by (simp add: q_def r_def)
qed

lemma round_up_512: "n \<le> 512 * ((n + 511) div (512 :: nat))"
  using dividend_less_div_times [of 512 "n + 511"] by simp

lemma unat_OFFSET_TO_BLOCKS:
  "unat (OFFSET_TO_BLOCKS pos) = (unat pos + 511) div 512"
proof -
  have "unat pos < 2 ^ 32" using unsigned_less [of pos] by simp
  then have "unat pos div 512 < 2 ^ 31" by simp
  then have "unat (OFFSET_TO_BLOCKS pos) =
      unat pos div 512 + (if unat pos mod 512 > 0 then 1 else 0)"
    by (simp add: OFFSET_TO_BLOCKS_def unat_word_ariths unat_div unat_mod word_less_nat_alt)
  also have "\<dots> = (unat pos + 511) div 512" by (rule blocks_round_up)
  finally show ?thesis .
qed

section \<open>Directory entries\<close>

definition FS_MAX_FNAME_SZ :: nat where
  "FS_MAX_FNAME_SZ = 14"

definition SIZEOF_DENTRY :: nat where
  "SIZEOF_DENTRY = 16"

definition DIR_PAGE_ENTRIES :: nat where
  "DIR_PAGE_ENTRIES = BLOCK_SIZE div SIZEOF_DENTRY"

text \<open>A C string in memory is read up to its terminator; \<open>c_streq m s\<close> is the outcome of
  comparing, with \<open>strcmp\<close>, the string that starts \<open>m\<close> with the string \<open>s\<close> (given without its
  terminator).\<close>

fun c_streq :: "byte list \<Rightarrow> byte list \<Rightarrow> bool c" where
  "c_streq [] cs = Inl OutOfBounds"
| "c_streq (b # m) [] = Inr (b = 0)"
| "c_streq (b # m) (c # cs) = (if b = c then c_streq m cs else Inr False)"

fun c_string :: "byte list \<Rightarrow> byte list c" where
  "c_string [] = Inl OutOfBounds"
| "c_string (b # m) = (if b = 0 then Inr [] else c_bind (c_string m) (\<lambda>s. Inr (b # s)))"

definition dentry_inodeid :: "byte list \<Rightarrow> nat \<Rightarrow> u16 c" where
  "dentry_inodeid page i =
     c_bind (mem_read page (i * SIZEOF_DENTRY + FS_MAX_FNAME_SZ) 2) (\<lambda>bs. Inr (of_le16 bs))"

text \<open>\<open>strcpy(entry->name, name); entry->inodeid = ino\<close> for entry \<open>i\<close> of a page.\<close>

definition dentry_set :: "byte list \<Rightarrow> nat \<Rightarrow> byte list \<Rightarrow> u16 \<Rightarrow> byte list c" where
  "dentry_set page i name ino =
     c_bind (mem_write page (i * SIZEOF_DENTRY) (name @ [0])) (\<lambda>page'.
     mem_write page' (i * SIZEOF_DENTRY + FS_MAX_FNAME_SZ) (le16 ino))"

section \<open>Bitmaps\<close>

definition BMAP_SET :: "byte list \<Rightarrow> nat \<Rightarrow> byte list c" where
  "BMAP_SET bmap num =
     c_bind (c_nth bmap (num div 8)) (\<lambda>b.
     c_upd bmap (num div 8) (b OR push_bit (num mod 8) 1))"

definition BMAP_CLR :: "byte list \<Rightarrow> nat \<Rightarrow> byte list c" where
  "BMAP_CLR bmap num =
     c_bind (c_nth bmap (num div 8)) (\<lambda>b.
     c_upd bmap (num div 8) (b AND NOT (push_bit (num mod 8) 1)))"

definition BMAP_ISSET :: "byte list \<Rightarrow> nat \<Rightarrow> bool c" where
  "BMAP_ISSET bmap num =
     c_bind (c_nth bmap (num div 8)) (\<lambda>b. Inr (b AND push_bit (num mod 8) 1 \<noteq> 0))"

function bmap_find_from :: "byte list \<Rightarrow> nat \<Rightarrow> nat \<Rightarrow> nat option c" where
  "bmap_find_from bmap i sz =
     (if i < sz then
        c_bind (BMAP_ISSET bmap i) (\<lambda>used.
        if \<not> used then Inr (Some i) else bmap_find_from bmap (i + 1) sz)
      else Inr None)"
  by pat_completeness auto
termination by (relation "measure (\<lambda>(bmap, i, sz). sz - i)") auto

declare bmap_find_from.simps [simp del]

text \<open>\<open>Some n\<close> is a return value of 1 with \<open>*free = n\<close>.\<close>

definition fsi_bmap_find_free :: "byte list \<Rightarrow> nat \<Rightarrow> nat option c" where
  "fsi_bmap_find_free bmap sz = bmap_find_from bmap 0 sz"

text \<open>The number \<open>n\<close> is in the bitmap.\<close>

definition bmap_has :: "byte list \<Rightarrow> nat \<Rightarrow> bool" where
  "bmap_has bmap n \<longleftrightarrow> n div 8 < length bmap \<and> bit (bmap ! (n div 8)) (n mod 8)"

lemma div8_less: "n < 8 * k \<Longrightarrow> n div 8 < (k :: nat)"
  by (simp add: less_mult_imp_div_less mult.commute)

lemma BMAP_ISSET_ok [c_ok]:
  "n < 8 * length bmap \<Longrightarrow> BMAP_ISSET bmap n = Inr (bmap_has bmap n)"
  using div8_less [of n "length bmap"]
  by (simp add: BMAP_ISSET_def bmap_has_def c_nth_ok and_exp_eq_0_iff_not_bit)

lemma BMAP_SET_ok:
  assumes "n < 8 * length bmap"
  shows "\<exists>bmap'. BMAP_SET bmap n = Inr bmap' \<and> length bmap' = length bmap
    \<and> (\<forall>m. bmap_has bmap' m \<longleftrightarrow> m = n \<or> bmap_has bmap m)"
proof -
  let ?b = "bmap ! (n div 8) OR push_bit (n mod 8) 1"
  have i: "n div 8 < length bmap" using div8_less [OF assms] .
  have "bmap_has (bmap[n div 8 := ?b]) m \<longleftrightarrow> m = n \<or> bmap_has bmap m" for m
  proof (cases "m div 8 = n div 8")
    case True
    then have "m = n \<longleftrightarrow> m mod 8 = n mod 8" by (metis div_mult_mod_eq)
    with True i show ?thesis by (auto simp: bmap_has_def bit_simps)
  qed (auto simp: bmap_has_def)
  then show ?thesis using i by (simp add: BMAP_SET_def c_nth_ok c_upd_ok)
qed

lemma BMAP_CLR_ok:
  assumes "n < 8 * length bmap"
  shows "\<exists>bmap'. BMAP_CLR bmap n = Inr bmap' \<and> length bmap' = length bmap
    \<and> (\<forall>m. bmap_has bmap' m \<longleftrightarrow> m \<noteq> n \<and> bmap_has bmap m)"
proof -
  let ?b = "bmap ! (n div 8) AND NOT (push_bit (n mod 8) 1)"
  have i: "n div 8 < length bmap" using div8_less [OF assms] .
  have "bmap_has (bmap[n div 8 := ?b]) m \<longleftrightarrow> m \<noteq> n \<and> bmap_has bmap m" for m
  proof (cases "m div 8 = n div 8")
    case True
    then have "m = n \<longleftrightarrow> m mod 8 = n mod 8" by (metis div_mult_mod_eq)
    with True i show ?thesis by (auto simp: bmap_has_def bit_simps)
  qed (auto simp: bmap_has_def)
  then show ?thesis using i by (simp add: BMAP_CLR_def c_nth_ok c_upd_ok)
qed

text \<open>The search returns the first free number, or says that there is none; it leaves the bitmap
  only when everything the bitmap can hold is taken and the bound is larger still.\<close>

lemma bmap_find_from_ok:
  assumes "sz \<le> 8 * length bmap"
  shows "bmap_find_from bmap i sz =
     Inr (if \<exists>n. i \<le> n \<and> n < sz \<and> \<not> bmap_has bmap n
          then Some (LEAST n. i \<le> n \<and> \<not> bmap_has bmap n) else None)"
  using assms
proof (induction bmap i sz rule: bmap_find_from.induct)
  case (1 bmap i sz)
  show ?case
  proof (cases "i < sz")
    case False
    then show ?thesis by (subst bmap_find_from.simps) auto
  next
    case True
    with 1 have isset: "BMAP_ISSET bmap i = Inr (bmap_has bmap i)" by (simp add: BMAP_ISSET_ok)
    show ?thesis
    proof (cases "bmap_has bmap i")
      case False
      then have "(LEAST n. i \<le> n \<and> \<not> bmap_has bmap n) = i" by (intro Least_equality) auto
      with False True isset show ?thesis by (subst bmap_find_from.simps) auto
    next
      case True
      have next_n: "(i \<le> n \<and> \<not> bmap_has bmap n) = (i + 1 \<le> n \<and> \<not> bmap_has bmap n)" for n
        using True by (cases "n = i") auto
      have some: "(\<exists>n. i \<le> n \<and> n < sz \<and> \<not> bmap_has bmap n) =
          (\<exists>n. i + 1 \<le> n \<and> n < sz \<and> \<not> bmap_has bmap n)"
        using next_n by blast
      have "bmap_find_from bmap i sz = bmap_find_from bmap (i + 1) sz"
        using \<open>i < sz\<close> isset True by (subst bmap_find_from.simps) simp
      also have "\<dots> = Inr (if \<exists>n. i + 1 \<le> n \<and> n < sz \<and> \<not> bmap_has bmap n
          then Some (LEAST n. i + 1 \<le> n \<and> \<not> bmap_has bmap n) else None)"
        using "1.IH" [OF \<open>i < sz\<close> isset] True "1.prems" by simp
      finally show ?thesis by (simp only: next_n some)
    qed
  qed
qed

section \<open>The inode table in bytes\<close>

text \<open>The functions that load and store the metadata look at the inode table as an array of
  characters. An inode is sixteen 32-bit fields: type, size, ten blocks, four reserved.\<close>

definition inode_bytes :: "fs_inode_t \<Rightarrow> byte list" where
  "inode_bytes ino = concat (map le32 (itype ino # isize ino # iblocks ino @ ireserved ino))"

definition of_inode_bytes :: "byte list \<Rightarrow> fs_inode_t" where
  "of_inode_bytes bs =
     (let field = (\<lambda>k. of_le32 (take 4 (drop (4 * k) bs))) in
      \<lparr>itype = field 0, isize = field 1, iblocks = map field [2..<12],
       ireserved = map field [12..<16]\<rparr>)"

definition itab_bytes :: "fs_inode_t list \<Rightarrow> byte list" where
  "itab_bytes tab = concat (map inode_bytes tab)"

definition of_itab_bytes :: "byte list \<Rightarrow> fs_inode_t list" where
  "of_itab_bytes bs =
     map (\<lambda>i. of_inode_bytes (take SIZEOF_INODE (drop (SIZEOF_INODE * i) bs))) [0..<ITAB_SIZE]"

definition inode_wf :: "fs_inode_t \<Rightarrow> bool" where
  "inode_wf ino \<longleftrightarrow> length (iblocks ino) = INODE_NUM_BLKS \<and> length (ireserved ino) = 4"

lemma length_inode_bytes: "inode_wf ino \<Longrightarrow> length (inode_bytes ino) = SIZEOF_INODE"
  unfolding inode_bytes_def inode_wf_def
  by (subst length_concat_const [where w = 4]) (simp_all add: SIZEOF_INODE_def INODE_NUM_BLKS_def)

lemma of_inode_bytes_inode_bytes:
  assumes "inode_wf ino"
  shows "of_inode_bytes (inode_bytes ino) = ino"
proof -
  let ?fs = "itype ino # isize ino # iblocks ino @ ireserved ino"
  have len: "length (iblocks ino) = 10" "length (ireserved ino) = 4"
    using assms by (simp_all add: inode_wf_def INODE_NUM_BLKS_def)
  have field: "of_le32 (take 4 (drop (4 * k) (inode_bytes ino))) = ?fs ! k" if "k < 16" for k
    unfolding inode_bytes_def using that len
    by (subst take_drop_concat) simp_all
  have blocks: "map (\<lambda>k. ?fs ! k) [2..<12] = iblocks ino"
    by (rule nth_equalityI) (simp_all add: len nth_append del: upt_rec_numeral)
  have reserved: "map (\<lambda>k. ?fs ! k) [12..<16] = ireserved ino"
    by (rule nth_equalityI) (simp_all add: len nth_append del: upt_rec_numeral)
  have fields: "map (\<lambda>k. of_le32 (take 4 (drop (4 * k) (inode_bytes ino)))) [a..<b] =
      map (\<lambda>k. ?fs ! k) [a..<b]" if "b \<le> 16" for a b
    using that by (intro map_cong) (auto simp: field)
  show ?thesis
    using field [of 0] field [of 1] fields [of 12 2] fields [of 16 12] blocks reserved
    by (simp add: of_inode_bytes_def del: upt_rec_numeral)
qed

lemma length_itab_bytes:
  assumes "length tab = ITAB_SIZE" and "list_all inode_wf tab"
  shows "length (itab_bytes tab) = BLOCK_SIZE * ITAB_NUM_BLKS"
proof -
  have "length (itab_bytes tab) = SIZEOF_INODE * length tab"
    unfolding itab_bytes_def using assms(2)
    by (intro length_concat_const) (auto simp: list_all_iff length_inode_bytes)
  then show ?thesis
    by (simp add: assms(1) ITAB_SIZE_def SIZEOF_INODE_def ITAB_NUM_BLKS_def BLOCK_SIZE_def)
qed

lemma of_itab_bytes_itab_bytes:
  assumes "length tab = ITAB_SIZE" and "list_all inode_wf tab"
  shows "of_itab_bytes (itab_bytes tab) = tab"
proof (rule nth_equalityI)
  fix i assume i: "i < length (of_itab_bytes (itab_bytes tab))"
  then have i': "i < length tab" by (simp add: of_itab_bytes_def assms(1))
  have "take SIZEOF_INODE (drop (SIZEOF_INODE * i) (itab_bytes tab)) = inode_bytes (tab ! i)"
    unfolding itab_bytes_def using assms(2) i'
    by (intro take_drop_concat) (auto simp: list_all_iff length_inode_bytes)
  then show "of_itab_bytes (itab_bytes tab) ! i = tab ! i"
    using i' assms by (simp add: of_itab_bytes_def of_inode_bytes_inode_bytes list_all_iff)
qed (simp add: of_itab_bytes_def assms(1))

end
