(* ===== verification/Fs_Ops.thy ===== *)
theory Fs_Ops
  imports Fs_Layout
begin

text \<open>
  The operations of the file system, \<open>src/sofs/fs.c\<close>, function by function.

  Conventions. The first argument \<open>D\<close> is the storage build (\<open>Disk_Interface\<close>); every call of
  \<open>DISK_READ\<close> and \<open>DISK_WRITE\<close> passes the storage on, and the status it returns is ignored
  where the source ignores it. \<open>junk\<close> is what an uninitialised local block holds. A pointer
  argument that the function compares with \<open>NULL\<close> is an \<open>option\<close>; a pointer to a result is
  the value it points to, returned as it is afterwards. File names and paths are byte lists
  without the terminating zero. The \<open>int\<close> counters of the loops never leave the range of
  numbers that both types share and are natural numbers here.
\<close>

section \<open>Metadata\<close>

fun load_itab ::
    "'d disk_ops \<Rightarrow> nat list \<Rightarrow> 'd \<Rightarrow> byte list \<Rightarrow> (byte list \<times> 'd) c" where
  "load_itab D [] d tab = Inr (tab, d)"
| "load_itab D (i # is) d tab =
     c_bind (mem_read tab (i * BLOCK_SIZE) BLOCK_SIZE) (\<lambda>old.
     c_bind (DISK_READ D d (of_nat (i + 2)) old) (\<lambda>(rc, blk, d').
     c_bind (mem_write tab (i * BLOCK_SIZE) blk) (\<lambda>tab'.
     load_itab D is d' tab')))"

definition fsi_load_fsdata :: "'d disk_ops \<Rightarrow> 'd fs_t \<Rightarrow> 'd fs_t c" where
  "fsi_load_fsdata D fs =
     c_bind (DISK_READ D (fs_blocks fs) 0 (blk_bmap fs)) (\<lambda>(rc0, bb, d0).
     c_bind (DISK_READ D d0 1 (inode_bmap fs)) (\<lambda>(rc1, ib, d1).
     c_bind (load_itab D [0..<ITAB_NUM_BLKS] d1 (itab_bytes (inode_tab fs))) (\<lambda>(tab, d2).
     Inr (fs\<lparr>fs_blocks := d2, blk_bmap := bb, inode_bmap := ib,
             inode_tab := of_itab_bytes tab\<rparr>))))"

fun store_itab :: "'d disk_ops \<Rightarrow> nat list \<Rightarrow> 'd \<Rightarrow> byte list \<Rightarrow> 'd c" where
  "store_itab D [] d tab = Inr d"
| "store_itab D (i # is) d tab =
     c_bind (mem_read tab (i * BLOCK_SIZE) BLOCK_SIZE) (\<lambda>blk.
     c_bind (DISK_WRITE D d (of_nat (i + 2)) blk) (\<lambda>(rc, d').
     store_itab D is d' tab))"

definition fsi_store_fsdata :: "'d disk_ops \<Rightarrow> 'd fs_t \<Rightarrow> 'd fs_t c" where
  "fsi_store_fsdata D fs =
     c_bind (DISK_WRITE D (fs_blocks fs) 0 (blk_bmap fs)) (\<lambda>(rc0, d0).
     c_bind (DISK_WRITE D d0 1 (inode_bmap fs)) (\<lambda>(rc1, d1).
     c_bind (store_itab D [0..<ITAB_NUM_BLKS] d1 (itab_bytes (inode_tab fs))) (\<lambda>d2.
     Inr (fs\<lparr>fs_blocks := d2\<rparr>))))"

text \<open>\<open>fs_new\<close>: \<open>mem\<close> is the \<open>malloc\<close>ed structure with whatever it holds, \<open>disk_init\<close> the
  outcome of \<open>DISK_INIT\<close> of the build. The argument \<open>num_blocks\<close> is not used.\<close>

definition fs_new :: "'d disk_ops \<Rightarrow> 'd option c \<Rightarrow> 'd fs_t \<Rightarrow> u32 \<Rightarrow> 'd fs_t c" where
  "fs_new D disk_init mem num_blocks =
     c_bind disk_init (\<lambda>dp.
     c_bind (deref dp) (\<lambda>d.
     fsi_load_fsdata D (mem\<lparr>fs_blocks := d\<rparr>)))"

fun bmap_set_all :: "byte list \<Rightarrow> nat list \<Rightarrow> byte list c" where
  "bmap_set_all bmap [] = Inr bmap"
| "bmap_set_all bmap (n # ns) = c_bind (BMAP_SET bmap n) (\<lambda>bmap'. bmap_set_all bmap' ns)"

text \<open>\<open>fs_format\<close>, built without \<open>FORCE_FS_FORMAT_WITH_SOFS\<close>.\<close>

definition fs_format :: "'d disk_ops \<Rightarrow> 'd fs_t option \<Rightarrow> (int \<times> 'd fs_t option) c" where
  "fs_format D fsp =
     (case fsp of None \<Rightarrow> Inr (-1, None)
      | Some fs \<Rightarrow>
        c_bind (bmap_set_all (blk_bmap fs) ([0, 1] @ map (\<lambda>i. i + 2) [0..<ITAB_NUM_BLKS])) (\<lambda>bb.
        c_bind (bmap_set_all (inode_bmap fs) [0, 1]) (\<lambda>ib.
        c_bind (c_nth (inode_tab fs) 1) (\<lambda>root.
        c_bind (fsi_store_fsdata D (fs\<lparr>blk_bmap := bb, inode_bmap := ib,
                  inode_tab := (inode_tab fs)[1 := fsi_inode_init root FS_DIR]\<rparr>)) (\<lambda>fs'.
        Inr (0, Some fs'))))))"

section \<open>Attributes\<close>

record fs_file_attrs_t =
  at_inodeid :: u16
  at_type :: u32
  at_size :: u32
  at_num_entries :: int

definition fs_get_attrs :: "'d fs_t \<Rightarrow> u16 \<Rightarrow> fs_file_attrs_t \<Rightarrow> (int \<times> fs_file_attrs_t) c" where
  "fs_get_attrs fs file attrs =
     c_bind (BMAP_ISSET (inode_bmap fs) (unat file)) (\<lambda>used.
     if \<not> used then Inr (-1, attrs) else
     c_bind (c_nth (inode_tab fs) (unat file)) (\<lambda>inode.
     let attrs' = attrs\<lparr>at_inodeid := file, at_type := itype inode, at_size := isize inode\<rparr> in
     if itype inode = FS_DIR then
       Inr (0, attrs'\<lparr>at_num_entries := int (unat (isize inode) div SIZEOF_DENTRY)\<rparr>)
     else if itype inode = FS_FILE then Inr (0, attrs'\<lparr>at_num_entries := -1\<rparr>)
     else Inl (ExitCall (-1))))"

section \<open>Searching a directory\<close>

text \<open>The entries of one page from \<open>i\<close> on: \<open>Inl\<close> the inode of the entry with the name, or
  \<open>Inr\<close> the number of entries that are left for the next page.\<close>

function search_page :: "byte list \<Rightarrow> byte list \<Rightarrow> nat \<Rightarrow> nat \<Rightarrow> (u16 + nat) c" where
  "search_page page file i num =
     (if i < DIR_PAGE_ENTRIES \<and> num > 0 then
        c_bind (c_streq (drop (i * SIZEOF_DENTRY) page) file) (\<lambda>eq.
        if eq then c_bind (dentry_inodeid page i) (\<lambda>fid. Inr (Inl fid))
        else search_page page file (i + 1) (num - 1))
      else Inr (Inr num))"
  by pat_completeness auto
termination by (relation "measure (\<lambda>(page, file, i, num). num)") auto

declare search_page.simps [simp del]

text \<open>The pages of a directory from block \<open>iblock\<close> on. Only the ten block references of an inode
  can be indexed, so the loop ends.\<close>

function search_blocks ::
    "'d disk_ops \<Rightarrow> u32 list \<Rightarrow> byte list \<Rightarrow> nat \<Rightarrow> nat \<Rightarrow> byte list \<Rightarrow> 'd \<Rightarrow> (u16 option \<times> 'd) c"
where
  "search_blocks D blocks file iblock num page d =
     (if num > 0 then
        c_bind (c_nth blocks iblock) (\<lambda>b.
        c_bind (DISK_READ D d b page) (\<lambda>(rc, page', d').
        c_bind (search_page page' file 0 num) (\<lambda>r.
        case r of Inl fid \<Rightarrow> Inr (Some fid, d')
        | Inr num' \<Rightarrow> search_blocks D blocks file (iblock + 1) num' page' d')))
      else Inr (None, d))"
  by pat_completeness auto
termination
  by (relation "measure (\<lambda>(D, blocks, file, iblock, num, page, d). length blocks - iblock)")
    (auto simp: c_nth_eq_Inr)

declare search_blocks.simps [simp del]

text \<open>\<open>Some fid\<close> is a return value of 0 with \<open>*fileid = fid\<close>, \<open>None\<close> is -1.\<close>

definition fsi_dir_search ::
    "'d disk_ops \<Rightarrow> byte list \<Rightarrow> 'd fs_t \<Rightarrow> nat \<Rightarrow> byte list \<Rightarrow> (u16 option \<times> 'd fs_t) c" where
  "fsi_dir_search D junk fs dir file =
     c_bind (c_nth (inode_tab fs) dir) (\<lambda>idir.
     c_bind (search_blocks D (iblocks idir) file 0 (unat (isize idir) div SIZEOF_DENTRY) junk
               (fs_blocks fs)) (\<lambda>(r, d).
     Inr (r, fs\<lparr>fs_blocks := d\<rparr>)))"

section \<open>Path lookup\<close>

definition MAX_PATH_NAME_SIZE :: nat where
  "MAX_PATH_NAME_SIZE = 200"

definition SLASH :: byte where
  "SLASH = 0x2F"

text \<open>The tokens that the calls of \<open>strtok\<close> with separator \<open>/\<close> return one after the other; \<open>acc\<close>
  is the token that is being read, backwards.\<close>

fun strtok_tokens :: "byte list \<Rightarrow> byte list \<Rightarrow> byte list list" where
  "strtok_tokens acc [] = (if acc = [] then [] else [rev acc])"
| "strtok_tokens acc (b # s) =
     (if b = SLASH then (if acc = [] then strtok_tokens [] s else rev acc # strtok_tokens [] s)
      else strtok_tokens (b # acc) s)"

fun lookup_loop ::
    "'d disk_ops \<Rightarrow> byte list \<Rightarrow> byte list list \<Rightarrow> 'd fs_t \<Rightarrow> nat \<Rightarrow> u16 \<Rightarrow> (int \<times> u16 \<times> 'd fs_t) c"
where
  "lookup_loop D junk [] fs dir fileid = Inr (1, fileid, fs)"
| "lookup_loop D junk (token # tokens) fs dir fileid =
     c_bind (BMAP_ISSET (inode_bmap fs) dir) (\<lambda>used.
     if \<not> used then Inr (-1, fileid, fs) else
     c_bind (c_nth (inode_tab fs) dir) (\<lambda>idir.
     if itype idir \<noteq> FS_DIR then Inr (-1, fileid, fs) else
     c_bind (fsi_dir_search D junk fs dir token) (\<lambda>(r, fs').
     case r of None \<Rightarrow> Inr (0, fileid, fs')
     | Some fid \<Rightarrow> lookup_loop D junk tokens fs' (unat fid) fid)))"

definition fs_lookup ::
    "'d disk_ops \<Rightarrow> byte list \<Rightarrow> 'd fs_t option \<Rightarrow> byte list option \<Rightarrow> u16 \<Rightarrow>
     (int \<times> u16 \<times> 'd fs_t option) c" where
  "fs_lookup D junk fsp filep fileid =
     (case (fsp, filep) of (Some fs, Some file) \<Rightarrow>
        if file = [] \<or> hd file \<noteq> SLASH then Inr (-1, fileid, fsp)
        else if length file + 1 > MAX_PATH_NAME_SIZE then Inl OutOfBounds
        else c_bind (lookup_loop D junk (strtok_tokens [] file) fs 1 fileid)
               (\<lambda>(rc, fid, fs'). Inr (rc, fid, Some fs'))
      | _ \<Rightarrow> Inr (-1, fileid, fsp))"

section \<open>Reading\<close>

text \<open>The loop of \<open>fs_read\<close>. \<open>mx\<close> is the \<open>int\<close> \<open>max\<close>, \<open>tbl\<close> the variable \<open>tbl_pos\<close>, unassigned at
  first, \<open>block\<close> the local block.\<close>

function fs_read_loop ::
    "'d disk_ops \<Rightarrow> fs_inode_t \<Rightarrow> nat \<Rightarrow> int \<Rightarrow> nat \<Rightarrow> nat \<Rightarrow> nat \<Rightarrow> nat option \<Rightarrow> byte list \<Rightarrow>
     byte list \<Rightarrow> 'd \<Rightarrow> (nat \<times> byte list \<times> 'd) c" where
  "fs_read_loop D ifile offset mx blks_used iblock pos tbl block buffer d =
     (if int pos < mx \<and> iblock < blks_used then
        let tbl' = (if iblock < INODE_NUM_BLKS then Some iblock else tbl) in
        case tbl' of None \<Rightarrow> Inl WildPointer
        | Some t \<Rightarrow>
          c_bind (c_nth (iblocks ifile) t) (\<lambda>b.
          c_bind (DISK_READ D d b block) (\<lambda>(rc, block', d').
          let start = (if pos = 0 then offset mod BLOCK_SIZE else 0);
              num = min (BLOCK_SIZE - start) (nat mx - pos) in
          c_bind (mem_read block' start num) (\<lambda>bytes.
          c_bind (mem_write buffer pos bytes) (\<lambda>buffer'.
          fs_read_loop D ifile offset mx blks_used (iblock + 1) (pos + num) tbl' block'
            buffer' d'))))
      else Inr (pos, buffer, d))"
  by pat_completeness auto
termination
  by (relation "measure (\<lambda>(D, ifile, offset, mx, blks_used, iblock, pos, tbl, block, buffer, d).
        blks_used - iblock)") auto

declare fs_read_loop.simps [simp del]

definition fs_read ::
    "'d disk_ops \<Rightarrow> byte list \<Rightarrow> 'd fs_t option \<Rightarrow> u16 \<Rightarrow> u32 \<Rightarrow> u32 \<Rightarrow> byte list option \<Rightarrow>
     int option \<Rightarrow> (int \<times> 'd fs_t option \<times> byte list option \<times> int option) c" where
  "fs_read D junk fsp file offset count bufferp nreadp =
     (case (fsp, bufferp, nreadp) of (Some fs, Some buffer, Some nread) \<Rightarrow>
        if unat file \<ge> ITAB_SIZE then Inr (-1, fsp, bufferp, nreadp) else
        c_bind (BMAP_ISSET (inode_bmap fs) (unat file)) (\<lambda>used.
        if \<not> used then Inr (-1, fsp, bufferp, nreadp) else
        c_bind (c_nth (inode_tab fs) (unat file)) (\<lambda>ifile.
        if itype ifile \<noteq> FS_FILE then Inr (-1, fsp, bufferp, nreadp) else
        if offset \<ge> isize ifile then Inr (0, fsp, bufferp, Some 0) else
        let iblock = unat offset div BLOCK_SIZE;
            blks_used = unat (OFFSET_TO_BLOCKS (isize ifile));
            mx = sint (min count (isize ifile - offset)) in
        c_bind (fs_read_loop D ifile (unat offset) mx blks_used iblock 0 None junk buffer
                  (fs_blocks fs)) (\<lambda>(pos, buffer', d).
        Inr (0, Some (fs\<lparr>fs_blocks := d\<rparr>), Some buffer', Some (int pos)))))
      | _ \<Rightarrow> Inr (-1, fsp, bufferp, nreadp))"

section \<open>Writing\<close>

text \<open>Reserving blocks for the indices of the list; \<open>blk\<close> is the index that the pointer \<open>blk\<close> has in
  \<open>ifile->blocks\<close>. When no block is free the blocks reserved so far stay reserved.\<close>

fun fs_write_alloc ::
    "nat \<Rightarrow> nat \<Rightarrow> nat list \<Rightarrow> nat option \<Rightarrow> 'd fs_t \<Rightarrow> (int \<times> 'd fs_t) c" where
  "fs_write_alloc bound file [] blk fs = Inr (0, fs)"
| "fs_write_alloc bound file (i # is) blk fs =
     (let blk' = (if i < INODE_NUM_BLKS then Some i else blk) in
      case blk' of None \<Rightarrow> Inl WildPointer
      | Some k \<Rightarrow>
        c_bind (fsi_bmap_find_free (blk_bmap fs) bound) (\<lambda>free.
        case free of None \<Rightarrow> Inr (-1, fs)
        | Some n \<Rightarrow>
          c_bind (c_nth (inode_tab fs) file) (\<lambda>ifile.
          c_bind (c_upd (iblocks ifile) k (of_nat n)) (\<lambda>blocks'.
          c_bind (BMAP_SET (blk_bmap fs) n) (\<lambda>bb.
          fs_write_alloc bound file is blk'
            (fs\<lparr>blk_bmap := bb,
                inode_tab := (inode_tab fs)[file := ifile\<lparr>iblocks := blocks'\<rparr>]\<rparr>))))))"

text \<open>The loop over the blocks that the file had before: read, change, write back.\<close>

function write_within ::
    "'d disk_ops \<Rightarrow> fs_inode_t \<Rightarrow> byte list \<Rightarrow> nat \<Rightarrow> nat \<Rightarrow> nat \<Rightarrow> nat \<Rightarrow> nat \<Rightarrow> nat option \<Rightarrow>
     byte list \<Rightarrow> 'd \<Rightarrow> (nat \<times> nat \<times> nat option \<times> byte list \<times> 'd) c" where
  "write_within D ifile buffer offset count blks_used iblock num pos block d =
     (if num < count \<and> iblock < blks_used then
        let pos' = (if iblock < INODE_NUM_BLKS then Some iblock else pos) in
        case pos' of None \<Rightarrow> Inl WildPointer
        | Some p \<Rightarrow>
          c_bind (c_nth (iblocks ifile) p) (\<lambda>b.
          c_bind (DISK_READ D d b block) (\<lambda>(rc, block', d').
          let start = (if num = 0 then offset mod BLOCK_SIZE else 0);
              k = min (BLOCK_SIZE - start) (count - num) in
          c_bind (mem_read buffer num k) (\<lambda>bytes.
          c_bind (mem_write block' start bytes) (\<lambda>block''.
          c_bind (DISK_WRITE D d' b block'') (\<lambda>(rc', d'').
          write_within D ifile buffer offset count blks_used (iblock + 1) (num + k) pos'
            block'' d'')))))
      else Inr (num, iblock, pos, block, d))"
  by pat_completeness auto
termination
  by (relation "measure (\<lambda>(D, ifile, buffer, offset, count, blks_used, iblock, num, pos, block, d).
        blks_used - iblock)") auto

declare write_within.simps [simp del]

text \<open>The loop over the newly reserved blocks. The local block keeps, behind the data, whatever it
  held before.\<close>

function write_allocated ::
    "'d disk_ops \<Rightarrow> fs_inode_t \<Rightarrow> byte list \<Rightarrow> nat \<Rightarrow> nat \<Rightarrow> nat \<Rightarrow> nat \<Rightarrow> nat option \<Rightarrow>
     byte list \<Rightarrow> 'd \<Rightarrow> (nat \<times> 'd) c" where
  "write_allocated D ifile buffer count blks_end iblock num pos block d =
     (if num < count \<and> iblock < blks_end then
        let pos' = (if iblock < INODE_NUM_BLKS then Some iblock else pos) in
        case pos' of None \<Rightarrow> Inl WildPointer
        | Some p \<Rightarrow>
          let k = min BLOCK_SIZE (count - num) in
          c_bind (mem_read buffer num k) (\<lambda>bytes.
          c_bind (mem_write block 0 bytes) (\<lambda>block'.
          c_bind (c_nth (iblocks ifile) p) (\<lambda>b.
          c_bind (DISK_WRITE D d b block') (\<lambda>(rc, d').
          write_allocated D ifile buffer count blks_end (iblock + 1) (num + k) pos' block' d'))))
      else Inr (num, d))"
  by pat_completeness auto
termination
  by (relation "measure (\<lambda>(D, ifile, buffer, count, blks_end, iblock, num, pos, block, d).
        blks_end - iblock)") auto

declare write_allocated.simps [simp del]

definition fs_write ::
    "'d disk_ops \<Rightarrow> byte list \<Rightarrow> 'd fs_t option \<Rightarrow> u16 \<Rightarrow> u32 \<Rightarrow> u32 \<Rightarrow> byte list option \<Rightarrow>
     (int \<times> 'd fs_t option) c" where
  "fs_write D junk fsp file offset0 count bufferp =
     (case (fsp, bufferp) of (Some fs, Some buffer) \<Rightarrow>
        if unat file \<ge> ITAB_SIZE then Inr (-1, fsp) else
        c_bind (BMAP_ISSET (inode_bmap fs) (unat file)) (\<lambda>used.
        if \<not> used then Inr (-1, fsp) else
        c_bind (c_nth (inode_tab fs) (unat file)) (\<lambda>ifile.
        if itype ifile \<noteq> FS_FILE then Inr (-1, fsp) else
        let offset = (if offset0 > isize ifile then isize ifile else offset0);
            blks_used = unat (OFFSET_TO_BLOCKS (isize ifile));
            blks_req = unat (max (OFFSET_TO_BLOCKS (offset + count))
                                 (OFFSET_TO_BLOCKS (isize ifile))) - blks_used in
        if blks_req > 0 \<and> int blks_req > int INODE_NUM_BLKS - int blks_used
        then Inr (-1, fsp)
        else
          c_bind (fs_write_alloc (unat (DISK_BLOCKS D (fs_blocks fs))) (unat file)
                    [blks_used..<blks_used + blks_req] None fs) (\<lambda>(rc, fs1).
          if rc = -1 then Inr (-1, Some fs1) else
          c_bind (c_nth (inode_tab fs1) (unat file)) (\<lambda>ifile1.
          c_bind (write_within D ifile1 buffer (unat offset) (unat count) blks_used
                    (unat offset div BLOCK_SIZE) 0 None junk (fs_blocks fs1))
            (\<lambda>(num, iblock, pos, block, d1).
          c_bind (write_allocated D ifile1 buffer (unat count) (blks_used + blks_req) iblock num
                    pos block d1) (\<lambda>(num', d2).
          if num' \<noteq> unat count then Inl (ExitCall (-1))
          else
            c_bind (fsi_store_fsdata D (fs1\<lparr>fs_blocks := d2,
                inode_tab := (inode_tab fs1)[unat file :=
                  ifile1\<lparr>isize := max (offset + count) (isize ifile1)\<rparr>]\<rparr>)) (\<lambda>fs2.
            Inr (0, Some fs2))))))))
      | _ \<Rightarrow> Inr (-1, fsp))"

section \<open>Creating files and directories\<close>

text \<open>What \<open>fs_create\<close> and \<open>fs_mkdir\<close> both do between finding a free inode and reserving it: a new
  block for the directory when its last one is full, and the entry itself. \<open>name\<close> is the string
  that is copied into the entry.\<close>

definition add_dir_block :: "'d disk_ops \<Rightarrow> 'd fs_t \<Rightarrow> nat \<Rightarrow> (int \<times> 'd fs_t) c" where
  "add_dir_block D fs dir =
     c_bind (c_nth (inode_tab fs) dir) (\<lambda>idir.
     if unat (isize idir) mod BLOCK_SIZE = 0 then
       c_bind (fsi_bmap_find_free (blk_bmap fs) (unat (DISK_BLOCKS D (fs_blocks fs)))) (\<lambda>free.
       case free of None \<Rightarrow> Inr (-1, fs)
       | Some fblock \<Rightarrow>
         c_bind (BMAP_SET (blk_bmap fs) fblock) (\<lambda>bb.
         c_bind (c_upd (iblocks idir) (unat (isize idir) div BLOCK_SIZE) (of_nat fblock)) (\<lambda>blocks'.
         Inr (0, fs\<lparr>blk_bmap := bb,
                    inode_tab := (inode_tab fs)[dir := idir\<lparr>iblocks := blocks'\<rparr>]\<rparr>))))
     else Inr (0, fs))"

definition add_dir_entry ::
    "'d disk_ops \<Rightarrow> byte list \<Rightarrow> 'd fs_t \<Rightarrow> nat \<Rightarrow> byte list \<Rightarrow> nat \<Rightarrow> 'd fs_t c" where
  "add_dir_entry D junk fs dir name finode =
     c_bind (c_nth (inode_tab fs) dir) (\<lambda>idir.
     c_bind (c_nth (iblocks idir) (unat (isize idir) div BLOCK_SIZE)) (\<lambda>b.
     c_bind (DISK_READ D (fs_blocks fs) b junk) (\<lambda>(rc, page, d).
     c_bind (dentry_set page (unat (isize idir) mod BLOCK_SIZE div SIZEOF_DENTRY) name
               (of_nat finode)) (\<lambda>page'.
     c_bind (DISK_WRITE D d b page') (\<lambda>(rc', d').
     Inr (fs\<lparr>fs_blocks := d',
             inode_tab := (inode_tab fs)[dir := idir\<lparr>isize := isize idir + 16\<rparr>]\<rparr>))))))"

text \<open>Reserving and initialising the new inode and saving the metadata, again in both.\<close>

definition add_inode :: "'d disk_ops \<Rightarrow> 'd fs_t \<Rightarrow> nat \<Rightarrow> u32 \<Rightarrow> 'd fs_t c" where
  "add_inode D fs finode ty =
     c_bind (BMAP_SET (inode_bmap fs) finode) (\<lambda>ib.
     c_bind (c_nth (inode_tab fs) finode) (\<lambda>inode.
     fsi_store_fsdata D (fs\<lparr>inode_bmap := ib,
       inode_tab := (inode_tab fs)[finode := fsi_inode_init inode ty]\<rparr>)))"

text \<open>\<open>fs_create\<close> searches the directory for the whole string \<open>file\<close> but stores \<open>&file[1]\<close>.\<close>

definition fs_create ::
    "'d disk_ops \<Rightarrow> byte list \<Rightarrow> 'd fs_t option \<Rightarrow> u16 \<Rightarrow> byte list option \<Rightarrow> u16 option \<Rightarrow>
     (int \<times> 'd fs_t option \<times> u16 option) c" where
  "fs_create D junk fsp dir filep fileidp =
     (case (fsp, filep, fileidp) of (Some fs, Some file, Some fileid) \<Rightarrow>
        if unat dir \<ge> ITAB_SIZE then Inr (-1, fsp, fileidp) else
        if length file = 0 \<or> length file + 1 > FS_MAX_FNAME_SZ then Inr (-1, fsp, fileidp) else
        c_bind (BMAP_ISSET (inode_bmap fs) (unat dir)) (\<lambda>used.
        if \<not> used then Inr (-1, fsp, fileidp) else
        c_bind (c_nth (inode_tab fs) (unat dir)) (\<lambda>idir.
        if itype idir \<noteq> FS_DIR then Inr (-1, fsp, fileidp) else
        c_bind (fsi_dir_search D junk fs (unat dir) file) (\<lambda>(r, fs1).
        case r of Some fid \<Rightarrow> Inr (-1, Some fs1, Some fid)
        | None \<Rightarrow>
          c_bind (fsi_bmap_find_free (inode_bmap fs1) ITAB_SIZE) (\<lambda>free.
          case free of None \<Rightarrow> Inr (-1, Some fs1, fileidp)
          | Some finode \<Rightarrow>
            c_bind (add_dir_block D fs1 (unat dir)) (\<lambda>(rc, fs2).
            if rc = -1 then Inr (-1, Some fs2, fileidp)
            else
              c_bind (add_dir_entry D junk fs2 (unat dir) (tl file) finode) (\<lambda>fs3.
              c_bind (add_inode D fs3 finode FS_FILE) (\<lambda>fs4.
              Inr (0, Some fs4, Some (of_nat finode)))))))))
      | _ \<Rightarrow> Inr (-1, fsp, fileidp))"

definition fs_mkdir ::
    "'d disk_ops \<Rightarrow> byte list \<Rightarrow> 'd fs_t option \<Rightarrow> u16 \<Rightarrow> byte list option \<Rightarrow> u16 option \<Rightarrow>
     (int \<times> 'd fs_t option \<times> u16 option) c" where
  "fs_mkdir D junk fsp dir newdirp newdiridp =
     (case (fsp, newdirp, newdiridp) of (Some fs, Some newdir, Some newdirid) \<Rightarrow>
        if unat dir \<ge> ITAB_SIZE then Inr (-1, fsp, newdiridp) else
        if length newdir = 0 \<or> length newdir + 1 > FS_MAX_FNAME_SZ
        then Inr (-1, fsp, newdiridp) else
        c_bind (BMAP_ISSET (inode_bmap fs) (unat dir)) (\<lambda>used.
        if \<not> used then Inr (-1, fsp, newdiridp) else
        c_bind (c_nth (inode_tab fs) (unat dir)) (\<lambda>idir.
        if itype idir \<noteq> FS_DIR then Inr (-1, fsp, newdiridp) else
        c_bind (fsi_dir_search D junk fs (unat dir) newdir) (\<lambda>(r, fs1).
        case r of Some fid \<Rightarrow> Inr (-1, Some fs1, Some fid)
        | None \<Rightarrow>
          c_bind (fsi_bmap_find_free (inode_bmap fs1) ITAB_SIZE) (\<lambda>free.
          case free of None \<Rightarrow> Inr (-1, Some fs1, newdiridp)
          | Some finode \<Rightarrow>
            c_bind (add_dir_block D fs1 (unat dir)) (\<lambda>(rc, fs2).
            if rc = -1 then Inr (-1, Some fs2, newdiridp)
            else
              c_bind (add_dir_entry D junk fs2 (unat dir) newdir finode) (\<lambda>fs3.
              c_bind (add_inode D fs3 finode FS_DIR) (\<lambda>fs4.
              Inr (0, Some fs4, Some (of_nat finode)))))))))
      | _ \<Rightarrow> Inr (-1, fsp, newdiridp))"

section \<open>Reading a directory\<close>

text \<open>An \<open>fs_file_name_t\<close> is a name, without its terminator, and a type; the name has to fit in
  14 bytes with the terminator.\<close>

type_synonym fs_file_name_t = "byte list \<times> u32"

function readdir_page ::
    "fs_inode_t list \<Rightarrow> byte list \<Rightarrow> nat \<Rightarrow> nat \<Rightarrow> nat \<Rightarrow> fs_file_name_t list \<Rightarrow>
     (nat \<times> nat \<times> fs_file_name_t list) c" where
  "readdir_page tab page i num ientry entries =
     (if i < DIR_PAGE_ENTRIES \<and> num > 0 then
        c_bind (c_string (drop (i * SIZEOF_DENTRY) page)) (\<lambda>name.
        if length name + 1 > FS_MAX_FNAME_SZ then Inl OutOfBounds else
        c_bind (dentry_inodeid page i) (\<lambda>ino.
        c_bind (c_nth tab (unat ino)) (\<lambda>inode.
        c_bind (c_upd entries ientry (name, itype inode)) (\<lambda>entries'.
        readdir_page tab page (i + 1) (num - 1) (ientry + 1) entries'))))
      else Inr (num, ientry, entries))"
  by pat_completeness auto
termination by (relation "measure (\<lambda>(tab, page, i, num, ientry, entries). num)") auto

declare readdir_page.simps [simp del]

function readdir_blocks ::
    "'d disk_ops \<Rightarrow> fs_inode_t list \<Rightarrow> u32 list \<Rightarrow> nat \<Rightarrow> nat \<Rightarrow> nat \<Rightarrow> fs_file_name_t list \<Rightarrow>
     byte list \<Rightarrow> 'd \<Rightarrow> (nat \<times> fs_file_name_t list \<times> 'd) c" where
  "readdir_blocks D tab blocks iblock num ientry entries page d =
     (if num > 0 then
        c_bind (c_nth blocks iblock) (\<lambda>b.
        c_bind (DISK_READ D d b page) (\<lambda>(rc, page', d').
        c_bind (readdir_page tab page' 0 num ientry entries) (\<lambda>(num', ientry', entries').
        readdir_blocks D tab blocks (iblock + 1) num' ientry' entries' page' d')))
      else Inr (ientry, entries, d))"
  by pat_completeness auto
termination
  by (relation "measure (\<lambda>(D, tab, blocks, iblock, num, ientry, entries, page, d).
        length blocks - iblock)") (auto simp: c_nth_eq_Inr)

declare readdir_blocks.simps [simp del]

definition fs_readdir ::
    "'d disk_ops \<Rightarrow> byte list \<Rightarrow> 'd fs_t option \<Rightarrow> u16 \<Rightarrow> fs_file_name_t list option \<Rightarrow> int \<Rightarrow>
     int option \<Rightarrow> (int \<times> 'd fs_t option \<times> fs_file_name_t list option \<times> int option) c" where
  "fs_readdir D junk fsp dir entriesp maxentries numentriesp =
     (case (fsp, entriesp, numentriesp) of (Some fs, Some entries, Some numentries) \<Rightarrow>
        if unat dir \<ge> ITAB_SIZE \<or> maxentries < 0 then Inr (-1, fsp, entriesp, numentriesp) else
        c_bind (BMAP_ISSET (inode_bmap fs) (unat dir)) (\<lambda>used.
        if \<not> used then Inr (-1, fsp, entriesp, numentriesp) else
        c_bind (c_nth (inode_tab fs) (unat dir)) (\<lambda>idir.
        if itype idir \<noteq> FS_DIR then Inr (-1, fsp, entriesp, numentriesp) else
        let num = min (unat (isize idir) div SIZEOF_DENTRY) (nat maxentries) in
        c_bind (readdir_blocks D (inode_tab fs) (iblocks idir) 0 num 0 entries junk (fs_blocks fs))
          (\<lambda>(ientry, entries', d).
        Inr (0, Some (fs\<lparr>fs_blocks := d\<rparr>), Some entries', Some (int ientry)))))
      | _ \<Rightarrow> Inr (-1, fsp, entriesp, numentriesp))"

section \<open>Truncating\<close>

fun truncate_loop :: "nat list \<Rightarrow> u32 list \<Rightarrow> byte list \<Rightarrow> byte list c" where
  "truncate_loop [] blocks bmap = Inr bmap"
| "truncate_loop (i # is) blocks bmap =
     c_bind (c_nth blocks i) (\<lambda>b.
     c_bind (BMAP_CLR bmap (unat b)) (\<lambda>bmap'.
     truncate_loop is blocks bmap'))"

definition fs_truncate :: "'d fs_t option \<Rightarrow> u16 \<Rightarrow> (int \<times> 'd fs_t option) c" where
  "fs_truncate fsp file =
     c_bind (deref fsp) (\<lambda>fs.
     c_bind (c_nth (inode_tab fs) (unat file)) (\<lambda>ifile.
     if itype ifile \<noteq> FS_FILE then Inr (-1, fsp) else
     c_bind (truncate_loop [0..<unat (OFFSET_TO_BLOCKS (isize ifile))] (iblocks ifile) (blk_bmap fs))
       (\<lambda>bb.
     Inr (0, Some (fs\<lparr>blk_bmap := bb,
       inode_tab := (inode_tab fs)[unat file := ifile\<lparr>isize := 0\<rparr>]\<rparr>)))))"

end
