(* ===== verification/Fs_Spec.thy ===== *)
theory Fs_Spec
  imports Fs_Ops
begin

text \<open>
  What the file system promises, and the invariant that keeps the promise.

  \<open>fs_abs\<close> reads a state of the file system as a map from inode numbers to nodes: a file is
  its bytes, a directory its list of entries. \<open>fs_inv\<close> is the invariant of the concrete state:
  the metadata is well formed, the blocks of all files and directories are reserved, lie on the
  disk behind the metadata and belong to one inode each, and directory pages hold terminated
  names of existing inodes. The lemmas of the first section say how these depend on the parts of the
  state that the operations change.
\<close>

section \<open>The abstract file system\<close>

datatype node = FileNode "byte list" | DirNode "(byte list \<times> u16) list"

type_synonym abs_fs = "nat \<Rightarrow> node option"

text \<open>Replacing the bytes from a position on, and extending the file when they reach past its
  end.\<close>

definition overwrite :: "byte list \<Rightarrow> nat \<Rightarrow> byte list \<Rightarrow> byte list" where
  "overwrite bs off new = take off bs @ new @ drop (off + length new) bs"

text \<open>Walking down a path from a directory.\<close>

fun abs_walk :: "abs_fs \<Rightarrow> nat \<Rightarrow> byte list list \<Rightarrow> nat option" where
  "abs_walk a i [] = Some i"
| "abs_walk a i (name # path) =
     (case a i of Some (DirNode es) \<Rightarrow>
        (case map_of es name of Some j \<Rightarrow> abs_walk a (unat j) path | None \<Rightarrow> None)
      | _ \<Rightarrow> None)"

section \<open>Reading a state\<close>

definition live :: "'d fs_t \<Rightarrow> nat \<Rightarrow> bool" where
  "live fs i \<longleftrightarrow> i < ITAB_SIZE \<and> bmap_has (inode_bmap fs) i
     \<and> itype (inode_tab fs ! i) \<in> {FS_DIR, FS_FILE}"

definition fsize :: "'d fs_t \<Rightarrow> nat \<Rightarrow> nat" where
  "fsize fs i = unat (isize (inode_tab fs ! i))"

definition nblocks :: "'d fs_t \<Rightarrow> nat \<Rightarrow> nat" where
  "nblocks fs i = (fsize fs i + 511) div 512"

definition fblk :: "'d fs_t \<Rightarrow> nat \<Rightarrow> nat \<Rightarrow> nat" where
  "fblk fs i k = unat (iblocks (inode_tab fs ! i) ! k)"

definition fbyte :: "'d disk_view \<Rightarrow> 'd fs_t \<Rightarrow> nat \<Rightarrow> nat \<Rightarrow> byte" where
  "fbyte V fs i p = dv_block V (fs_blocks fs) (fblk fs i (p div 512)) ! (p mod 512)"

definition content :: "'d disk_view \<Rightarrow> 'd fs_t \<Rightarrow> nat \<Rightarrow> byte list" where
  "content V fs i = map (fbyte V fs i) [0..<fsize fs i]"

text \<open>The entries of a directory, from its bytes.\<close>

definition dentry_at :: "byte list \<Rightarrow> nat \<Rightarrow> byte list \<times> u16" where
  "dentry_at bs e = (takeWhile (\<lambda>b. b \<noteq> 0) (take 14 (drop (16 * e) bs)),
     of_le16 (take 2 (drop (16 * e + 14) bs)))"

definition dentries :: "byte list \<Rightarrow> (byte list \<times> u16) list" where
  "dentries bs = map (dentry_at bs) [0..<length bs div 16]"

definition fs_abs :: "'d disk_view \<Rightarrow> 'd fs_t \<Rightarrow> abs_fs" where
  "fs_abs V fs i =
     (if live fs i then
        Some (if itype (inode_tab fs ! i) = FS_DIR then DirNode (dentries (content V fs i))
              else FileNode (content V fs i))
      else None)"

section \<open>The invariant\<close>

text \<open>The parts of the state have the sizes of the C structure, and the disk is usable.\<close>

definition fs_shape :: "'d disk_view \<Rightarrow> 'd fs_t \<Rightarrow> bool" where
  "fs_shape V fs \<longleftrightarrow> dv_ok V (fs_blocks fs) \<and> 10 \<le> dv_cap V (fs_blocks fs)
     \<and> length (blk_bmap fs) = BLOCK_SIZE \<and> length (inode_bmap fs) = BLOCK_SIZE
     \<and> length (inode_tab fs) = ITAB_SIZE \<and> list_all inode_wf (inode_tab fs)"

text \<open>\<open>owns fs K\<close>: the first \<open>K i\<close> block references of every live inode \<open>i\<close> are valid, and no block
  is referenced twice.\<close>

definition owns :: "'d disk_view \<Rightarrow> 'd fs_t \<Rightarrow> (nat \<Rightarrow> nat) \<Rightarrow> bool" where
  "owns V fs K \<longleftrightarrow> (\<forall>n < 10. bmap_has (blk_bmap fs) n)
     \<and> (\<forall>i k. live fs i \<longrightarrow> k < K i \<longrightarrow> 10 \<le> fblk fs i k
          \<and> fblk fs i k < dv_cap V (fs_blocks fs) \<and> bmap_has (blk_bmap fs) (fblk fs i k))
     \<and> (\<forall>i k j l. live fs i \<longrightarrow> k < K i \<longrightarrow> live fs j \<longrightarrow> l < K j \<longrightarrow>
          fblk fs i k = fblk fs j l \<longrightarrow> i = j \<and> k = l)"

definition used_inodes :: "'d fs_t \<Rightarrow> nat set" where
  "used_inodes fs = {i. i < ITAB_SIZE \<and> bmap_has (inode_bmap fs) i}"

text \<open>The pages of a directory: terminated names, existing inodes; and there are no more entries
  than inodes in use, so that a directory never outgrows the block table of its inode.\<close>

definition dir_ok :: "'d disk_view \<Rightarrow> 'd fs_t \<Rightarrow> nat \<Rightarrow> bool" where
  "dir_ok V fs i \<longleftrightarrow> fsize fs i mod 16 = 0
     \<and> fsize fs i div 16 \<le> card (used_inodes fs)
     \<and> (\<forall>e < fsize fs i div 16. 0 \<in> set (take 14 (drop (16 * e) (content V fs i)))
          \<and> live fs (unat (snd (dentry_at (content V fs i) e))))"

definition fs_inv :: "'d disk_view \<Rightarrow> 'd fs_t \<Rightarrow> bool" where
  "fs_inv V fs \<longleftrightarrow> fs_shape V fs \<and> owns V fs (nblocks fs)
     \<and> bmap_has (inode_bmap fs) 0 \<and> live fs 1 \<and> itype (inode_tab fs ! 1) = FS_DIR
     \<and> (\<forall>i. live fs i \<longrightarrow> nblocks fs i \<le> INODE_NUM_BLKS)
     \<and> (\<forall>i. live fs i \<longrightarrow> itype (inode_tab fs ! i) = FS_DIR \<longrightarrow> dir_ok V fs i)"

section \<open>What the parts depend on\<close>

lemma length_content [simp]: "length (content V fs i) = fsize fs i"
  by (simp add: content_def)

lemma nth_content: "p < fsize fs i \<Longrightarrow> content V fs i ! p = fbyte V fs i p"
  by (simp add: content_def)

lemma block_of_byte: "p < fsize fs i \<Longrightarrow> p div 512 < nblocks fs i"
proof -
  assume "p < fsize fs i"
  then have "p div 512 \<le> (fsize fs i - 1) div 512" by (intro div_le_mono) simp
  also have "\<dots> < (fsize fs i + 511) div 512"
    using \<open>p < fsize fs i\<close> by (simp add: div_if [of "fsize fs i + 511" 512])
  finally show ?thesis by (simp add: nblocks_def)
qed

lemma nblocks_bound: "nblocks fs i \<le> INODE_NUM_BLKS \<longleftrightarrow> fsize fs i \<le> 5120"
  by (simp add: nblocks_def INODE_NUM_BLKS_def) arith

text \<open>The abstract state, the ownership of blocks and the directory pages each look at a part of
  the concrete state only.\<close>

lemma content_cong:
  assumes "fsize fs' i = fsize fs i"
    and "\<And>k. k < nblocks fs i \<Longrightarrow>
      dv_block V (fs_blocks fs') (fblk fs' i k) = dv_block V (fs_blocks fs) (fblk fs i k)"
  shows "content V fs' i = content V fs i"
  using assms block_of_byte [of _ fs i] by (simp add: content_def fbyte_def)

lemma owns_cong:
  assumes "blk_bmap fs' = blk_bmap fs" and "dv_cap V (fs_blocks fs') = dv_cap V (fs_blocks fs)"
    and "\<And>i k. live fs' i \<Longrightarrow> k < K' i \<Longrightarrow>
      live fs i \<and> k < K i \<and> fblk fs' i k = fblk fs i k"
    and "owns V fs K"
  shows "owns V fs' K'"
  using assms(1,2,4) assms(3) unfolding owns_def by (smt (verit, best))

lemma ownsD:
  assumes "owns V fs K" and "live fs i" and "k < K i"
  shows "10 \<le> fblk fs i k" and "fblk fs i k < dv_cap V (fs_blocks fs)"
    and "bmap_has (blk_bmap fs) (fblk fs i k)"
  using assms by (auto simp: owns_def)

lemma owns_inj:
  "owns V fs K \<Longrightarrow> live fs i \<Longrightarrow> k < K i \<Longrightarrow> live fs j \<Longrightarrow> l < K j \<Longrightarrow>
     fblk fs i k = fblk fs j l \<Longrightarrow> i = j \<and> k = l"
  unfolding owns_def by blast

lemma fs_shapeD:
  assumes "fs_shape V fs"
  shows "dv_ok V (fs_blocks fs)" and "10 \<le> dv_cap V (fs_blocks fs)"
    and "length (blk_bmap fs) = 512" and "length (inode_bmap fs) = 512"
    and "length (inode_tab fs) = 64" and "list_all inode_wf (inode_tab fs)"
  using assms by (simp_all add: fs_shape_def BLOCK_SIZE_def ITAB_SIZE_def ITAB_NUM_BLKS_def
      SIZEOF_INODE_def)

lemma ITAB_SIZE_64 [simp]: "ITAB_SIZE = 64"
  by (simp add: ITAB_SIZE_def ITAB_NUM_BLKS_def BLOCK_SIZE_def SIZEOF_INODE_def)

lemma owned_blocks:
  assumes "owns V fs K" and "live fs i"
  shows "inj_on (fblk fs i) {..<K i}" and "\<forall>k < K i. fblk fs i k < dv_cap V (fs_blocks fs)"
  using assms owns_inj [OF assms(1) assms(2) _ assms(2)] ownsD [OF assms] by (auto intro: inj_onI)

lemma live_inode:
  assumes "fs_shape V fs" and "live fs i"
  shows "i < 64" and "inode_wf (inode_tab fs ! i)"
  using assms fs_shapeD [OF assms(1)] by (auto simp: live_def list_all_length)

text \<open>What a node of the abstract file system says of the inode.\<close>

lemma fs_abs_FileD:
  assumes "fs_abs V fs i = Some (FileNode bs)"
  shows "live fs i" and "itype (inode_tab fs ! i) = FS_FILE" and "content V fs i = bs"
    and "fsize fs i = length bs" and "nblocks fs i = (length bs + 511) div 512"
proof -
  show "live fs i" "itype (inode_tab fs ! i) = FS_FILE" and con: "content V fs i = bs"
    using assms by (auto simp: fs_abs_def live_def split: if_splits)
  show "fsize fs i = length bs" "nblocks fs i = (length bs + 511) div 512"
    using con by (auto simp: nblocks_def)
qed

lemma fs_abs_DirD:
  assumes "fs_abs V fs i = Some (DirNode es)"
  shows "live fs i" and "itype (inode_tab fs ! i) = FS_DIR" and "dentries (content V fs i) = es"
    and "length es = fsize fs i div 16"
proof -
  show "live fs i" "itype (inode_tab fs ! i) = FS_DIR" and con: "dentries (content V fs i) = es"
    using assms by (auto simp: fs_abs_def split: if_splits)
  show "length es = fsize fs i div 16" by (simp add: dentries_def flip: con)
qed

lemma fs_abs_fresh: "\<not> bmap_has (inode_bmap fs) n \<Longrightarrow> fs_abs V fs n = None"
  by (simp add: fs_abs_def live_def)

section \<open>Saving and loading the metadata\<close>

text \<open>The device is still usable and of the same size.\<close>

definition dev_same :: "'d disk_ops \<Rightarrow> 'd disk_view \<Rightarrow> 'd \<Rightarrow> 'd \<Rightarrow> bool" where
  "dev_same D V d d' \<longleftrightarrow> dv_ok V d' \<and> dv_cap V d' = dv_cap V d \<and> DISK_BLOCKS D d' = DISK_BLOCKS D d"

lemma dev_same_trans: "dev_same D V d d' \<Longrightarrow> dev_same D V d' d'' \<Longrightarrow> dev_same D V d d''"
  by (simp add: dev_same_def)

text \<open>What is on the disk is what a state says.\<close>

definition itab_block :: "fs_inode_t list \<Rightarrow> nat \<Rightarrow> byte list" where
  "itab_block tab i = take 512 (drop (i * 512) (itab_bytes tab))"

definition meta_block :: "'d fs_t \<Rightarrow> nat \<Rightarrow> byte list" where
  "meta_block fs n = (if n = 0 then blk_bmap fs else if n = 1 then inode_bmap fs
     else itab_block (inode_tab fs) (n - 2))"

definition synced :: "'d disk_view \<Rightarrow> 'd fs_t \<Rightarrow> bool" where
  "synced V fs \<longleftrightarrow> (\<forall>n < 10. dv_block V (fs_blocks fs) n = meta_block fs n)"

context disk
begin

lemma disk_writeE:
  assumes "dv_ok V d" and "unat n < dv_cap V d" and "length buf = 512"
  obtains d' where "DISK_WRITE D d n buf = Inr (0, d')" and "dev_same D V d d'"
    and "\<And>i. i < dv_cap V d \<Longrightarrow> dv_block V d' i = (if i = unat n then buf else dv_block V d i)"
  using disk_write [of d n buf] assms by (auto simp: dev_same_def BLOCK_SIZE_def)

lemma store_itab_ok:
  assumes "dv_ok V d" and "10 \<le> dv_cap V d" and "length tab = 4096" and "set is \<subseteq> {..<8}"
  shows "\<exists>d'. store_itab D is d tab = Inr d' \<and> dev_same D V d d'
    \<and> (\<forall>n < dv_cap V d. dv_block V d' n =
        (if n \<in> (\<lambda>i. i + 2) ` set is then take 512 (drop ((n - 2) * 512) tab) else dv_block V d n))"
  using assms
proof (induction "is" arbitrary: d)
  case Nil
  then show ?case by (simp add: dev_same_def)
next
  case (Cons i "is")
  let ?blk = "take 512 (drop (i * 512) tab)"
  have i: "i < 8" using Cons.prems by simp
  have no: "unat (of_nat (i + 2) :: u32) = i + 2" using i by (intro unat_of_nat_u32) simp
  have len: "length ?blk = 512" using i Cons.prems(3) by simp
  obtain d1 where w: "DISK_WRITE D d (of_nat (i + 2)) ?blk = Inr (0, d1)" "dev_same D V d d1"
    and b: "\<And>n. n < dv_cap V d \<Longrightarrow> dv_block V d1 n = (if n = i + 2 then ?blk else dv_block V d n)"
    using disk_writeE [of d "of_nat (i + 2)" ?blk] Cons.prems(1,2) i len unfolding no by auto
  obtain d' where "store_itab D is d1 tab = Inr d'" "dev_same D V d1 d'"
    and "\<forall>n < dv_cap V d. dv_block V d' n =
        (if n \<in> (\<lambda>i. i + 2) ` set is then take 512 (drop ((n - 2) * 512) tab) else dv_block V d1 n)"
    using Cons.IH [of d1] Cons.prems w(2) by (auto simp: dev_same_def)
  then show ?case
    using w b i Cons.prems(3) dev_same_trans [OF w(2)] by (auto simp: mem_read_ok BLOCK_SIZE_def)
qed

lemma length_itab_bytes_shape: "fs_shape V fs \<Longrightarrow> length (itab_bytes (inode_tab fs)) = 4096"
  using length_itab_bytes [of "inode_tab fs"] fs_shapeD [of V fs]
  by (simp add: BLOCK_SIZE_def ITAB_NUM_BLKS_def)

lemma meta_range: "n \<in> (\<lambda>i. i + 2) ` {0..<8} \<longleftrightarrow> 2 \<le> n \<and> n < (10 :: nat)"
  by (auto intro: image_eqI [of _ _ "n - 2"])

lemma store_ok:
  assumes "fs_shape V fs"
  shows "\<exists>d'. fsi_store_fsdata D fs = Inr (fs\<lparr>fs_blocks := d'\<rparr>) \<and> dev_same D V (fs_blocks fs) d'
    \<and> (\<forall>n < dv_cap V (fs_blocks fs). dv_block V d' n =
        (if n < 10 then meta_block fs n else dv_block V (fs_blocks fs) n))"
proof -
  note sh = fs_shapeD [OF assms]
  let ?d = "fs_blocks fs"
  obtain d0 where d0: "DISK_WRITE D ?d 0 (blk_bmap fs) = Inr (0, d0)" "dev_same D V ?d d0"
    and b0: "\<And>n. n < dv_cap V ?d \<Longrightarrow> dv_block V d0 n = (if n = 0 then blk_bmap fs else dv_block V ?d n)"
    using disk_writeE [of ?d 0 "blk_bmap fs"] sh by auto
  obtain d1 where d1: "DISK_WRITE D d0 1 (inode_bmap fs) = Inr (0, d1)" "dev_same D V d0 d1"
    and b1: "\<And>n. n < dv_cap V ?d \<Longrightarrow> dv_block V d1 n = (if n = 1 then inode_bmap fs else dv_block V d0 n)"
    using disk_writeE [of d0 1 "inode_bmap fs"] sh d0(2) by (auto simp: dev_same_def)
  have dev: "dev_same D V ?d d1" using d0 d1 by (blast intro: dev_same_trans)
  have sub: "set [0..<8] \<subseteq> {..<8 :: nat}" by auto
  obtain d2 where d2: "store_itab D [0..<8] d1 (itab_bytes (inode_tab fs)) = Inr d2"
      "dev_same D V d1 d2"
    and b2: "\<forall>n < dv_cap V d1. dv_block V d2 n = (if n \<in> (\<lambda>i. i + 2) ` set [0..<8]
        then take 512 (drop ((n - 2) * 512) (itab_bytes (inode_tab fs))) else dv_block V d1 n)"
    using store_itab_ok [of d1 "itab_bytes (inode_tab fs)" "[0..<8]", OF _ _ _ sub] dev sh
      length_itab_bytes_shape [OF assms]
    unfolding dev_same_def by (metis (no_types, lifting))
  have blocks: "dv_block V d2 n = (if n < 10 then meta_block fs n else dv_block V ?d n)"
    if "n < dv_cap V ?d" for n
    using b0 [OF that] b1 [OF that] b2 that dev meta_range [of n]
    by (auto simp: meta_block_def itab_block_def dev_same_def)
  have "fsi_store_fsdata D fs = Inr (fs\<lparr>fs_blocks := d2\<rparr>)"
    using d0 d1 d2 by (simp add: fsi_store_fsdata_def ITAB_NUM_BLKS_def del: upt_rec_numeral)
  with blocks dev_same_trans [OF dev d2(2)] show ?thesis by blast
qed

text \<open>Loading fills the table block by block.\<close>

lemma load_itab_ok:
  assumes "dv_ok V d" and "10 \<le> dv_cap V d" and "length tab = 4096" and "set is \<subseteq> {..<8}"
  shows "\<exists>tab'. load_itab D is d tab = Inr (tab', d) \<and> length tab' = 4096
    \<and> (\<forall>i < 8. take 512 (drop (i * 512) tab') =
        (if i \<in> set is then dv_block V d (i + 2) else take 512 (drop (i * 512) tab)))"
  using assms
proof (induction "is" arbitrary: tab)
  case Nil
  then show ?case by simp
next
  case (Cons i "is")
  let ?old = "take 512 (drop (i * 512) tab)" and ?blk = "dv_block V d (i + 2)"
  have i: "i < 8" using Cons.prems by simp
  have no: "unat (of_nat (i + 2) :: u32) = i + 2" using i by (intro unat_of_nat_u32) simp
  have rd: "DISK_READ D d (of_nat (i + 2)) ?old = Inr (0, ?blk, d)"
    using disk_read [of d "of_nat (i + 2)" ?old] Cons.prems(1,2,3) i
    unfolding no by (simp add: BLOCK_SIZE_def)
  have len: "length ?blk = 512"
    using disk_block_length [of d "i + 2"] Cons.prems(1,2) i by (simp add: BLOCK_SIZE_def)
  obtain tab1 where w: "mem_write tab (i * 512) ?blk = Inr tab1"
    using len i Cons.prems(3) by (simp add: mem_write_def)
  have l1: "length tab1 = 4096" using length_mem_write [OF w] Cons.prems(3) by simp
  have slice: "take 512 (drop (j * 512) tab1) = (if j = i then ?blk else take 512 (drop (j * 512) tab))"
    if "j < 8" for j
  proof (cases "j = i")
    case True
    then show ?thesis using mem_read_write_same [OF w] i l1 len by (simp add: mem_read_ok)
  next
    case False
    then have "j * 512 + 512 \<le> i * 512 \<or> i * 512 + length ?blk \<le> j * 512" using len by auto
    from mem_read_write_disjoint [OF w this] show ?thesis
      using that False l1 Cons.prems(3) by (simp add: mem_read_ok)
  qed
  obtain tab' where "load_itab D is d tab1 = Inr (tab', d)" "length tab' = 4096"
    and "\<forall>i < 8. take 512 (drop (i * 512) tab') =
        (if i \<in> set is then dv_block V d (i + 2) else take 512 (drop (i * 512) tab1))"
    using Cons.IH [of tab1] Cons.prems l1 by auto
  then show ?case using rd w i Cons.prems(3) slice by (auto simp: mem_read_ok BLOCK_SIZE_def)
qed

lemma load_ok:
  assumes "fs_shape V fs" and "synced V fs" and "fs_shape V mem" and "fs_blocks mem = fs_blocks fs"
  shows "fsi_load_fsdata D mem = Inr fs"
proof -
  let ?d = "fs_blocks fs"
  note sh = fs_shapeD [OF assms(1)] and shm = fs_shapeD [OF assms(3)]
  have blk: "dv_block V ?d n = meta_block fs n" if "n < 10" for n
    using assms(2) that by (simp add: synced_def)
  have r0: "DISK_READ D ?d 0 (blk_bmap mem) = Inr (0, blk_bmap fs, ?d)"
    using disk_read [of ?d 0 "blk_bmap mem"] sh shm blk [of 0]
    by (simp add: BLOCK_SIZE_def meta_block_def)
  have r1: "DISK_READ D ?d 1 (inode_bmap mem) = Inr (0, inode_bmap fs, ?d)"
    using disk_read [of ?d 1 "inode_bmap mem"] sh shm blk [of 1]
    by (simp add: BLOCK_SIZE_def meta_block_def)
  have sub: "set [0..<8] \<subseteq> {..<8 :: nat}" by auto
  obtain tab where tab: "load_itab D [0..<8] ?d (itab_bytes (inode_tab mem)) = Inr (tab, ?d)"
      "length tab = 4096"
    and slice: "\<forall>i < 8. take 512 (drop (i * 512) tab) = (if i \<in> set [0..<8]
        then dv_block V ?d (i + 2) else take 512 (drop (i * 512) (itab_bytes (inode_tab mem))))"
    using load_itab_ok [of ?d "itab_bytes (inode_tab mem)" "[0..<8]", OF _ _ _ sub] sh
      length_itab_bytes_shape [OF assms(3)] by blast
  have len: "length (itab_bytes (inode_tab fs)) = 512 * 8"
    using length_itab_bytes_shape [OF assms(1)] by simp
  have "tab = concat (map (\<lambda>i. take 512 (drop (i * 512) tab)) [0..<8])"
    using concat_take_drop [of tab 512 8] tab(2) by simp
  also have "map (\<lambda>i. take 512 (drop (i * 512) tab)) [0..<8] =
      map (\<lambda>i. take 512 (drop (i * 512) (itab_bytes (inode_tab fs)))) [0..<8]"
    using slice blk by (intro map_cong) (auto simp: meta_block_def itab_block_def)
  also have "concat \<dots> = itab_bytes (inode_tab fs)" by (rule concat_take_drop [OF len])
  finally have "of_itab_bytes tab = inode_tab fs"
    using of_itab_bytes_itab_bytes sh by simp
  with r0 r1 tab(1) assms(4) show ?thesis
    by (simp add: fsi_load_fsdata_def ITAB_NUM_BLKS_def del: upt_rec_numeral)
qed

end

section \<open>Keeping the invariant\<close>

lemma dir_ok_cong:
  assumes "fsize fs' i = fsize fs i" and "content V fs' i = content V fs i"
    and "\<And>j. live fs j \<Longrightarrow> live fs' j" and "card (used_inodes fs) \<le> card (used_inodes fs')"
    and "dir_ok V fs i"
  shows "dir_ok V fs' i"
  using assms unfolding dir_ok_def by auto

lemma fs_invD:
  assumes "fs_inv V fs"
  shows "fs_shape V fs" and "owns V fs (nblocks fs)" and "bmap_has (inode_bmap fs) 0"
    and "live fs 1" and "itype (inode_tab fs ! 1) = FS_DIR"
    and "live fs i \<Longrightarrow> nblocks fs i \<le> 10" and "live fs i \<Longrightarrow> fsize fs i \<le> 5120"
    and "live fs i \<Longrightarrow> itype (inode_tab fs ! i) = FS_DIR \<Longrightarrow> dir_ok V fs i"
  using assms nblocks_bound [of fs i] by (auto simp: fs_inv_def INODE_NUM_BLKS_def)

text \<open>Changes of the device that leave the blocks of files and directories alone.\<close>

lemma fs_inv_dev:
  assumes "fs_inv V fs" and "dev_same D V (fs_blocks fs) d"
    and "\<And>i k. live fs i \<Longrightarrow> k < nblocks fs i \<Longrightarrow>
      dv_block V d (fblk fs i k) = dv_block V (fs_blocks fs) (fblk fs i k)"
  shows "fs_inv V (fs\<lparr>fs_blocks := d\<rparr>)" and "fs_abs V (fs\<lparr>fs_blocks := d\<rparr>) = fs_abs V fs"
proof -
  let ?fs' = "fs\<lparr>fs_blocks := d\<rparr>"
  note inv = fs_invD [OF assms(1)]
  have same: "live ?fs' j = live fs j" "fsize ?fs' j = fsize fs j" "nblocks ?fs' j = nblocks fs j"
    "fblk ?fs' j = fblk fs j" "used_inodes ?fs' = used_inodes fs" for j
    by (auto simp: live_def fsize_def nblocks_def fblk_def used_inodes_def)
  have con: "content V ?fs' j = content V fs j" if "live fs j" for j
    using assms(3) [OF that] by (intro content_cong) (simp_all add: same)
  show "fs_abs V ?fs' = fs_abs V fs" by (rule ext) (simp add: fs_abs_def same con)
  have shape: "fs_shape V ?fs'" using inv(1) assms(2) by (auto simp: fs_shape_def dev_same_def)
  have owns: "owns V ?fs' (nblocks ?fs')"
    using inv(2) assms(2) by (intro owns_cong [of ?fs' fs V _ "nblocks fs"])
      (auto simp: same dev_same_def)
  have "dir_ok V ?fs' j" if "live fs j" "itype (inode_tab fs ! j) = FS_DIR" for j
    using inv(8) [OF that] con [OF that(1)] by (intro dir_ok_cong [of ?fs' j fs V]) (simp_all add: same)
  then show "fs_inv V ?fs'"
    using assms(1) shape owns by (simp add: fs_inv_def same)
qed

context disk
begin

text \<open>Saving the metadata keeps everything and makes the disk agree with the state.\<close>

lemma fs_inv_store:
  assumes "fs_inv V fs"
  shows "\<exists>d. fsi_store_fsdata D fs = Inr (fs\<lparr>fs_blocks := d\<rparr>) \<and> fs_inv V (fs\<lparr>fs_blocks := d\<rparr>)
    \<and> synced V (fs\<lparr>fs_blocks := d\<rparr>) \<and> fs_abs V (fs\<lparr>fs_blocks := d\<rparr>) = fs_abs V fs
    \<and> dev_same D V (fs_blocks fs) d"
proof -
  note inv = fs_invD [OF assms]
  obtain d where d: "fsi_store_fsdata D fs = Inr (fs\<lparr>fs_blocks := d\<rparr>)" "dev_same D V (fs_blocks fs) d"
    and blk: "\<And>n. n < dv_cap V (fs_blocks fs) \<Longrightarrow> dv_block V d n =
        (if n < 10 then meta_block fs n else dv_block V (fs_blocks fs) n)"
    using store_ok [OF inv(1)] by blast
  have "dv_block V d (fblk fs i k) = dv_block V (fs_blocks fs) (fblk fs i k)"
    if "live fs i" "k < nblocks fs i" for i k
    using ownsD [OF inv(2) that] by (simp add: blk)
  from fs_inv_dev [OF assms d(2) this]
  have "fs_inv V (fs\<lparr>fs_blocks := d\<rparr>)" "fs_abs V (fs\<lparr>fs_blocks := d\<rparr>) = fs_abs V fs" by blast+
  moreover have "synced V (fs\<lparr>fs_blocks := d\<rparr>)"
    using blk fs_shapeD(2) [OF inv(1)] by (simp add: synced_def meta_block_def)
  ultimately show ?thesis using d by blast
qed

end

section \<open>Fresh memory\<close>

text \<open>The \<open>malloc\<close>ed structure that \<open>fs_new\<close> fills: its arrays have the sizes of the C type, their
  contents are whatever was there.\<close>

definition mem_ok :: "'d fs_t \<Rightarrow> bool" where
  "mem_ok mem \<longleftrightarrow> length (blk_bmap mem) = BLOCK_SIZE \<and> length (inode_bmap mem) = BLOCK_SIZE
     \<and> length (inode_tab mem) = ITAB_SIZE \<and> list_all inode_wf (inode_tab mem)"

end
