(* ===== verification/Fs_Alloc.thy ===== *)
theory Fs_Alloc
  imports Fs_Spec
begin

text \<open>
  Reserving blocks. One step takes the first free bit of the bitmap, sets it and stores its
  number in the next block reference of an inode; \<open>fs_write\<close> does so for each block it needs,
  \<open>fs_create\<close> and \<open>fs_mkdir\<close> for a new page of a directory. A step keeps the ownership of
  blocks and everything that the inodes held before.
\<close>

section \<open>The search for a free bit\<close>

text \<open>Blocks that the allocator can hand out: it looks at the numbers below the bound of the
  build, and the bitmap holds \<open>BMAP_BITS\<close> of them.\<close>

definition free_blocks :: "'d disk_ops \<Rightarrow> 'd fs_t \<Rightarrow> nat set" where
  "free_blocks D fs = {n. n < unat (DISK_BLOCKS D (fs_blocks fs)) \<and> n < BMAP_BITS
     \<and> \<not> bmap_has (blk_bmap fs) n}"

lemma finite_free_blocks [simp]: "finite (free_blocks D fs)"
  by (rule finite_subset [of _ "{..<BMAP_BITS}"]) (auto simp: free_blocks_def)

lemma bmap_find_from_found:
  assumes "i \<le> n" and "n < sz" and "n < 8 * length bmap" and "\<not> bmap_has bmap n"
    and "\<And>m. i \<le> m \<Longrightarrow> m < n \<Longrightarrow> bmap_has bmap m"
  shows "bmap_find_from bmap i sz = Inr (Some n)"
  using assms
proof (induction "n - i" arbitrary: i)
  case 0
  then show ?case by (subst bmap_find_from.simps) (simp add: BMAP_ISSET_ok)
next
  case (Suc d)
  then have "i < n" and "bmap_has bmap i" by auto
  then show ?case
    using Suc by (subst bmap_find_from.simps) (simp add: BMAP_ISSET_ok)
qed

lemma find_free_block:
  assumes "length (blk_bmap fs) = 512" and "free_blocks D fs \<noteq> {}"
  shows "fsi_bmap_find_free (blk_bmap fs) (unat (DISK_BLOCKS D (fs_blocks fs))) =
     Inr (Some (Min (free_blocks D fs)))"
proof -
  define n where "n = Min (free_blocks D fs)"
  have n: "n \<in> free_blocks D fs" unfolding n_def using assms(2) by (intro Min_in) auto
  have "bmap_has (blk_bmap fs) m" if "m < n" for m
  proof (rule ccontr)
    assume "\<not> bmap_has (blk_bmap fs) m"
    with that n have "m \<in> free_blocks D fs" by (auto simp: free_blocks_def)
    then have "n \<le> m" unfolding n_def by (intro Min_le) auto
    with that show False by simp
  qed
  with n assms(1) bmap_find_from_found [of 0 n _ "blk_bmap fs"]
  have "fsi_bmap_find_free (blk_bmap fs) (unat (DISK_BLOCKS D (fs_blocks fs))) = Inr (Some n)"
    by (simp add: fsi_bmap_find_free_def free_blocks_def BMAP_BITS_def BLOCK_SIZE_def)
  then show ?thesis by (simp only: n_def)
qed

lemma find_free_none:
  assumes "length (blk_bmap fs) = 512" and "free_blocks D fs = {}"
    and "unat (DISK_BLOCKS D (fs_blocks fs)) \<le> BMAP_BITS"
  shows "fsi_bmap_find_free (blk_bmap fs) (unat (DISK_BLOCKS D (fs_blocks fs))) = Inr None"
  using assms bmap_find_from_ok [of "unat (DISK_BLOCKS D (fs_blocks fs))" "blk_bmap fs" 0]
  by (auto simp: fsi_bmap_find_free_def free_blocks_def BMAP_BITS_def BLOCK_SIZE_def)

lemma find_free_inode:
  assumes "length (inode_bmap fs) = 512"
  shows "fsi_bmap_find_free (inode_bmap fs) ITAB_SIZE =
     Inr (if used_inodes fs = {..<ITAB_SIZE} then None
          else Some (LEAST n. \<not> bmap_has (inode_bmap fs) n))"
proof -
  have "used_inodes fs = {..<ITAB_SIZE} \<longleftrightarrow> \<not> (\<exists>n. n < ITAB_SIZE \<and> \<not> bmap_has (inode_bmap fs) n)"
    by (auto simp: used_inodes_def)
  then show ?thesis
    using assms bmap_find_from_ok [of ITAB_SIZE "inode_bmap fs" 0]
    by (auto simp: fsi_bmap_find_free_def)
qed

section \<open>One step\<close>

lemma owns_weaken:
  assumes "owns V fs K" and "\<And>i. live fs i \<Longrightarrow> K' i \<le> K i"
  shows "owns V fs K'"
  using assms(2) by (intro owns_cong [OF refl refl _ assms(1)]) (auto intro: order_less_le_trans)

text \<open>\<open>grown fs i k fs'\<close>: only block references of inode \<open>i\<close> from \<open>k\<close> on have changed, and blocks
  have been reserved.\<close>

definition grown :: "'d fs_t \<Rightarrow> nat \<Rightarrow> nat \<Rightarrow> 'd fs_t \<Rightarrow> bool" where
  "grown fs i k fs' \<longleftrightarrow> fs_blocks fs' = fs_blocks fs \<and> inode_bmap fs' = inode_bmap fs
     \<and> length (inode_tab fs') = length (inode_tab fs)
     \<and> (\<forall>j. j \<noteq> i \<longrightarrow> inode_tab fs' ! j = inode_tab fs ! j)
     \<and> itype (inode_tab fs' ! i) = itype (inode_tab fs ! i)
     \<and> isize (inode_tab fs' ! i) = isize (inode_tab fs ! i)
     \<and> (\<forall>l < k. fblk fs' i l = fblk fs i l)"

lemma grown_refl: "grown fs i k fs"
  by (simp add: grown_def)

lemma grown_trans:
  "grown fs i k fs' \<Longrightarrow> grown fs' i l fs'' \<Longrightarrow> k \<le> l \<Longrightarrow> grown fs i k fs''"
  by (simp add: grown_def)

lemma grownD:
  assumes "grown fs i k fs'"
  shows "fs_blocks fs' = fs_blocks fs" and "inode_bmap fs' = inode_bmap fs"
    and "live fs' j = live fs j" and "fsize fs' j = fsize fs j" and "nblocks fs' j = nblocks fs j"
    and "itype (inode_tab fs' ! j) = itype (inode_tab fs ! j)"
    and "j \<noteq> i \<or> l < k \<Longrightarrow> fblk fs' j l = fblk fs j l"
    and "used_inodes fs' = used_inodes fs"
  using assms
  by (cases "j = i"; auto simp: grown_def live_def fsize_def nblocks_def fblk_def used_inodes_def)+

lemma grown_content:
  assumes "grown fs i k fs'" and "nblocks fs i \<le> k"
  shows "content V fs' j = content V fs j"
proof -
  have "fblk fs' j l = fblk fs j l" if "l < nblocks fs j" for l
    using grownD(7) [OF assms(1), of j l] that assms(2) by (cases "j = i") auto
  then show ?thesis
    by (intro content_cong) (simp_all add: grownD [OF assms(1)])
qed

lemma grown_abs:
  assumes "grown fs i k fs'" and "nblocks fs i \<le> k"
  shows "fs_abs V fs' = fs_abs V fs"
  by (rule ext) (simp add: fs_abs_def grown_content [OF assms] grownD [OF assms(1)])

text \<open>Blocks that are reserved beyond the end of a file do not disturb anything.\<close>

lemma grown_inv:
  assumes "fs_inv V fs" and "grown fs i k fs'" and "nblocks fs i \<le> k" and "fs_shape V fs'"
    and "owns V fs' K" and "\<And>j. nblocks fs j \<le> K j"
  shows "fs_inv V fs'"
proof -
  note gr = grownD [OF assms(2)]
  have "owns V fs' (nblocks fs')" by (rule owns_weaken [OF assms(5)]) (simp add: gr(5) assms(6))
  moreover have "dir_ok V fs' j" if "live fs j" "itype (inode_tab fs ! j) = FS_DIR" for j
    using fs_invD(8) [OF assms(1) that] gr(3,4,8) grown_content [OF assms(2,3)]
    by (intro dir_ok_cong [of fs' j fs V]) simp_all
  ultimately show ?thesis
    using assms(1,4) by (simp add: fs_inv_def gr(2,3,5,6))
qed

lemma alloc_step:
  assumes "fs_shape V fs" and "owns V fs K" and "live fs i" and "K i < 10"
    and "10 \<le> n" and "n < BMAP_BITS" and "n < dv_cap V (fs_blocks fs)"
    and "\<not> bmap_has (blk_bmap fs) n" and "BMAP_SET (blk_bmap fs) n = Inr bb"
    and "fs' = fs\<lparr>blk_bmap := bb, inode_tab := (inode_tab fs)[i :=
           (inode_tab fs ! i)\<lparr>iblocks := (iblocks (inode_tab fs ! i))[K i := of_nat n]\<rparr>]\<rparr>"
  shows "fs_shape V fs'" and "owns V fs' (K(i := K i + 1))" and "grown fs i (K i) fs'"
    and "free_blocks D fs' = free_blocks D fs - {n}"
proof -
  note sh = fs_shapeD [OF assms(1)]
  have i: "i < 64" using assms(3) by (simp add: live_def)
  have wf: "inode_wf (inode_tab fs ! i)" using sh i by (simp add: list_all_length)
  have bb: "length bb = 512" "\<And>m. bmap_has bb m \<longleftrightarrow> m = n \<or> bmap_has (blk_bmap fs) m"
    using BMAP_SET_ok [of n "blk_bmap fs"] assms(6,9) sh(3)
    by (auto simp: BMAP_BITS_def BLOCK_SIZE_def)
  have n: "unat (of_nat n :: u32) = n"
    using assms(6) by (intro unat_of_nat_u32) (simp add: BMAP_BITS_def BLOCK_SIZE_def)
  have itab: "inode_tab fs' ! j = (if j = i then
      (inode_tab fs ! i)\<lparr>iblocks := (iblocks (inode_tab fs ! i))[K i := of_nat n]\<rparr>
      else inode_tab fs ! j)" for j
    using i sh(5) by (simp add: assms(10))
  have "inode_wf (inode_tab fs' ! j)" if "j < 64" for j
    using sh(5,6) that wf by (simp add: itab list_all_length inode_wf_def)
  then have "list_all inode_wf (inode_tab fs')"
    using sh(5) by (simp add: list_all_length assms(10))
  then show sh': "fs_shape V fs'"
    using assms(1) bb(1) by (simp add: fs_shape_def assms(10) BLOCK_SIZE_def)
  have blk: "fblk fs' j l = (if j = i \<and> l = K i then n else fblk fs j l)" for j l
    using wf assms(4) n by (auto simp: fblk_def itab inode_wf_def INODE_NUM_BLKS_def nth_list_update)
  show grown: "grown fs i (K i) fs'"
    using itab blk by (simp add: grown_def assms(10))
  have live: "live fs' j = live fs j" for j using grownD(3) [OF grown] .
  have other: "fblk fs j l \<noteq> n" if "live fs j" "l < K j" for j l
    using ownsD(3) [OF assms(2) that] assms(8) by auto
  have dev: "fs_blocks fs' = fs_blocks fs" and bm: "blk_bmap fs' = bb" by (simp_all add: assms(10))
  show "owns V fs' (K(i := K i + 1))"
    unfolding owns_def dev bm live
  proof (intro conjI allI impI)
    fix m :: nat assume "m < 10"
    then show "bmap_has bb m" using assms(2) bb(2) by (simp add: owns_def)
  next
    fix j l assume j: "live fs j" and l: "l < (K(i := K i + 1)) j"
    have "10 \<le> fblk fs' j l \<and> fblk fs' j l < dv_cap V (fs_blocks fs) \<and> bmap_has bb (fblk fs' j l)"
    proof (cases "j = i \<and> l = K i")
      case True
      then show ?thesis using assms(5,7) bb(2) by (simp add: blk)
    next
      case False
      then have "l < K j" using l by (auto split: if_splits)
      from ownsD [OF assms(2) j this] False show ?thesis by (auto simp: blk bb(2))
    qed
    then show "10 \<le> fblk fs' j l" "fblk fs' j l < dv_cap V (fs_blocks fs)"
      "bmap_has bb (fblk fs' j l)" by auto
  next
    fix j k l m
    assume j: "live fs j" "k < (K(i := K i + 1)) j" and l: "live fs l" "m < (K(i := K i + 1)) l"
      and eq: "fblk fs' j k = fblk fs' l m"
    have jk: "(j = i \<and> k = K i) \<or> k < K j" and lm: "(l = i \<and> m = K i) \<or> m < K l"
      using j l by (auto split: if_splits)
    have "j = l \<and> k = m"
      using jk lm eq other [OF j(1)] other [OF l(1)] owns_inj [OF assms(2) j(1) _ l(1)]
      by (auto simp: blk split: if_splits)
    then show "j = l" "k = m" by auto
  qed
  show "free_blocks D fs' = free_blocks D fs - {n}"
    by (auto simp: free_blocks_def dev bm bb(2))
qed


section \<open>The loop of \<open>fs_write\<close>\<close>

context disk
begin

lemma free_block_facts:
  assumes "fs_shape V fs" and "owns V fs K" and "n \<in> free_blocks D fs"
  shows "10 \<le> n" and "n < BMAP_BITS" and "n < dv_cap V (fs_blocks fs)"
    and "\<not> bmap_has (blk_bmap fs) n"
proof -
  show "n < BMAP_BITS" "\<not> bmap_has (blk_bmap fs) n" using assms(3) by (auto simp: free_blocks_def)
  then show "10 \<le> n" using assms(2) by (auto simp: owns_def not_le [symmetric])
  show "n < dv_cap V (fs_blocks fs)"
    using disk_bound [of "fs_blocks fs" n] assms(1,3) by (auto simp: free_blocks_def fs_shape_def)
qed

text \<open>With enough free blocks every block that is asked for is reserved. With fewer, and a bound
  that the bitmap covers, the loop stops with -1 once it has reserved all that were left.\<close>

lemma fs_write_alloc_ok:
  assumes "fs_shape V fs" and "owns V fs K" and "live fs i" and "K i + r \<le> 10"
    and "r \<le> card (free_blocks D fs) \<or> unat (DISK_BLOCKS D (fs_blocks fs)) \<le> BMAP_BITS"
    and "m = min r (card (free_blocks D fs))"
  shows "\<exists>fs'. fs_write_alloc (unat (DISK_BLOCKS D (fs_blocks fs))) i [K i..<K i + r] pos fs =
      Inr (if r \<le> card (free_blocks D fs) then 0 else -1, fs')
    \<and> fs_shape V fs' \<and> owns V fs' (K(i := K i + m)) \<and> grown fs i (K i) fs'
    \<and> card (free_blocks D fs') = card (free_blocks D fs) - m"
  using assms
proof (induction r arbitrary: K fs pos m)
  case 0
  then show ?case by (simp add: grown_refl)
next
  case (Suc r)
  note prems = Suc.prems and sh = fs_shapeD [OF Suc.prems(1)]
  have i: "i < 64" using prems(3) by (simp add: live_def)
  have wf: "inode_wf (inode_tab fs ! i)" using sh i by (simp add: list_all_length)
  have upt: "[K i..<K i + Suc r] = K i # [K i + 1..<K i + 1 + r]"
    by (simp add: upt_conv_Cons del: upt_Suc)
  show ?case
  proof (cases "free_blocks D fs = {}")
    case True
    then have "fsi_bmap_find_free (blk_bmap fs) (unat (DISK_BLOCKS D (fs_blocks fs))) = Inr None"
      using find_free_none [of fs D] prems(5) sh(3) by auto
    then have "fs_write_alloc (unat (DISK_BLOCKS D (fs_blocks fs))) i [K i..<K i + Suc r] pos fs =
        Inr (-1, fs)"
      using prems(4) unfolding upt by (simp add: INODE_NUM_BLKS_def)
    then show ?thesis using prems True by (intro exI [of _ fs]) (simp add: grown_refl)
  next
    case False
    define n where "n = Min (free_blocks D fs)"
    have n_free: "n \<in> free_blocks D fs" unfolding n_def using False by (intro Min_in) auto
    note n = free_block_facts [OF prems(1,2) n_free]
    have find: "fsi_bmap_find_free (blk_bmap fs) (unat (DISK_BLOCKS D (fs_blocks fs))) = Inr (Some n)"
      using find_free_block [OF sh(3) False] by (simp only: n_def)
    obtain bb where bb: "BMAP_SET (blk_bmap fs) n = Inr bb"
      using BMAP_SET_ok [of n "blk_bmap fs"] n(2) sh(3) by (auto simp: BMAP_BITS_def BLOCK_SIZE_def)
    define fs1 where "fs1 = fs\<lparr>blk_bmap := bb, inode_tab := (inode_tab fs)[i :=
        (inode_tab fs ! i)\<lparr>iblocks := (iblocks (inode_tab fs ! i))[K i := of_nat n]\<rparr>]\<rparr>"
    have K: "K i < 10" using prems(4) by simp
    note step = alloc_step [OF prems(1-3) K n bb fs1_def]
    let ?K = "K(i := K i + 1)"
    have card: "card (free_blocks D fs1) = card (free_blocks D fs) - 1"
      using step(4) n_free by simp
    have pos: "0 < card (free_blocks D fs)" using False by (simp add: card_gt_0_iff)
    have bound: "DISK_BLOCKS D (fs_blocks fs1) = DISK_BLOCKS D (fs_blocks fs)" by (simp add: fs1_def)
    have h1: "live fs1 i" using prems(3) grownD(3) [OF step(3)] by simp
    have h2: "?K i + r \<le> 10" using prems(4) by simp
    have h3: "r \<le> card (free_blocks D fs1) \<or> unat (DISK_BLOCKS D (fs_blocks fs1)) \<le> BMAP_BITS"
      using prems(5) by (auto simp: card bound)
    obtain fs' where IH: "fs_write_alloc (unat (DISK_BLOCKS D (fs_blocks fs1))) i
          [?K i..<?K i + r] (Some (K i)) fs1 = Inr (if r \<le> card (free_blocks D fs1) then 0 else -1, fs')"
      "fs_shape V fs'" "owns V fs' (?K(i := ?K i + min r (card (free_blocks D fs1))))"
      "grown fs1 i (?K i) fs'"
      "card (free_blocks D fs') = card (free_blocks D fs1) - min r (card (free_blocks D fs1))"
      using Suc.IH [OF step(1,2) h1 h2 h3 refl] by blast
    have "fs_write_alloc (unat (DISK_BLOCKS D (fs_blocks fs))) i [K i..<K i + Suc r] pos fs =
        fs_write_alloc (unat (DISK_BLOCKS D (fs_blocks fs1))) i [?K i..<?K i + r] (Some (K i)) fs1"
      using K find bb i sh(5) wf unfolding upt
      by (simp add: INODE_NUM_BLKS_def c_nth_ok c_upd_ok inode_wf_def fs1_def
          del: upt_Suc)
    then have "fs_write_alloc (unat (DISK_BLOCKS D (fs_blocks fs))) i [K i..<K i + Suc r] pos fs =
        Inr (if Suc r \<le> card (free_blocks D fs) then 0 else -1, fs')"
      using IH(1) card pos by (auto simp del: upt_Suc)
    moreover have "?K(i := ?K i + min r (card (free_blocks D fs1))) = K(i := K i + m)"
      using prems(6) card pos by (intro HOL.ext) auto
    moreover have "card (free_blocks D fs') = card (free_blocks D fs) - m"
      using IH(5) prems(6) card pos by (simp add: min_def)
    moreover have "grown fs i (K i) fs'" using grown_trans [OF step(3) IH(4)] by simp
    ultimately show ?thesis using IH(2,3) by metis
  qed
qed

end

end
