(* ===== verification/Fs_Room.thy ===== *)
theory Fs_Room
  imports Fs_Alloc
begin

text \<open>
  Why the file system never runs out of space. Its 64 inodes refer to 640 blocks at most, and no
  operation reserves a block that it does not use, unless the disk is full. So the free blocks and
  the blocks in use together stay as many as they were after formatting; on a disk with more
  blocks than that, such as the one of the default build, the search for a free block always
  succeeds and never looks behind the end of the bitmap.
\<close>

section \<open>The blocks that the nodes need\<close>

fun node_blocks :: "node \<Rightarrow> nat" where
  "node_blocks (FileNode bs) = (length bs + 511) div 512"
| "node_blocks (DirNode es) = (16 * length es + 511) div 512"

definition abs_blocks :: "abs_fs \<Rightarrow> nat" where
  "abs_blocks a = (\<Sum>i \<in> dom a. node_blocks (the (a i)))"

lemma abs_blocks_upd:
  assumes "finite (dom a)" and "a i = Some y"
  shows "abs_blocks (a(i \<mapsto> x)) + node_blocks y = abs_blocks a + node_blocks x"
proof -
  have i: "i \<in> dom a" and dom: "dom (a(i \<mapsto> x)) = dom a" using assms(2) by auto
  have "(\<Sum>j \<in> dom a - {i}. node_blocks (the ((a(i \<mapsto> x)) j))) = (\<Sum>j \<in> dom a - {i}. node_blocks (the (a j)))"
    by (rule sum.cong) auto
  then show ?thesis
    using assms(2) unfolding abs_blocks_def dom sum.remove [OF assms(1) i] by simp
qed

lemma abs_blocks_new:
  assumes "finite (dom a)" and "a i = None"
  shows "abs_blocks (a(i \<mapsto> x)) = abs_blocks a + node_blocks x"
proof -
  have "(\<Sum>j \<in> dom a. node_blocks (the ((a(i \<mapsto> x)) j))) = (\<Sum>j \<in> dom a. node_blocks (the (a j)))"
    using assms(2) by (intro sum.cong) auto
  then show ?thesis using assms by (simp add: abs_blocks_def domIff)
qed

lemma dom_fs_abs: "dom (fs_abs V fs) \<subseteq> {..<64}"
  by (auto simp: fs_abs_def live_def split: if_splits)

lemma finite_dom_fs_abs [simp]: "finite (dom (fs_abs V fs))"
  by (rule finite_subset [OF dom_fs_abs]) simp

lemma node_blocks_nblocks:
  assumes "fs_inv V fs" and "fs_abs V fs i = Some x"
  shows "node_blocks x = nblocks fs i"
proof (cases x)
  case (FileNode bs)
  with assms(2) fs_abs_FileD(5) [of V fs i bs] show ?thesis by simp
next
  case (DirNode es)
  note d = fs_abs_DirD [OF assms(2) [unfolded DirNode]]
  have "16 * (fsize fs i div 16) = fsize fs i"
    using fs_invD(8) [OF assms(1) d(1,2)] by (auto simp: dir_ok_def)
  then show ?thesis by (simp add: DirNode d(4) nblocks_def)
qed

lemma abs_blocks_le:
  assumes "fs_inv V fs"
  shows "abs_blocks (fs_abs V fs) \<le> 640"
proof -
  have "node_blocks (the (fs_abs V fs i)) \<le> 10" if i: "i \<in> dom (fs_abs V fs)" for i
  proof -
    obtain x where x: "fs_abs V fs i = Some x" using i by auto
    then have "live fs i" by (auto simp: fs_abs_def split: if_splits)
    then show ?thesis using node_blocks_nblocks [OF assms x] fs_invD(6) [OF assms] x by simp
  qed
  then have "abs_blocks (fs_abs V fs) \<le> of_nat (card (dom (fs_abs V fs))) * 10"
    unfolding abs_blocks_def by (intro sum_bounded_above) auto
  also have "card (dom (fs_abs V fs)) \<le> card {..<64 :: nat}" by (rule card_mono [OF _ dom_fs_abs]) simp
  finally show ?thesis by simp
qed

section \<open>Room\<close>

text \<open>The blocks that are free or needed.\<close>

definition tally :: "'d disk_ops \<Rightarrow> 'd disk_view \<Rightarrow> 'd fs_t \<Rightarrow> nat" where
  "tally D V fs = card (free_blocks D fs) + abs_blocks (fs_abs V fs)"

text \<open>The invariant of the running file system: \<open>fs_inv\<close>, and either the bitmap has a bit for
  every block of the disk, or all blocks that it has a bit for are metadata, free or needed.\<close>

definition run_inv :: "'d disk_ops \<Rightarrow> 'd disk_view \<Rightarrow> 'd fs_t \<Rightarrow> bool" where
  "run_inv D V fs \<longleftrightarrow> fs_inv V fs
     \<and> (unat (DISK_BLOCKS D (fs_blocks fs)) \<le> BMAP_BITS \<or> BMAP_BITS \<le> 10 + tally D V fs)"

lemma run_inv_room:
  assumes "run_inv D V fs"
  shows "unat (DISK_BLOCKS D (fs_blocks fs)) \<le> BMAP_BITS \<or> 10 < card (free_blocks D fs)"
  using assms abs_blocks_le [of V fs] by (auto simp: run_inv_def tally_def BMAP_BITS_def BLOCK_SIZE_def)

text \<open>An operation that leaves a running file system, on a disk of the same size.\<close>

definition stays :: "'d disk_ops \<Rightarrow> 'd disk_view \<Rightarrow> 'd fs_t \<Rightarrow> 'd fs_t \<Rightarrow> bool" where
  "stays D V fs fs' \<longleftrightarrow> run_inv D V fs' \<and> DISK_BLOCKS D (fs_blocks fs') = DISK_BLOCKS D (fs_blocks fs)"

lemma stays_refl: "run_inv D V fs \<Longrightarrow> stays D V fs fs"
  by (simp add: stays_def)

lemma staysI:
  assumes "run_inv D V fs" and "fs_inv V fs'" and "DISK_BLOCKS D (fs_blocks fs') = DISK_BLOCKS D (fs_blocks fs)"
    and "BMAP_BITS < unat (DISK_BLOCKS D (fs_blocks fs)) \<Longrightarrow> tally D V fs \<le> tally D V fs'"
  shows "stays D V fs fs'"
  using assms unfolding run_inv_def stays_def by (metis add_left_mono le_trans not_le)

text \<open>Reserving as many blocks as a node grows.\<close>

lemma tally_grown:
  assumes "fs_inv V fs" and "fs_abs V fs i = Some x" and "fs_abs V fs' = (fs_abs V fs)(i \<mapsto> y)"
    and "card (free_blocks D fs) + node_blocks x \<le> card (free_blocks D fs') + node_blocks y"
  shows "tally D V fs \<le> tally D V fs'"
  using abs_blocks_upd [OF finite_dom_fs_abs assms(2), of y] assms(3,4) by (simp add: tally_def)

end
