(* ===== verification/Fs_Files.thy ===== *)
theory Fs_Files
  imports Fs_Room
begin

text \<open>
  Reading and writing files. The loops of \<open>fs_read\<close> and \<open>fs_write\<close> go block by block; here they
  are described byte by byte, over the position in the file: \<open>blk_byte V d blks p\<close> is byte \<open>p\<close> of
  the object whose \<open>k\<close>-th block is number \<open>blks k\<close>.
\<close>

section \<open>Bytes and blocks\<close>

definition blk_byte :: "'d disk_view \<Rightarrow> 'd \<Rightarrow> (nat \<Rightarrow> nat) \<Rightarrow> nat \<Rightarrow> byte" where
  "blk_byte V d blks p = dv_block V d (blks (p div 512)) ! (p mod 512)"

lemma fbyte_blk_byte: "fbyte V fs i = blk_byte V (fs_blocks fs) (fblk fs i)"
  by (rule ext) (simp add: fbyte_def blk_byte_def)

text \<open>Staying within one block.\<close>

lemma within_block:
  assumes "p mod 512 + j < 512"
  shows "(p + j) div 512 = p div (512 :: nat)" and "(p + j) mod 512 = p mod 512 + j"
proof -
  have "p + j = 512 * (p div 512) + (p mod 512 + j)" by simp
  then show "(p + j) div 512 = p div 512" "(p + j) mod 512 = p mod 512 + j"
    using assms by (metis div_mult_self2 div_less add_0_right mult.commute zero_neq_numeral add.commute,
        metis mod_mult_self2 mod_less add.commute)
qed

lemma next_block:
  assumes "p mod 512 + j = 512"
  shows "(p + j) div 512 = p div (512 :: nat) + 1" and "(p + j) mod 512 = 0"
proof -
  define q r where "q = p div 512" and "r = p mod 512"
  have "p = 512 * q + r" and "r + j = 512" using assms by (simp_all add: q_def r_def)
  then have "p + j = 512 * (q + 1)" by simp
  then have "p + j = 512 * (p div 512 + 1)" by (simp only: q_def)
  then show "(p + j) div 512 = p div 512 + 1" "(p + j) mod 512 = 0" by simp_all
qed

lemma block_bytes:
  assumes "length b = 512" and "p mod 512 + k \<le> 512" and "b = dv_block V d (blks (p div 512))"
  shows "take k (drop (p mod 512) b) = map (blk_byte V d blks) [p..<p + k]"
proof (rule nth_equalityI)
  show "length (take k (drop (p mod 512) b)) = length (map (blk_byte V d blks) [p..<p + k])"
    using assms(1,2) by simp
  fix j assume "j < length (take k (drop (p mod 512) b))"
  then have j: "j < k" by simp
  then have "p mod 512 + j < 512" using assms(2) by simp
  from within_block [OF this] show
    "take k (drop (p mod 512) b) ! j = map (blk_byte V d blks) [p..<p + k] ! j"
    using j assms by (simp add: blk_byte_def)
qed

section \<open>The loop of \<open>fs_read\<close>\<close>

context disk
begin

lemma read_loop_ok:
  assumes "dv_ok V d" and "length (iblocks ino) = 10" and "U \<le> 10"
    and "blks = (\<lambda>k. unat (iblocks ino ! k))" and "\<And>k. k < U \<Longrightarrow> blks k < dv_cap V d"
    and "off + m \<le> 512 * U" and "pos \<le> m" and "m \<le> length buffer" and "length block = 512"
    and "pos < m \<Longrightarrow> iblock = (off + pos) div 512 \<and> (pos = 0 \<or> (off + pos) mod 512 = 0)"
  shows "fs_read_loop D ino off (int m) U iblock pos tbl block buffer d =
    Inr (m, take pos buffer @ map (blk_byte V d blks) [off + pos..<off + m] @ drop m buffer, d)"
  using assms(7-)
proof (induction "m - pos" arbitrary: iblock pos tbl block buffer rule: less_induct)
  case less
  show ?case
  proof (cases "pos < m")
    case False
    then show ?thesis using less.prems by (subst fs_read_loop.simps) simp
  next
    case True
    let ?p = "off + pos"
    define s k where "s = ?p mod 512" and "k = min (512 - s) (m - pos)"
    let ?blk = "dv_block V d (blks (?p div 512))"
    have ib: "iblock = ?p div 512" and start: "(if pos = 0 then off mod BLOCK_SIZE else 0) = s"
      using less.prems(4) True by (auto simp: s_def BLOCK_SIZE_def)
    have U: "iblock < U" using True assms(6) by (simp add: ib less_mult_imp_div_less mult.commute)
    have no: "unat (iblocks ino ! iblock) = blks (?p div 512)" by (simp add: assms(4) ib)
    have cap: "blks (?p div 512) < dv_cap V d" using assms(5) U ib by simp
    have blk: "length ?blk = 512"
      using disk_block_length [OF assms(1) cap] by (simp add: BLOCK_SIZE_def)
    have rd: "DISK_READ D d (iblocks ino ! iblock) block = Inr (0, ?blk, d)"
      using disk_read [of d "iblocks ino ! iblock" block] assms(1) cap less.prems(3)
      by (simp add: no BLOCK_SIZE_def)
    have k: "0 < k" "k \<le> m - pos" "s + k \<le> 512" using True by (auto simp: k_def s_def)
    have bytes: "mem_read ?blk s k = Inr (map (blk_byte V d blks) [?p..<?p + k])"
      using block_bytes [OF blk, of ?p k V d blks] k(3) blk by (simp add: s_def mem_read_ok)
    let ?buf = "take pos buffer @ map (blk_byte V d blks) [?p..<?p + k] @ drop (pos + k) buffer"
    have buf: "mem_write buffer pos (map (blk_byte V d blks) [?p..<?p + k]) = Inr ?buf"
      using k less.prems(1,2) by (simp add: mem_write_ok)
    have next_p: "iblock + 1 = (off + (pos + k)) div 512 \<and> (off + (pos + k)) mod 512 = 0"
      if "pos + k < m"
    proof -
      have "k = 512 - s" using that by (auto simp: k_def min_def split: if_splits)
      then have "?p mod 512 + k = 512" by (simp add: s_def)
      from next_block [OF this] show ?thesis by (simp add: ib add.assoc)
    qed
    have IH: "fs_read_loop D ino off (int m) U (iblock + 1) (pos + k) (Some iblock) ?blk ?buf d =
      Inr (m, take (pos + k) ?buf @ map (blk_byte V d blks) [off + (pos + k)..<off + m]
        @ drop m ?buf, d)"
      using less.hyps [of "pos + k" ?buf ?blk "iblock + 1" "Some iblock"] k True less.prems(1,2) blk
        next_p by simp
    have "fs_read_loop D ino off (int m) U iblock pos tbl block buffer d =
      fs_read_loop D ino off (int m) U (iblock + 1) (pos + k) (Some iblock) ?blk ?buf d"
      using True U assms(2,3) rd bytes buf
      by (subst fs_read_loop.simps)
        (simp add: INODE_NUM_BLKS_def BLOCK_SIZE_def c_nth_ok Let_def start flip: k_def)
    also note IH
    also have "take (pos + k) ?buf @ map (blk_byte V d blks) [off + (pos + k)..<off + m] @ drop m ?buf
      = take pos buffer @ map (blk_byte V d blks) [?p..<off + m] @ drop m buffer"
    proof -
      have "[?p..<off + m] = [?p..<?p + k] @ [?p + k..<off + m]"
        using k True by (intro upt_split) auto
      then show ?thesis using less.prems(1,2) k by (simp add: add.assoc)
    qed
    finally show ?thesis .
  qed
qed

end

section \<open>The loops of \<open>fs_write\<close>\<close>

text \<open>What a sequence of block writes has done to an object of \<open>K\<close> blocks: the positions from
  \<open>lo\<close> to \<open>hi\<close> hold the data, which starts at position \<open>off\<close>; everything before \<open>lo\<close>, and behind
  \<open>hi\<close> within the first \<open>U\<close> blocks, is as it was, and so are all blocks of the disk that do not belong
  to the object.\<close>

definition wrote ::
    "'d disk_ops \<Rightarrow> 'd disk_view \<Rightarrow> (nat \<Rightarrow> nat) \<Rightarrow> nat \<Rightarrow> nat \<Rightarrow> nat \<Rightarrow> byte list \<Rightarrow>
     'd \<Rightarrow> nat \<Rightarrow> nat \<Rightarrow> 'd \<Rightarrow> bool" where
  "wrote D V blks K U off data d lo hi d' \<longleftrightarrow> dev_same D V d d'
     \<and> (\<forall>n < dv_cap V d. (\<forall>k < K. blks k \<noteq> n) \<longrightarrow> dv_block V d' n = dv_block V d n)
     \<and> (\<forall>p < 512 * K. lo \<le> p \<longrightarrow> p < hi \<longrightarrow> blk_byte V d' blks p = data ! (p - off))
     \<and> (\<forall>p < 512 * K. p < lo \<or> hi \<le> p \<and> p < 512 * U \<longrightarrow>
          blk_byte V d' blks p = blk_byte V d blks p)"

lemma wrote_refl: "dv_ok V d \<Longrightarrow> wrote D V blks K U off data d lo lo d"
  by (auto simp: wrote_def dev_same_def)

lemma wrote_trans:
  assumes "wrote D V blks K U off data d lo mid d1" and "wrote D V blks K U off data d1 mid hi d2"
    and "lo \<le> mid" and "mid \<le> hi"
  shows "wrote D V blks K U off data d lo hi d2"
proof -
  have dev: "dev_same D V d d2" using assms(1,2) by (auto simp: wrote_def intro: dev_same_trans)
  have frame: "dv_block V d2 n = dv_block V d n" if "n < dv_cap V d" "\<forall>k < K. blks k \<noteq> n" for n
    using assms(1,2) that by (simp add: wrote_def dev_same_def)
  have data: "blk_byte V d2 blks p = data ! (p - off)" if "p < 512 * K" "lo \<le> p" "p < hi" for p
    using assms(1,2) that by (cases "p < mid") (auto simp: wrote_def)
  have same: "blk_byte V d2 blks p = blk_byte V d blks p"
    if "p < 512 * K" "p < lo \<or> hi \<le> p \<and> p < 512 * U" for p
  proof -
    have "p < mid \<or> hi \<le> p \<and> p < 512 * U" "p < lo \<or> mid \<le> p \<and> p < 512 * U"
      using that(2) assms(3,4) by auto
    then show ?thesis using assms(1,2) that(1) unfolding wrote_def by metis
  qed
  show ?thesis unfolding wrote_def using dev frame data same by blast
qed

context disk
begin

text \<open>One block of the object is replaced.\<close>

lemma wrote_block:
  assumes "dv_ok V d" and "k < K" and "inj_on blks {..<K}"
    and "\<And>j. j < K \<Longrightarrow> blks j < dv_cap V d" and "unat b = blks k" and "length new = 512" and "lo div 512 = k" and "hi \<le> 512 * (k + 1)"
    and "\<And>p. p div 512 = k \<Longrightarrow> lo \<le> p \<Longrightarrow> p < hi \<Longrightarrow> new ! (p mod 512) = data ! (p - off)"
    and "\<And>p. p div 512 = k \<Longrightarrow> p < lo \<or> hi \<le> p \<and> k < U \<Longrightarrow>
      new ! (p mod 512) = dv_block V d (blks k) ! (p mod 512)"
  shows "\<exists>d'. DISK_WRITE D d b new = Inr (0, d') \<and> wrote D V blks K U off data d lo hi d'"
proof -
  obtain d' where w: "DISK_WRITE D d b new = Inr (0, d')" "dev_same D V d d'"
    and blk: "\<And>i. i < dv_cap V d \<Longrightarrow> dv_block V d' i = (if i = blks k then new else dv_block V d i)"
    using disk_writeE [of d b new] assms(1,2,4,5,6) by auto
  have here: "blk_byte V d' blks p = new ! (p mod 512)" if "p div 512 = k" for p
    using blk [OF assms(4) [OF assms(2)]] that by (simp add: blk_byte_def)
  have there: "blk_byte V d' blks p = blk_byte V d blks p" if "p < 512 * K" "p div 512 \<noteq> k" for p
  proof -
    have j: "p div 512 < K" using that(1) by (simp add: less_mult_imp_div_less mult.commute)
    then have "blks (p div 512) \<noteq> blks k" using assms(2,3) that(2) by (auto simp: inj_on_def)
    then show ?thesis using blk [OF assms(4) [OF j]] by (simp add: blk_byte_def)
  qed
  have frame: "dv_block V d' n = dv_block V d n" if "n < dv_cap V d" "\<forall>j < K. blks j \<noteq> n" for n
    using blk [OF that(1)] that(2) assms(2) by auto
  have data: "blk_byte V d' blks p = data ! (p - off)" if "p < 512 * K" "lo \<le> p" "p < hi" for p
  proof -
    have "lo div 512 \<le> p div 512" using that(2) by (rule div_le_mono)
    moreover have "p div 512 < k + 1"
      using that(3) assms(8) by (intro less_mult_imp_div_less) simp
    ultimately have "p div 512 = k" using assms(7) by simp
    then show ?thesis using here assms(9) that by simp
  qed
  have same: "blk_byte V d' blks p = blk_byte V d blks p"
    if "p < 512 * K" "p < lo \<or> hi \<le> p \<and> p < 512 * U" for p
  proof (cases "p div 512 = k")
    case True
    have "p < lo \<or> hi \<le> p \<and> k < U"
      using that(2) True by (auto simp: less_mult_imp_div_less mult.commute)
    with assms(10) [OF True] here [OF True] True show ?thesis by (simp add: blk_byte_def)
  next
    case False
    then show ?thesis using there that(1) by simp
  qed
  have "wrote D V blks K U off data d lo hi d'"
    unfolding wrote_def using w(2) frame data same by blast
  with w(1) show ?thesis by blast
qed

text \<open>A turn of either loop of \<open>fs_write\<close>: \<open>k\<close> bytes of the buffer go to position \<open>s\<close> of a block
  that has the bytes of block \<open>iblock\<close> where they have to stay, and this block is written.\<close>

lemma wrote_part:
  assumes "dv_ok V d" and "iblock < K" and "inj_on blks {..<K}"
    and "\<And>j. j < K \<Longrightarrow> blks j < dv_cap V d" and "unat b = blks iblock" and "length block = 512"
    and p: "off + num = 512 * iblock + s" and k: "0 < k" "s + k \<le> 512" and buf: "num + k \<le> length buffer"
    and keep: "\<And>r. r < s \<or> s + k \<le> r \<and> iblock < U \<Longrightarrow> block ! r = dv_block V d (blks iblock) ! r"
  shows "\<exists>new d'. mem_read buffer num k = Inr (take k (drop num buffer))
    \<and> mem_write block s (take k (drop num buffer)) = Inr new \<and> length new = 512
    \<and> DISK_WRITE D d b new = Inr (0, d')
    \<and> wrote D V blks K U off buffer d (off + num) (off + num + k) d'"
proof -
  let ?bytes = "take k (drop num buffer)"
  define new where "new = take s block @ ?bytes @ drop (s + k) block"
  have len: "length ?bytes = k" using buf by simp
  have new: "mem_write block s ?bytes = Inr new" "length new = 512"
    using k assms(6) len by (simp_all add: mem_write_ok new_def)
  have nth_new: "new ! r = (if s \<le> r \<and> r < s + k then buffer ! (num + (r - s)) else block ! r)"
    if "r < 512" for r
    using that k assms(6) len buf by (auto simp: new_def nth_append min_def)
  have "\<exists>d'. DISK_WRITE D d b new = Inr (0, d')
      \<and> wrote D V blks K U off buffer d (off + num) (off + num + k) d'"
  proof (rule wrote_block [OF assms(1-5) new(2)])
    show "(off + num) div 512 = iblock" "off + num + k \<le> 512 * (iblock + 1)" using p k by simp_all
    fix q assume q: "q div 512 = iblock"
    then have q': "q = 512 * iblock + q mod 512" by (simp flip: q)
    show "new ! (q mod 512) = buffer ! (q - off)" if "off + num \<le> q" "q < off + num + k"
    proof -
      have "s \<le> q mod 512" "q mod 512 < s + k" "q - off = num + (q mod 512 - s)"
        using that q' p by auto
      then show ?thesis by (simp add: nth_new)
    qed
    show "new ! (q mod 512) = dv_block V d (blks iblock) ! (q mod 512)"
      if "q < off + num \<or> off + num + k \<le> q \<and> iblock < U"
    proof -
      have "q mod 512 < s \<or> s + k \<le> q mod 512 \<and> iblock < U" using that q' p by auto
      with nth_new [of "q mod 512"] keep show ?thesis by auto
    qed
  qed
  moreover have "mem_read buffer num k = Inr ?bytes" by (rule mem_read_ok) (rule buf)
  ultimately show ?thesis using new by blast
qed

text \<open>The first loop stops when everything is written or the blocks that the file had before are
  used up.\<close>

lemma write_within_ok:
  assumes "dv_ok V d" and "length (iblocks ino) = 10" and "U \<le> K" and "K \<le> 10"
    and "blks = (\<lambda>k. unat (iblocks ino ! k))" and "inj_on blks {..<K}"
    and "\<forall>j < K. blks j < dv_cap V d"
    and "count \<le> length buffer" and "num \<le> count" and "length block = 512"
    and "num < count \<longrightarrow> iblock = (off + num) div 512 \<and> (num = 0 \<or> (off + num) mod 512 = 0)"
  shows "\<exists>num' iblock' pos' block' d'.
    write_within D ino buffer off count U iblock num pos block d =
      Inr (num', iblock', pos', block', d')
    \<and> num \<le> num' \<and> num' \<le> count \<and> length block' = 512
    \<and> (num' < count \<longrightarrow> U \<le> iblock' \<and> iblock' = (off + num') div 512
        \<and> (num' = 0 \<or> (off + num') mod 512 = 0))
    \<and> wrote D V blks K U off buffer d (off + num) (off + num') d'"
  using assms(1,7,9-)
proof (induction "count - num" arbitrary: iblock num pos block d rule: less_induct)
  case less
  show ?case
  proof (cases "num < count \<and> iblock < U")
    case False
    then have "write_within D ino buffer off count U iblock num pos block d =
        Inr (num, iblock, pos, block, d)" by (subst write_within.simps) auto
    moreover have "num < count \<longrightarrow> U \<le> iblock \<and> iblock = (off + num) div 512
        \<and> (num = 0 \<or> (off + num) mod 512 = 0)"
      using False less.prems(5) by auto
    ultimately show ?thesis using less.prems(3,4) wrote_refl [OF less.prems(1)] by auto
  next
    case True
    let ?p = "off + num"
    define s k where "s = ?p mod 512" and "k = min (512 - s) (count - num)"
    let ?blk = "dv_block V d (blks iblock)"
    have ib: "iblock = ?p div 512" and start: "(if num = 0 then off mod BLOCK_SIZE else 0) = s"
      using less.prems(5) True by (auto simp: s_def BLOCK_SIZE_def)
    have K: "iblock < K" using True assms(3) by simp
    have no: "unat (iblocks ino ! iblock) = blks iblock" by (simp add: assms(5))
    have blk: "length ?blk = 512"
      using disk_block_length [OF less.prems(1) less.prems(2) [rule_format, OF K]] by (simp add: BLOCK_SIZE_def)
    have rd: "DISK_READ D d (iblocks ino ! iblock) block = Inr (0, ?blk, d)"
      using disk_read [of d "iblocks ino ! iblock" block] less.prems(1,4) less.prems(2) [rule_format, OF K]
      by (simp add: no BLOCK_SIZE_def)
    have k: "0 < k" "k \<le> count - num" "s + k \<le> 512" using True by (auto simp: k_def s_def)
    have p: "?p = 512 * iblock + s" by (simp add: ib s_def)
    have in_buf: "num + k \<le> length buffer" using k(2) assms(8) True by linarith
    obtain new d1 where bytes: "mem_read buffer num k = Inr (take k (drop num buffer))"
      and new: "mem_write ?blk s (take k (drop num buffer)) = Inr new" "length new = 512"
      and w: "DISK_WRITE D d (iblocks ino ! iblock) new = Inr (0, d1)"
      and wr: "wrote D V blks K U off buffer d ?p (?p + k) d1"
      using wrote_part [OF less.prems(1) K assms(6) less.prems(2) [rule_format] no blk p k(1,3) in_buf, of U] by blast
    have dev: "dev_same D V d d1" using wr by (simp add: wrote_def)
    have next_p: "num + k < count \<longrightarrow> iblock + 1 = (off + (num + k)) div 512
        \<and> (num + k = 0 \<or> (off + (num + k)) mod 512 = 0)"
    proof
      assume "num + k < count"
      then have "k = 512 - s" by (auto simp: k_def min_def split: if_splits)
      then have "?p mod 512 + k = 512" by (simp add: s_def)
      from next_block [OF this] show "iblock + 1 = (off + (num + k)) div 512
        \<and> (num + k = 0 \<or> (off + (num + k)) mod 512 = 0)" by (simp add: ib add.assoc)
    qed
    have smaller: "count - (num + k) < count - num" "num + k \<le> count" using k True by auto
    have dev1: "dv_ok V d1" "\<forall>j < K. blks j < dv_cap V d1"
      using dev less.prems(2) by (simp_all add: dev_same_def)
    have step: "write_within D ino buffer off count U iblock num pos block d =
        write_within D ino buffer off count U (iblock + 1) (num + k) (Some iblock) new d1"
      using True K assms(2,4) rd bytes new(1) w
      by (subst write_within.simps)
        (simp add: INODE_NUM_BLKS_def BLOCK_SIZE_def c_nth_ok Let_def start flip: k_def)
    obtain num' iblock' pos' block' d' where IH:
      "write_within D ino buffer off count U (iblock + 1) (num + k) (Some iblock) new d1 =
        Inr (num', iblock', pos', block', d')"
      "num + k \<le> num'" "num' \<le> count" "length block' = 512"
      "num' < count \<longrightarrow> U \<le> iblock' \<and> iblock' = (off + num') div 512
        \<and> (num' = 0 \<or> (off + num') mod 512 = 0)"
      "wrote D V blks K U off buffer d1 (off + (num + k)) (off + num') d'"
      using less.hyps [OF smaller(1) dev1 smaller(2) new(2) next_p, of "Some iblock"]
      by (elim exE conjE) (rule that)
    have "wrote D V blks K U off buffer d ?p (off + num') d'"
      using wrote_trans [OF wr, of "off + num'" d'] IH(2,6) by (simp add: add.assoc)
    with step IH show ?thesis by (metis add_leD1)
  qed
qed

text \<open>The second loop fills whole new blocks; it writes everything that is left.\<close>

lemma write_allocated_ok:
  assumes "dv_ok V d" and "length (iblocks ino) = 10" and "K \<le> 10"
    and "blks = (\<lambda>k. unat (iblocks ino ! k))" and "inj_on blks {..<K}"
    and "\<forall>j < K. blks j < dv_cap V d"
    and "count \<le> length buffer" and "off + count \<le> 512 * K"
    and "num \<le> count" and "length block = 512"
    and "num < count \<longrightarrow> U \<le> iblock \<and> off + num = 512 * iblock"
  shows "\<exists>d'. write_allocated D ino buffer count K iblock num pos block d = Inr (count, d')
    \<and> wrote D V blks K U off buffer d (off + num) (off + count) d'"
  using assms(1,6,9-)
proof (induction "count - num" arbitrary: iblock num pos block d rule: less_induct)
  case less
  show ?case
  proof (cases "num < count")
    case False
    then have "write_allocated D ino buffer count K iblock num pos block d = Inr (num, d)"
      by (subst write_allocated.simps) simp
    then show ?thesis using False less.prems(3) wrote_refl [OF less.prems(1)] by simp
  next
    case True
    define k where "k = min 512 (count - num)"
    have p: "off + num = 512 * iblock" and U: "U \<le> iblock" using less.prems(5) True by auto
    have K: "iblock < K" using True p assms(8) by simp
    have no: "unat (iblocks ino ! iblock) = blks iblock" by (simp add: assms(4))
    have k: "0 < k" "k \<le> count - num" "k \<le> 512" using True by (auto simp: k_def)
    have p0: "off + num = 512 * iblock + 0" and k0: "0 + k \<le> 512" and in_buf: "num + k \<le> length buffer"
      using p k assms(7) True by simp_all
    obtain new d1 where bytes: "mem_read buffer num k = Inr (take k (drop num buffer))"
      and new: "mem_write block 0 (take k (drop num buffer)) = Inr new" "length new = 512"
      and w: "DISK_WRITE D d (iblocks ino ! iblock) new = Inr (0, d1)"
      and wr: "wrote D V blks K U off buffer d (off + num) (off + num + k) d1"
      using wrote_part [OF less.prems(1) K assms(5) less.prems(2) [rule_format] no less.prems(4) p0 k(1) k0 in_buf, of U]
        U by auto
    have dev: "dev_same D V d d1" using wr by (simp add: wrote_def)
    have smaller: "count - (num + k) < count - num" "num + k \<le> count" using k True by auto
    have dev1: "dv_ok V d1" "\<forall>j < K. blks j < dv_cap V d1"
      using dev less.prems(2) by (simp_all add: dev_same_def)
    have next_p: "num + k < count \<longrightarrow> U \<le> iblock + 1 \<and> off + (num + k) = 512 * (iblock + 1)"
      using U p by (auto simp: k_def min_def split: if_splits)
    have step: "write_allocated D ino buffer count K iblock num pos block d =
        write_allocated D ino buffer count K (iblock + 1) (num + k) (Some iblock) new d1"
      using True K assms(2,3) bytes new(1) w
      by (subst write_allocated.simps)
        (simp add: INODE_NUM_BLKS_def BLOCK_SIZE_def c_nth_ok Let_def flip: k_def)
    obtain d' where IH:
      "write_allocated D ino buffer count K (iblock + 1) (num + k) (Some iblock) new d1 =
        Inr (count, d')"
      "wrote D V blks K U off buffer d1 (off + (num + k)) (off + count) d'"
      using less.hyps [OF smaller(1) dev1 smaller(2) new(2) next_p, of "Some iblock"] by blast
    have "wrote D V blks K U off buffer d (off + num) (off + count) d'"
      using wrote_trans [OF wr, of "off + count" d'] IH(2) smaller(2) by (simp add: add.assoc)
    with step IH(1) show ?thesis by auto
  qed
qed

text \<open>Both loops, one after the other, on an inode that owns \<open>T\<close> blocks, of which it used \<open>U\<close>
  before.\<close>

lemma write_loops_ok:
  assumes "fs_shape V fs" and "owns V fs K" and "live fs i" and "K i \<le> 10" and "U \<le> K i"
    and "off \<le> 512 * U" and "off + count \<le> 512 * K i" and "count \<le> length buffer"
    and "length junk = 512"
  shows "\<exists>num iblock pos block d1 d2.
    write_within D (inode_tab fs ! i) buffer off count U (off div 512) 0 None junk (fs_blocks fs) =
      Inr (num, iblock, pos, block, d1)
    \<and> write_allocated D (inode_tab fs ! i) buffer count (K i) iblock num pos block d1 =
      Inr (count, d2)
    \<and> wrote D V (fblk fs i) (K i) U off buffer (fs_blocks fs) off (off + count) d2"
proof -
  let ?ino = "inode_tab fs ! i" and ?blks = "fblk fs i"
  have len: "length (iblocks ?ino) = 10"
    using live_inode [OF assms(1,3)] by (simp add: inode_wf_def INODE_NUM_BLKS_def)
  have blks: "?blks = (\<lambda>k. unat (iblocks ?ino ! k))" by (simp add: fblk_def [abs_def])
  note own = owned_blocks [OF assms(2,3)]
  obtain num iblock pos block d1 where within:
    "write_within D ?ino buffer off count U (off div 512) 0 None junk (fs_blocks fs) =
      Inr (num, iblock, pos, block, d1)"
    "num \<le> count" "length block = 512"
    "num < count \<longrightarrow> U \<le> iblock \<and> iblock = (off + num) div 512 \<and> (num = 0 \<or> (off + num) mod 512 = 0)"
    "wrote D V ?blks (K i) U off buffer (fs_blocks fs) (off + 0) (off + num) d1"
    using write_within_ok [OF fs_shapeD(1) [OF assms(1)] len assms(5,4) blks own assms(8) le0
        assms(9), of "off div 512" off None] by auto
  have dev: "dv_ok V d1" "\<forall>j < K i. ?blks j < dv_cap V d1"
    using within(5) own(2) by (simp_all add: wrote_def dev_same_def)
  have start: "num < count \<longrightarrow> U \<le> iblock \<and> off + num = 512 * iblock"
  proof
    assume "num < count"
    then have ib: "U \<le> iblock" "iblock = (off + num) div 512" "num = 0 \<or> (off + num) mod 512 = 0"
      using within(4) by auto
    have "(off + num) mod 512 = 0"
    proof (cases "num = 0")
      case True
      then have "512 * U \<le> 512 * (off div 512)" using ib by simp
      also have "\<dots> \<le> off" by simp
      finally have "off = 512 * U" using assms(6) by simp
      then show ?thesis using True by simp
    qed (use ib in simp)
    then show "U \<le> iblock \<and> off + num = 512 * iblock"
      using ib by (metis mult_div_mod_eq add_0_right)
  qed
  obtain d2 where "write_allocated D ?ino buffer count (K i) iblock num pos block d1 = Inr (count, d2)"
    and "wrote D V ?blks (K i) U off buffer d1 (off + num) (off + count) d2"
    using write_allocated_ok [OF dev(1) len assms(4) blks own(1) dev(2) assms(8,7) within(2,3) start]
    by blast
  moreover from this within(2,5) have
    "wrote D V ?blks (K i) U off buffer (fs_blocks fs) off (off + count) d2"
    using wrote_trans [of D V ?blks "K i" U off buffer "fs_blocks fs" off "off + num" d1] by simp
  ultimately show ?thesis using within(1) by blast
qed

end

section \<open>The effect of a write\<close>

lemma nth_overwrite:
  assumes "off \<le> length bs" and "p < max (off + length new) (length bs)"
  shows "overwrite bs off new ! p = (if off \<le> p \<and> p < off + length new then new ! (p - off) else bs ! p)"
  using assms by (auto simp: overwrite_def nth_append min_def)

lemma length_overwrite:
  "off \<le> length bs \<Longrightarrow> length (overwrite bs off new) = max (off + length new) (length bs)"
  by (simp add: overwrite_def)

text \<open>The state after the loops and the update of the size, before the metadata is saved.\<close>

lemma resized:
  assumes inv: "fs_inv V fs" and i: "live fs i"
    and U: "U = nblocks fs i" and T: "T = (sz + 511) div 512" "T \<le> 10"
    and sz: "sz = max (off + count) (fsize fs i)" and w: "unat w = sz"
    and fs1: "fs_shape V fs1" "owns V fs1 ((nblocks fs)(i := T))" "grown fs i U fs1"
    and wr: "wrote D V (fblk fs1 i) T U off buffer (fs_blocks fs1) off (off + count) d"
    and off: "off \<le> fsize fs i" and count: "count \<le> length buffer"
    and fs2: "fs2 = fs1\<lparr>fs_blocks := d,
      inode_tab := (inode_tab fs1)[i := (inode_tab fs1 ! i)\<lparr>isize := w\<rparr>]\<rparr>"
  shows "live fs2 = live fs" and "used_inodes fs2 = used_inodes fs"
    and "itype (inode_tab fs2 ! j) = itype (inode_tab fs ! j)"
    and "fsize fs2 j = (if j = i then sz else fsize fs j)"
    and "fs_shape V fs2" and "owns V fs2 (nblocks fs2)"
    and "live fs j \<Longrightarrow> nblocks fs2 j \<le> INODE_NUM_BLKS"
    and "live fs j \<Longrightarrow> j \<noteq> i \<Longrightarrow> content V fs2 j = content V fs j"
    and "content V fs2 i = overwrite (content V fs i) off (take count buffer)"
proof -
  note invs = fs_invD [OF inv] and gr = grownD [OF fs1(3)]
  have i64: "i < 64" "inode_wf (inode_tab fs1 ! i)"
    using live_inode [OF fs1(1)] gr(3) i by auto
  have len: "length (inode_tab fs1) = 64" using fs_shapeD [OF fs1(1)] by simp
  have tab: "inode_tab fs2 ! j = (if j = i then (inode_tab fs1 ! i)\<lparr>isize := w\<rparr> else inode_tab fs1 ! j)"
    for j using i64 len by (simp add: fs2)
  have same: "live fs2 j = live fs j" "fblk fs2 j = fblk fs1 j" "used_inodes fs2 = used_inodes fs"
    "itype (inode_tab fs2 ! j) = itype (inode_tab fs ! j)" for j
    using gr(2,3,6,8) by (auto simp: live_def fblk_def used_inodes_def tab) (auto simp: fs2)
  have size: "fsize fs2 j = (if j = i then sz else fsize fs j)" for j
    using gr(4) w by (simp add: fsize_def tab)
  have blocks: "nblocks fs2 = (nblocks fs)(i := T)" by (rule ext) (simp add: nblocks_def size T(1))
  have dev: "dev_same D V (fs_blocks fs) d" using wr gr(1) by (simp add: wrote_def)
  have dev2: "fs_blocks fs2 = d" by (simp add: fs2)
  show "fs_shape V fs2"
    using fs1(1) dev i64 len gr(1)
    by (auto simp: fs_shape_def fs2 dev_same_def list_all_length nth_list_update inode_wf_def)
  show "owns V fs2 (nblocks fs2)"
    using fs1(2) dev gr(1,3) same unfolding blocks
    by (intro owns_cong [of fs2 fs1 V _ "(nblocks fs)(i := T)"]) (auto simp: fs2 dev_same_def)
  show "content V fs2 j = content V fs j" if j: "live fs j" "j \<noteq> i" for j
  proof (rule content_cong)
    show "fsize fs2 j = fsize fs j" using j by (simp add: size)
    fix k assume k: "k < nblocks fs j"
    have "fblk fs1 j k \<noteq> fblk fs1 i l" if "l < T" for l
      using owns_inj [OF fs1(2), of j k i l] gr(3) j i k that by auto
    moreover have "fblk fs1 j k < dv_cap V (fs_blocks fs1)"
      using ownsD(2) [OF fs1(2), of j k] gr(3) j k by simp
    ultimately have "dv_block V d (fblk fs1 j k) = dv_block V (fs_blocks fs1) (fblk fs1 j k)"
      using wr unfolding wrote_def by metis
    then show "dv_block V (fs_blocks fs2) (fblk fs2 j k) = dv_block V (fs_blocks fs) (fblk fs j k)"
      using gr(1) gr(7) [of j k] j by (simp add: same dev2)
  qed
  show "content V fs2 i = overwrite (content V fs i) off (take count buffer)"
  proof (rule nth_equalityI)
    show len_eq: "length (content V fs2 i) = length (overwrite (content V fs i) off (take count buffer))"
      using off count by (simp add: size length_overwrite sz)
    fix p assume "p < length (content V fs2 i)"
    then have p: "p < sz" by (simp add: size)
    then have pT: "p < 512 * T" using round_up_512 [of sz] by (simp add: T(1))
    have byte: "content V fs2 i ! p = blk_byte V d (fblk fs1 i) p"
      using p by (simp add: nth_content size fbyte_blk_byte same dev2)
    show "content V fs2 i ! p = overwrite (content V fs i) off (take count buffer) ! p"
    proof (cases "off \<le> p \<and> p < off + count")
      case True
      then have "blk_byte V d (fblk fs1 i) p = buffer ! (p - off)"
        using wr pT by (simp add: wrote_def)
      then show ?thesis using True byte off count by (auto simp: nth_overwrite)
    next
      case False
      then have psz: "p < fsize fs i" using p sz off by auto
      have pU: "p div 512 < U" using block_of_byte [OF psz] U by simp
      then have "p < 512 * U" by (simp add: div_less_iff_less_mult mult.commute)
      then have "blk_byte V d (fblk fs1 i) p = blk_byte V (fs_blocks fs1) (fblk fs1 i) p"
        using wr pT False by (auto simp: wrote_def)
      also have "\<dots> = content V fs i ! p"
        using gr(1) gr(7) [of i "p div 512"] pU psz by (simp add: nth_content fbyte_blk_byte blk_byte_def)
      finally show ?thesis using False byte off count psz by (auto simp: nth_overwrite)
    qed
  qed
  have "nblocks fs2 j \<le> 10" if "live fs j" for j
    using T(2) invs(6) [OF that] by (simp add: blocks)
  then show "live fs j \<Longrightarrow> nblocks fs2 j \<le> INODE_NUM_BLKS" by (simp add: INODE_NUM_BLKS_def)
  show "live fs2 = live fs" by (rule ext) (simp add: same)
  show "used_inodes fs2 = used_inodes fs" "itype (inode_tab fs2 ! j) = itype (inode_tab fs ! j)"
    "fsize fs2 j = (if j = i then sz else fsize fs j)" by (simp_all add: same size)
qed

lemma write_effect:
  assumes inv: "fs_inv V fs" and i: "live fs i" and ty: "itype (inode_tab fs ! i) = FS_FILE"
    and rest: "U = nblocks fs i" "T = (sz + 511) div 512" "T \<le> 10"
      "sz = max (off + count) (fsize fs i)" "unat w = sz"
      "fs_shape V fs1" "owns V fs1 ((nblocks fs)(i := T))" "grown fs i U fs1"
      "wrote D V (fblk fs1 i) T U off buffer (fs_blocks fs1) off (off + count) d"
      "off \<le> fsize fs i" "count \<le> length buffer"
    and fs2: "fs2 = fs1\<lparr>fs_blocks := d,
      inode_tab := (inode_tab fs1)[i := (inode_tab fs1 ! i)\<lparr>isize := w\<rparr>]\<rparr>"
  shows "fs_inv V fs2"
    and "fs_abs V fs2 = (fs_abs V fs)(i \<mapsto> FileNode (overwrite (content V fs i) off (take count buffer)))"
proof -
  note re = resized [OF inv i rest fs2]
  have dirs: "dir_ok V fs2 j" if j: "live fs j" "itype (inode_tab fs ! j) = FS_DIR" for j
  proof -
    have "j \<noteq> i" using j ty by (auto simp: FS_DIR_def FS_FILE_def)
    then show ?thesis using fs_invD(8) [OF inv j] re(8) [OF j(1)]
      by (intro dir_ok_cong [of fs2 j fs V]) (simp_all add: re(1,2,4))
  qed
  have "inode_bmap fs2 = inode_bmap fs" using rest(8) by (simp add: fs2 grown_def)
  then show "fs_inv V fs2"
    using inv re(5-7) dirs by (simp add: fs_inv_def re(1,3))
  show "fs_abs V fs2 = (fs_abs V fs)(i \<mapsto> FileNode (overwrite (content V fs i) off (take count buffer)))"
    using i ty re(8,9) by (intro HOL.ext) (auto simp: fs_abs_def re(1,3) FS_DIR_def FS_FILE_def)
qed

section \<open>\<open>fs_read\<close> and \<open>fs_write\<close>\<close>

lemma nblocks_round: "unat (OFFSET_TO_BLOCKS (isize (inode_tab fs ! i))) = nblocks fs i"
  by (simp add: unat_OFFSET_TO_BLOCKS nblocks_def fsize_def)

lemma live_used: "live fs i \<Longrightarrow> bmap_has (inode_bmap fs) i"
  by (simp add: live_def)

lemma inode_isset:
  "fs_shape V fs \<Longrightarrow> i < 64 \<Longrightarrow> BMAP_ISSET (inode_bmap fs) i = Inr (bmap_has (inode_bmap fs) i)"
  using fs_shapeD [of V fs] by (intro BMAP_ISSET_ok) simp

context disk
begin

lemma fs_read_ok:
  assumes "fs_inv V fs" and "live fs (unat file)" and "itype (inode_tab fs ! unat file) = FS_FILE"
    and "n = min (unat count) (fsize fs (unat file) - unat offset)" and "n \<le> length buffer"
    and "length junk = 512"
  shows "fs_read D junk (Some fs) file offset count (Some buffer) (Some nr) =
    Inr (0, Some fs, Some (take n (drop (unat offset) (content V fs (unat file))) @ drop n buffer),
         Some (int n))"
proof -
  let ?i = "unat file" and ?off = "unat offset"
  let ?ino = "inode_tab fs ! ?i"
  note inv = fs_invD [OF assms(1)]
  have i: "?i < 64" "inode_wf ?ino" using live_inode [OF inv(1) assms(2)] by auto
  have tab: "length (inode_tab fs) = 64" using fs_shapeD [OF inv(1)] by simp
  have used: "BMAP_ISSET (inode_bmap fs) ?i = Inr True"
    using inode_isset [OF inv(1) i(1)] live_used [OF assms(2)] by simp
  have sz: "unat (isize ?ino) = fsize fs ?i" by (simp add: fsize_def)
  show ?thesis
  proof (cases "isize ?ino \<le> offset")
    case True
    then have "n = 0" using assms(4) by (simp add: word_le_nat_alt sz)
    with True i tab used assms(3) show ?thesis by (simp add: fs_read_def c_nth_ok)
  next
    case False
    then have lt: "?off < fsize fs ?i" by (simp add: word_le_nat_alt sz)
    have le: "offset \<le> isize ?ino" using False by simp
    have "unat (min count (isize ?ino - offset)) = n"
      using unat_sub [OF le] assms(4) by (simp add: min_def word_le_nat_alt sz)
    moreover have "n < 2 ^ 31" using inv(7) [OF assms(2)] assms(4) by simp
    ultimately have mx: "sint (min count (isize ?ino - offset)) = int n"
      using sint_small [of "min count (isize ?ino - offset)"] by simp
    have blks: "fblk fs ?i = (\<lambda>k. unat (iblocks ?ino ! k))" by (simp add: fblk_def [abs_def])
    have len: "length (iblocks ?ino) = 10" using i(2) by (simp add: inode_wf_def INODE_NUM_BLKS_def)
    have fits: "?off + n \<le> 512 * nblocks fs ?i"
      using lt assms(4) round_up_512 [of "fsize fs ?i"] by (simp add: nblocks_def)
    have "fs_read_loop D ?ino ?off (int n) (nblocks fs ?i) (?off div 512) 0 None junk buffer
        (fs_blocks fs) = Inr (n, take 0 buffer @
          map (blk_byte V (fs_blocks fs) (fblk fs ?i)) [?off + 0..<?off + n] @ drop n buffer, fs_blocks fs)"
      using inv(6) [OF assms(2)] owned_blocks(2) [OF inv(2) assms(2)] assms(5,6)
      by (intro read_loop_ok [OF fs_shapeD(1) [OF inv(1)] len _ blks _ fits]) auto
    moreover have "map (blk_byte V (fs_blocks fs) (fblk fs ?i)) [?off..<?off + n] =
        take n (drop ?off (content V fs ?i))"
      using lt assms(4) by (simp add: content_def fbyte_blk_byte [abs_def] take_map drop_map)
    ultimately show ?thesis
      using False i tab used assms(3) mx
      by (simp add: fs_read_def c_nth_ok nblocks_round Let_def BLOCK_SIZE_def)
  qed
qed

text \<open>The state in which \<open>fs_write\<close> leaves the file system when there is room.\<close>

lemma fs_write_ok:
  assumes inv: "fs_inv V fs" and i: "live fs (unat file)"
    and ty: "itype (inode_tab fs ! unat file) = FS_FILE"
    and off: "off = min (unat offset) (fsize fs (unat file))"
    and fits: "off + unat count \<le> 5120" and buf: "unat count \<le> length buffer"
    and junk: "length junk = 512"
    and room: "(off + unat count + 511) div 512 - nblocks fs (unat file) \<le> card (free_blocks D fs)"
  shows "\<exists>fs'. fs_write D junk (Some fs) file offset count (Some buffer) = Inr (0, Some fs')
    \<and> fs_inv V fs' \<and> synced V fs' \<and> dev_same D V (fs_blocks fs) (fs_blocks fs')
    \<and> fs_abs V fs' = (fs_abs V fs)(unat file \<mapsto>
        FileNode (overwrite (content V fs (unat file)) off (take (unat count) buffer)))
    \<and> card (free_blocks D fs) =
        card (free_blocks D fs') + ((off + unat count + 511) div 512 - nblocks fs (unat file))"
proof -
  let ?i = "unat file" and ?n = "unat count"
  let ?ino = "inode_tab fs ! ?i"
  define U sz where "U = nblocks fs ?i" and "sz = max (off + ?n) (fsize fs ?i)"
  define T where "T = (sz + 511) div 512"
  define w where "w = (if offset > isize ?ino then isize ?ino else offset)"
  note invs = fs_invD [OF inv]
  have i64: "?i < 64" "inode_wf ?ino" using live_inode [OF invs(1) i] by auto
  have tab: "length (inode_tab fs) = 64" using fs_shapeD [OF invs(1)] by simp
  have used: "BMAP_ISSET (inode_bmap fs) ?i = Inr True"
    using inode_isset [OF invs(1) i64(1)] live_used [OF i] by simp
  have w: "unat w = off" by (auto simp: w_def off fsize_def word_less_nat_alt)
  have wn: "unat (w + count) = off + ?n" using fits by (simp add: unat_word_ariths w)
  have sz_le: "sz \<le> 5120" "off \<le> fsize fs ?i"
    using fits invs(7) [OF i] by (auto simp: sz_def off)
  have T: "U \<le> T" "T \<le> 10" "T = max ((off + ?n + 511) div 512) U"
    using sz_le by (auto simp: T_def U_def nblocks_def sz_def max_def div_le_mono)
  have req: "unat (max (OFFSET_TO_BLOCKS (w + count)) (OFFSET_TO_BLOCKS (isize ?ino))) = T"
    using T(3) wn by (simp add: max_def word_le_nat_alt unat_OFFSET_TO_BLOCKS U_def nblocks_def fsize_def)
  have room': "T - U \<le> card (free_blocks D fs)"
    using room T(3) by (simp add: U_def max_def)
  have Keq: "(nblocks fs)(?i := nblocks fs ?i + (T - U)) = (nblocks fs)(?i := T)"
    using T(1) by (simp add: U_def)
  obtain fs1 where alloc: "fs_write_alloc (unat (DISK_BLOCKS D (fs_blocks fs))) ?i [U..<U + (T - U)]
      None fs = Inr (0, fs1)"
    and fs1: "fs_shape V fs1" "owns V fs1 ((nblocks fs)(?i := T))" "grown fs ?i U fs1"
    and card1: "card (free_blocks D fs1) = card (free_blocks D fs) - (T - U)"
    using fs_write_alloc_ok [OF invs(1,2) i _ _ refl, of "T - U" None] room' T(1,2)
    unfolding U_def [symmetric] Keq by (auto simp: min_absorb1 Keq [unfolded U_def [symmetric]])
  let ?ino1 = "inode_tab fs1 ! ?i"
  have live1: "live fs1 ?i" using grownD(3) [OF fs1(3)] i by simp
  have dev1: "fs_blocks fs1 = fs_blocks fs" using grownD(1) [OF fs1(3)] .
  have "off \<le> 512 * U" "off + ?n \<le> 512 * T"
    using sz_le(2) round_up_512 [of "fsize fs ?i"] round_up_512 [of sz]
    by (simp_all add: U_def T_def nblocks_def sz_def)
  then obtain num iblock pos block d1 d2 where
    within: "write_within D ?ino1 buffer off ?n U (off div 512) 0 None junk (fs_blocks fs) =
      Inr (num, iblock, pos, block, d1)"
    and allocated: "write_allocated D ?ino1 buffer ?n T iblock num pos block d1 = Inr (?n, d2)"
    and wr: "wrote D V (fblk fs1 ?i) T U off buffer (fs_blocks fs1) off (off + ?n) d2"
    using write_loops_ok [OF fs1(1,2) live1, of U off ?n buffer junk] T(1,2) buf junk dev1 by auto
  define w2 where "w2 = max (w + count) (isize ?ino1)"
  define fs2 where "fs2 = fs1\<lparr>fs_blocks := d2,
      inode_tab := (inode_tab fs1)[?i := ?ino1\<lparr>isize := w2\<rparr>]\<rparr>"
  have w2: "unat w2 = sz"
    using grownD(4) [OF fs1(3), of ?i] wn by (simp add: w2_def max_def word_le_nat_alt sz_def fsize_def)
  note eff = write_effect [OF inv i ty U_def T_def T(2) sz_def w2 fs1 wr sz_le(2) buf fs2_def]
  obtain d3 where store: "fsi_store_fsdata D fs2 = Inr (fs2\<lparr>fs_blocks := d3\<rparr>)"
    and "fs_inv V (fs2\<lparr>fs_blocks := d3\<rparr>)" "synced V (fs2\<lparr>fs_blocks := d3\<rparr>)"
    "fs_abs V (fs2\<lparr>fs_blocks := d3\<rparr>) = fs_abs V fs2" "dev_same D V (fs_blocks fs2) d3"
    using fs_inv_store [OF eff(1)] by blast
  moreover have "dev_same D V (fs_blocks fs) (fs_blocks fs2)"
    using wr dev1 by (simp add: wrote_def fs2_def)
  moreover have "fs_write D junk (Some fs) file offset count (Some buffer) = Inr (0, Some (fs2\<lparr>fs_blocks := d3\<rparr>))"
    using i64 tab used ty req alloc within allocated store T(1,2) fs_shapeD(5) [OF fs1(1)] dev1
    by (simp add: fs_write_def c_nth_ok Let_def nblocks_round INODE_NUM_BLKS_def BLOCK_SIZE_def w
        flip: w_def U_def w2_def fs2_def)
  moreover have "card (free_blocks D fs) = card (free_blocks D (fs2\<lparr>fs_blocks := d3\<rparr>)) +
      ((off + ?n + 511) div 512 - nblocks fs ?i)"
  proof -
    have "DISK_BLOCKS D d3 = DISK_BLOCKS D (fs_blocks fs1)"
      using \<open>dev_same D V (fs_blocks fs2) d3\<close> \<open>dev_same D V (fs_blocks fs) (fs_blocks fs2)\<close> dev1
      by (simp add: dev_same_def)
    then have "free_blocks D (fs2\<lparr>fs_blocks := d3\<rparr>) = free_blocks D fs1"
      by (simp add: free_blocks_def fs2_def)
    then show ?thesis using card1 room' T(3) by (simp add: U_def max_def split: if_splits)
  qed
  ultimately show ?thesis using eff(2) by (auto intro: dev_same_trans)
qed

text \<open>The errors of \<open>fs_write\<close>: an inode that is no file, a file that would outgrow its inode, and
  no room on the disk. The last one leaves the contents alone but not the bitmap: all blocks that
  were free are reserved now.\<close>

lemma fs_write_too_big:
  assumes "fs_inv V fs" and "live fs (unat file)" and "itype (inode_tab fs ! unat file) = FS_FILE"
    and "off = min (unat offset) (fsize fs (unat file))"
    and "5120 < off + unat count" and "off + unat count < 2 ^ 32"
  shows "fs_write D junk (Some fs) file offset count (Some buffer) = Inr (-1, Some fs)"
proof -
  let ?i = "unat file"
  let ?ino = "inode_tab fs ! ?i"
  define w where "w = (if offset > isize ?ino then isize ?ino else offset)"
  note inv = fs_invD [OF assms(1)]
  have i: "?i < 64" using live_inode [OF inv(1) assms(2)] by auto
  have tab: "length (inode_tab fs) = 64" using fs_shapeD [OF inv(1)] by simp
  have used: "BMAP_ISSET (inode_bmap fs) ?i = Inr True"
    using inode_isset [OF inv(1) i] live_used [OF assms(2)] by simp
  have w: "unat w = off" by (auto simp: w_def assms(4) fsize_def word_less_nat_alt)
  have wn: "unat (w + count) = off + unat count" using assms(6) by (simp add: unat_word_ariths w)
  define T where "T = unat (max (OFFSET_TO_BLOCKS (w + count)) (OFFSET_TO_BLOCKS (isize ?ino)))"
  have "10 < (off + unat count + 511) div 512" using assms(5) by linarith
  also have "\<dots> \<le> T"
    using wn by (simp add: T_def max_def word_le_nat_alt unat_OFFSET_TO_BLOCKS)
  finally have T: "10 < T" .
  have U: "nblocks fs ?i \<le> 10" using inv(6) [OF assms(2)] .
  show ?thesis
    using i tab used assms(3) T U
    by (simp add: fs_write_def c_nth_ok Let_def nblocks_round INODE_NUM_BLKS_def of_nat_diff
        flip: w_def T_def)
qed

lemma fs_write_no_room:
  assumes inv: "fs_inv V fs" and i: "live fs (unat file)"
    and ty: "itype (inode_tab fs ! unat file) = FS_FILE"
    and off: "off = min (unat offset) (fsize fs (unat file))" and fits: "off + unat count \<le> 5120"
    and room: "card (free_blocks D fs) < (off + unat count + 511) div 512 - nblocks fs (unat file)"
    and bound: "unat (DISK_BLOCKS D (fs_blocks fs)) \<le> BMAP_BITS"
  shows "\<exists>fs'. fs_write D junk (Some fs) file offset count (Some buffer) = Inr (-1, Some fs')
    \<and> fs_inv V fs' \<and> fs_abs V fs' = fs_abs V fs \<and> free_blocks D fs' = {}
    \<and> fs_blocks fs' = fs_blocks fs"
proof -
  let ?i = "unat file"
  let ?ino = "inode_tab fs ! ?i"
  define U where "U = nblocks fs ?i"
  define w where "w = (if offset > isize ?ino then isize ?ino else offset)"
  note invs = fs_invD [OF inv]
  have i64: "?i < 64" using live_inode [OF invs(1) i] by auto
  have tab: "length (inode_tab fs) = 64" using fs_shapeD [OF invs(1)] by simp
  have used: "BMAP_ISSET (inode_bmap fs) ?i = Inr True"
    using inode_isset [OF invs(1) i64] live_used [OF i] by simp
  have w: "unat w = off" by (auto simp: w_def off fsize_def word_less_nat_alt)
  have wn: "unat (w + count) = off + unat count" using fits by (simp add: unat_word_ariths w)
  define T where "T = unat (max (OFFSET_TO_BLOCKS (w + count)) (OFFSET_TO_BLOCKS (isize ?ino)))"
  have T: "T = max ((off + unat count + 511) div 512) U"
    using wn by (simp add: T_def max_def word_le_nat_alt unat_OFFSET_TO_BLOCKS U_def nblocks_def fsize_def)
  have T10: "T \<le> 10" using fits invs(6) [OF i] by (simp add: T U_def)
  have req: "card (free_blocks D fs) < T - U" "U \<le> T"
    using room unfolding T U_def by simp_all
  have "U + (T - U) \<le> 10" using T10 req by simp
  then obtain fs' where alloc: "fs_write_alloc (unat (DISK_BLOCKS D (fs_blocks fs))) ?i
      [U..<U + (T - U)] None fs = Inr (-1, fs')"
    and fs': "fs_shape V fs'" "owns V fs' ((nblocks fs)(?i := U + card (free_blocks D fs)))"
      "grown fs ?i U fs'" "card (free_blocks D fs') = 0"
    using fs_write_alloc_ok [OF invs(1,2) i _ _ refl, of "T - U" None] bound req
    unfolding U_def by (auto simp: min_absorb2)
  have "fs_write D junk (Some fs) file offset count (Some buffer) = Inr (-1, Some fs')"
    using i64 tab used ty req T10 alloc
    by (simp add: fs_write_def c_nth_ok Let_def nblocks_round INODE_NUM_BLKS_def of_nat_diff
        flip: w_def T_def U_def)
  moreover have "fs_inv V fs'"
    using grown_inv [OF inv fs'(3) _ fs'(1,2)] by (simp add: U_def)
  ultimately show ?thesis
    using grown_abs [OF fs'(3), of V] fs'(4) grownD(1) [OF fs'(3)] by (simp add: U_def)
qed

lemma fs_write_bad_inode:
  assumes "fs_inv V fs" and "\<not> (live fs (unat file) \<and> itype (inode_tab fs ! unat file) = FS_FILE)"
  shows "fs_write D junk (Some fs) file offset count (Some buffer) = Inr (-1, Some fs)"
    and "fs_read D junk (Some fs) file offset count (Some buffer) (Some nr) =
      Inr (-1, Some fs, Some buffer, Some nr)"
  using assms inode_isset [OF fs_invD(1) [OF assms(1)], of "unat file"]
    fs_shapeD(5) [OF fs_invD(1) [OF assms(1)]]
  by (auto simp: fs_write_def fs_read_def live_def c_nth_ok)

text \<open>A running file system keeps its room, and \<open>fs_write\<close> always returns, unless the end of the
  written range does not fit in 32 bits.\<close>

lemma fs_write_tally:
  assumes "fs_inv V fs" and "fs_abs V fs i = Some (FileNode bs)"
    and "fs_abs V fs' = (fs_abs V fs)(i \<mapsto> FileNode (overwrite bs off (take n buffer)))"
    and "off \<le> length bs" and "n \<le> length buffer"
    and "card (free_blocks D fs) = card (free_blocks D fs') + ((off + n + 511) div 512 - nblocks fs i)"
  shows "tally D V fs \<le> tally D V fs'"
proof (rule tally_grown [OF assms(1-3)])
  have "length (overwrite bs off (take n buffer)) = max (length bs) (off + n)"
    using assms(4,5) by (simp add: overwrite_def)
  then have "nblocks fs i + ((off + n + 511) div 512 - nblocks fs i)
      \<le> node_blocks (FileNode (overwrite bs off (take n buffer)))"
    using node_blocks_nblocks [OF assms(1,2)] by (auto simp: max_def div_le_mono)
  then show "card (free_blocks D fs) + node_blocks (FileNode bs)
      \<le> card (free_blocks D fs') + node_blocks (FileNode (overwrite bs off (take n buffer)))"
    using assms(6) node_blocks_nblocks [OF assms(1,2)] by simp
qed

lemma fs_write_safe:
  assumes run: "run_inv D V fs" and buf: "unat count \<le> length buffer" and junk: "length junk = 512"
    and wrap: "unat offset + unat count < 2 ^ 32"
  shows "\<exists>rc fs'. fs_write D junk (Some fs) file offset count (Some buffer) = Inr (rc, Some fs') \<and> stays D V fs fs'"
proof (cases "live fs (unat file) \<and> itype (inode_tab fs ! unat file) = FS_FILE")
  case False
  then show ?thesis using fs_write_bad_inode [OF _ False, of junk offset count buffer] run
    by (auto simp: run_inv_def stays_def)
next
  case True
  have inv: "fs_inv V fs" using run by (simp add: run_inv_def)
  define off where "off = min (unat offset) (fsize fs (unat file))"
  define need where "need = (off + unat count + 511) div 512 - nblocks fs (unat file)"
  consider "5120 < off + unat count"
    | "off + unat count \<le> 5120" "need \<le> card (free_blocks D fs)"
    | "off + unat count \<le> 5120" "card (free_blocks D fs) < need"
    by linarith
  then show ?thesis
  proof cases
    case 1
    have "off + unat count < 2 ^ 32" using wrap by (simp add: off_def)
    from fs_write_too_big [OF inv _ _ off_def 1 this] True show ?thesis using stays_refl [OF run] by auto
  next
    case 2
    obtain fs' where fs': "fs_write D junk (Some fs) file offset count (Some buffer) = Inr (0, Some fs')"
      "fs_inv V fs'" "dev_same D V (fs_blocks fs) (fs_blocks fs')"
      "fs_abs V fs' = (fs_abs V fs)(unat file \<mapsto>
        FileNode (overwrite (content V fs (unat file)) off (take (unat count) buffer)))"
      "card (free_blocks D fs) = card (free_blocks D fs') + need"
      using fs_write_ok [OF inv _ _ off_def 2(1) buf junk 2(2) [unfolded need_def]] True
      unfolding need_def by blast
    have "fs_abs V fs (unat file) = Some (FileNode (content V fs (unat file)))"
      using True by (simp add: fs_abs_def FS_DIR_def FS_FILE_def)
    from fs_write_tally [OF inv this fs'(4) _ buf fs'(5) [unfolded need_def]]
    have "tally D V fs \<le> tally D V fs'" by (simp add: off_def)
    then show ?thesis using staysI [OF run fs'(2)] fs'(1,3) by (auto simp: dev_same_def)
  next
    case 3
    have "need \<le> 10" using 3(1) unfolding need_def by linarith
    then have bound: "unat (DISK_BLOCKS D (fs_blocks fs)) \<le> BMAP_BITS"
      using run_inv_room [OF run] 3(2) by linarith
    from fs_write_no_room [OF inv _ _ off_def 3(1) _ bound] 3(2) True show ?thesis
      using bound by (force simp: need_def run_inv_def stays_def)
  qed
qed

end

end
