(* ===== verification/Fs_Dirs.thy ===== *)
theory Fs_Dirs
  imports Fs_Files
begin

text \<open>
  Directories: searching one, following a path, listing one, and adding entries to one. The
  pages of a directory are related to the list of entries that \<open>dentries\<close> reads from its bytes:
  page \<open>k\<close> holds the entries from \<open>32 * k\<close> on.
\<close>

section \<open>Entries in pages\<close>

lemma c_streq_ok:
  "0 \<in> set m \<Longrightarrow> 0 \<notin> set s \<Longrightarrow> c_streq m s = Inr (takeWhile (\<lambda>b. b \<noteq> 0) m = s)"
  by (induction m s rule: c_streq.induct) auto

lemma c_string_ok: "0 \<in> set m \<Longrightarrow> c_string m = Inr (takeWhile (\<lambda>b. b \<noteq> 0) m)"
  by (induction m) auto

lemma takeWhile_take: "0 \<in> set (take n m) \<Longrightarrow>
    takeWhile (\<lambda>b. b \<noteq> 0) (take n m) = takeWhile (\<lambda>b. b \<noteq> (0 :: byte)) m"
  using takeWhile_append1 [of 0 "take n m" "\<lambda>b. b \<noteq> 0" "drop n m"] by simp

text \<open>Where entry \<open>e\<close> of a directory lies.\<close>

lemma entry_position:
  "(16 * e) div 512 = e div (32 :: nat)" "(16 * e) mod 512 = 16 * (e mod (32 :: nat))"
proof -
  show "(16 * e) div 512 = e div 32" using div_mult_mult1 [of 16 e 32] by simp
  show "(16 * e) mod 512 = 16 * (e mod 32)" using mult_mod_right [of 16 e 32] by simp
qed

definition dir_page :: "'d disk_view \<Rightarrow> 'd fs_t \<Rightarrow> nat \<Rightarrow> nat \<Rightarrow> byte list" where
  "dir_page V fs i k = dv_block V (fs_blocks fs) (fblk fs i k)"

lemma entry_bytes:
  assumes "length (dir_page V fs i (e div 32)) = 512" and "e < fsize fs i div 16"
  shows "take 16 (drop (16 * (e mod 32)) (dir_page V fs i (e div 32))) =
    take 16 (drop (16 * e) (content V fs i))"
proof -
  have e: "16 * e + 16 \<le> fsize fs i" using assms(2) by linarith
  have "16 * (e mod 32) + 16 \<le> (512 :: nat)" by linarith
  then have "take 16 (drop (16 * (e mod 32)) (dir_page V fs i (e div 32))) =
      map (blk_byte V (fs_blocks fs) (fblk fs i)) [16 * e..<16 * e + 16]"
    using block_bytes [of "dir_page V fs i (e div 32)" "16 * e" 16 V "fs_blocks fs" "fblk fs i"] assms(1)
    by (simp add: entry_position dir_page_def)
  also have "\<dots> = take 16 (drop (16 * e) (content V fs i))"
    using e by (simp add: content_def fbyte_blk_byte [abs_def] take_map drop_map)
  finally show ?thesis .
qed

lemma take_drop_sub: "n + m \<le> k \<Longrightarrow> take m (drop n (take k xs)) = take m (drop n xs)"
  by (simp add: take_drop min_def)

text \<open>The program reads an entry of a page as the specification does.\<close>

lemma read_entry:
  assumes "length (dir_page V fs i (e div 32)) = 512" and "e < fsize fs i div 16"
    and "0 \<in> set (take 14 (drop (16 * e) (content V fs i)))" and "0 \<notin> set s"
  defines "page \<equiv> dir_page V fs i (e div 32)" and "x \<equiv> dentry_at (content V fs i) e"
  shows "c_streq (drop (16 * (e mod 32)) page) s = Inr (fst x = s)"
    and "c_string (drop (16 * (e mod 32)) page) = Inr (fst x)" and "length (fst x) < 14"
    and "dentry_inodeid page (e mod 32) = Inr (snd x)"
proof -
  let ?m = "drop (16 * (e mod 32)) page" and ?c = "drop (16 * e) (content V fs i)"
  have eq: "take 16 ?m = take 16 ?c" unfolding page_def by (rule entry_bytes [OF assms(1,2)])
  have t14: "take 14 ?m = take 14 ?c"
    using arg_cong [OF eq, of "take 14"] by (simp add: min_def)
  then have z: "0 \<in> set (take 14 ?m)" using assms(3) by simp
  then have z': "0 \<in> set ?m" by (meson in_set_takeD)
  have nm: "takeWhile (\<lambda>b. b \<noteq> 0) ?m = fst x"
    using takeWhile_take [OF z] t14 by (simp add: x_def dentry_at_def)
  show "c_streq ?m s = Inr (fst x = s)" using c_streq_ok [OF z' assms(4)] nm by simp
  show "c_string ?m = Inr (fst x)" using c_string_ok [OF z'] nm by simp
  have "length (takeWhile (\<lambda>b. b \<noteq> 0) (take 14 ?c)) \<noteq> length (take 14 ?c)"
    using assms(3) by (metis (mono_tags, lifting) set_takeWhileD takeWhile_eq_take take_all_iff order_refl)
  moreover have "length (take 14 ?c) = 14" using assms(2) by simp
  ultimately show "length (fst x) < 14"
    using length_takeWhile_le [of "\<lambda>b. b \<noteq> 0" "take 14 ?c"]
    unfolding x_def dentry_at_def fst_conv by linarith
  have "16 * (e mod 32) + 16 \<le> (512 :: nat)" by linarith
  then have len: "16 * (e mod 32) + 14 + 2 \<le> length page" using assms(1) by (simp add: page_def)
  have "take 2 (drop 14 ?m) = take 2 (drop 14 ?c)"
    using arg_cong [OF eq, of "\<lambda>xs. take 2 (drop 14 xs)"] take_drop_sub [of 14 2 16 ?m]
      take_drop_sub [of 14 2 16 ?c] by simp
  then show "dentry_inodeid page (e mod 32) = Inr (snd x)"
    using len by (simp add: dentry_inodeid_def mem_read_ok SIZEOF_DENTRY_def FS_MAX_FNAME_SZ_def
        x_def dentry_at_def mult.commute add.commute)
qed

section \<open>Searching\<close>

text \<open>One page: entries \<open>i\<close> to 31, as far as \<open>num\<close> reaches, named by \<open>E\<close>.\<close>

lemma search_page_ok:
  assumes "\<And>j. i \<le> j \<Longrightarrow> j < min 32 (i + num) \<Longrightarrow>
      c_streq (drop (16 * j) page) nm = Inr (fst (E j) = nm)
      \<and> dentry_inodeid page j = Inr (snd (E j))"
  shows "search_page page nm i num =
    Inr (case map_of (map E [i..<min 32 (i + num)]) nm of
           Some fid \<Rightarrow> Inl fid | None \<Rightarrow> Inr (num - (min 32 (i + num) - i)))"
  using assms
proof (induction page nm i num rule: search_page.induct)
  case (1 page nm i num)
  show ?case
  proof (cases "i < 32 \<and> num > 0")
    case False
    then show ?thesis
      by (subst search_page.simps) (auto simp: DIR_PAGE_ENTRIES_def BLOCK_SIZE_def SIZEOF_DENTRY_def)
  next
    case True
    then have i: "i < DIR_PAGE_ENTRIES \<and> num > 0"
      by (simp add: DIR_PAGE_ENTRIES_def BLOCK_SIZE_def SIZEOF_DENTRY_def)
    have upt: "[i..<min 32 (i + num)] = i # [i + 1..<min 32 (i + num)]"
      using True by (simp add: upt_conv_Cons)
    have E: "c_streq (drop (i * SIZEOF_DENTRY) page) nm = Inr (fst (E i) = nm)"
      "dentry_inodeid page i = Inr (snd (E i))"
      using "1.prems" [of i] True by (simp_all add: SIZEOF_DENTRY_def mult.commute)
    show ?thesis
    proof (cases "fst (E i) = nm")
      case True
      with i E show ?thesis unfolding upt by (subst search_page.simps) simp
    next
      case False
      have "search_page page nm (i + 1) (num - 1) =
        Inr (case map_of (map E [i + 1..<min 32 (i + 1 + (num - 1))]) nm of
           Some fid \<Rightarrow> Inl fid | None \<Rightarrow> Inr (num - 1 - (min 32 (i + 1 + (num - 1)) - (i + 1))))"
        using "1.prems" True by (intro "1.IH" [OF i E(1) False]) auto
      moreover have "i + 1 + (num - 1) = i + num"
        and "num - 1 - (min 32 (i + num) - (i + 1)) = num - (min 32 (i + num) - i)" using True by auto
      ultimately show ?thesis
        using i E False unfolding upt by (subst search_page.simps) (simp split: option.split)
    qed
  qed
qed

context disk
begin

lemma dir_pages:
  assumes "fs_inv V fs" and "live fs i" and "k < nblocks fs i"
  shows "length (dir_page V fs i k) = 512" and "k < 10"
    and "length buf = 512 \<Longrightarrow> DISK_READ D (fs_blocks fs) (iblocks (inode_tab fs ! i) ! k) buf =
      Inr (0, dir_page V fs i k, fs_blocks fs)"
proof -
  note inv = fs_invD [OF assms(1)]
  have ok: "dv_ok V (fs_blocks fs)" using fs_shapeD [OF inv(1)] by simp
  have cap: "fblk fs i k < dv_cap V (fs_blocks fs)" using ownsD [OF inv(2) assms(2,3)] by simp
  show "length (dir_page V fs i k) = 512"
    using disk_block_length [OF ok cap] by (simp add: dir_page_def BLOCK_SIZE_def)
  show "k < 10" using inv(6) [OF assms(2)] assms(3) by simp
  show "length buf = 512 \<Longrightarrow> DISK_READ D (fs_blocks fs) (iblocks (inode_tab fs ! i) ! k) buf =
      Inr (0, dir_page V fs i k, fs_blocks fs)"
    using disk_read [OF ok, of "iblocks (inode_tab fs ! i) ! k" buf] cap
    by (simp add: dir_page_def fblk_def BLOCK_SIZE_def)
qed

lemma entry_block:
  assumes "e < fsize fs i div 16"
  shows "e div 32 < nblocks fs i"
proof -
  have "16 * e < fsize fs i" using assms by linarith
  from block_of_byte [OF this] show ?thesis by (simp add: entry_position)
qed

text \<open>The entries of one page, as the loops see them.\<close>

lemma page_entry:
  assumes "fs_inv V fs" and "live fs i" and "itype (inode_tab fs ! i) = FS_DIR"
    and "32 * k + j < fsize fs i div 16" and "j < 32" and "0 \<notin> set s"
  defines "x \<equiv> dentry_at (content V fs i) (32 * k + j)"
  shows "c_streq (drop (16 * j) (dir_page V fs i k)) s = Inr (fst x = s)"
    and "c_string (drop (16 * j) (dir_page V fs i k)) = Inr (fst x)" and "length (fst x) < 14"
    and "dentry_inodeid (dir_page V fs i k) j = Inr (snd x)" and "live fs (unat (snd x))"
proof -
  let ?e = "32 * k + j"
  have e: "?e div 32 = k" "?e mod 32 = j" using assms(5) by auto
  have len: "length (dir_page V fs i (?e div 32)) = 512"
    by (rule dir_pages(1) [OF assms(1,2) entry_block [OF assms(4)]])
  have ok: "0 \<in> set (take 14 (drop (16 * ?e) (content V fs i)))" "live fs (unat (snd x))"
    using fs_invD(8) [OF assms(1-3)] assms(4) unfolding dir_ok_def x_def by blast+
  from read_entry [OF len assms(4) ok(1) assms(6)] ok(2)
  show "c_streq (drop (16 * j) (dir_page V fs i k)) s = Inr (fst x = s)"
    "c_string (drop (16 * j) (dir_page V fs i k)) = Inr (fst x)" "length (fst x) < 14"
    "dentry_inodeid (dir_page V fs i k) j = Inr (snd x)" "live fs (unat (snd x))"
    unfolding e x_def by blast+
qed

lemma search_blocks_ok:
  assumes "fs_inv V fs" and "live fs i" and "itype (inode_tab fs ! i) = FS_DIR" and "0 \<notin> set file"
    and "tot = fsize fs i div 16" and "length page = 512" and "num = tot - 32 * k"
  shows "search_blocks D (iblocks (inode_tab fs ! i)) file k num page (fs_blocks fs) =
    Inr (map_of (map (dentry_at (content V fs i)) [32 * k..<tot]) file, fs_blocks fs)"
  using assms(6,7)
proof (induction num arbitrary: k page rule: less_induct)
  case (less num)
  show ?case
  proof (cases "num = 0")
    case True
    then show ?thesis using less.prems by (subst search_blocks.simps) simp
  next
    case False
    let ?E = "\<lambda>j. dentry_at (content V fs i) (32 * k + j)" and ?page = "dir_page V fs i k"
    let ?m = "min 32 num"
    have first: "32 * k < fsize fs i div 16" using False less.prems(2) assms(5) by simp
    have k: "k < nblocks fs i" using entry_block [OF first] by simp
    note pg = dir_pages [OF assms(1,2) k]
    have len: "length (iblocks (inode_tab fs ! i)) = 10"
      using live_inode [OF fs_invD(1) [OF assms(1)] assms(2)] by (simp add: inode_wf_def INODE_NUM_BLKS_def)
    have "search_page ?page file 0 num = Inr (case map_of (map ?E [0..<min 32 (0 + num)]) file of
        Some fid \<Rightarrow> Inl fid | None \<Rightarrow> Inr (num - (min 32 (0 + num) - 0)))"
      using page_entry(1,4) [OF assms(1-3) _ _ assms(4), of k] less.prems(2) assms(5)
      by (intro search_page_ok) auto
    moreover have "map ?E [0..<?m] = map (dentry_at (content V fs i)) [32 * k..<32 * k + ?m]"
      by (rule nth_equalityI) auto
    ultimately have sp: "search_page ?page file 0 num =
        Inr (case map_of (map (dentry_at (content V fs i)) [32 * k..<32 * k + ?m]) file of
          Some fid \<Rightarrow> Inl fid | None \<Rightarrow> Inr (num - ?m))" by (simp split: option.split)
    have split: "[32 * k..<tot] = [32 * k..<32 * k + ?m] @ [32 * k + ?m..<tot]"
      using False less.prems(2) by (intro upt_split) auto
    have IH: "search_blocks D (iblocks (inode_tab fs ! i)) file (k + 1) (num - ?m) ?page (fs_blocks fs)
      = Inr (map_of (map (dentry_at (content V fs i)) [32 * k + ?m..<tot]) file, fs_blocks fs)"
    proof (cases "num \<le> 32")
      case True
      then have "?m = num" "32 * k + num = tot" using False less.prems(2) by auto
      then show ?thesis by (subst search_blocks.simps) simp
    next
      case False
      then have "num - ?m = tot - 32 * (k + 1)" "num - ?m < num" "32 * k + ?m = 32 * (k + 1)"
        using less.prems(2) by auto
      with less.IH [of "num - ?m" ?page "k + 1"] pg(1) show ?thesis by (simp add: add.commute)
    qed
    show ?thesis
      using False pg(2) pg(3) [OF less.prems(1)] len sp IH unfolding split
      by (subst search_blocks.simps) (auto simp: c_nth_ok map_add_def split: option.splits)
  qed
qed

text \<open>The search returns the inode of the first entry with the name.\<close>

lemma fsi_dir_search_ok:
  assumes "fs_inv V fs" and "live fs i" and "itype (inode_tab fs ! i) = FS_DIR" and "0 \<notin> set file"
    and "length junk = 512"
  shows "fsi_dir_search D junk fs i file = Inr (map_of (dentries (content V fs i)) file, fs)"
proof -
  have "i < length (inode_tab fs)"
    using live_inode [OF fs_invD(1) [OF assms(1)] assms(2)] fs_shapeD(5) [OF fs_invD(1) [OF assms(1)]]
    by simp
  then show ?thesis
    using search_blocks_ok [OF assms(1-4) refl assms(5), of "fsize fs i div 16" 0]
    by (simp add: fsi_dir_search_def c_nth_ok SIZEOF_DENTRY_def fsize_def dentries_def)
qed

section \<open>Following a path\<close>

lemma map_of_dentries_live:
  assumes "fs_inv V fs" and "live fs i" and "itype (inode_tab fs ! i) = FS_DIR"
    and "map_of (dentries (content V fs i)) nm = Some j"
  shows "live fs (unat j)"
proof -
  from map_of_SomeD [OF assms(4)] obtain e where e: "e < fsize fs i div 16"
    and x: "(nm, j) = dentry_at (content V fs i) e"
    by (auto simp: dentries_def)
  have "snd (dentry_at (content V fs i) e) = j" by (simp flip: x)
  then show ?thesis using fs_invD(8) [OF assms(1-3)] e unfolding dir_ok_def by blast
qed

lemma strtok_tokens_zero: "0 \<notin> set s \<Longrightarrow> 0 \<notin> set acc \<Longrightarrow> t \<in> set (strtok_tokens acc s) \<Longrightarrow> 0 \<notin> set t"
  by (induction acc s rule: strtok_tokens.induct) (auto split: if_splits)

text \<open>The loop follows the path in the abstract file system; 1 says that it arrived.\<close>

lemma lookup_loop_ok:
  assumes "fs_inv V fs" and "live fs i" and "\<And>t. t \<in> set path \<Longrightarrow> 0 \<notin> set t"
    and "length junk = 512"
  shows "\<exists>rc fid. lookup_loop D junk path fs i fid0 = Inr (rc, fid, fs)
    \<and> (case abs_walk (fs_abs V fs) i path of
         Some j \<Rightarrow> rc = 1 \<and> (if path = [] then fid = fid0 else unat fid = j)
       | None \<Rightarrow> rc \<in> {0, -1})"
  using assms(2,3)
proof (induction path arbitrary: i fid0)
  case Nil
  then show ?case by simp
next
  case (Cons t path)
  note inv = fs_invD [OF assms(1)]
  have i: "i < 64" "i < length (inode_tab fs)"
    using live_inode [OF inv(1) Cons.prems(1)] fs_shapeD [OF inv(1)] by auto
  have used: "BMAP_ISSET (inode_bmap fs) i = Inr True"
    using inode_isset [OF inv(1) i(1)] live_used [OF Cons.prems(1)] by simp
  show ?case
  proof (cases "itype (inode_tab fs ! i) = FS_DIR")
    case False
    then show ?thesis using Cons.prems(1) i used by (simp add: fs_abs_def c_nth_ok)
  next
    case True
    have walk: "fs_abs V fs i = Some (DirNode (dentries (content V fs i)))"
      using True Cons.prems(1) by (simp add: fs_abs_def)
    have search: "fsi_dir_search D junk fs i t = Inr (map_of (dentries (content V fs i)) t, fs)"
      using Cons.prems(2) by (intro fsi_dir_search_ok [OF assms(1) Cons.prems(1) True _ assms(4)]) simp
    show ?thesis
    proof (cases "map_of (dentries (content V fs i)) t")
      case None
      then show ?thesis using True i used walk search by (simp add: c_nth_ok)
    next
      case (Some j)
      have "live fs (unat j)" by (rule map_of_dentries_live [OF assms(1) Cons.prems(1) True Some])
      then obtain rc fid where IH: "lookup_loop D junk path fs (unat j) j = Inr (rc, fid, fs)"
        "case abs_walk (fs_abs V fs) (unat j) path of
          Some l \<Rightarrow> rc = 1 \<and> (if path = [] then fid = j else unat fid = l) | None \<Rightarrow> rc \<in> {0, -1}"
        using Cons.IH [of "unat j" j] Cons.prems(2) by auto
      have "case abs_walk (fs_abs V fs) i (t # path) of
          Some l \<Rightarrow> rc = 1 \<and> unat fid = l | None \<Rightarrow> rc \<in> {0, -1}"
        using IH(2) walk Some by (cases "path = []") (auto split: option.splits)
      then show ?thesis
        using True i used walk search Some IH(1) by (simp add: c_nth_ok split: option.splits)
    qed
  qed
qed

lemma fs_lookup_ok:
  assumes "fs_inv V fs" and "0 \<notin> set path" and "path \<noteq> []" and "hd path = SLASH"
    and "length path < MAX_PATH_NAME_SIZE" and "length junk = 512"
  shows "\<exists>rc fid. fs_lookup D junk (Some fs) (Some path) fid0 = Inr (rc, fid, Some fs)
    \<and> (case abs_walk (fs_abs V fs) 1 (strtok_tokens [] path) of
         Some j \<Rightarrow> rc = 1 \<and> (if strtok_tokens [] path = [] then fid = fid0 else unat fid = j)
       | None \<Rightarrow> rc \<in> {0, -1})"
proof -
  have "0 \<notin> set t" if "t \<in> set (strtok_tokens [] path)" for t
    using strtok_tokens_zero [OF assms(2) _ that] by simp
  from lookup_loop_ok [OF assms(1) fs_invD(4) [OF assms(1)] this assms(6), of _ fid0]
  show ?thesis using assms(3-5) by (fastforce simp: fs_lookup_def)
qed

end

section \<open>Listing\<close>

definition dir_listing :: "'d disk_view \<Rightarrow> 'd fs_t \<Rightarrow> nat \<Rightarrow> fs_file_name_t list" where
  "dir_listing V fs i =
     map (\<lambda>(nm, j). (nm, itype (inode_tab fs ! unat j))) (dentries (content V fs i))"

lemma readdir_page_ok:
  assumes "\<And>j. i \<le> j \<Longrightarrow> j < min 32 (i + num) \<Longrightarrow>
      c_string (drop (16 * j) page) = Inr (fst (E j)) \<and> length (fst (E j)) < 14
      \<and> dentry_inodeid page j = Inr (snd (E j)) \<and> unat (snd (E j)) < length tab"
    and "ientry + num \<le> length entries" and "m = min 32 (i + num) - i"
  shows "readdir_page tab page i num ientry entries =
    Inr (num - m, ientry + m, take ientry entries
      @ map (\<lambda>j. (fst (E j), itype (tab ! unat (snd (E j))))) [i..<i + m]
      @ drop (ientry + m) entries)"
  using assms
proof (induction tab page i num ientry entries arbitrary: m rule: readdir_page.induct)
  case (1 tab page i num ientry entries)
  show ?case
  proof (cases "i < 32 \<and> num > 0")
    case False
    then have "m = 0" using "1.prems"(3) by auto
    then show ?thesis using False
      by (subst readdir_page.simps) (auto simp: DIR_PAGE_ENTRIES_def BLOCK_SIZE_def SIZEOF_DENTRY_def)
  next
    case True
    then have i: "i < DIR_PAGE_ENTRIES \<and> num > 0"
      by (simp add: DIR_PAGE_ENTRIES_def BLOCK_SIZE_def SIZEOF_DENTRY_def)
    let ?x = "(fst (E i), itype (tab ! unat (snd (E i))))"
    let ?F = "\<lambda>j. (fst (E j), itype (tab ! unat (snd (E j))))"
    have E: "c_string (drop (i * SIZEOF_DENTRY) page) = Inr (fst (E i))"
      "\<not> length (fst (E i)) + 1 > FS_MAX_FNAME_SZ" "dentry_inodeid page i = Inr (snd (E i))"
      "unat (snd (E i)) < length tab" "ientry < length entries"
      using "1.prems"(1) [of i] "1.prems"(2) True
      by (simp_all add: SIZEOF_DENTRY_def FS_MAX_FNAME_SZ_def mult.commute)
    have E1: "c_nth tab (unat (snd (E i))) = Inr (tab ! unat (snd (E i)))"
      "c_upd entries ientry ?x = Inr (entries[ientry := ?x])" using E by (simp_all add: c_nth_ok c_upd_ok)
    have m: "m = Suc (m - 1)" "m - 1 = min 32 (i + 1 + (num - 1)) - (i + 1)"
      using "1.prems"(3) True by auto
    have "readdir_page tab page (i + 1) (num - 1) (ientry + 1) (entries[ientry := ?x]) =
      Inr (num - 1 - (m - 1), ientry + 1 + (m - 1), take (ientry + 1) (entries[ientry := ?x])
        @ map ?F [i + 1..<i + 1 + (m - 1)] @ drop (ientry + 1 + (m - 1)) (entries[ientry := ?x]))"
      using "1.prems"(1,2) True m(2) by (intro "1.IH" [OF i E(1,2,3) E1]) auto
    moreover have "num - 1 - (m - 1) = num - m" "ientry + 1 + (m - 1) = ientry + m"
      "i + 1 + (m - 1) = i + m" using m(1) by simp_all
    moreover have "take (ientry + 1) (entries[ientry := ?x]) = take ientry entries @ [?x]"
      using E(5) by (simp add: take_Suc_conv_app_nth)
    moreover have "drop (ientry + m) (entries[ientry := ?x]) = drop (ientry + m) entries"
      using m(1) by simp
    moreover have "[i..<i + m] = i # [i + 1..<i + m]" using m(1) by (simp add: upt_conv_Cons)
    ultimately show ?thesis using i E E1 by (subst readdir_page.simps) simp
  qed
qed

context disk
begin

lemma readdir_blocks_ok:
  assumes "fs_inv V fs" and "live fs i" and "itype (inode_tab fs ! i) = FS_DIR"
    and "tot \<le> fsize fs i div 16" and "tot \<le> length entries0"
    and "length page = 512" and "num = tot - min tot (32 * k)"
    and "entries = take (min tot (32 * k)) (dir_listing V fs i) @ drop (min tot (32 * k)) entries0"
  shows "readdir_blocks D (inode_tab fs) (iblocks (inode_tab fs ! i)) k num (min tot (32 * k)) entries
      page (fs_blocks fs) =
    Inr (tot, take tot (dir_listing V fs i) @ drop tot entries0, fs_blocks fs)"
  using assms(6,7,8)
proof (induction num arbitrary: k page entries rule: less_induct)
  case (less num)
  show ?case
  proof (cases "num = 0")
    case True
    then have "min tot (32 * k) = tot" using less.prems(2) by simp
    with True less.prems(3) show ?thesis by (subst readdir_blocks.simps) simp
  next
    case False
    let ?E = "\<lambda>j. dentry_at (content V fs i) (32 * k + j)" and ?page = "dir_page V fs i k"
    let ?F = "\<lambda>j. (fst (?E j), itype (inode_tab fs ! unat (snd (?E j))))"
    let ?m = "min 32 num"
    have k32: "32 * k < tot" "min tot (32 * k) = 32 * k" "num = tot - 32 * k"
      using False less.prems(2) by auto
    have lenL: "length (dir_listing V fs i) = fsize fs i div 16"
      by (simp add: dir_listing_def dentries_def)
    have k: "k < nblocks fs i" using entry_block [of "32 * k" fs i] k32 assms(4) by simp
    note pg = dir_pages [OF assms(1,2) k]
    have len: "length (iblocks (inode_tab fs ! i)) = 10"
      using live_inode [OF fs_invD(1) [OF assms(1)] assms(2)] by (simp add: inode_wf_def INODE_NUM_BLKS_def)
    have tab: "length (inode_tab fs) = 64" using fs_shapeD [OF fs_invD(1) [OF assms(1)]] by simp
    have entry: "c_string (drop (16 * j) ?page) = Inr (fst (?E j)) \<and> length (fst (?E j)) < 14
        \<and> dentry_inodeid ?page j = Inr (snd (?E j)) \<and> unat (snd (?E j)) < length (inode_tab fs)"
      if "j < min 32 (0 + num)" for j
      using page_entry(2-5) [OF assms(1-3), of k j "[]"] that k32 assms(4) tab
      by (auto simp: live_def)
    have rp: "readdir_page (inode_tab fs) ?page 0 num (32 * k) entries =
      Inr (num - ?m, 32 * k + ?m, take (32 * k) entries @ map ?F [0..<0 + ?m] @ drop (32 * k + ?m) entries)"
      using entry less.prems(3) k32 assms(4,5) lenL by (intro readdir_page_ok) auto
    have m: "32 * k + ?m = min tot (32 * (k + 1))" "num - ?m = tot - min tot (32 * (k + 1))" "num - ?m < num"
      using k32 False by auto
    have "map ?F [0..<0 + ?m] = take ?m (drop (32 * k) (dir_listing V fs i))"
      using k32 assms(4) by (intro nth_equalityI)
        (auto simp: dir_listing_def dentries_def split_beta)
    then have "take (32 * k) entries @ map ?F [0..<0 + ?m] @ drop (32 * k + ?m) entries =
        take (32 * k + ?m) (dir_listing V fs i) @ drop (32 * k + ?m) entries0"
      using less.prems(3) k32 lenL assms(4) by (simp add: take_add add.commute)
    then have IH: "readdir_blocks D (inode_tab fs) (iblocks (inode_tab fs ! i)) (k + 1) (num - ?m)
        (32 * k + ?m) (take (32 * k) entries @ map ?F [0..<0 + ?m] @ drop (32 * k + ?m) entries)
        ?page (fs_blocks fs) = Inr (tot, take tot (dir_listing V fs i) @ drop tot entries0, fs_blocks fs)"
      using less.IH [OF m(3) pg(1) m(2)] unfolding m(1) by simp
    show ?thesis
      using False pg(2) pg(3) [OF less.prems(1)] len rp IH k32(2)
      by (subst readdir_blocks.simps) (simp add: c_nth_ok)
  qed
qed

lemma fs_readdir_ok:
  assumes "fs_inv V fs" and "live fs (unat dir)" and "itype (inode_tab fs ! unat dir) = FS_DIR"
    and "0 \<le> maxn" and "n = min (length (dir_listing V fs (unat dir))) (nat maxn)"
    and "n \<le> length entries" and "length junk = 512"
  shows "fs_readdir D junk (Some fs) dir (Some entries) maxn (Some nr) =
    Inr (0, Some fs, Some (take n (dir_listing V fs (unat dir)) @ drop n entries), Some (int n))"
proof -
  let ?i = "unat dir"
  note inv = fs_invD [OF assms(1)]
  have i: "?i < 64" "?i < length (inode_tab fs)"
    using live_inode [OF inv(1) assms(2)] fs_shapeD [OF inv(1)] by auto
  have used: "BMAP_ISSET (inode_bmap fs) ?i = Inr True"
    using inode_isset [OF inv(1) i(1)] live_used [OF assms(2)] by simp
  have n: "n = min (unat (isize (inode_tab fs ! ?i)) div SIZEOF_DENTRY) (nat maxn)" "n \<le> fsize fs ?i div 16"
    using assms(5) by (auto simp: dir_listing_def dentries_def fsize_def SIZEOF_DENTRY_def)
  show ?thesis
    using readdir_blocks_ok [OF assms(1-3) n(2) assms(6,7), of n 0 entries] assms(3,4) i used
    by (simp add: fs_readdir_def c_nth_ok Let_def flip: n(1))
qed

end

end
