(* ===== verification/Fs_Create.thy ===== *)
theory Fs_Create
  imports Fs_Dirs
begin

text \<open>
  Creating files and directories: \<open>fs_create\<close> and \<open>fs_mkdir\<close>. Both extend the pages of the
  parent directory by one entry, take the first free inode for the new node and save the
  metadata.
\<close>

section \<open>One more entry\<close>

lemma dentries_snoc:
  assumes "length bs mod 16 = 0" and "length eb = 16"
  shows "dentries (bs @ eb) = dentries bs @ [dentry_at eb 0]"
proof -
  obtain q where q: "length bs = 16 * q" using assms(1) by (metis mult_div_mod_eq add_0_right)
  have "dentry_at (bs @ eb) e = dentry_at bs e" if "e < q" for e
  proof -
    have "16 * e + 16 \<le> length bs" using that q by simp
    then show ?thesis by (simp add: dentry_at_def)
  qed
  moreover have "dentry_at (bs @ eb) q = dentry_at eb 0" using q assms(2) by (simp add: dentry_at_def)
  ultimately show ?thesis using q assms(2) by (simp add: dentries_def)
qed

text \<open>The sixteen bytes of an entry: the name with its terminator, what was there before up to byte
  14, and the inode number.\<close>

definition new_entry :: "byte list \<Rightarrow> byte list \<Rightarrow> u16 \<Rightarrow> byte list" where
  "new_entry old nm ino = nm @ 0 # drop (length nm + 1) (take 14 old) @ le16 ino"

lemma new_entry_ok:
  assumes "length old = 16" and "length nm < 14" and "0 \<notin> set nm"
  shows "length (new_entry old nm ino) = 16" and "dentry_at (new_entry old nm ino) 0 = (nm, ino)"
    and "0 \<in> set (take 14 (new_entry old nm ino))"
proof -
  define front where "front = nm @ 0 # drop (length nm + 1) (take 14 old)"
  have front: "length front = 14" using assms(1,2) by (simp add: front_def)
  have eq: "new_entry old nm ino = front @ le16 ino" by (simp add: new_entry_def front_def)
  show "length (new_entry old nm ino) = 16" unfolding eq using front by simp
  have "takeWhile (\<lambda>b. b \<noteq> 0) front = nm" "0 \<in> set front"
    using assms(3) by (auto simp: takeWhile_append front_def)
  then show "dentry_at (new_entry old nm ino) 0 = (nm, ino)"
    "0 \<in> set (take 14 (new_entry old nm ino))"
    using front by (simp_all add: dentry_at_def eq)
qed

lemma dentry_set_ok:
  assumes "length nm < 14" and "16 * i + 16 \<le> length page"
  shows "dentry_set page i nm ino = Inr (take (16 * i) page
    @ new_entry (take 16 (drop (16 * i) page)) nm ino @ drop (16 * i + 16) page)"
proof -
  let ?r = "16 * i" and ?n = "length nm"
  define a old c where "a = take ?r page" and "old = take 16 (drop ?r page)"
    and "c = drop (?r + 16) page"
  have page: "page = a @ old @ c"
    unfolding a_def old_def c_def by (metis append_take_drop_id drop_drop add.commute)
  have len: "length a = ?r" "length old = 16" using assms(2) by (simp_all add: a_def old_def)
  define mid where "mid = drop (?n + 1) (take 14 old)"
  obtain tl2 where tl2: "old = take (?n + 1) old @ mid @ tl2" "length tl2 = 2"
  proof
    have "take 14 old = take (?n + 1) old @ mid"
      using assms(1) unfolding mid_def by (metis append_take_drop_id take_take min_absorb1 Suc_leI Suc_eq_plus1)
    then show "old = take (?n + 1) old @ mid @ drop 14 old" by (metis append.assoc append_take_drop_id)
    show "length (drop 14 old) = 2" using len by simp
  qed
  have drop_old: "drop (?n + 1) old = mid @ tl2"
    by (metis append_take_drop_id same_append_eq tl2(1))
  have lm: "length mid = 13 - ?n" using len by (simp add: mid_def)
  have w1: "mem_write page ?r (nm @ [0]) = Inr (a @ nm @ 0 # mid @ tl2 @ c)"
  proof -
    have "drop (?r + (?n + 1)) page = mid @ tl2 @ c"
      unfolding page using len assms(1) drop_old by simp
    then show ?thesis using assms by (simp add: mem_write_ok a_def)
  qed
  have "mem_write (a @ nm @ 0 # mid @ tl2 @ c) (?r + 14) (le16 ino) =
      Inr ((a @ nm @ 0 # mid) @ le16 ino @ c)"
  proof -
    have len14: "length (a @ nm @ 0 # mid) = ?r + 14" using len lm assms(1) by simp
    have "mem_write ((a @ nm @ 0 # mid) @ tl2 @ c) (?r + 14) (le16 ino) =
        Inr ((a @ nm @ 0 # mid) @ le16 ino @ c)"
      using tl2(2) by (intro mem_write_middle len14) simp
    then show ?thesis by simp
  qed
  with w1 show ?thesis
    by (simp add: dentry_set_def SIZEOF_DENTRY_def FS_MAX_FNAME_SZ_def new_entry_def mid_def
        mult.commute a_def old_def c_def)
qed

context disk
begin

lemma dir_size:
  assumes "fs_inv V fs" and "live fs i" and "itype (inode_tab fs ! i) = FS_DIR"
  shows "fsize fs i mod 16 = 0" and "fsize fs i \<le> 1024"
    and "nblocks fs i = (if fsize fs i mod 512 = 0 then fsize fs i div 512 else fsize fs i div 512 + 1)"
proof -
  have ok: "fsize fs i mod 16 = 0" "fsize fs i div 16 \<le> card (used_inodes fs)"
    using fs_invD(8) [OF assms] by (auto simp: dir_ok_def)
  show "fsize fs i mod 16 = 0" by fact
  have "card (used_inodes fs) \<le> card {..<64 :: nat}"
    by (intro card_mono) (auto simp: used_inodes_def)
  then have "fsize fs i div 16 \<le> 64" using ok(2) by simp
  moreover have "fsize fs i = 16 * (fsize fs i div 16)" using ok(1) by auto
  ultimately show "fsize fs i \<le> 1024" by linarith
  show "nblocks fs i = (if fsize fs i mod 512 = 0 then fsize fs i div 512 else fsize fs i div 512 + 1)"
    using blocks_round_up [of "fsize fs i"] unfolding nblocks_def by (auto split: if_splits)
qed

lemma dir_entries_mod:
  assumes "fs_inv V fs" and "live fs i" and "itype (inode_tab fs ! i) = FS_DIR"
  shows "fsize fs i mod 512 = 0 \<longleftrightarrow> fsize fs i div 16 mod 32 = 0"
proof -
  obtain e where e: "fsize fs i = 16 * e"
    using dir_size(1) [OF assms] by (metis mult_div_mod_eq add_0_right)
  then show ?thesis by (simp add: entry_position)
qed

text \<open>A new page is reserved only when the last one is full.\<close>

lemma add_dir_block_ok:
  assumes "fs_inv V fs" and "live fs i" and "itype (inode_tab fs ! i) = FS_DIR"
    and "fsize fs i mod 512 = 0 \<Longrightarrow> free_blocks D fs \<noteq> {}"
  shows "\<exists>fs'. add_dir_block D fs i = Inr (0, fs') \<and> fs_shape V fs'
    \<and> owns V fs' ((nblocks fs)(i := fsize fs i div 512 + 1)) \<and> grown fs i (nblocks fs i) fs'"
proof -
  note inv = fs_invD [OF assms(1)] and size = dir_size [OF assms(1-3)]
  have i: "i < length (inode_tab fs)" and wf: "length (iblocks (inode_tab fs ! i)) = 10"
    using live_inode [OF inv(1) assms(2)] fs_shapeD [OF inv(1)]
    by (auto simp: inode_wf_def INODE_NUM_BLKS_def)
  show ?thesis
  proof (cases "fsize fs i mod 512 = 0")
    case False
    then have "(nblocks fs)(i := fsize fs i div 512 + 1) = nblocks fs" using size(3) by auto
    moreover have "add_dir_block D fs i = Inr (0, fs)"
      using False i by (simp add: add_dir_block_def c_nth_ok fsize_def BLOCK_SIZE_def)
    ultimately show ?thesis using inv(1,2) grown_refl by metis
  next
    case True
    note room = assms(4) [OF True]
    define n where "n = Min (free_blocks D fs)"
    have n_free: "n \<in> free_blocks D fs" unfolding n_def using room by (intro Min_in) auto
    note n = free_block_facts [OF inv(1,2) n_free]
    have find: "fsi_bmap_find_free (blk_bmap fs) (unat (DISK_BLOCKS D (fs_blocks fs))) = Inr (Some n)"
      using find_free_block [OF fs_shapeD(3) [OF inv(1)] room] by (simp only: n_def)
    obtain bb where bb: "BMAP_SET (blk_bmap fs) n = Inr bb"
      using BMAP_SET_ok [of n "blk_bmap fs"] n(2) fs_shapeD(3) [OF inv(1)]
      by (auto simp: BMAP_BITS_def BLOCK_SIZE_def)
    define fs1 where "fs1 = fs\<lparr>blk_bmap := bb, inode_tab := (inode_tab fs)[i :=
        (inode_tab fs ! i)\<lparr>iblocks := (iblocks (inode_tab fs ! i))[nblocks fs i := of_nat n]\<rparr>]\<rparr>"
    have K: "nblocks fs i < 10" "nblocks fs i = fsize fs i div 512"
      using size True by auto
    note step = alloc_step [OF inv(1,2) assms(2) K(1) n bb fs1_def]
    have "add_dir_block D fs i = Inr (0, fs1)"
      using True i wf find bb K
      by (simp add: add_dir_block_def c_nth_ok c_upd_ok fs1_def flip: fsize_def)
        (simp add: BLOCK_SIZE_def c_upd_ok)
    then show ?thesis using step(1-3) K(2) by auto
  qed
qed

text \<open>Writing the entry into its page and counting it.\<close>

lemma add_dir_entry_ok:
  assumes "fs_shape V fs" and "owns V fs K" and "live fs i" and "K i = fsize fs i div 512 + 1"
    and "K i \<le> 10" and "fsize fs i mod 16 = 0" and "length nm < 14" and "length junk = 512"
  shows "\<exists>d old. add_dir_entry D junk fs i nm n = Inr (fs\<lparr>fs_blocks := d, inode_tab :=
        (inode_tab fs)[i := (inode_tab fs ! i)\<lparr>isize := isize (inode_tab fs ! i) + 16\<rparr>]\<rparr>)
    \<and> length old = 16
    \<and> wrote D V (fblk fs i) (K i) (K i) (fsize fs i) (new_entry old nm (of_nat n)) (fs_blocks fs)
        (fsize fs i) (fsize fs i + 16) d"
proof -
  let ?s = "fsize fs i" and ?ino = "inode_tab fs ! i"
  let ?k = "?s div 512"
  define page idx where "page = dir_page V fs i ?k" and "idx = ?s mod 512 div 16"
  note sh = fs_shapeD [OF assms(1)] and own = owned_blocks [OF assms(2,3)]
  have i: "i < length (inode_tab fs)" and wf: "length (iblocks ?ino) = 10"
    using live_inode [OF assms(1,3)] sh by (auto simp: inode_wf_def INODE_NUM_BLKS_def)
  have k: "?k < K i" "?k < 10" using assms(4,5) by auto
  have cap: "fblk fs i ?k < dv_cap V (fs_blocks fs)" using own(2) k by blast
  have page: "length page = 512"
    using disk_block_length [OF sh(1) cap] by (simp add: page_def dir_page_def BLOCK_SIZE_def)
  have rd: "DISK_READ D (fs_blocks fs) (iblocks ?ino ! ?k) junk = Inr (0, page, fs_blocks fs)"
    using disk_read [OF sh(1), of "iblocks ?ino ! ?k" junk] cap assms(8)
    by (simp add: page_def dir_page_def fblk_def BLOCK_SIZE_def)
  have r: "?s mod 512 = 16 * idx" "16 * idx + 16 \<le> 512" "?s = 512 * ?k + 16 * idx"
  proof -
    obtain e where e: "?s = 16 * e" using assms(6) by (metis mult_div_mod_eq add_0_right)
    then show r1: "?s mod 512 = 16 * idx" by (simp add: idx_def entry_position)
    have "e mod 32 < 32" by simp
    then show "16 * idx + 16 \<le> 512" by (simp add: idx_def e entry_position)
    show "?s = 512 * ?k + 16 * idx" by (simp flip: r1)
  qed
  define old where "old = take 16 (drop (16 * idx) page)"
  define eb where "eb = new_entry old nm (of_nat n)"
  have old: "length old = 16" using page r(2) by (simp add: old_def)
  have eb: "length eb = 16" using old assms(7) by (simp add: eb_def new_entry_def)
  define new where "new = take (16 * idx) page @ eb @ drop (16 * idx + 16) page"
  have new: "dentry_set page idx nm (of_nat n) = Inr new" "length new = 512"
    using dentry_set_ok [OF assms(7), of idx page "of_nat n"] page r(2) eb
    by (simp_all add: new_def eb_def old_def)
  have nth_new: "new ! q = (if 16 * idx \<le> q \<and> q < 16 * idx + 16 then eb ! (q - 16 * idx) else page ! q)"
    if "q < 512" for q
    using that page r(2) eb by (auto simp: new_def nth_append min_def)
  have "\<exists>d. DISK_WRITE D (fs_blocks fs) (iblocks ?ino ! ?k) new = Inr (0, d)
      \<and> wrote D V (fblk fs i) (K i) (K i) ?s eb (fs_blocks fs) ?s (?s + 16) d"
  proof (rule wrote_block [OF sh(1) k(1) own(1) _ _ new(2) refl])
    show "fblk fs i j < dv_cap V (fs_blocks fs)" if "j < K i" for j using own(2) that by blast
    show "unat (iblocks ?ino ! ?k) = fblk fs i ?k" by (simp add: fblk_def)
    have "512 * ?k + 16 * idx + 16 \<le> 512 * (?k + 1)" using r(2) by simp
    then show "?s + 16 \<le> 512 * (?k + 1)" by (simp only: r(3) [symmetric])
    fix p assume p: "p div 512 = ?k"
    then have p': "p = 512 * ?k + p mod 512" by (simp flip: p)
    show "new ! (p mod 512) = eb ! (p - ?s)" if "?s \<le> p" "p < ?s + 16"
    proof -
      have "16 * idx \<le> p mod 512" "p mod 512 < 16 * idx + 16" "p - ?s = p mod 512 - 16 * idx"
        using that p' r(3) by auto
      then show ?thesis by (simp add: nth_new)
    qed
    show "new ! (p mod 512) = dv_block V (fs_blocks fs) (fblk fs i ?k) ! (p mod 512)"
      if "p < ?s \<or> ?s + 16 \<le> p \<and> ?k < K i"
    proof -
      have "\<not> (16 * idx \<le> p mod 512 \<and> p mod 512 < 16 * idx + 16)" using that p' r(3) by auto
      with nth_new [of "p mod 512"] show ?thesis by (auto simp: page_def dir_page_def)
    qed
  qed
  then obtain d where "DISK_WRITE D (fs_blocks fs) (iblocks ?ino ! ?k) new = Inr (0, d)"
    and wr: "wrote D V (fblk fs i) (K i) (K i) ?s eb (fs_blocks fs) ?s (?s + 16) d" by blast
  then have "add_dir_entry D junk fs i nm n = Inr (fs\<lparr>fs_blocks := d, inode_tab :=
      (inode_tab fs)[i := ?ino\<lparr>isize := isize ?ino + 16\<rparr>]\<rparr>)"
    using i wf k(2) rd new(1) idx_def
    by (simp add: add_dir_entry_def c_nth_ok BLOCK_SIZE_def SIZEOF_DENTRY_def fsize_def)
  then show ?thesis using old wr unfolding eb_def by blast
qed

end

section \<open>A new inode\<close>

lemma inode_added:
  assumes "fs_shape V fs" and "owns V fs (nblocks fs)" and "n < 64" and "\<not> bmap_has (inode_bmap fs) n"
    and "BMAP_SET (inode_bmap fs) n = Inr ib" and "ty \<in> {FS_DIR, FS_FILE}"
    and fs': "fs' = fs\<lparr>inode_bmap := ib,
      inode_tab := (inode_tab fs)[n := fsi_inode_init (inode_tab fs ! n) ty]\<rparr>"
  shows "live fs' j = (j = n \<or> live fs j)" and "fsize fs' j = (if j = n then 0 else fsize fs j)"
    and "itype (inode_tab fs' ! j) = (if j = n then ty else itype (inode_tab fs ! j))"
    and "bmap_has (inode_bmap fs') j = (j = n \<or> bmap_has (inode_bmap fs) j)"
    and "card (used_inodes fs') = card (used_inodes fs) + 1"
    and "used_inodes fs' = insert n (used_inodes fs)"
    and "fs_shape V fs'" and "owns V fs' (nblocks fs')"
    and "content V fs' j = (if j = n then [] else content V fs j)"
proof -
  note sh = fs_shapeD [OF assms(1)]
  have ib: "length ib = 512" "\<And>m. bmap_has ib m \<longleftrightarrow> m = n \<or> bmap_has (inode_bmap fs) m"
    using BMAP_SET_ok [of n "inode_bmap fs"] assms(3,5) sh(4) by auto
  have tab: "inode_tab fs' ! j = (if j = n then fsi_inode_init (inode_tab fs ! n) ty else inode_tab fs ! j)"
    for j using assms(3) sh(5) by (simp add: fs')
  have bm: "inode_bmap fs' = ib" by (simp add: fs')
  show live: "live fs' j = (j = n \<or> live fs j)" for j
    using assms(3,6) by (auto simp: live_def bm ib(2) tab fsi_inode_init_def)
  show "bmap_has (inode_bmap fs') j = (j = n \<or> bmap_has (inode_bmap fs) j)" by (simp add: bm ib(2))
  show size: "fsize fs' j = (if j = n then 0 else fsize fs j)" for j
    by (simp add: fsize_def tab fsi_inode_init_def)
  show "itype (inode_tab fs' ! j) = (if j = n then ty else itype (inode_tab fs ! j))"
    by (simp add: tab fsi_inode_init_def)
  show "used_inodes fs' = insert n (used_inodes fs)"
    using assms(3) by (auto simp: used_inodes_def bm ib(2))
  moreover have "n \<notin> used_inodes fs" "finite (used_inodes fs)"
    using assms(4) by (auto simp: used_inodes_def)
  ultimately show "card (used_inodes fs') = card (used_inodes fs) + 1" by simp
  have blk: "j \<noteq> n \<Longrightarrow> fblk fs' j = fblk fs j" for j by (simp add: fblk_def [abs_def] tab)
  have "inode_wf (inode_tab fs' ! j)" if "j < 64" for j
    using sh(5,6) that
    by (simp add: tab list_all_length inode_wf_def fsi_inode_init_def INODE_NUM_BLKS_def)
  then have "list_all inode_wf (inode_tab fs')"
    using sh(5) by (simp add: list_all_length fs')
  then show "fs_shape V fs'"
    using assms(1) ib(1) by (simp add: fs_shape_def fs' BLOCK_SIZE_def)
  show "owns V fs' (nblocks fs')"
    using blk by (intro owns_cong [OF _ _ _ assms(2)])
      (auto simp: fs' [THEN arg_cong, of blk_bmap] fs' [THEN arg_cong, of fs_blocks]
        nblocks_def size live split: if_splits)
  show "content V fs' j = (if j = n then [] else content V fs j)"
  proof (cases "j = n")
    case True
    then show ?thesis by (simp add: content_def size)
  next
    case False
    have "content V fs' j = content V fs j"
      using False blk [OF False] by (intro content_cong) (simp_all add: size, simp add: fs')
    then show ?thesis using False by simp
  qed
qed

text \<open>There is no room for another node in a directory: no inode, or no block for a new page.\<close>

definition cannot_add :: "'d disk_ops \<Rightarrow> 'd fs_t \<Rightarrow> nat \<Rightarrow> bool" where
  "cannot_add D fs i \<longleftrightarrow> used_inodes fs = {..<ITAB_SIZE}
     \<or> fsize fs i mod 512 = 0 \<and> free_blocks D fs = {}
        \<and> unat (DISK_BLOCKS D (fs_blocks fs)) \<le> BMAP_BITS"

lemma wrote_weaken:
  "wrote D V blks K U off data d lo hi d' \<Longrightarrow> U' \<le> U \<Longrightarrow> wrote D V blks K U' off data d lo hi d'"
  by (auto simp: wrote_def)

context disk
begin

text \<open>The directory with its new entry, before the new inode exists.\<close>

lemma entry_added:
  assumes inv: "fs_inv V fs" and i: "live fs i" "itype (inode_tab fs ! i) = FS_DIR"
    and T: "T = fsize fs i div 512 + 1"
    and fs1: "fs_shape V fs1" "owns V fs1 ((nblocks fs)(i := T))" "grown fs i (nblocks fs i) fs1"
    and eb: "length eb = 16"
    and wr: "wrote D V (fblk fs1 i) T T (fsize fs i) eb (fs_blocks fs1) (fsize fs i) (fsize fs i + 16) d"
    and fs2: "fs2 = fs1\<lparr>fs_blocks := d, inode_tab :=
      (inode_tab fs1)[i := (inode_tab fs1 ! i)\<lparr>isize := isize (inode_tab fs1 ! i) + 16\<rparr>]\<rparr>"
  shows "live fs2 = live fs" and "used_inodes fs2 = used_inodes fs"
    and "itype (inode_tab fs2 ! j) = itype (inode_tab fs ! j)"
    and "fsize fs2 j = (if j = i then fsize fs i + 16 else fsize fs j)"
    and "fs_shape V fs2" and "owns V fs2 (nblocks fs2)"
    and "live fs j \<Longrightarrow> nblocks fs2 j \<le> INODE_NUM_BLKS"
    and "live fs j \<Longrightarrow> j \<noteq> i \<Longrightarrow> content V fs2 j = content V fs j"
    and "content V fs2 i = content V fs i @ eb"
proof -
  let ?s = "fsize fs i"
  note size = dir_size [OF inv i]
  have UT: "nblocks fs i \<le> T" using size(3) T by simp
  have T2: "T = (?s + 16 + 511) div 512"
  proof -
    define k r where "k = ?s div 512" and "r = ?s mod 512"
    have s: "?s = 512 * k + r" "r < 512" by (simp_all add: k_def r_def)
    have "r mod 16 = 0" using size(1) by (simp add: r_def mod_mod_cancel)
    then have "r \<le> 496" using s(2) by presburger
    then have "(?s + 16 + 511) div 512 = k + 1" by (intro div_nat_eqI) (simp_all add: s(1))
    then show ?thesis by (simp add: T k_def)
  qed
  have T10: "T \<le> 10" using size(2) unfolding T by linarith
  have sz: "?s + 16 = max (?s + 16) (fsize fs i)" by simp
  have w: "unat (isize (inode_tab fs1 ! i) + 16) = ?s + 16"
    using grownD(4) [OF fs1(3), of i] size(2) by (simp add: fsize_def unat_word_ariths)
  note re = resized [OF inv i(1) refl T2 T10 sz w fs1 wrote_weaken [OF wr UT] order_refl _ fs2]
  show "live fs2 = live fs" "used_inodes fs2 = used_inodes fs"
    "itype (inode_tab fs2 ! j) = itype (inode_tab fs ! j)"
    "fsize fs2 j = (if j = i then ?s + 16 else fsize fs j)"
    "fs_shape V fs2" "owns V fs2 (nblocks fs2)"
    "live fs j \<Longrightarrow> nblocks fs2 j \<le> INODE_NUM_BLKS"
    "live fs j \<Longrightarrow> j \<noteq> i \<Longrightarrow> content V fs2 j = content V fs j"
    using re eb by simp_all
  show "content V fs2 i = content V fs i @ eb" using re(9) eb by (simp add: overwrite_def)
qed

text \<open>A directory that gets one more entry, for an inode in use, stays well-formed.\<close>

lemma dir_ok_snoc:
  assumes dok: "dir_ok V fs i" and len: "length (content V fs i) = fsize fs i"
    and size: "fsize fs' i = fsize fs i + 16" and con: "content V fs' i = content V fs i @ eb"
    and card: "card (used_inodes fs') = card (used_inodes fs) + 1"
    and live: "\<And>j. live fs j \<Longrightarrow> live fs' j"
    and eb: "0 \<in> set (take 14 eb)" "live fs' (unat (snd (dentry_at eb 0)))"
  shows "dir_ok V fs' i"
  unfolding dir_ok_def
proof (intro conjI allI impI)
  note dok = dok [unfolded dir_ok_def]
  let ?c = "content V fs i"
  have "(fsize fs i + 16) div 16 = fsize fs i div 16 + 1" by simp
  then show "fsize fs' i mod 16 = 0" "fsize fs' i div 16 \<le> card (used_inodes fs')"
    using size dok card by (simp_all del: div_add_self2)
  fix e assume "e < fsize fs' i div 16"
  then consider (old) "e < fsize fs i div 16" | (new) "e = fsize fs i div 16"
    using size by fastforce
  then have "0 \<in> set (take 14 (drop (16 * e) (?c @ eb))) \<and> live fs' (unat (snd (dentry_at (?c @ eb) e)))"
  proof cases
    case old
    then have "16 * e + 16 \<le> length ?c" using len by simp
    then have "dentry_at (?c @ eb) e = dentry_at ?c e"
      "take 14 (drop (16 * e) (?c @ eb)) = take 14 (drop (16 * e) ?c)"
      by (simp_all add: dentry_at_def)
    then show ?thesis using dok old live by simp
  next
    case new
    then have "16 * e = length ?c" using dok len by auto
    then have "dentry_at (?c @ eb) e = dentry_at eb 0" "drop (16 * e) (?c @ eb) = eb"
      by (simp_all add: dentry_at_def)
    then show ?thesis using eb by simp
  qed
  then show "0 \<in> set (take 14 (drop (16 * e) (content V fs' i)))"
    "live fs' (unat (snd (dentry_at (content V fs' i) e)))" by (simp_all add: con)
qed

lemma create_effect:
  assumes inv: "fs_inv V fs" and i: "live fs i" "itype (inode_tab fs ! i) = FS_DIR"
    and n: "n < 64" "\<not> bmap_has (inode_bmap fs) n" and nm: "length nm < 14" "0 \<notin> set nm"
    and old: "length old = 16" and T: "T = fsize fs i div 512 + 1"
    and fs1: "fs_shape V fs1" "owns V fs1 ((nblocks fs)(i := T))" "grown fs i (nblocks fs i) fs1"
    and wr: "wrote D V (fblk fs1 i) T T (fsize fs i) (new_entry old nm (of_nat n)) (fs_blocks fs1)
      (fsize fs i) (fsize fs i + 16) d"
    and fs2: "fs2 = fs1\<lparr>fs_blocks := d, inode_tab :=
      (inode_tab fs1)[i := (inode_tab fs1 ! i)\<lparr>isize := isize (inode_tab fs1 ! i) + 16\<rparr>]\<rparr>"
    and ib: "BMAP_SET (inode_bmap fs2) n = Inr ib" and ty: "ty \<in> {FS_DIR, FS_FILE}"
    and fs3: "fs3 = fs2\<lparr>inode_bmap := ib,
      inode_tab := (inode_tab fs2)[n := fsi_inode_init (inode_tab fs2 ! n) ty]\<rparr>"
  shows "fs_inv V fs3" and "used_inodes fs3 = insert n (used_inodes fs)"
    and "fs_abs V fs3 = (fs_abs V fs)(i \<mapsto> DirNode (dentries (content V fs i) @ [(nm, of_nat n)]),
      n \<mapsto> (if ty = FS_DIR then DirNode [] else FileNode []))"
proof -
  note ne = new_entry_ok [OF old nm, of "of_nat n"]
  note ea = entry_added [OF inv i T fs1 ne(1) wr fs2]
  have bm: "inode_bmap fs2 = inode_bmap fs" using fs1(3) by (simp add: fs2 grown_def)
  note ia = inode_added [OF ea(5,6) n(1) _ ib ty fs3, unfolded bm, OF n(2)]
  have in': "i \<noteq> n" "\<not> live fs n" using i n(2) by (auto simp: live_def)
  have n16: "unat (of_nat n :: u16) = n" using n(1) by (intro unat_of_nat_u16) simp
  note size = dir_size [OF inv i]
  let ?eb = "new_entry old nm (of_nat n)" and ?c = "content V fs i"
  have con: "content V fs3 i = ?c @ ?eb" using ia(9) [of i] ea(9) in' by simp
  have other: "content V fs3 j = content V fs j" if "live fs j" "j \<noteq> i" for j
    using ia(9) [of j] ea(8) [OF that] that in' by auto
  have live3: "live fs3 j = (j = n \<or> live fs j)" for j using ia(1) ea(1) by simp
  have card3: "card (used_inodes fs3) = card (used_inodes fs) + 1" using ia(5) ea(2) by simp
  have size3: "fsize fs3 j = (if j = n then 0 else if j = i then fsize fs i + 16 else fsize fs j)" for j
    using ia(2) ea(4) by simp
  have ty3: "itype (inode_tab fs3 ! j) = (if j = n then ty else itype (inode_tab fs ! j))" for j
    using ia(3) ea(3) by simp
  have dir_i: "dir_ok V fs3 i"
    by (rule dir_ok_snoc [OF fs_invD(8) [OF inv i] _ _ con card3])
      (use size3 [of i] in' live3 ne n16 in auto)
  have dirs: "dir_ok V fs3 j" if j: "live fs3 j" "itype (inode_tab fs3 ! j) = FS_DIR" for j
  proof -
    consider "j = i" | "j = n" | "j \<noteq> i" "j \<noteq> n" by blast
    then show ?thesis
    proof cases
      case 2
      then show ?thesis by (simp add: dir_ok_def size3)
    next
      case 3
      then have "live fs j" "itype (inode_tab fs ! j) = FS_DIR" using j live3 ty3 by auto
      then show ?thesis using 3 fs_invD(8) [OF inv] other [of j] live3 card3
        by (intro dir_ok_cong [of fs3 j fs V]) (simp_all add: size3)
    qed (use dir_i in simp)
  qed
  have "nblocks fs3 j \<le> INODE_NUM_BLKS" if "live fs3 j" for j
  proof (cases "j = n")
    case True
    then show ?thesis by (simp add: nblocks_def size3)
  next
    case False
    then have "nblocks fs3 j = nblocks fs2 j" using ia(2) by (simp add: nblocks_def)
    then show ?thesis using ea(7) live3 that False by simp
  qed
  moreover have "1 \<noteq> n" using fs_invD(4) [OF inv] in' by auto
  ultimately show "fs_inv V fs3"
    using fs_invD(3-5) [OF inv] ia(4,7,8) dirs by (simp add: fs_inv_def live3 ty3)
  show "used_inodes fs3 = insert n (used_inodes fs)" using ia(6) ea(2) by simp
  have "dentries (content V fs3 i) = dentries ?c @ [(nm, of_nat n)]"
    using dentries_snoc [of ?c ?eb] size(1) ne(1,2) by (simp add: con)
  then show "fs_abs V fs3 = (fs_abs V fs)(i \<mapsto> DirNode (dentries ?c @ [(nm, of_nat n)]),
      n \<mapsto> (if ty = FS_DIR then DirNode [] else FileNode []))"
    using i in' other ia(9) [of n]
    by (intro HOL.ext) (auto simp: fs_abs_def live3 ty3 dentries_def)
qed

end

section \<open>Creating takes at most one block\<close>

lemma BMAP_SET_has:
  assumes "BMAP_SET bmap n = Inr bb"
  shows "bmap_has bb m \<longleftrightarrow> m = n \<or> bmap_has bmap m"
proof -
  have "n div 8 < length bmap" using assms by (auto simp: BMAP_SET_def c_bind_eq_Inr c_nth_eq_Inr)
  then have "n < 8 * length bmap" by (simp add: less_mult_imp_div_less div_less_iff_less_mult mult.commute)
  from BMAP_SET_ok [OF this] assms show ?thesis by auto
qed

lemma add_dir_block_bits:
  assumes "add_dir_block D fs dir = Inr (rc, fs')"
  shows "\<exists>b. \<forall>m. bmap_has (blk_bmap fs') m \<longrightarrow> m = b \<or> bmap_has (blk_bmap fs) m"
  using assms
  by (auto simp: add_dir_block_def c_bind_eq_Inr BMAP_SET_has split: if_splits option.splits)

lemma add_dir_entry_bits: "add_dir_entry D junk fs dir nm n = Inr fs' \<Longrightarrow> blk_bmap fs' = blk_bmap fs"
  by (auto simp: add_dir_entry_def c_bind_eq_Inr)

lemma add_inode_bits: "add_inode D fs n ty = Inr fs' \<Longrightarrow> blk_bmap fs' = blk_bmap fs"
  by (auto simp: add_inode_def fsi_store_fsdata_def c_bind_eq_Inr)

lemma add_dir_block_same:
  assumes "add_dir_block D fs dir = Inr (rc, fs')" and "fsize fs dir mod 512 \<noteq> 0"
  shows "fs' = fs"
  using assms by (auto simp: add_dir_block_def c_bind_eq_Inr c_nth_eq_Inr fsize_def BLOCK_SIZE_def)

lemma free_blocks_but_one:
  assumes "\<forall>m. bmap_has (blk_bmap fs') m \<longrightarrow> m = b \<or> bmap_has (blk_bmap fs) m"
    and "DISK_BLOCKS D (fs_blocks fs') = DISK_BLOCKS D (fs_blocks fs)"
  shows "card (free_blocks D fs) \<le> Suc (card (free_blocks D fs'))"
proof -
  have "free_blocks D fs \<subseteq> insert b (free_blocks D fs')" using assms by (auto simp: free_blocks_def)
  then have "card (free_blocks D fs) \<le> card (insert b (free_blocks D fs'))"
    by (intro card_mono) auto
  then show ?thesis by (simp add: card_insert_if split: if_splits)
qed

context disk
begin

lemma add_node_tally:
  assumes inv: "fs_inv V fs" and "fs_abs V fs i = Some (DirNode es)"
    and add: "add_dir_block D fs i = Inr (0, fs1)" "add_dir_entry D junk fs1 i nm n = Inr fs2"
      "add_inode D fs2 n ty = Inr fs'"
    and same: "DISK_BLOCKS D (fs_blocks fs') = DISK_BLOCKS D (fs_blocks fs)"
    and new: "\<not> bmap_has (inode_bmap fs) n" "node_blocks x = 0"
    and abs: "fs_abs V fs' = (fs_abs V fs)(i \<mapsto> DirNode (es @ [e]), n \<mapsto> x)"
  shows "tally D V fs \<le> tally D V fs'"
proof -
  have bits: "blk_bmap fs' = blk_bmap fs1" using add_dir_entry_bits [OF add(2)] add_inode_bits [OF add(3)] by simp
  have n: "fs_abs V fs n = None" "n \<noteq> i" using fs_abs_fresh [OF new(1)] assms(2) by auto
  have size: "fsize fs i = 16 * length es"
    using fs_abs_DirD [OF assms(2)] fs_invD(8) [OF inv fs_abs_DirD(1,2) [OF assms(2)]] by (auto simp: dir_ok_def)
  have "card (free_blocks D fs) + node_blocks (DirNode es) \<le> card (free_blocks D fs') + node_blocks (DirNode (es @ [e]))"
  proof (cases "fsize fs i mod 512 = 0")
    case True
    obtain b where "\<forall>m. bmap_has (blk_bmap fs') m \<longrightarrow> m = b \<or> bmap_has (blk_bmap fs) m"
      using add_dir_block_bits [OF add(1)] bits by auto
    from free_blocks_but_one [OF this same] have "card (free_blocks D fs) \<le> Suc (card (free_blocks D fs'))" .
    moreover obtain k where "16 * length es = 512 * k" using True size by (auto simp: mod_eq_0_iff_dvd elim: dvdE)
    ultimately show ?thesis by simp
  next
    case False
    have "free_blocks D fs' = free_blocks D fs"
      using add_dir_block_same [OF add(1) False] bits same by (simp add: free_blocks_def)
    then show ?thesis by (simp add: div_le_mono)
  qed
  moreover have "abs_blocks (fs_abs V fs') = abs_blocks ((fs_abs V fs)(i \<mapsto> DirNode (es @ [e])))"
    using n new(2) abs_blocks_new [of "(fs_abs V fs)(i \<mapsto> DirNode (es @ [e]))" n x] by (simp add: abs)
  ultimately show ?thesis
    using abs_blocks_upd [OF finite_dom_fs_abs assms(2), of "DirNode (es @ [e])"] by (simp add: tally_def)
qed

text \<open>The part that \<open>fs_create\<close> and \<open>fs_mkdir\<close> share, from the search for a free inode on.\<close>

lemma add_node_ok:
  assumes inv: "fs_inv V fs" and i: "live fs i" "itype (inode_tab fs ! i) = FS_DIR"
    and nm: "length nm < 14" "0 \<notin> set nm" and ty: "ty \<in> {FS_DIR, FS_FILE}"
    and inodes: "used_inodes fs \<noteq> {..<ITAB_SIZE}"
    and room: "fsize fs i mod 512 = 0 \<Longrightarrow> free_blocks D fs \<noteq> {}" and junk: "length junk = 512"
  shows "\<exists>n fs1 fs2 fs'. fsi_bmap_find_free (inode_bmap fs) ITAB_SIZE = Inr (Some n)
    \<and> add_dir_block D fs i = Inr (0, fs1) \<and> add_dir_entry D junk fs1 i nm n = Inr fs2
    \<and> add_inode D fs2 n ty = Inr fs' \<and> n < ITAB_SIZE \<and> \<not> bmap_has (inode_bmap fs) n
    \<and> fs_inv V fs' \<and> synced V fs' \<and> dev_same D V (fs_blocks fs) (fs_blocks fs')
    \<and> used_inodes fs' = insert n (used_inodes fs)
    \<and> fs_abs V fs' = (fs_abs V fs)(i \<mapsto> DirNode (dentries (content V fs i) @ [(nm, of_nat n)]),
        n \<mapsto> (if ty = FS_DIR then DirNode [] else FileNode []))
    \<and> tally D V fs \<le> tally D V fs'"
proof -
  note invs = fs_invD [OF inv]
  define n where "n = (LEAST n. \<not> bmap_has (inode_bmap fs) n)"
  have find: "fsi_bmap_find_free (inode_bmap fs) ITAB_SIZE = Inr (Some n)"
    using find_free_inode [OF fs_shapeD(4) [OF invs(1)]] inodes by (simp add: n_def)
  obtain m where m: "m < 64" "\<not> bmap_has (inode_bmap fs) m"
    using inodes by (auto simp: used_inodes_def)
  then have n: "\<not> bmap_has (inode_bmap fs) n" "n \<le> m"
    using LeastI [of "\<lambda>n. \<not> bmap_has (inode_bmap fs) n" m]
      Least_le [of "\<lambda>n. \<not> bmap_has (inode_bmap fs) n" m] unfolding n_def by blast+
  then have n64: "n < 64" using m by simp
  define T where "T = fsize fs i div 512 + 1"
  obtain fs1 where add: "add_dir_block D fs i = Inr (0, fs1)" and fs1: "fs_shape V fs1"
    "owns V fs1 ((nblocks fs)(i := T))" "grown fs i (nblocks fs i) fs1"
    using add_dir_block_ok [OF inv i room] unfolding T_def by blast
  note gr = grownD [OF fs1(3)]
  have size1: "fsize fs1 i = fsize fs i" using gr(4) .
  have T10: "T \<le> 10" using dir_size(2) [OF inv i] unfolding T_def by linarith
  let ?fs2 = "\<lambda>d. fs1\<lparr>fs_blocks := d, inode_tab :=
        (inode_tab fs1)[i := (inode_tab fs1 ! i)\<lparr>isize := isize (inode_tab fs1 ! i) + 16\<rparr>]\<rparr>"
  obtain d old where entry: "add_dir_entry D junk fs1 i nm n = Inr (?fs2 d)" "length old = 16"
    "wrote D V (fblk fs1 i) T T (fsize fs i) (new_entry old nm (of_nat n)) (fs_blocks fs1)
      (fsize fs i) (fsize fs i + 16) d"
    using add_dir_entry_ok [OF fs1(1,2), of i nm junk n] gr(3) i dir_size(1) [OF inv i] nm(1) junk T10
      size1 by (auto simp: T_def)
  obtain ib where ib: "BMAP_SET (inode_bmap (?fs2 d)) n = Inr ib"
    using BMAP_SET_ok [of n "inode_bmap fs1"] n64 fs_shapeD(4) [OF fs1(1)] by auto
  define fs3 where "fs3 = (?fs2 d)\<lparr>inode_bmap := ib, inode_tab :=
      (inode_tab (?fs2 d))[n := fsi_inode_init (inode_tab (?fs2 d) ! n) ty]\<rparr>"
  note ce = create_effect [OF inv i n64 n(1) nm entry(2) T_def fs1 entry(3) refl ib ty fs3_def]
  obtain d' where st: "fsi_store_fsdata D fs3 = Inr (fs3\<lparr>fs_blocks := d'\<rparr>)"
    "fs_inv V (fs3\<lparr>fs_blocks := d'\<rparr>)" "synced V (fs3\<lparr>fs_blocks := d'\<rparr>)"
    "fs_abs V (fs3\<lparr>fs_blocks := d'\<rparr>) = fs_abs V fs3" "dev_same D V (fs_blocks fs3) d'"
    using fs_inv_store [OF ce(1)] by blast
  have used: "used_inodes (fs3\<lparr>fs_blocks := d'\<rparr>) = insert n (used_inodes fs)"
    using ce(2) by (simp add: used_inodes_def)
  have "dev_same D V (fs_blocks fs) (fs_blocks fs3)"
    using entry(3) gr(1) by (simp add: wrote_def fs3_def)
  then have dev: "dev_same D V (fs_blocks fs) (fs_blocks (fs3\<lparr>fs_blocks := d'\<rparr>))"
    using st(5) by (auto intro: dev_same_trans)
  have "c_nth (inode_tab (?fs2 d)) n = Inr (inode_tab (?fs2 d) ! n)"
    using n64 fs_shapeD(5) [OF fs1(1)] by (intro c_nth_ok) simp
  then have "add_inode D (?fs2 d) n ty = Inr (fs3\<lparr>fs_blocks := d'\<rparr>)"
    using ib st(1) by (simp only: add_inode_def c_bind_Inr flip: fs3_def)
  moreover from this have "tally D V fs \<le> tally D V (fs3\<lparr>fs_blocks := d'\<rparr>)"
    using add_node_tally [OF inv _ add entry(1) _ _ n(1) _ trans [OF st(4) ce(3)]] i dev
    by (simp add: fs_abs_def dev_same_def)
  ultimately show ?thesis
    using find add entry(1) st(2-4) ce(3) n(1) n64 dev used unfolding ITAB_SIZE_64 by metis
qed

lemma fs_create_ok:
  assumes inv: "fs_inv V fs" and i: "live fs (unat dir)" "itype (inode_tab fs ! unat dir) = FS_DIR"
    and nm: "0 < length file" "length file < 14" "0 \<notin> set file"
    and search: "map_of (dentries (content V fs (unat dir))) file = None"
    and inodes: "used_inodes fs \<noteq> {..<ITAB_SIZE}"
    and room: "fsize fs (unat dir) mod 512 = 0 \<Longrightarrow> free_blocks D fs \<noteq> {}" and junk: "length junk = 512"
  shows "\<exists>n fs'. fs_create D junk (Some fs) dir (Some file) (Some fileid) = Inr (0, Some fs', Some (of_nat n))
    \<and> n < ITAB_SIZE \<and> \<not> bmap_has (inode_bmap fs) n \<and> fs_inv V fs' \<and> synced V fs'
    \<and> dev_same D V (fs_blocks fs) (fs_blocks fs')
    \<and> used_inodes fs' = insert n (used_inodes fs)
    \<and> fs_abs V fs' = (fs_abs V fs)
        (unat dir \<mapsto> DirNode (dentries (content V fs (unat dir)) @ [(tl file, of_nat n)]), n \<mapsto> FileNode [])
    \<and> tally D V fs \<le> tally D V fs'"
proof -
  let ?i = "unat dir"
  have tl: "length (tl file) < 14" "0 \<notin> set (tl file)" using nm by (auto dest: list.set_sel(2) [rotated])
  have ty: "FS_FILE \<in> {FS_DIR, FS_FILE}" by simp
  obtain n fs1 fs2 fs' where add: "fsi_bmap_find_free (inode_bmap fs) ITAB_SIZE = Inr (Some n)"
    "add_dir_block D fs ?i = Inr (0, fs1)" "add_dir_entry D junk fs1 ?i (tl file) n = Inr fs2"
    "add_inode D fs2 n FS_FILE = Inr fs'"
    and res: "n < ITAB_SIZE" "\<not> bmap_has (inode_bmap fs) n" "fs_inv V fs'" "synced V fs'"
      "dev_same D V (fs_blocks fs) (fs_blocks fs')" "used_inodes fs' = insert n (used_inodes fs)"
      "fs_abs V fs' = (fs_abs V fs)(?i \<mapsto> DirNode (dentries (content V fs ?i) @ [(tl file, of_nat n)]),
        n \<mapsto> (if FS_FILE = FS_DIR then DirNode [] else FileNode []))" "tally D V fs \<le> tally D V fs'"
    using add_node_ok [OF inv i tl ty inodes room junk] by blast
  have "?i < 64" "?i < length (inode_tab fs)"
    using live_inode [OF fs_invD(1) [OF inv] i(1)] fs_shapeD(5) [OF fs_invD(1) [OF inv]] by auto
  then have "fs_create D junk (Some fs) dir (Some file) (Some fileid) = Inr (0, Some fs', Some (of_nat n))"
    using nm i(2) inode_isset [OF fs_invD(1) [OF inv]] live_used [OF i(1)] add
      fsi_dir_search_ok [OF inv i nm(3) junk] search
    by (simp add: fs_create_def FS_MAX_FNAME_SZ_def c_nth_ok)
  with res show ?thesis by (auto simp: FS_FILE_def FS_DIR_def)
qed

lemma fs_mkdir_ok:
  assumes inv: "fs_inv V fs" and i: "live fs (unat dir)" "itype (inode_tab fs ! unat dir) = FS_DIR"
    and nm: "0 < length newdir" "length newdir < 14" "0 \<notin> set newdir"
    and search: "map_of (dentries (content V fs (unat dir))) newdir = None"
    and inodes: "used_inodes fs \<noteq> {..<ITAB_SIZE}"
    and room: "fsize fs (unat dir) mod 512 = 0 \<Longrightarrow> free_blocks D fs \<noteq> {}" and junk: "length junk = 512"
  shows "\<exists>n fs'. fs_mkdir D junk (Some fs) dir (Some newdir) (Some fileid) = Inr (0, Some fs', Some (of_nat n))
    \<and> n < ITAB_SIZE \<and> \<not> bmap_has (inode_bmap fs) n \<and> fs_inv V fs' \<and> synced V fs'
    \<and> dev_same D V (fs_blocks fs) (fs_blocks fs')
    \<and> used_inodes fs' = insert n (used_inodes fs)
    \<and> fs_abs V fs' = (fs_abs V fs)
        (unat dir \<mapsto> DirNode (dentries (content V fs (unat dir)) @ [(newdir, of_nat n)]), n \<mapsto> DirNode [])
    \<and> tally D V fs \<le> tally D V fs'"
proof -
  let ?i = "unat dir"
  have ty: "FS_DIR \<in> {FS_DIR, FS_FILE}" by simp
  obtain n fs1 fs2 fs' where add: "fsi_bmap_find_free (inode_bmap fs) ITAB_SIZE = Inr (Some n)"
    "add_dir_block D fs ?i = Inr (0, fs1)" "add_dir_entry D junk fs1 ?i newdir n = Inr fs2"
    "add_inode D fs2 n FS_DIR = Inr fs'"
    and res: "n < ITAB_SIZE" "\<not> bmap_has (inode_bmap fs) n" "fs_inv V fs'" "synced V fs'"
      "dev_same D V (fs_blocks fs) (fs_blocks fs')" "used_inodes fs' = insert n (used_inodes fs)"
      "fs_abs V fs' = (fs_abs V fs)(?i \<mapsto> DirNode (dentries (content V fs ?i) @ [(newdir, of_nat n)]),
        n \<mapsto> (if FS_DIR = FS_DIR then DirNode [] else FileNode []))" "tally D V fs \<le> tally D V fs'"
    using add_node_ok [OF inv i nm(2,3) ty inodes room junk] by blast
  have "?i < 64" "?i < length (inode_tab fs)"
    using live_inode [OF fs_invD(1) [OF inv] i(1)] fs_shapeD(5) [OF fs_invD(1) [OF inv]] by auto
  then have "fs_mkdir D junk (Some fs) dir (Some newdir) (Some fileid) = Inr (0, Some fs', Some (of_nat n))"
    using nm i(2) inode_isset [OF fs_invD(1) [OF inv]] live_used [OF i(1)] add
      fsi_dir_search_ok [OF inv i nm(3) junk] search
    by (simp add: fs_mkdir_def FS_MAX_FNAME_SZ_def c_nth_ok)
  with res show ?thesis by auto
qed

section \<open>Errors\<close>

text \<open>The errors of the two, in the order in which they are found: no directory or an impossible
  name, an entry with the name, no free inode, no room for a new page. None of them changes the
  file system.\<close>

lemma add_dir_block_full:
  assumes "fs_inv V fs" and "live fs i" and "fsize fs i mod 512 = 0" and "free_blocks D fs = {}"
    and "unat (DISK_BLOCKS D (fs_blocks fs)) \<le> BMAP_BITS"
  shows "add_dir_block D fs i = Inr (-1, fs)"
proof -
  note inv = fs_invD [OF assms(1)]
  have "i < length (inode_tab fs)"
    using live_inode [OF inv(1) assms(2)] fs_shapeD [OF inv(1)] by auto
  then show ?thesis
    using assms(3) find_free_none [OF fs_shapeD(3) [OF inv(1)] assms(4,5)]
    by (simp add: add_dir_block_def c_nth_ok BLOCK_SIZE_def flip: fsize_def)
qed

lemma create_bad_args:
  assumes "fs_inv V fs" and "length nm = 0 \<or> length nm + 1 > FS_MAX_FNAME_SZ
    \<or> \<not> (live fs (unat dir) \<and> itype (inode_tab fs ! unat dir) = FS_DIR)"
  shows "fs_create D junk (Some fs) dir (Some nm) (Some fileid) = Inr (-1, Some fs, Some fileid)"
    and "fs_mkdir D junk (Some fs) dir (Some nm) (Some fileid) = Inr (-1, Some fs, Some fileid)"
  using assms inode_isset [OF fs_invD(1) [OF assms(1)], of "unat dir"]
    fs_shapeD(5) [OF fs_invD(1) [OF assms(1)]]
  by (auto simp: fs_create_def fs_mkdir_def live_def c_nth_ok)

lemma create_exists:
  assumes inv: "fs_inv V fs" and i: "live fs (unat dir)" "itype (inode_tab fs ! unat dir) = FS_DIR"
    and nm: "0 < length nm" "length nm < 14" "0 \<notin> set nm" and junk: "length junk = 512"
    and search: "map_of (dentries (content V fs (unat dir))) nm = Some j"
  shows "fs_create D junk (Some fs) dir (Some nm) (Some fileid) = Inr (-1, Some fs, Some j)"
    and "fs_mkdir D junk (Some fs) dir (Some nm) (Some fileid) = Inr (-1, Some fs, Some j)"
proof -
  have "unat dir < 64" "unat dir < length (inode_tab fs)"
    using live_inode [OF fs_invD(1) [OF inv] i(1)] fs_shapeD(5) [OF fs_invD(1) [OF inv]] by auto
  then show "fs_create D junk (Some fs) dir (Some nm) (Some fileid) = Inr (-1, Some fs, Some j)"
    "fs_mkdir D junk (Some fs) dir (Some nm) (Some fileid) = Inr (-1, Some fs, Some j)"
    using nm i(2) inode_isset [OF fs_invD(1) [OF inv]] live_used [OF i(1)]
      fsi_dir_search_ok [OF inv i nm(3) junk] search
    by (simp_all add: fs_create_def fs_mkdir_def FS_MAX_FNAME_SZ_def c_nth_ok)
qed

lemma create_no_space:
  assumes inv: "fs_inv V fs" and i: "live fs (unat dir)" "itype (inode_tab fs ! unat dir) = FS_DIR"
    and nm: "0 < length nm" "length nm < 14" "0 \<notin> set nm" and junk: "length junk = 512"
    and search: "map_of (dentries (content V fs (unat dir))) nm = None"
    and full: "cannot_add D fs (unat dir)"
  shows "fs_create D junk (Some fs) dir (Some nm) (Some fileid) = Inr (-1, Some fs, Some fileid)"
    and "fs_mkdir D junk (Some fs) dir (Some nm) (Some fileid) = Inr (-1, Some fs, Some fileid)"
proof -
  have "unat dir < 64" "unat dir < length (inode_tab fs)"
    using live_inode [OF fs_invD(1) [OF inv] i(1)] fs_shapeD(5) [OF fs_invD(1) [OF inv]] by auto
  moreover have "used_inodes fs \<noteq> {..<ITAB_SIZE} \<Longrightarrow> add_dir_block D fs (unat dir) = Inr (-1, fs)"
    using full add_dir_block_full [OF inv i(1)] by (auto simp: cannot_add_def)
  ultimately show
    "fs_create D junk (Some fs) dir (Some nm) (Some fileid) = Inr (-1, Some fs, Some fileid)"
    "fs_mkdir D junk (Some fs) dir (Some nm) (Some fileid) = Inr (-1, Some fs, Some fileid)"
    using nm i(2) inode_isset [OF fs_invD(1) [OF inv]] live_used [OF i(1)]
      fsi_dir_search_ok [OF inv i nm(3) junk] search
      find_free_inode [OF fs_shapeD(4) [OF fs_invD(1) [OF inv]]]
    by (simp_all add: fs_create_def fs_mkdir_def FS_MAX_FNAME_SZ_def c_nth_ok)
qed

text \<open>Both always return, and leave a running file system.\<close>

lemma create_safe:
  assumes run: "run_inv D V fs" and nm: "0 \<notin> set nm" and junk: "length junk = 512"
  shows "\<exists>rc fs' r. fs_create D junk (Some fs) dir (Some nm) (Some fileid) = Inr (rc, Some fs', r) \<and> stays D V fs fs'"
    and "\<exists>rc fs' r. fs_mkdir D junk (Some fs) dir (Some nm) (Some fileid) = Inr (rc, Some fs', r) \<and> stays D V fs fs'"
proof -
  let ?i = "unat dir"
  have inv: "fs_inv V fs" using run by (simp add: run_inv_def)
  have "(\<exists>rc fs' r. fs_create D junk (Some fs) dir (Some nm) (Some fileid) = Inr (rc, Some fs', r)
      \<and> stays D V fs fs') \<and>
    (\<exists>rc fs' r. fs_mkdir D junk (Some fs) dir (Some nm) (Some fileid) = Inr (rc, Some fs', r)
      \<and> stays D V fs fs')"
  proof (cases "0 < length nm \<and> length nm < 14 \<and> live fs ?i \<and> itype (inode_tab fs ! ?i) = FS_DIR")
    case False
    then show ?thesis
      using create_bad_args [OF inv, of nm dir junk fileid] stays_refl [OF run] by (auto simp: FS_MAX_FNAME_SZ_def)
  next
    case True
    then have nm': "0 < length nm" "length nm < 14" and i: "live fs ?i" "itype (inode_tab fs ! ?i) = FS_DIR"
      by auto
    show ?thesis
    proof (cases "map_of (dentries (content V fs ?i)) nm")
      case (Some j)
      then show ?thesis using create_exists [OF inv i nm' nm junk] stays_refl [OF run] by auto
    next
      case None
      show ?thesis
      proof (cases "cannot_add D fs ?i")
        case True
        then show ?thesis using create_no_space [OF inv i nm' nm junk None] stays_refl [OF run] by auto
      next
        case False
        then have "used_inodes fs \<noteq> {..<ITAB_SIZE}" "fsize fs ?i mod 512 = 0 \<Longrightarrow> free_blocks D fs \<noteq> {}"
          using run_inv_room [OF run] by (auto simp: cannot_add_def)
        from fs_create_ok [OF inv i nm' nm None this junk] fs_mkdir_ok [OF inv i nm' nm None this junk]
        show ?thesis using staysI [OF run] unfolding dev_same_def by blast
      qed
    qed
  qed
  then show "\<exists>rc fs' r. fs_create D junk (Some fs) dir (Some nm) (Some fileid) = Inr (rc, Some fs', r) \<and> stays D V fs fs'"
    "\<exists>rc fs' r. fs_mkdir D junk (Some fs) dir (Some nm) (Some fileid) = Inr (rc, Some fs', r) \<and> stays D V fs fs'"
    by blast+
qed

end

end
