(* ===== verification/Fs_Mount.thy ===== *)
theory Fs_Mount
  imports Fs_Create
begin

text \<open>
  The life of a file system: \<open>fs_new\<close> on a fresh or a saved disk, \<open>fs_format\<close>, and the remaining
  operations \<open>fs_truncate\<close> and \<open>fs_get_attrs\<close>.
\<close>

section \<open>Formatting\<close>

lemma bmap_set_all_ok:
  assumes "\<forall>n \<in> set ns. n < 8 * length bmap"
  shows "\<exists>bmap'. bmap_set_all bmap ns = Inr bmap' \<and> length bmap' = length bmap
    \<and> (\<forall>m. bmap_has bmap' m \<longleftrightarrow> m \<in> set ns \<or> bmap_has bmap m)"
  using assms
proof (induction ns arbitrary: bmap)
  case Nil
  then show ?case by simp
next
  case (Cons n ns)
  then obtain b1 where b1: "BMAP_SET bmap n = Inr b1" "length b1 = length bmap"
    "\<forall>m. bmap_has b1 m \<longleftrightarrow> m = n \<or> bmap_has bmap m"
    using BMAP_SET_ok [of n bmap] by auto
  then obtain b2 where "bmap_set_all b1 ns = Inr b2" "length b2 = length b1"
    "\<forall>m. bmap_has b2 m \<longleftrightarrow> m \<in> set ns \<or> bmap_has b1 m"
    using Cons.IH [of b1] Cons.prems by auto
  with b1 show ?case by auto
qed

text \<open>A file system whose inode bitmap is empty, as the loader finds it on a disk of zeros.\<close>

definition blank :: "'d disk_view \<Rightarrow> 'd fs_t \<Rightarrow> bool" where
  "blank V fs \<longleftrightarrow> fs_shape V fs \<and> (\<forall>n. \<not> bmap_has (inode_bmap fs) n)
     \<and> itype (inode_tab fs ! 0) \<notin> {FS_DIR, FS_FILE}"

context disk
begin

lemma fs_format_ok:
  assumes "blank V fs"
  shows "\<exists>fs'. fs_format D (Some fs) = Inr (0, Some fs') \<and> fs_inv V fs' \<and> synced V fs'
    \<and> fs_abs V fs' = [1 \<mapsto> DirNode []]
    \<and> free_blocks D fs' = free_blocks D fs - {..<10} \<and> used_inodes fs' = {0, 1}
    \<and> DISK_BLOCKS D (fs_blocks fs') = DISK_BLOCKS D (fs_blocks fs)"
proof -
  have sh0: "fs_shape V fs" and none: "\<not> bmap_has (inode_bmap fs) n"
    and t0: "itype (inode_tab fs ! 0) \<notin> {FS_DIR, FS_FILE}" for n
    using assms by (auto simp: blank_def)
  note sh = fs_shapeD [OF sh0]
  let ?meta = "[0, 1] @ map (\<lambda>i. i + 2) [0..<ITAB_NUM_BLKS]"
  have "set ?meta = {0, 1} \<union> (\<lambda>i. i + 2) ` {0..<8}"
    unfolding ITAB_NUM_BLKS_def set_append set_map set_upt by simp
  also have "\<dots> = {..<10}"
    by (rule set_eqI) (simp only: Un_iff meta_range, auto)
  finally have meta: "set ?meta = {..<10}" .
  obtain bb where bb: "bmap_set_all (blk_bmap fs) ?meta = Inr bb" "length bb = 512"
    "\<And>m. bmap_has bb m \<longleftrightarrow> m < 10 \<or> bmap_has (blk_bmap fs) m"
    using bmap_set_all_ok [of ?meta "blk_bmap fs"] sh(3) unfolding meta by auto
  obtain ib where ib: "bmap_set_all (inode_bmap fs) [0, 1] = Inr ib" "length ib = 512"
    "\<And>m. bmap_has ib m \<longleftrightarrow> m = 0 \<or> m = 1"
    using bmap_set_all_ok [of "[0, 1]" "inode_bmap fs"] sh(4) none by auto
  define fs1 where "fs1 = fs\<lparr>blk_bmap := bb, inode_bmap := ib,
      inode_tab := (inode_tab fs)[1 := fsi_inode_init (inode_tab fs ! 1) FS_DIR]\<rparr>"
  have tab: "inode_tab fs1 ! j = (if j = 1 then fsi_inode_init (inode_tab fs ! 1) FS_DIR else inode_tab fs ! j)"
    for j using sh(5) by (simp add: fs1_def)
  have bm: "inode_bmap fs1 = ib" "blk_bmap fs1 = bb" "fs_blocks fs1 = fs_blocks fs"
    by (simp_all add: fs1_def)
  have live: "live fs1 j \<longleftrightarrow> j = 1" for j
    using t0 by (auto simp: live_def bm ib(3) tab fsi_inode_init_def)
  have size: "fsize fs1 1 = 0" by (simp add: fsize_def tab fsi_inode_init_def)
  have "inode_wf (inode_tab fs1 ! j)" if "j < 64" for j
    using sh(5,6) that
    by (simp add: tab list_all_length inode_wf_def fsi_inode_init_def INODE_NUM_BLKS_def)
  then have "fs_shape V fs1"
    using sh0 sh(5) bb(2) ib(2) by (simp add: fs_shape_def list_all_length fs1_def BLOCK_SIZE_def)
  moreover have "owns V fs1 (nblocks fs1)"
    using size by (auto simp: owns_def live bm bb(3) nblocks_def)
  ultimately have inv1: "fs_inv V fs1"
    using size ib(3) by (auto simp: fs_inv_def live bm nblocks_def dir_ok_def tab fsi_inode_init_def)
  have abs1: "fs_abs V fs1 = [1 \<mapsto> DirNode []]"
    using size by (intro HOL.ext)
      (auto simp: fs_abs_def live tab fsi_inode_init_def content_def dentries_def)
  obtain d where st: "fsi_store_fsdata D fs1 = Inr (fs1\<lparr>fs_blocks := d\<rparr>)" "fs_inv V (fs1\<lparr>fs_blocks := d\<rparr>)"
    "synced V (fs1\<lparr>fs_blocks := d\<rparr>)" "fs_abs V (fs1\<lparr>fs_blocks := d\<rparr>) = fs_abs V fs1"
    using fs_inv_store [OF inv1] by blast
  have dev: "DISK_BLOCKS D d = DISK_BLOCKS D (fs_blocks fs)"
  proof -
    obtain d' where d': "fsi_store_fsdata D fs1 = Inr (fs1\<lparr>fs_blocks := d'\<rparr>)" "dev_same D V (fs_blocks fs1) d'"
      using store_ok [OF fs_invD(1) [OF inv1]] by blast
    have "d' = d" using d'(1) st(1) by (metis fs_t.select_convs(1) fs_t.surjective fs_t.update_convs(1) old.sum.inject(2))
    with d'(2) bm(3) show ?thesis by (simp add: dev_same_def)
  qed
  have "fs_format D (Some fs) = Inr (0, Some (fs1\<lparr>fs_blocks := d\<rparr>))"
    using bb(1) ib(1) st(1) sh(5) by (simp add: fs_format_def c_nth_ok flip: fs1_def One_nat_def)
  moreover have "free_blocks D (fs1\<lparr>fs_blocks := d\<rparr>) = free_blocks D fs - {..<10}"
    by (auto simp: free_blocks_def dev bm bb(3))
  moreover have "used_inodes (fs1\<lparr>fs_blocks := d\<rparr>) = {0, 1}"
    by (auto simp: used_inodes_def bm ib(3))
  ultimately show ?thesis using st(2-4) abs1 dev by auto
qed

text \<open>A saved file system is found again.\<close>

lemma fs_new_ok:
  assumes "fs_shape V fs" and "synced V fs" and "fs_shape V (mem\<lparr>fs_blocks := fs_blocks fs\<rparr>)"
  shows "fs_new D (Inr (Some (fs_blocks fs))) mem n = Inr fs"
  using load_ok [OF assms(1-3)] by (simp add: fs_new_def)

end

section \<open>Truncating\<close>

lemma truncate_loop_ok:
  assumes "\<forall>k \<in> set ks. k < length blocks \<and> unat (blocks ! k) < 8 * length bmap"
  shows "\<exists>bmap'. truncate_loop ks blocks bmap = Inr bmap' \<and> length bmap' = length bmap
    \<and> (\<forall>m. bmap_has bmap' m \<longleftrightarrow> bmap_has bmap m \<and> (\<forall>k \<in> set ks. m \<noteq> unat (blocks ! k)))"
  using assms
proof (induction ks arbitrary: bmap)
  case Nil
  then show ?case by simp
next
  case (Cons k ks)
  then obtain b1 where b1: "BMAP_CLR bmap (unat (blocks ! k)) = Inr b1" "length b1 = length bmap"
    "\<forall>m. bmap_has b1 m \<longleftrightarrow> m \<noteq> unat (blocks ! k) \<and> bmap_has bmap m"
    using BMAP_CLR_ok [of "unat (blocks ! k)" bmap] by auto
  then obtain b2 where "truncate_loop ks blocks b1 = Inr b2" "length b2 = length b1"
    "\<forall>m. bmap_has b2 m \<longleftrightarrow> bmap_has b1 m \<and> (\<forall>k \<in> set ks. m \<noteq> unat (blocks ! k))"
    using Cons.IH [of b1] Cons.prems by auto
  with b1 Cons.prems show ?case by (auto simp: c_nth_ok)
qed

lemma bmap_has_bound: "bmap_has bmap n \<Longrightarrow> n < 8 * length bmap"
  by (simp add: bmap_has_def) linarith

text \<open>The file is empty afterwards and its blocks are free; nothing is saved.\<close>

lemma fs_truncate_ok:
  assumes inv: "fs_inv V fs" and i: "live fs (unat file)" and ty: "itype (inode_tab fs ! unat file) = FS_FILE"
  shows "\<exists>fs'. fs_truncate (Some fs) file = Inr (0, Some fs') \<and> fs_inv V fs'
    \<and> fs_abs V fs' = (fs_abs V fs)(unat file \<mapsto> FileNode [])
    \<and> fs_blocks fs' = fs_blocks fs
    \<and> (\<forall>n. bmap_has (blk_bmap fs') n \<longleftrightarrow>
         bmap_has (blk_bmap fs) n \<and> (\<forall>k < nblocks fs (unat file). n \<noteq> fblk fs (unat file) k))"
proof -
  let ?i = "unat file"
  let ?ino = "inode_tab fs ! ?i"
  note invs = fs_invD [OF inv] and own = ownsD [OF invs(2) i]
  note sh = fs_shapeD [OF invs(1)] and i64 = live_inode [OF invs(1) i]
  have wf: "length (iblocks ?ino) = 10" using i64(2) by (simp add: inode_wf_def INODE_NUM_BLKS_def)
  have K: "nblocks fs ?i \<le> 10" using invs(6) [OF i] .
  have "\<forall>k \<in> set [0..<nblocks fs ?i]. k < length (iblocks ?ino)
      \<and> unat (iblocks ?ino ! k) < 8 * length (blk_bmap fs)"
    using own(3) bmap_has_bound wf K by (fastforce simp: fblk_def)
  then obtain bb where bb: "truncate_loop [0..<nblocks fs ?i] (iblocks ?ino) (blk_bmap fs) = Inr bb"
    "length bb = 512" and has0: "\<forall>m. bmap_has bb m \<longleftrightarrow> bmap_has (blk_bmap fs) m
      \<and> (\<forall>k \<in> set [0..<nblocks fs ?i]. m \<noteq> unat (iblocks ?ino ! k))"
    using truncate_loop_ok [of "[0..<nblocks fs ?i]" "iblocks ?ino" "blk_bmap fs"] sh(3) by auto
  have has: "bmap_has bb m \<longleftrightarrow>
      bmap_has (blk_bmap fs) m \<and> (\<forall>k < nblocks fs ?i. m \<noteq> fblk fs ?i k)" for m
    using has0 by (auto simp: fblk_def)
  define fs1 where "fs1 = fs\<lparr>blk_bmap := bb, inode_tab := (inode_tab fs)[?i := ?ino\<lparr>isize := 0\<rparr>]\<rparr>"
  have tab: "inode_tab fs1 ! j = (if j = ?i then ?ino\<lparr>isize := 0\<rparr> else inode_tab fs ! j)" for j
    using i64 sh(5) by (simp add: fs1_def)
  have same: "live fs1 j = live fs j" "fblk fs1 j = fblk fs j"
    "itype (inode_tab fs1 ! j) = itype (inode_tab fs ! j)" for j
    by (auto simp: live_def fblk_def [abs_def] tab) (auto simp: fs1_def)
  have parts: "fs_blocks fs1 = fs_blocks fs" "inode_bmap fs1 = inode_bmap fs" "blk_bmap fs1 = bb"
    "used_inodes fs1 = used_inodes fs"
    by (simp_all add: fs1_def used_inodes_def)
  have size: "fsize fs1 j = (if j = ?i then 0 else fsize fs j)" for j by (simp add: fsize_def tab)
  have blocks: "nblocks fs1 j = (if j = ?i then 0 else nblocks fs j)" for j
    by (simp add: nblocks_def size)
  have con: "content V fs1 j = (if j = ?i then [] else content V fs j)" for j
  proof (cases "j = ?i")
    case False
    then have "content V fs1 j = content V fs j"
      by (intro content_cong) (simp_all add: size same parts)
    with False show ?thesis by simp
  qed (simp add: content_def size)
  have "inode_wf (inode_tab fs1 ! j)" if "j < 64" for j
    using sh(5,6) that by (simp add: tab list_all_length inode_wf_def)
  then have shape: "fs_shape V fs1"
    using invs(1) bb(2) sh(5) by (simp add: fs_shape_def list_all_length fs1_def BLOCK_SIZE_def)
  have owns: "owns V fs1 (nblocks fs1)"
    unfolding owns_def parts same
  proof (intro conjI allI impI)
    fix n :: nat assume n: "n < 10"
    then have "\<forall>k < nblocks fs ?i. n \<noteq> fblk fs ?i k" using own(1) by fastforce
    then show "bmap_has bb n" using invs(2) n by (simp add: has owns_def)
  next
    fix j k assume j: "live fs j" "k < nblocks fs1 j"
    then have jk: "j \<noteq> ?i" "k < nblocks fs j" by (auto simp: blocks split: if_splits)
    then have "fblk fs j k \<noteq> fblk fs ?i l" if "l < nblocks fs ?i" for l
      using owns_inj [OF invs(2) j(1) jk(2) i that] by blast
    then show "10 \<le> fblk fs j k" "fblk fs j k < dv_cap V (fs_blocks fs)" "bmap_has bb (fblk fs j k)"
      using ownsD [OF invs(2) j(1) jk(2)] by (auto simp: has)
  next
    fix j k l m
    assume "live fs j" "k < nblocks fs1 j" "live fs l" "m < nblocks fs1 l" "fblk fs j k = fblk fs l m"
    then show "j = l" "k = m"
      using owns_inj [OF invs(2), of j k l m] by (auto simp: blocks split: if_splits)
  qed
  have "dir_ok V fs1 j" if j: "live fs j" "itype (inode_tab fs ! j) = FS_DIR" for j
  proof -
    have "j \<noteq> ?i" using j ty by (auto simp: FS_DIR_def FS_FILE_def)
    then show ?thesis using invs(8) [OF j]
      by (intro dir_ok_cong [of fs1 j fs V]) (simp_all add: size con same parts)
  qed
  then have "fs_inv V fs1"
    using inv shape owns by (simp add: fs_inv_def same parts blocks)
  moreover have "fs_abs V fs1 = (fs_abs V fs)(?i \<mapsto> FileNode [])"
    using i ty by (intro HOL.ext) (auto simp: fs_abs_def same con FS_DIR_def FS_FILE_def)
  moreover have "fs_truncate (Some fs) file = Inr (0, Some fs1)"
    using i64 sh(5) ty bb(1) by (simp add: fs_truncate_def c_nth_ok nblocks_round flip: fs1_def)
  ultimately show ?thesis using has parts by auto
qed

lemma truncate_tally:
  assumes inv: "fs_inv V fs" and f: "fs_abs V fs i = Some (FileNode bs)"
    and "fs_abs V fs' = (fs_abs V fs)(i \<mapsto> FileNode [])" and same: "fs_blocks fs' = fs_blocks fs"
    and bits: "\<forall>n. bmap_has (blk_bmap fs') n \<longleftrightarrow>
         bmap_has (blk_bmap fs) n \<and> (\<forall>k < nblocks fs i. n \<noteq> fblk fs i k)"
    and large: "BMAP_BITS < unat (DISK_BLOCKS D (fs_blocks fs))"
  shows "tally D V fs \<le> tally D V fs'"
proof (rule tally_grown [OF inv f assms(3)])
  let ?B = "fblk fs i ` {..<nblocks fs i}"
  note live = fs_abs_FileD(1) [OF f] and own = fs_invD(2) [OF inv]
  have "bmap_has (blk_bmap fs) n \<Longrightarrow> n < BMAP_BITS" for n
    using bmap_has_bound fs_shapeD(3) [OF fs_invD(1) [OF inv]] by (fastforce simp: BMAP_BITS_def BLOCK_SIZE_def)
  then have used: "bmap_has (blk_bmap fs) n \<and> n < BMAP_BITS" if "n \<in> ?B" for n
    using that ownsD(3) [OF own live] by auto
  then have "free_blocks D fs' = free_blocks D fs \<union> ?B" and "free_blocks D fs \<inter> ?B = {}"
    using bits large same by (auto simp: free_blocks_def dest: order.strict_trans)
  then have "card (free_blocks D fs') = card (free_blocks D fs) + card ?B" by (simp add: card_Un_disjoint)
  also have "card ?B = nblocks fs i" using owned_blocks(1) [OF own live] by (simp add: card_image)
  finally show "card (free_blocks D fs) + node_blocks (FileNode bs) \<le> card (free_blocks D fs') + node_blocks (FileNode [])"
    using node_blocks_nblocks [OF inv f] by simp
qed

section \<open>Attributes\<close>

lemma fs_get_attrs_ok:
  assumes "fs_inv V fs" and "live fs (unat file)"
  shows "fs_get_attrs fs file attrs = Inr (0, attrs\<lparr>at_inodeid := file,
    at_type := itype (inode_tab fs ! unat file), at_size := of_nat (fsize fs (unat file)),
    at_num_entries := (case the (fs_abs V fs (unat file)) of
      DirNode es \<Rightarrow> int (length es) | FileNode _ \<Rightarrow> -1)\<rparr>)"
proof -
  note inv = fs_invD [OF assms(1)]
  have i: "unat file < 64" "unat file < length (inode_tab fs)"
    using live_inode [OF inv(1) assms(2)] fs_shapeD [OF inv(1)] by auto
  show ?thesis
    using assms(2) i inode_isset [OF inv(1) i(1)] live_used [OF assms(2)]
    by (auto simp: fs_get_attrs_def c_nth_ok fs_abs_def live_def fsize_def dentries_def SIZEOF_DENTRY_def
        FS_DIR_def FS_FILE_def Let_def)
qed

end
