(* ===== verification/Fs_Example.thy ===== *)
theory Fs_Example
  imports Fs_Mount
begin

text \<open>
  Concrete file systems: the structure that is loaded from a disk of zeros, and a formatted file
  system of 32 blocks with an empty file (inode 2) and an empty directory (inode 3). The
  properties are instantiated at it.
\<close>

section \<open>A blank disk\<close>

definition zero_inode :: fs_inode_t where
  "zero_inode = \<lparr>itype = 0, isize = 0, iblocks = replicate 10 0, ireserved = replicate 4 0\<rparr>"

definition zero_fs :: "'d \<Rightarrow> 'd fs_t" where
  "zero_fs d = \<lparr>fs_blocks = d, inode_bmap = replicate 512 0, blk_bmap = replicate 512 0,
     inode_tab = replicate 64 zero_inode\<rparr>"

lemma inode_wf_zero: "inode_wf zero_inode"
  by (simp add: inode_wf_def zero_inode_def INODE_NUM_BLKS_def)

lemma zero_fs_shape: "dv_ok V d \<Longrightarrow> 10 \<le> dv_cap V d \<Longrightarrow> fs_shape V (zero_fs d)"
  by (simp add: fs_shape_def zero_fs_def BLOCK_SIZE_def list_all_length inode_wf_zero)

lemma bmap_has_zero: "\<not> bmap_has (replicate k 0) n"
  by (simp add: bmap_has_def)

lemma zero_fs_blank: "dv_ok V d \<Longrightarrow> 10 \<le> dv_cap V d \<Longrightarrow> blank V (zero_fs d)"
  by (simp add: blank_def zero_fs_shape)
    (simp add: zero_fs_def bmap_has_zero zero_inode_def FS_DIR_def FS_FILE_def)

lemma concat_zeros: "concat (replicate k (replicate n x)) = replicate (k * n) x"
  by (induction k) (simp_all add: replicate_add)

lemma inode_bytes_zero: "inode_bytes zero_inode = replicate 64 0"
proof -
  have "inode_bytes zero_inode = concat (replicate 16 (replicate 4 0))"
    by (simp add: inode_bytes_def zero_inode_def le32_def numeral_eq_Suc)
  then show ?thesis by (simp add: concat_zeros)
qed

lemma itab_block_zero: "i < 8 \<Longrightarrow> itab_block (replicate 64 zero_inode) i = replicate 512 0"
  by (simp add: itab_block_def itab_bytes_def inode_bytes_zero concat_zeros)

lemma zero_fs_synced:
  assumes "\<And>n. n < 10 \<Longrightarrow> dv_block V d n = replicate 512 0"
  shows "synced V (zero_fs d)"
  using assms by (auto simp: synced_def meta_block_def zero_fs_def itab_block_zero)

section \<open>A formatted file system\<close>

definition demo_disk :: blocks_t where
  "demo_disk = \<lparr>bks_block_size = 512, bks_num_blocks = 32, bks_blocks = replicate (32 * 512) 0\<rparr>"

definition demo_on :: "'d \<Rightarrow> 'd fs_t" where
  "demo_on d = \<lparr>fs_blocks = d, inode_bmap = 0x0F # replicate 511 0,
     blk_bmap = 0xFF # 3 # replicate 510 0,
     inode_tab = (replicate 64 zero_inode)[1 := zero_inode\<lparr>itype := FS_DIR\<rparr>,
       2 := zero_inode\<lparr>itype := FS_FILE\<rparr>, 3 := zero_inode\<lparr>itype := FS_DIR\<rparr>]\<rparr>"

lemma demo_disk_view: "dv_ok block_view demo_disk" "dv_cap block_view demo_disk = 32"
  by (simp_all add: block_view_def demo_disk_def blocks_wf_def BLOCK_SIZE_def)

lemma demo_inode_bit: "bmap_has (0x0F # replicate 511 0) n \<longleftrightarrow> n < 4"
proof -
  have "bit (0x0F :: byte) k \<longleftrightarrow> k < 4" if "k < 8" for k
    using that by (auto simp: bit_simps less_Suc_eq numeral_eq_Suc)
  then show ?thesis
    by (cases "n div 8") (auto simp: bmap_has_def div_eq_0_iff)
qed

lemma demo_block_bit: "bmap_has (0xFF # 3 # replicate 510 0) n \<longleftrightarrow> n < 10"
proof -
  have n: "n = 8 * (n div 8) + n mod 8" "n mod 8 < 8" by simp_all
  have full: "bit (0xFF :: byte) k" if "k < 8" for k
    using that by (auto simp: bit_simps less_Suc_eq numeral_eq_Suc)
  have two: "bit (3 :: byte) k \<longleftrightarrow> k < 2" if "k < 8" for k
    using that by (auto simp: bit_simps less_Suc_eq numeral_eq_Suc)
  consider "n div 8 = 0" | "n div 8 = 1" | m where "n div 8 = Suc (Suc m)"
    by (metis One_nat_def not0_implies_Suc)
  then show ?thesis
  proof cases
    case 1
    then show ?thesis using full [OF n(2)] n by (simp add: bmap_has_def)
  next
    case 2
    then have "n < 10 \<longleftrightarrow> n mod 8 < 2" using n by linarith
    then show ?thesis using 2 two [OF n(2)] by (simp add: bmap_has_def)
  next
    case 3
    then have "\<not> n < 10" using n by linarith
    then show ?thesis using 3 by (simp add: bmap_has_def)
  qed
qed

lemma demo_type: "j < 64 \<Longrightarrow> itype (inode_tab (demo_on d) ! j) =
    (if j = 1 \<or> j = 3 then FS_DIR else if j = 2 then FS_FILE else 0)"
  by (auto simp: demo_on_def zero_inode_def)

lemma demo_live: "live (demo_on d) j \<longleftrightarrow> j \<in> {1, 2, 3}"
proof -
  have "bmap_has (inode_bmap (demo_on d)) j \<longleftrightarrow> j < 4" by (simp add: demo_on_def demo_inode_bit)
  then show ?thesis
    using demo_type [of j d] by (cases "j < 4") (auto simp: live_def FS_DIR_def FS_FILE_def split: if_splits)
qed

lemma demo_size: "j \<in> {1, 2, 3} \<Longrightarrow> fsize (demo_on d) j = 0"
  by (auto simp: fsize_def demo_on_def zero_inode_def)

lemma demo_content: "j \<in> {1, 2, 3} \<Longrightarrow> content V (demo_on d) j = []"
  using demo_size [of j d] by (simp add: content_def)

lemma demo_shape: "dv_ok V d \<Longrightarrow> 10 \<le> dv_cap V d \<Longrightarrow> fs_shape V (demo_on d)"
  using inode_wf_zero
  by (auto simp: fs_shape_def demo_on_def BLOCK_SIZE_def list_all_length nth_list_update inode_wf_def)

lemma demo_inv:
  assumes "dv_ok V d" and "10 \<le> dv_cap V d"
  shows "fs_inv V (demo_on d)"
proof -
  have none: "nblocks (demo_on d) j = 0" if "live (demo_on d) j" for j
    using demo_size [of j d] that by (simp add: nblocks_def demo_live)
  have "bmap_has (blk_bmap (demo_on d)) n \<longleftrightarrow> n < 10" for n
    by (simp add: demo_on_def demo_block_bit)
  then have "owns V (demo_on d) (nblocks (demo_on d))" using none by (auto simp: owns_def)
  moreover have "bmap_has (inode_bmap (demo_on d)) 0" by (simp add: demo_on_def demo_inode_bit)
  moreover have "dir_ok V (demo_on d) j" if "live (demo_on d) j" for j
    using demo_size [of j d] that by (simp add: dir_ok_def demo_live)
  ultimately show ?thesis
    using demo_shape [OF assms] demo_type [of 1 d] none demo_live [of d 1] by (simp add: fs_inv_def)
qed

lemma demo_abs: "fs_abs V (demo_on d) =
    [1 \<mapsto> DirNode [], 2 \<mapsto> FileNode [], 3 \<mapsto> DirNode []]"
proof
  fix j :: nat
  consider "j = 1" | "j = 2" | "j = 3" | "j \<notin> {1, 2, 3}" by blast
  then show "fs_abs V (demo_on d) j = [1 \<mapsto> DirNode [], 2 \<mapsto> FileNode [], 3 \<mapsto> DirNode []] j"
    by cases (use demo_type [of 1 d] demo_type [of 2 d] demo_type [of 3 d] in
      \<open>simp_all add: fs_abs_def demo_live demo_content dentries_def FS_DIR_def FS_FILE_def\<close>)
qed

lemma demo_free:
  "free_blocks D (demo_on d) = {10..<min BMAP_BITS (unat (DISK_BLOCKS D d))}"
proof -
  have bits: "bmap_has (blk_bmap (demo_on d)) n \<longleftrightarrow> n < 10" for n
    by (simp add: demo_on_def demo_block_bit)
  have dev: "fs_blocks (demo_on d) = d" by (simp add: demo_on_def)
  show ?thesis
    by (intro set_eqI) (simp only: free_blocks_def mem_Collect_eq bits dev atLeastLessThan_iff
        min_less_iff_conj not_less conj_ac)
qed

lemma demo_used: "used_inodes (demo_on d) = {..<4}"
  by (auto simp: used_inodes_def demo_on_def demo_inode_bit)

text \<open>On the simple disk.\<close>

definition demo_fs :: "blocks_t fs_t" where
  "demo_fs = demo_on demo_disk"

lemma demo_fs_facts:
  "fs_inv block_view demo_fs"
  "fs_abs block_view demo_fs = [1 \<mapsto> DirNode [], 2 \<mapsto> FileNode [], 3 \<mapsto> DirNode []]"
  "free_blocks block_disk demo_fs = {10..<32}" "used_inodes demo_fs = {..<4}"
  "DISK_BLOCKS block_disk (fs_blocks demo_fs) = 32"
proof -
  show "fs_inv block_view demo_fs"
    unfolding demo_fs_def by (rule demo_inv) (simp_all add: demo_disk_view)
  show "fs_abs block_view demo_fs = [1 \<mapsto> DirNode [], 2 \<mapsto> FileNode [], 3 \<mapsto> DirNode []]"
    by (simp add: demo_fs_def demo_abs)
  have blocks: "DISK_BLOCKS block_disk demo_disk = 32"
    by (simp add: block_disk_def block_num_blocks_def demo_disk_def)
  then show "DISK_BLOCKS block_disk (fs_blocks demo_fs) = 32" by (simp add: demo_fs_def demo_on_def)
  show "free_blocks block_disk demo_fs = {10..<32}"
    by (simp add: demo_fs_def demo_free blocks BMAP_BITS_def BLOCK_SIZE_def)
  show "used_inodes demo_fs = {..<4}" by (simp add: demo_fs_def demo_used)
qed

text \<open>On a disk that holds the metadata and nothing else.\<close>

definition tiny_disk :: blocks_t where
  "tiny_disk = \<lparr>bks_block_size = 512, bks_num_blocks = 10, bks_blocks = replicate (10 * 512) 0\<rparr>"

lemma tiny_fs_facts:
  "fs_inv block_view (demo_on tiny_disk)"
  "fs_abs block_view (demo_on tiny_disk) = [1 \<mapsto> DirNode [], 2 \<mapsto> FileNode [], 3 \<mapsto> DirNode []]"
  "free_blocks block_disk (demo_on tiny_disk) = {}"
  "DISK_BLOCKS block_disk (fs_blocks (demo_on tiny_disk)) = 10"
proof -
  have view: "dv_ok block_view tiny_disk" "dv_cap block_view tiny_disk = 10"
    by (simp_all add: block_view_def tiny_disk_def blocks_wf_def BLOCK_SIZE_def)
  then show "fs_inv block_view (demo_on tiny_disk)" by (intro demo_inv) simp_all
  show "fs_abs block_view (demo_on tiny_disk) = [1 \<mapsto> DirNode [], 2 \<mapsto> FileNode [], 3 \<mapsto> DirNode []]"
    by (rule demo_abs)
  have blocks: "DISK_BLOCKS block_disk tiny_disk = 10"
    by (simp add: block_disk_def block_num_blocks_def tiny_disk_def)
  then show "free_blocks block_disk (demo_on tiny_disk) = {}" by (simp add: demo_free)
  show "DISK_BLOCKS block_disk (fs_blocks (demo_on tiny_disk)) = 10" by (simp add: demo_on_def blocks)
qed

text \<open>With three bytes in the file, and with a file \<open>a\<close> in the root directory.\<close>

lemma demo_write:
  "\<exists>fs. fs_write block_disk (replicate 512 0) (Some demo_fs) 2 0 3 (Some [7, 8, 9]) = Inr (0, Some fs)
    \<and> fs_inv block_view fs \<and> synced block_view fs
    \<and> fs_abs block_view fs = [1 \<mapsto> DirNode [], 2 \<mapsto> FileNode [7, 8, 9], 3 \<mapsto> DirNode []]"
proof -
  have i: "live demo_fs (unat (2 :: u16))" "itype (inode_tab demo_fs ! unat (2 :: u16)) = FS_FILE"
    "fsize demo_fs (unat (2 :: u16)) = 0" "content block_view demo_fs (unat (2 :: u16)) = []"
    "nblocks demo_fs (unat (2 :: u16)) = 0"
    using fs_abs_FileD [of block_view demo_fs 2 "[]"] by (simp_all add: demo_fs_facts)
  obtain fs where "fs_write block_disk (replicate 512 0) (Some demo_fs) 2 0 3 (Some [7, 8, 9]) =
      Inr (0, Some fs)" "fs_inv block_view fs" "synced block_view fs"
    and "fs_abs block_view fs = (fs_abs block_view demo_fs)(unat (2 :: u16) \<mapsto>
      FileNode (overwrite (content block_view demo_fs (unat (2 :: u16))) 0 (take (unat (3 :: u32)) [7, 8, 9])))"
    using bd.fs_write_ok [OF demo_fs_facts(1) i(1,2), of 0 0 3 "[7, 8, 9]" "replicate 512 0"] i(3,5)
    by (auto simp: demo_fs_facts(3))
  then show ?thesis
    using i(4) by (intro exI [of _ fs]) (auto simp: demo_fs_facts(2) overwrite_def)
qed

lemma demo_written:
  "\<exists>fs. fs_inv block_view fs \<and> synced block_view fs
    \<and> fs_abs block_view fs = [1 \<mapsto> DirNode [], 2 \<mapsto> FileNode [7, 8, 9], 3 \<mapsto> DirNode []]"
  using demo_write by blast

lemma demo_created:
  "\<exists>fs n. fs_inv block_view fs \<and> fs_abs block_view fs 1 = Some (DirNode [([0x61], n)])
    \<and> used_inodes fs \<noteq> {..<ITAB_SIZE}"
proof -
  have d: "live demo_fs (unat (1 :: u16))" "itype (inode_tab demo_fs ! unat (1 :: u16)) = FS_DIR"
    "dentries (content block_view demo_fs (unat (1 :: u16))) = []"
    using fs_abs_DirD [of block_view demo_fs 1 "[]"] by (simp_all add: demo_fs_facts(2))
  have used: "used_inodes demo_fs \<noteq> {..<ITAB_SIZE}" by (simp add: demo_fs_facts(4))
  have nm: "0 < length [0x2F :: byte, 0x61]" "length [0x2F :: byte, 0x61] < 14"
    "0 \<notin> set [0x2F :: byte, 0x61]" "length (replicate 512 (0 :: byte)) = 512" by simp_all
  have search: "map_of (dentries (content block_view demo_fs (unat (1 :: u16)))) [0x2F, 0x61] = None"
    by (simp only: d(3) map_of.simps)
  have room: "free_blocks block_disk demo_fs \<noteq> {}" by (simp add: demo_fs_facts(3))
  obtain n fs where n: "\<not> bmap_has (inode_bmap demo_fs) n" and fs: "fs_inv block_view fs"
    "used_inodes fs = insert n (used_inodes demo_fs)"
    "fs_abs block_view fs = (fs_abs block_view demo_fs)(unat (1 :: u16) \<mapsto>
      DirNode (dentries (content block_view demo_fs (unat (1 :: u16))) @ [(tl [0x2F, 0x61], of_nat n)]),
      n \<mapsto> FileNode [])"
    using bd.fs_create_ok [OF demo_fs_facts(1) d(1,2) nm(1-3) search used room nm(4), of 0] by blast
  have "n \<noteq> 1" using n d(1) by (auto simp: live_def)
  moreover have "used_inodes fs \<noteq> {..<ITAB_SIZE}"
  proof
    assume "used_inodes fs = {..<ITAB_SIZE}"
    then have "{..<64} = insert n {..<4 :: nat}" using fs(2) demo_fs_facts(4) by simp
    then have "card {..<64 :: nat} \<le> card (insert n {..<4})" by simp
    also have "\<dots> \<le> 5" using card_insert_le_m1 [of 5 "{..<4 :: nat}" n] by simp
    finally show False by simp
  qed
  ultimately show ?thesis
    using fs(1) fs(3) [unfolded d(3)] by (intro exI [of _ fs] exI [of _ "of_nat n"]) simp
qed

section \<open>A log as a disk\<close>

text \<open>A log with blocks of 512 bytes and a register for every bit of the bitmap, which was written
  once. \<open>logrw_init\<close> cannot make one: the size of its blocks is the argument that has to be
  larger than the number of registers.\<close>

definition demo_array :: blocks_t where
  "demo_array = \<lparr>bks_block_size = 512, bks_num_blocks = 4097, bks_blocks = replicate (4097 * 512) 0\<rparr>"

definition demo_log :: logrw_struct where
  "demo_log = \<lparr>registo = replicate 4096 0, livre = 1, array_activo = 0, num_reg = 4096,
     array_1 = Some demo_array, array_2 = Some demo_array, tempo = 0\<rparr>"

lemma demo_log_view: "dv_ok log_view demo_log" "dv_cap log_view demo_log = 4096"
proof -
  have wf: "blocks_wf demo_array"
    unfolding blocks_wf_def demo_array_def by (simp only: blocks_t.select_convs length_replicate) simp
  have arr: "log_arrays demo_log demo_array demo_array"
    unfolding log_arrays_def
    using wf by (simp add: demo_log_def demo_array_def del: replicate.simps)
  have "log_inv demo_log"
    by (rule log_invI [OF arr]) (simp_all add: demo_log_def demo_array_def reg_range_def)
  then show "dv_ok log_view demo_log"
    by (simp add: log_view_def demo_log_def log_block_size_def demo_array_def BLOCK_SIZE_def BMAP_BITS_def)
  show "dv_cap log_view demo_log = 4096" by (simp add: log_view_def demo_log_def)
qed

lemma demo_log_facts:
  "fs_inv log_view (demo_on demo_log)"
  "fs_abs log_view (demo_on demo_log) = [1 \<mapsto> DirNode [], 2 \<mapsto> FileNode [], 3 \<mapsto> DirNode []]"
  "free_blocks log_disk (demo_on demo_log) = {10..<4096}"
proof -
  show "fs_inv log_view (demo_on demo_log)" by (rule demo_inv) (simp_all add: demo_log_view)
  show "fs_abs log_view (demo_on demo_log) = [1 \<mapsto> DirNode [], 2 \<mapsto> FileNode [], 3 \<mapsto> DirNode []]"
    by (rule demo_abs)
  have "unat (DISK_BLOCKS log_disk demo_log) = 163840"
    by (simp add: log_disk_def DIM_ACTIVE_ARRAY_def NUM_BLOCKS_def)
  then show "free_blocks log_disk (demo_on demo_log) = {10..<4096}"
    by (simp add: demo_free BMAP_BITS_def BLOCK_SIZE_def)
qed

end
