(* ===== verification/Fs_Run.thy ===== *)
theory Fs_Run
  imports Fs_Example
begin

text \<open>
  The file system as a transition system: its states are the structures that a sequence of calls
  can lead to, a step is one call of an operation that changes the state and that returned.
  The invariant is lifted from the operations to all reachable states by the interpretation of
  \<open>transition_system\<close>.
\<close>

section \<open>Calls\<close>

datatype fs_call =
    Write u16 u32 u32 "byte list"   \<comment> \<open>file, offset, count, buffer\<close>
  | Create u16 "byte list"          \<comment> \<open>directory, name\<close>
  | Mkdir u16 "byte list"           \<comment> \<open>directory, name\<close>
  | Truncate u16                    \<comment> \<open>file\<close>

text \<open>What C asks of a caller: the buffer is as long as it says, names are strings, and the end of
  the written range is a 32-bit number; \<open>fs_truncate\<close> does not check its inode, so it has to be
  one that exists.\<close>

definition call_ok :: "'d disk_view \<Rightarrow> 'd fs_t \<Rightarrow> fs_call \<Rightarrow> bool" where
  "call_ok V fs call =
     (case call of
        Write file offset count buffer \<Rightarrow>
          unat count \<le> length buffer \<and> unat offset + unat count < 2 ^ 32
      | Create dir nm \<Rightarrow> 0 \<notin> set nm
      | Mkdir dir nm \<Rightarrow> 0 \<notin> set nm
      | Truncate file \<Rightarrow> live fs (unat file))"

definition run_call :: "'d disk_ops \<Rightarrow> byte list \<Rightarrow> 'd fs_t \<Rightarrow> fs_call \<Rightarrow> (int \<times> 'd fs_t option) c" where
  "run_call D junk fs call =
     (case call of
        Write file offset count buffer \<Rightarrow> fs_write D junk (Some fs) file offset count (Some buffer)
      | Create dir nm \<Rightarrow>
          c_bind (fs_create D junk (Some fs) dir (Some nm) (Some 0)) (\<lambda>(rc, fs', r). Inr (rc, fs'))
      | Mkdir dir nm \<Rightarrow>
          c_bind (fs_mkdir D junk (Some fs) dir (Some nm) (Some 0)) (\<lambda>(rc, fs', r). Inr (rc, fs'))
      | Truncate file \<Rightarrow> fs_truncate (Some fs) file)"

inductive fs_step :: "'d disk_ops \<Rightarrow> 'd disk_view \<Rightarrow> 'd fs_t \<Rightarrow> 'd fs_t \<Rightarrow> bool" for D V where
  fs_stepI: "call_ok V fs call \<Longrightarrow> length junk = BLOCK_SIZE \<Longrightarrow>
     run_call D junk fs call = Inr (rc, Some fs') \<Longrightarrow> fs_step D V fs fs'"

inductive_cases fs_stepE: "fs_step D V fs fs'"

text \<open>The state after \<open>fs_format\<close> of a blank disk: either the bitmap has a bit for every block of
  the disk, or all the blocks that it has a bit for are free at first, as on the disk of the
  default build, which has four times as many blocks.\<close>

definition formatted :: "'d disk_ops \<Rightarrow> 'd disk_view \<Rightarrow> 'd fs_t \<Rightarrow> bool" where
  "formatted D V fs \<longleftrightarrow> (\<exists>fs0. blank V fs0
     \<and> (unat (DISK_BLOCKS D (fs_blocks fs0)) \<le> BMAP_BITS \<or> free_blocks D fs0 = {..<BMAP_BITS})
     \<and> fs_format D (Some fs0) = Inr (0, Some fs))"

context disk
begin

lemma run_call_safe:
  assumes "run_inv D V fs" and "call_ok V fs call" and "length junk = BLOCK_SIZE"
  shows "\<exists>rc fs'. run_call D junk fs call = Inr (rc, Some fs') \<and> stays D V fs fs'"
proof -
  have inv: "fs_inv V fs" using assms(1) by (simp add: run_inv_def)
  have junk: "length junk = 512" using assms(3) by (simp add: BLOCK_SIZE_def)
  show ?thesis
  proof (cases call)
    case (Write f offset count buffer)
    then show ?thesis
      using fs_write_safe [OF assms(1) _ junk, of count buffer offset f] assms(2)
      by (auto simp: run_call_def call_ok_def)
  next
    case (Create dir nm)
    then show ?thesis
      using create_safe(1) [OF assms(1) _ junk, of nm dir 0] assms(2)
      by (auto simp: run_call_def call_ok_def)
  next
    case (Mkdir dir nm)
    then show ?thesis
      using create_safe(2) [OF assms(1) _ junk, of nm dir 0] assms(2)
      by (auto simp: run_call_def call_ok_def)
  next
    case (Truncate f)
    then have live: "live fs (unat f)" using assms(2) by (simp add: call_ok_def)
    show ?thesis
    proof (cases "itype (inode_tab fs ! unat f) = FS_FILE")
      case True
      then have f: "fs_abs V fs (unat f) = Some (FileNode (content V fs (unat f)))"
        using live by (simp add: fs_abs_def FS_DIR_def FS_FILE_def)
      obtain fs' where fs': "fs_truncate (Some fs) f = Inr (0, Some fs')" "fs_inv V fs'"
        "fs_abs V fs' = (fs_abs V fs)(unat f \<mapsto> FileNode [])" "fs_blocks fs' = fs_blocks fs"
        "\<forall>n. bmap_has (blk_bmap fs') n \<longleftrightarrow>
          bmap_has (blk_bmap fs) n \<and> (\<forall>k < nblocks fs (unat f). n \<noteq> fblk fs (unat f) k)"
        using fs_truncate_ok [OF inv live True] by blast
      have "stays D V fs fs'"
        using staysI [OF assms(1) fs'(2)] truncate_tally [OF inv f fs'(3-5)] fs'(4) by simp
      then show ?thesis using Truncate fs'(1) by (simp add: run_call_def)
    next
      case False
      have "unat f < length (inode_tab fs)"
        using live_inode [OF fs_invD(1) [OF inv] live] fs_shapeD(5) [OF fs_invD(1) [OF inv]] by simp
      then show ?thesis
        using False Truncate stays_refl [OF assms(1)] by (simp add: run_call_def fs_truncate_def c_nth_ok)
    qed
  qed
qed

lemma formatted_inv:
  assumes "formatted D V fs"
  shows "run_inv D V fs"
proof -
  obtain fs0 where fs0: "blank V fs0" "fs_format D (Some fs0) = Inr (0, Some fs)"
    and room: "unat (DISK_BLOCKS D (fs_blocks fs0)) \<le> BMAP_BITS \<or> free_blocks D fs0 = {..<BMAP_BITS}"
    using assms by (auto simp: formatted_def)
  have fs: "fs_inv V fs" "fs_abs V fs = [1 \<mapsto> DirNode []]" "free_blocks D fs = free_blocks D fs0 - {..<10}"
    "DISK_BLOCKS D (fs_blocks fs) = DISK_BLOCKS D (fs_blocks fs0)"
    using fs_format_ok [OF fs0(1)] fs0(2) by auto
  have "BMAP_BITS \<le> 10 + tally D V fs" if "free_blocks D fs0 = {..<BMAP_BITS}"
    using that card_Diff_subset [of "{..<10}" "{..<BMAP_BITS}"]
    by (simp add: tally_def fs(3) BMAP_BITS_def BLOCK_SIZE_def)
  then show ?thesis using room fs by (auto simp: run_inv_def)
qed

lemma step_inv: "fs_step D V fs fs' \<Longrightarrow> run_inv D V fs \<Longrightarrow> run_inv D V fs'"
proof (erule fs_stepE)
  fix call junk rc
  assume "run_inv D V fs" "call_ok V fs call" "length junk = BLOCK_SIZE"
    and run: "run_call D junk fs call = Inr (rc, Some fs')"
  from run_call_safe [OF this(1-3)] run show "run_inv D V fs'" by (auto simp: stays_def)
qed

end

sublocale disk \<subseteq> run: transition_system "formatted D V" "fs_step D V" "run_inv D V"
  by unfold_locales (rule formatted_inv, assumption, rule step_inv)

end
