(* ===== verification/Io_Delay.thy ===== *)
theory Io_Delay
  imports Disk_Interface
begin

text \<open>
  The delay simulator, \<open>src/logrw/io_delay.c\<close>, and the block operations of the builds with
  \<open>SIMULATE_IO_DELAY\<close> and \<open>NOT_FS_INITIALIZER\<close>, which are all builds of the top-level Makefile.

  The two static variables are the fields of a record; \<open>slept\<close> records the arguments of the
  calls of \<open>sleep\<close>, latest first. The builds without \<open>SLEEP_ON\<close> count down instead. The delays
  are shown to lie between one and four seconds and to be invisible in the data.
\<close>

section \<open>The simulator\<close>

record io_delay =
  Is_off :: int
  last_access :: u32
  slept :: "nat list"

definition SLEEP_TIME :: nat where
  "SLEEP_TIME = 1"

definition MAX_SLEEP_FACTOR :: nat where
  "MAX_SLEEP_FACTOR = 4"

definition COUNTER_NUM :: int where
  "COUNTER_NUM = 1000000"

text \<open>\<open>abs\<close> of an \<open>int\<close> argument: the smallest number has no absolute value.\<close>

definition c_abs :: "u32 \<Rightarrow> nat c" where
  "c_abs w = (if sint w = - (2 ^ 31) then Inl SignedOverflow else Inr (nat \<bar>sint w\<bar>))"

definition ACCESS_DELAY :: "u32 \<Rightarrow> u32 \<Rightarrow> nat c" where
  "ACCESS_DELAY a b =
     (if a = b + 1 \<or> a = b then Inr SLEEP_TIME
      else c_bind (c_abs (a - b)) (\<lambda>k. Inr (min k MAX_SLEEP_FACTOR * SLEEP_TIME)))"

definition io_delay_on :: "io_delay \<Rightarrow> io_delay" where
  "io_delay_on io = io\<lparr>Is_off := 0\<rparr>"

function count_down :: "int \<Rightarrow> int" where
  "count_down count = (if count > 0 then count_down (count - 1) else count)"
  by pat_completeness auto
termination by (relation "measure nat") auto

declare count_down.simps [simp del]

definition io_delay_simulator :: "bool \<Rightarrow> io_delay \<Rightarrow> u32 \<Rightarrow> io_delay c" where
  "io_delay_simulator SLEEP_ON io block_num =
     (if Is_off io \<noteq> 0 then Inr io
      else if SLEEP_ON then
        c_bind (ACCESS_DELAY block_num (last_access io)) (\<lambda>k.
        Inr (io\<lparr>slept := k # slept io, last_access := block_num\<rparr>))
      else
        let count = count_down COUNTER_NUM in
        Inr (io\<lparr>last_access := block_num\<rparr>))"

definition io_delay_read_block :: "bool \<Rightarrow> io_delay \<Rightarrow> u32 \<Rightarrow> io_delay c" where
  "io_delay_read_block SLEEP_ON io block_num = io_delay_simulator SLEEP_ON io block_num"

definition io_delay_write_block :: "bool \<Rightarrow> io_delay \<Rightarrow> u32 \<Rightarrow> io_delay c" where
  "io_delay_write_block SLEEP_ON io block_num = io_delay_simulator SLEEP_ON io block_num"

section \<open>Block operations with delays\<close>

definition block_read_delayed ::
    "bool \<Rightarrow> blocks_t \<times> io_delay \<Rightarrow> u32 \<Rightarrow> byte list \<Rightarrow> (int \<times> byte list \<times> blocks_t \<times> io_delay) c"
where
  "block_read_delayed SLEEP_ON = (\<lambda>(bks, io) block_no block.
     if block_no \<ge> bks_num_blocks bks then Inr (-1, block, bks, io)
     else
       c_bind (io_delay_read_block SLEEP_ON io block_no) (\<lambda>io'.
       c_bind (mem_read (bks_blocks bks) (unat (block_no * bks_block_size bks))
                 (unat (bks_block_size bks))) (\<lambda>bytes.
       c_bind (mem_write block 0 bytes) (\<lambda>block'.
       Inr (0, block', bks, io')))))"

definition block_write_delayed ::
    "bool \<Rightarrow> blocks_t \<times> io_delay \<Rightarrow> u32 \<Rightarrow> byte list \<Rightarrow> (int \<times> blocks_t \<times> io_delay) c" where
  "block_write_delayed SLEEP_ON = (\<lambda>(bks, io) block_no block.
     if block_no \<ge> bks_num_blocks bks then Inr (-1, bks, io)
     else
       c_bind (io_delay_write_block SLEEP_ON io block_no) (\<lambda>io'.
       c_bind (mem_read block 0 (unat (bks_block_size bks))) (\<lambda>bytes.
       c_bind (mem_write (bks_blocks bks) (unat (block_no * bks_block_size bks)) bytes)
         (\<lambda>blocks'. Inr (0, bks\<lparr>bks_blocks := blocks'\<rparr>, io')))))"

definition delay_disk :: "bool \<Rightarrow> (blocks_t \<times> io_delay) disk_ops" where
  "delay_disk SLEEP_ON =
     \<lparr>DISK_READ = block_read_delayed SLEEP_ON,
      DISK_WRITE = block_write_delayed SLEEP_ON,
      DISK_BLOCKS = (\<lambda>(bks, io). block_num_blocks bks)\<rparr>"

section \<open>How long a delay is\<close>

lemma count_down_end: "0 \<le> n \<Longrightarrow> count_down n = 0"
  by (induction n rule: count_down.induct) (subst count_down.simps, simp)

lemma sint_diff_small:
  assumes "unat (a :: u32) < 2 ^ 31" and "unat (b :: u32) < 2 ^ 31"
  shows "sint (a - b) = int (unat a) - int (unat b)"
proof -
  have "sint a = int (unat a)" "sint b = int (unat b)" using assms by (simp_all add: sint_small)
  moreover have "signed_take_bit 31 (int x - int y) = int x - int y"
    if "x < 2 ^ 31" "y < 2 ^ 31" for x y :: nat
    using that by (intro signed_take_bit_int_eq_self) auto
  note this [OF assms]
  moreover have "sint (a - b) = signed_take_bit 31 (sint a - sint b)"
    by (simp add: sint_word_ariths)
  ultimately show ?thesis by simp
qed

text \<open>The distance between two accesses, in blocks; a step forward counts as none.\<close>

definition seek :: "nat \<Rightarrow> nat \<Rightarrow> nat" where
  "seek a b = (if a = b + 1 \<or> a = b then 1 else min (if b \<le> a then a - b else b - a) 4)"

lemma ACCESS_DELAY_ok:
  assumes "unat a < 2 ^ 31" and "unat b < 2 ^ 31"
  shows "ACCESS_DELAY a b = Inr (seek (unat a) (unat b))"
proof -
  have one: "(a = b + 1) = (unat a = unat b + 1)"
    using assms unat_Suc_u32 [of b] by (auto simp: word_unat_eq_iff)
  have "\<bar>int x - int y\<bar> < 2 ^ 31" if "x < 2 ^ 31" "y < 2 ^ 31" for x y :: nat
    using that by auto
  note this [OF assms]
  then have "sint (a - b) \<noteq> - (2 ^ 31)" using sint_diff_small [OF assms] by linarith
  then have "c_abs (a - b) = Inr (nat \<bar>int (unat a) - int (unat b)\<bar>)"
    using sint_diff_small [OF assms] by (simp add: c_abs_def)
  moreover have "nat \<bar>int x - int y\<bar> = (if y \<le> x then x - y else y - x)" for x y :: nat
    by auto
  note this [of "unat a" "unat b"]
  ultimately show ?thesis
    using one by (auto simp: ACCESS_DELAY_def seek_def SLEEP_TIME_def MAX_SLEEP_FACTOR_def
        word_unat_eq_iff)
qed

lemma seek_bounds: "1 \<le> seek a b \<and> seek a b \<le> 4"
  by (auto simp: seek_def)

text \<open>What the simulator does to its state.\<close>

definition io_small :: "io_delay \<Rightarrow> bool" where
  "io_small io \<longleftrightarrow> unat (last_access io) < 2 ^ 31"

definition io_step :: "bool \<Rightarrow> io_delay \<Rightarrow> u32 \<Rightarrow> io_delay" where
  "io_step SLEEP_ON io n =
     (if Is_off io \<noteq> 0 then io
      else if SLEEP_ON
      then io\<lparr>slept := seek (unat n) (unat (last_access io)) # slept io, last_access := n\<rparr>
      else io\<lparr>last_access := n\<rparr>)"

lemma io_delay_simulator_ok:
  assumes "io_small io" and "unat n < 2 ^ 31"
  shows "io_delay_simulator SLEEP_ON io n = Inr (io_step SLEEP_ON io n)"
    and "io_small (io_step SLEEP_ON io n)"
  using assms
  by (simp_all add: io_delay_simulator_def io_step_def io_small_def ACCESS_DELAY_ok)

text \<open>One access after the other.\<close>

fun io_delay_run :: "bool \<Rightarrow> io_delay \<Rightarrow> u32 list \<Rightarrow> io_delay c" where
  "io_delay_run SLEEP_ON io [] = Inr io"
| "io_delay_run SLEEP_ON io (n # ns) =
     c_bind (io_delay_simulator SLEEP_ON io n) (\<lambda>io'. io_delay_run SLEEP_ON io' ns)"

text \<open>The seconds that a sequence of accesses takes, from the position where the last one was.\<close>

fun seek_total :: "nat \<Rightarrow> nat list \<Rightarrow> nat" where
  "seek_total b [] = 0"
| "seek_total b (a # as) = seek a b + seek_total a as"

lemma io_delay_run_ok:
  assumes "Is_off io = 0" and "io_small io" and "\<forall>n \<in> set ns. unat n < 2 ^ 31"
  shows "\<exists>io'. io_delay_run True io ns = Inr io' \<and> Is_off io' = 0 \<and> io_small io'
     \<and> sum_list (slept io') = sum_list (slept io) + seek_total (unat (last_access io)) (map unat ns)
     \<and> length (slept io') = length (slept io) + length ns"
  using assms
proof (induction ns arbitrary: io)
  case Nil
  then show ?case by simp
next
  case (Cons n ns)
  let ?io = "io_step True io n"
  have n: "unat n < 2 ^ 31" using Cons.prems(3) by simp
  have "Is_off ?io = 0" and "\<forall>k \<in> set ns. unat k < 2 ^ 31" and "last_access ?io = n"
    and "slept ?io = seek (unat n) (unat (last_access io)) # slept io"
    using Cons.prems by (simp_all add: io_step_def)
  with Cons.IH [of ?io] io_delay_simulator_ok [OF Cons.prems(2) n, of True] show ?case by auto
qed

lemma seek_total_bounds: "length as \<le> seek_total b as \<and> seek_total b as \<le> 4 * length as"
proof (induction as arbitrary: b)
  case Nil
  then show ?case by simp
next
  case (Cons a as)
  from Cons.IH [of a] seek_bounds [of a b] show ?case by simp
qed

lemma seek_total_sequential: "seek_total b [Suc b..<Suc b + k] = k"
proof (induction k arbitrary: b)
  case 0
  then show ?case by simp
next
  case (Suc k)
  have "[Suc b..<Suc b + Suc k] = Suc b # [Suc (Suc b)..<Suc (Suc b) + k]"
    by (simp add: upt_conv_Cons del: upt_Suc)
  with Suc [of "Suc b"] show ?case by (simp add: seek_def del: upt_Suc)
qed

section \<open>The data do not depend on the delays\<close>

lemma delayed_read_eq:
  assumes "io_small io" and "unat (bks_num_blocks bks) \<le> 2 ^ 31"
  shows "block_read_delayed SLEEP_ON (bks, io) n buf =
     c_bind (block_read bks n buf) (\<lambda>(rc, buf').
       Inr (rc, buf', bks, if rc = 0 then io_step SLEEP_ON io n else io))"
proof (cases "n \<ge> bks_num_blocks bks")
  case True
  then show ?thesis by (simp add: block_read_delayed_def block_read_def)
next
  case False
  then have "unat n < 2 ^ 31" using assms(2) by (simp add: word_less_nat_alt not_le)
  from io_delay_simulator_ok(1) [OF assms(1) this] False show ?thesis
    by (simp add: block_read_delayed_def block_read_def io_delay_read_block_def c_bind_assoc)
qed

lemma delayed_write_eq:
  assumes "io_small io" and "unat (bks_num_blocks bks) \<le> 2 ^ 31"
  shows "block_write_delayed SLEEP_ON (bks, io) n buf =
     c_bind (block_write bks n buf) (\<lambda>(rc, bks').
       Inr (rc, bks', if rc = 0 then io_step SLEEP_ON io n else io))"
proof (cases "n \<ge> bks_num_blocks bks")
  case True
  then show ?thesis by (simp add: block_write_delayed_def block_write_def)
next
  case False
  then have "unat n < 2 ^ 31" using assms(2) by (simp add: word_less_nat_alt not_le)
  from io_delay_simulator_ok(1) [OF assms(1) this] False show ?thesis
    by (simp add: block_write_delayed_def block_write_def io_delay_write_block_def c_bind_assoc)
qed

end
