(* ===== verification/Fs_Sim.thy ===== *)
theory Fs_Sim
  imports Fs_Run Io_Delay
begin

text \<open>
  The file system does not depend on how its storage is built. \<open>disk_sim\<close> is the contract of a
  simulation between two builds: related storages answer every read and write with the same
  status and data (or the same fault) and stay related. Under it every operation of \<open>fs.c\<close> gives the
  same answers on both.
\<close>

section \<open>Sequences of calls\<close>

text \<open>All the calls that a user of the file system makes, with their arguments and what the variables hold
  that receive results.\<close>

datatype fs_op =
    Op_format
  | Op_attrs u16 fs_file_attrs_t                   \<comment> \<open>inode, attributes\<close>
  | Op_lookup "byte list" u16                      \<comment> \<open>path, inode\<close>
  | Op_read u16 u32 u32 "byte list" int            \<comment> \<open>file, offset, count, buffer, bytes read\<close>
  | Op_write u16 u32 u32 "byte list"               \<comment> \<open>file, offset, count, buffer\<close>
  | Op_create u16 "byte list" u16                  \<comment> \<open>directory, name, inode\<close>
  | Op_mkdir u16 "byte list" u16
  | Op_readdir u16 "fs_file_name_t list" int int   \<comment> \<open>directory, entries, their maximum, their number\<close>
  | Op_truncate u16

text \<open>What a caller sees: the status and the results.\<close>

datatype fs_reply =
    Status int
  | Got_attrs int fs_file_attrs_t
  | Got_inode int "u16 option"
  | Got_data int "byte list option" "int option"
  | Got_names int "fs_file_name_t list option" "int option"

definition run_op :: "'d disk_ops \<Rightarrow> byte list \<Rightarrow> 'd fs_t \<Rightarrow> fs_op \<Rightarrow> (fs_reply \<times> 'd fs_t option) c" where
  "run_op D junk fs op =
     (case op of
        Op_format \<Rightarrow> c_bind (fs_format D (Some fs)) (\<lambda>(rc, p). Inr (Status rc, p))
      | Op_attrs i attrs \<Rightarrow> c_bind (fs_get_attrs fs i attrs) (\<lambda>(rc, attrs'). Inr (Got_attrs rc attrs', Some fs))
      | Op_lookup path fid \<Rightarrow>
          c_bind (fs_lookup D junk (Some fs) (Some path) fid) (\<lambda>(rc, fid', p). Inr (Got_inode rc (Some fid'), p))
      | Op_read i offset count buffer nread \<Rightarrow>
          c_bind (fs_read D junk (Some fs) i offset count (Some buffer) (Some nread))
            (\<lambda>(rc, p, buffer', nread'). Inr (Got_data rc buffer' nread', p))
      | Op_write i offset count buffer \<Rightarrow>
          c_bind (fs_write D junk (Some fs) i offset count (Some buffer)) (\<lambda>(rc, p). Inr (Status rc, p))
      | Op_create dir nm fid \<Rightarrow>
          c_bind (fs_create D junk (Some fs) dir (Some nm) (Some fid)) (\<lambda>(rc, p, fid'). Inr (Got_inode rc fid', p))
      | Op_mkdir dir nm fid \<Rightarrow>
          c_bind (fs_mkdir D junk (Some fs) dir (Some nm) (Some fid)) (\<lambda>(rc, p, fid'). Inr (Got_inode rc fid', p))
      | Op_readdir dir entries maxentries num \<Rightarrow>
          c_bind (fs_readdir D junk (Some fs) dir (Some entries) maxentries (Some num))
            (\<lambda>(rc, p, entries', num'). Inr (Got_names rc entries' num', p))
      | Op_truncate i \<Rightarrow> c_bind (fs_truncate (Some fs) i) (\<lambda>(rc, p). Inr (Status rc, p)))"

fun run_ops :: "'d disk_ops \<Rightarrow> byte list \<Rightarrow> 'd fs_t \<Rightarrow> fs_op list \<Rightarrow> (fs_reply list \<times> 'd fs_t) c" where
  "run_ops D junk fs [] = Inr ([], fs)"
| "run_ops D junk fs (op # ops) =
     c_bind (run_op D junk fs op) (\<lambda>(reply, p).
     c_bind (deref p) (\<lambda>fs'.
     c_bind (run_ops D junk fs' ops) (\<lambda>(replies, fs''). Inr (reply # replies, fs''))))"

section \<open>Related outcomes\<close>

abbreviation rel_c :: "('a \<Rightarrow> 'b \<Rightarrow> bool) \<Rightarrow> 'a c \<Rightarrow> 'b c \<Rightarrow> bool" where
  "rel_c R \<equiv> rel_sum (=) R"

lemma rel_c_bind:
  assumes "rel_c R m m'" and "\<And>x y. R x y \<Longrightarrow> rel_c S (f x) (g y)"
  shows "rel_c S (c_bind m f) (c_bind m' g)"
  using assms by (cases m; cases m') auto

lemma rel_c_same: "(\<And>x. m = Inr x \<Longrightarrow> rel_c S (f x) (g x)) \<Longrightarrow> rel_c S (c_bind m f) (c_bind m g)"
  by (cases m) auto

lemma rel_c_refl: "rel_c (=) m m"
  by (cases m) auto

section \<open>Simulations between builds\<close>

locale disk_sim =
  fixes D :: "'d disk_ops" and E :: "'e disk_ops" and R :: "'d \<Rightarrow> 'e \<Rightarrow> bool"
  assumes sim_read: "R d e \<Longrightarrow> rel_c (\<lambda>(rc, b, d') (rc', b', e'). rc = rc' \<and> b = b' \<and> R d' e')
      (DISK_READ D d n buf) (DISK_READ E e n buf)"
    and sim_write: "R d e \<Longrightarrow> rel_c (\<lambda>(rc, d') (rc', e'). rc = rc' \<and> R d' e')
      (DISK_WRITE D d n buf) (DISK_WRITE E e n buf)"
    and sim_blocks: "R d e \<Longrightarrow> DISK_BLOCKS D d = DISK_BLOCKS E e"

definition fs_rel :: "('d \<Rightarrow> 'e \<Rightarrow> bool) \<Rightarrow> 'd fs_t \<Rightarrow> 'e fs_t \<Rightarrow> bool" where
  "fs_rel R fs gs \<longleftrightarrow> R (fs_blocks fs) (fs_blocks gs) \<and> blk_bmap gs = blk_bmap fs
     \<and> inode_bmap gs = inode_bmap fs \<and> inode_tab gs = inode_tab fs"

lemma fs_relE:
  assumes "fs_rel R fs gs"
  obtains e where "R (fs_blocks fs) e" and "gs = \<lparr>fs_blocks = e,
    inode_bmap = inode_bmap fs, blk_bmap = blk_bmap fs, inode_tab = inode_tab fs\<rparr>"
  using assms by (cases gs) (auto simp: fs_rel_def)

lemma fs_relI:
  "R (fs_blocks fs) (fs_blocks gs) \<Longrightarrow> blk_bmap gs = blk_bmap fs \<Longrightarrow>
   inode_bmap gs = inode_bmap fs \<Longrightarrow> inode_tab gs = inode_tab fs \<Longrightarrow> fs_rel R fs gs"
  by (simp add: fs_rel_def)

text \<open>Results of calls that return a pointer to the file system as well.\<close>

definition fsp_rel :: "('d \<Rightarrow> 'e \<Rightarrow> bool) \<Rightarrow> 'd fs_t option \<Rightarrow> 'e fs_t option \<Rightarrow> bool" where
  "fsp_rel R = rel_option (fs_rel R)"

lemma fsp_rel_simps [simp]:
  "fsp_rel R None None" "fsp_rel R (Some fs) (Some gs) = fs_rel R fs gs"
  by (simp_all add: fsp_rel_def)

lemma fs_relD:
  assumes "fs_rel R fs gs"
  shows "R (fs_blocks fs) (fs_blocks gs)" "blk_bmap gs = blk_bmap fs"
    "inode_bmap gs = inode_bmap fs" "inode_tab gs = inode_tab fs"
  using assms by (simp_all add: fs_rel_def)

context disk_sim
begin

lemmas sim_bind = rel_c_bind [OF sim_read] rel_c_bind [OF sim_write]

lemma search_blocks_sim:
  "R d e \<Longrightarrow> rel_c (\<lambda>(r, d') (r', e'). r = r' \<and> R d' e')
     (search_blocks D blocks nm iblock num page d) (search_blocks E blocks nm iblock num page e)"
proof (induction "length blocks - iblock" arbitrary: iblock num page d e rule: less_induct)
  case less
  then show ?case
    by (subst (1 2) search_blocks.simps)
      (auto intro!: rel_c_same sim_bind simp: c_nth_eq_Inr split: sum.splits)
qed

lemma readdir_blocks_sim:
  "R d e \<Longrightarrow> rel_c (\<lambda>(n, es, d') (n', es', e'). n = n' \<and> es = es' \<and> R d' e')
     (readdir_blocks D tab blocks iblock num ientry entries page d)
     (readdir_blocks E tab blocks iblock num ientry entries page e)"
proof (induction "length blocks - iblock" arbitrary: iblock num ientry entries page d e
    rule: less_induct)
  case less
  then show ?case
    by (subst (1 2) readdir_blocks.simps)
      (auto intro!: rel_c_same sim_bind simp: c_nth_eq_Inr)
qed

lemma fs_read_loop_sim:
  "R d e \<Longrightarrow> rel_c (\<lambda>(n, b, d') (n', b', e'). n = n' \<and> b = b' \<and> R d' e')
     (fs_read_loop D ifile offset mx used iblock pos tbl block buffer d)
     (fs_read_loop E ifile offset mx used iblock pos tbl block buffer e)"
proof (induction "used - iblock" arbitrary: iblock pos tbl block buffer d e rule: less_induct)
  case less
  then show ?case
    by (subst (1 2) fs_read_loop.simps)
      (auto intro!: rel_c_same sim_bind simp: Let_def split: option.splits)
qed

lemma write_within_sim:
  "R d e \<Longrightarrow> rel_c (\<lambda>(n, i, p, b, d') (n', i', p', b', e').
       n = n' \<and> i = i' \<and> p = p' \<and> b = b' \<and> R d' e')
     (write_within D ifile buffer offset count used iblock num pos block d)
     (write_within E ifile buffer offset count used iblock num pos block e)"
proof (induction "used - iblock" arbitrary: iblock num pos block d e rule: less_induct)
  case less
  then show ?case
    by (subst (1 2) write_within.simps)
      (auto intro!: rel_c_same sim_bind simp: Let_def split: option.splits)
qed

lemma write_allocated_sim:
  "R d e \<Longrightarrow> rel_c (\<lambda>(n, d') (n', e'). n = n' \<and> R d' e')
     (write_allocated D ifile buffer count used iblock num pos block d)
     (write_allocated E ifile buffer count used iblock num pos block e)"
proof (induction "used - iblock" arbitrary: iblock num pos block d e rule: less_induct)
  case less
  then show ?case
    by (subst (1 2) write_allocated.simps)
      (auto intro!: rel_c_same sim_bind simp: Let_def split: option.splits)
qed

lemma load_itab_sim:
  "R d e \<Longrightarrow> rel_c (\<lambda>(t, d') (t', e'). t = t' \<and> R d' e') (load_itab D is d tab) (load_itab E is e tab)"
  by (induction "is" arbitrary: d e tab) (auto intro!: rel_c_same sim_bind)

lemma store_itab_sim:
  "R d e \<Longrightarrow> rel_c R (store_itab D is d tab) (store_itab E is e tab)"
  by (induction "is" arbitrary: d e) (auto intro!: rel_c_same sim_bind)

section \<open>Operations\<close>

lemmas loop_sim = search_blocks_sim readdir_blocks_sim fs_read_loop_sim write_within_sim
  write_allocated_sim load_itab_sim store_itab_sim

lemmas loop_bind = loop_sim [THEN rel_c_bind]

lemma fsi_dir_search_sim:
  "fs_rel R fs gs \<Longrightarrow> rel_c (\<lambda>(r, fs') (r', gs'). r = r' \<and> fs_rel R fs' gs')
     (fsi_dir_search D junk fs dir nm) (fsi_dir_search E junk gs dir nm)"
  by (auto intro!: rel_c_same loop_bind simp: fsi_dir_search_def fs_rel_def)

lemma fsi_store_fsdata_sim:
  "fs_rel R fs gs \<Longrightarrow> rel_c (fs_rel R) (fsi_store_fsdata D fs) (fsi_store_fsdata E gs)"
  by (auto intro!: sim_bind loop_bind simp: fsi_store_fsdata_def fs_rel_def)

lemma fsi_load_fsdata_sim:
  "fs_rel R fs gs \<Longrightarrow> rel_c (fs_rel R) (fsi_load_fsdata D fs) (fsi_load_fsdata E gs)"
  by (auto intro!: sim_bind loop_bind simp: fsi_load_fsdata_def fs_rel_def)

lemma fs_write_alloc_sim:
  "fs_rel R fs gs \<Longrightarrow> rel_c (\<lambda>(rc, fs') (rc', gs'). rc = rc' \<and> fs_rel R fs' gs')
     (fs_write_alloc bound i is blk fs) (fs_write_alloc bound i is blk gs)"
proof (induction "is" arbitrary: blk fs gs)
  case Nil
  then show ?case by simp
next
  case (Cons j js)
  then show ?case
    by (auto intro!: rel_c_same fs_relI Cons.IH elim!: fs_relE simp: Let_def split: option.splits)
qed

lemma add_dir_block_sim:
  assumes "fs_rel R fs gs"
  shows "rel_c (\<lambda>(rc, fs') (rc', gs'). rc = rc' \<and> fs_rel R fs' gs')
     (add_dir_block D fs dir) (add_dir_block E gs dir)"
  using assms
  by (auto intro!: rel_c_same fs_relI elim!: fs_relE simp: add_dir_block_def sim_blocks
      split: option.splits)

lemma add_dir_entry_sim:
  assumes "fs_rel R fs gs"
  shows "rel_c (fs_rel R) (add_dir_entry D junk fs dir nm n) (add_dir_entry E junk gs dir nm n)"
  using assms
  by (auto intro!: rel_c_same sim_bind simp: add_dir_entry_def fs_rel_def)

lemma add_inode_sim:
  assumes "fs_rel R fs gs"
  shows "rel_c (fs_rel R) (add_inode D fs n ty) (add_inode E gs n ty)"
  using assms
  by (auto intro!: rel_c_same fsi_store_fsdata_sim simp: add_inode_def fs_rel_def)

lemmas op_bind = fsi_dir_search_sim [THEN rel_c_bind] fs_write_alloc_sim [THEN rel_c_bind]
  add_dir_block_sim [THEN rel_c_bind] add_dir_entry_sim [THEN rel_c_bind]
  add_inode_sim [THEN rel_c_bind] fsi_store_fsdata_sim [THEN rel_c_bind]

lemma fs_write_sim:
  assumes "fs_rel R fs gs"
  shows "rel_c (\<lambda>(rc, p) (rc', q). rc = rc' \<and> fsp_rel R p q)
     (fs_write D junk (Some fs) i offset count buf) (fs_write E junk (Some gs) i offset count buf)"
proof -
  obtain e where e: "R (fs_blocks fs) e" and gs: "gs = \<lparr>fs_blocks = e,
      inode_bmap = inode_bmap fs, blk_bmap = blk_bmap fs, inode_tab = inode_tab fs\<rparr>"
    using assms by (rule fs_relE)
  have bound: "DISK_BLOCKS E e = DISK_BLOCKS D (fs_blocks fs)" using sim_blocks [OF e] by simp
  show ?thesis
    unfolding fs_write_def Let_def gs
    by (auto intro!: rel_c_same op_bind loop_bind fs_relI elim!: fs_relE simp: bound e
        split: option.splits)
qed

lemma fs_create_sim:
  assumes "fs_rel R fs gs"
  shows "rel_c (\<lambda>(rc, p, k) (rc', q, k'). rc = rc' \<and> fsp_rel R p q \<and> k = k')
     (fs_create D junk (Some fs) dir nm fid) (fs_create E junk (Some gs) dir nm fid)"
  using assms unfolding fs_create_def
  by (auto intro!: rel_c_same op_bind fs_relI elim!: fs_relE split: option.splits)

lemma fs_mkdir_sim:
  assumes "fs_rel R fs gs"
  shows "rel_c (\<lambda>(rc, p, k) (rc', q, k'). rc = rc' \<and> fsp_rel R p q \<and> k = k')
     (fs_mkdir D junk (Some fs) dir nm fid) (fs_mkdir E junk (Some gs) dir nm fid)"
  using assms unfolding fs_mkdir_def
  by (auto intro!: rel_c_same op_bind fs_relI elim!: fs_relE split: option.splits)

lemma fs_truncate_sim:
  assumes "fs_rel R fs gs"
  shows "rel_c (\<lambda>(rc, p) (rc', q). rc = rc' \<and> fsp_rel R p q)
     (fs_truncate (Some fs) i) (fs_truncate (Some gs) i)"
  using assms unfolding fs_truncate_def
  by (auto intro!: rel_c_same fs_relI elim!: fs_relE)

lemma fs_read_sim:
  assumes "fs_rel R fs gs"
  shows "rel_c (\<lambda>(rc, p, b, n) (rc', q, b', n'). rc = rc' \<and> fsp_rel R p q \<and> b = b' \<and> n = n')
     (fs_read D junk (Some fs) i offset count buf nr) (fs_read E junk (Some gs) i offset count buf nr)"
  using assms unfolding fs_read_def Let_def
  by (auto intro!: rel_c_same loop_bind fs_relI elim!: fs_relE split: option.splits)

lemma fs_readdir_sim:
  assumes "fs_rel R fs gs"
  shows "rel_c (\<lambda>(rc, p, es, n) (rc', q, es', n'). rc = rc' \<and> fsp_rel R p q \<and> es = es' \<and> n = n')
     (fs_readdir D junk (Some fs) dir es maxn nr) (fs_readdir E junk (Some gs) dir es maxn nr)"
  using assms unfolding fs_readdir_def Let_def
  by (auto intro!: rel_c_same loop_bind fs_relI elim!: fs_relE split: option.splits)

lemma lookup_loop_sim:
  "fs_rel R fs gs \<Longrightarrow> rel_c (\<lambda>x y. fst x = fst y \<and> fst (snd x) = fst (snd y)
       \<and> fs_rel R (snd (snd x)) (snd (snd y)))
     (lookup_loop D junk ts fs dir fid) (lookup_loop E junk ts gs dir fid)"
proof (induction ts arbitrary: fs gs dir fid)
  case Nil
  then show ?case by simp
next
  case (Cons t ts)
  from Cons.prems show ?case
    by (auto intro!: rel_c_same op_bind fs_relI Cons.IH elim!: fs_relE split: option.splits)
qed

lemma fs_lookup_sim:
  assumes "fs_rel R fs gs"
  shows "rel_c (\<lambda>(rc, i, p) (rc', i', q). rc = rc' \<and> i = i' \<and> fsp_rel R p q)
     (fs_lookup D junk (Some fs) path fid) (fs_lookup E junk (Some gs) path fid)"
  using assms unfolding fs_lookup_def
  by (auto intro!: lookup_loop_sim [THEN rel_c_bind] split: option.splits)

lemma fs_format_sim:
  assumes "fs_rel R fs gs"
  shows "rel_c (\<lambda>(rc, p) (rc', q). rc = rc' \<and> fsp_rel R p q)
     (fs_format D (Some fs)) (fs_format E (Some gs))"
  using assms unfolding fs_format_def
  by (auto intro!: rel_c_same op_bind fs_relI elim!: fs_relE)

lemma fs_get_attrs_sim:
  assumes "fs_rel R fs gs"
  shows "rel_c (=) (fs_get_attrs fs i attrs) (fs_get_attrs gs i attrs)"
  unfolding fs_get_attrs_def fs_relD [OF assms] by (rule rel_c_refl)

lemmas fs_bind = fs_create_sim [THEN rel_c_bind] fs_mkdir_sim [THEN rel_c_bind] fs_lookup_sim [THEN rel_c_bind]
  fs_read_sim [THEN rel_c_bind] fs_write_sim [THEN rel_c_bind] fs_readdir_sim [THEN rel_c_bind]
  fs_get_attrs_sim [THEN rel_c_bind] fs_format_sim [THEN rel_c_bind] fs_truncate_sim [THEN rel_c_bind]

lemma run_op_sim:
  assumes "fs_rel R fs gs"
  shows "rel_c (\<lambda>(reply, p) (reply', q). reply = reply' \<and> fsp_rel R p q) (run_op D junk fs op) (run_op E junk gs op)"
  by (cases op) (auto simp: run_op_def assms intro!: fs_bind [OF assms])

lemma run_ops_sim:
  "fs_rel R fs gs \<Longrightarrow> rel_c (\<lambda>x y. fst x = fst y \<and> fs_rel R (snd x) (snd y))
     (run_ops D junk fs ops) (run_ops E junk gs ops)"
proof (induction ops arbitrary: fs gs)
  case Nil
  then show ?case by simp
next
  case (Cons op ops)
  show ?case
    by (auto intro!: run_op_sim [THEN rel_c_bind] Cons.prems Cons.IH [THEN rel_c_bind]
        simp: deref_def fsp_rel_def split: option.splits elim: option.rel_cases)
qed

end

section \<open>The delayed disk behaves like the plain one\<close>

definition delay_rel :: "blocks_t \<times> io_delay \<Rightarrow> blocks_t \<Rightarrow> bool" where
  "delay_rel = (\<lambda>(bks, io) bks'. bks = bks' \<and> io_small io \<and> unat (bks_num_blocks bks) \<le> 2 ^ 31)"

lemma io_step_small:
  "io_small io \<Longrightarrow> unat (bks_num_blocks bks) \<le> 2 ^ 31 \<Longrightarrow> n < bks_num_blocks bks \<Longrightarrow>
   io_small (io_step SLEEP_ON io n)"
  by (rule io_delay_simulator_ok(2)) (simp_all add: word_less_nat_alt)

interpretation dsim: disk_sim "delay_disk SLEEP_ON" block_disk delay_rel for SLEEP_ON
proof unfold_locales
  fix d :: "blocks_t \<times> io_delay" and e n buf
  assume r: "delay_rel d e"
  obtain bks io where d: "d = (bks, io)" by (cases d)
  with r have e: "e = bks" and io: "io_small io" "unat (bks_num_blocks bks) \<le> 2 ^ 31"
    by (auto simp: delay_rel_def)
  note small = io_step_small [OF io, of n SLEEP_ON]
  have done_r: "n < bks_num_blocks bks" if "block_read bks n buf = Inr (0, b)" for b
    using that by (auto simp: block_read_def split: if_splits)
  have done_w: "n < bks_num_blocks bks" if "block_write bks n buf = Inr (0, b)" for b
    using that by (auto simp: block_write_def split: if_splits)
  have same: "bks_num_blocks bks' = bks_num_blocks bks" if "block_write bks n buf = Inr (rc, bks')"
    for rc bks'
    using that by (auto simp: block_write_def c_bind_eq_Inr split: if_splits)
  show "rel_c (\<lambda>(rc, b, d') (rc', b', e'). rc = rc' \<and> b = b' \<and> delay_rel d' e')
      (DISK_READ (delay_disk SLEEP_ON) d n buf) (DISK_READ block_disk e n buf)"
  proof (cases "block_read bks n buf")
    case (Inl f)
    then show ?thesis by (simp add: delay_disk_def block_disk_def d e delayed_read_eq [OF io])
  next
    case (Inr p)
    obtain rc b where p: "p = (rc, b)" by (cases p)
    with Inr show ?thesis
      using io small done_r [of b]
      by (cases "rc = 0")
        (simp_all add: delay_disk_def block_disk_def d e delayed_read_eq [OF io] delay_rel_def)
  qed
  show "rel_c (\<lambda>(rc, d') (rc', e'). rc = rc' \<and> delay_rel d' e')
      (DISK_WRITE (delay_disk SLEEP_ON) d n buf) (DISK_WRITE block_disk e n buf)"
  proof (cases "block_write bks n buf")
    case (Inl f)
    then show ?thesis by (simp add: delay_disk_def block_disk_def d e delayed_write_eq [OF io])
  next
    case (Inr p)
    obtain rc b where p: "p = (rc, b)" by (cases p)
    with Inr show ?thesis
      using io small done_w [of b] same [of rc b]
      by (cases "rc = 0")
        (simp_all add: delay_disk_def block_disk_def d e delayed_write_eq [OF io] delay_rel_def)
  qed
  show "DISK_BLOCKS (delay_disk SLEEP_ON) d = DISK_BLOCKS block_disk e"
    by (simp add: delay_disk_def block_disk_def d e)
qed

end
