(* ===== verification/Sofs_Fuse.thy ===== *)
theory Sofs_Fuse
  imports Fs_Run
begin

text \<open>
  The FUSE front end, \<open>src/sofs/sofs.c\<close>: the callbacks that the FUSE library makes, on top of the file
  system.

  The static pointer \<open>FS\<close> is an argument and a result of the callbacks; \<open>fh\<close> is the field
  \<open>fi->fh\<close>. Paths are byte lists without the terminating zero. \<open>filler\<close>, the function with which
  the library collects directory entries, is a parameter, and so is what uninitialised locals
  hold: \<open>fid0\<close>, \<open>attrs0\<close>, \<open>maxentries0\<close>, \<open>entries0\<close>, \<open>numentries0\<close>. \<open>off_t\<close> has 64 bits in
  all configurations.
\<close>

type_synonym u64 = "64 word"

definition MAX_FILE_NAME_SIZE :: nat where
  "MAX_FILE_NAME_SIZE = 14"

definition MAX_READDIR_ENTRIES :: nat where
  "MAX_READDIR_ENTRIES = 64"

definition ENOENT :: int where
  "ENOENT = 2"

section \<open>Start\<close>

text \<open>\<open>sofs_init\<close>: \<open>delay_on\<close> is the effect of \<open>io_delay_on\<close> on the storage of the build.\<close>

definition sofs_init :: "'d disk_ops \<Rightarrow> 'd option c \<Rightarrow> 'd fs_t \<Rightarrow> ('d \<Rightarrow> 'd) \<Rightarrow> 'd fs_t option c" where
  "sofs_init D disk_init mem delay_on =
     c_bind (fs_new D disk_init mem NUM_BLOCKS) (\<lambda>fs.
     c_bind (fs_format D (Some fs)) (\<lambda>(rc, FS).
     Inr (map_option (\<lambda>fs. fs\<lparr>fs_blocks := delay_on (fs_blocks fs)\<rparr>) FS)))"

section \<open>Files\<close>

text \<open>The copy of a path that three of the callbacks make, in memory for a file name.\<close>

definition copy_name :: "byte list \<Rightarrow> byte list c" where
  "copy_name path = (if length path + 1 > MAX_FILE_NAME_SIZE then Inl OutOfBounds else Inr path)"

definition sofs_create ::
    "'d disk_ops \<Rightarrow> byte list \<Rightarrow> u16 \<Rightarrow> 'd fs_t option \<Rightarrow> byte list \<Rightarrow> u64 \<Rightarrow>
     (int \<times> 'd fs_t option \<times> u64) c" where
  "sofs_create D junk fid0 FS path fh =
     c_bind (copy_name path) (\<lambda>filename.
     c_bind (fs_create D junk FS 1 (Some filename) (Some fid0)) (\<lambda>(rc, FS', fileidp).
     if rc = 0 then c_bind (deref fileidp) (\<lambda>fileid. Inr (0, FS', ucast fileid))
     else Inr (-1, FS', fh)))"

definition sofs_open ::
    "'d disk_ops \<Rightarrow> byte list \<Rightarrow> u16 \<Rightarrow> 'd fs_t option \<Rightarrow> byte list \<Rightarrow> u64 \<Rightarrow>
     (int \<times> 'd fs_t option \<times> u64) c" where
  "sofs_open D junk fid0 FS path fh =
     c_bind (copy_name path) (\<lambda>filename.
     c_bind (fs_lookup D junk FS (Some filename) fid0) (\<lambda>(rc, fileid, FS').
     if rc = 1 then Inr (0, FS', ucast fileid) else Inr (- ENOENT, FS', fh)))"

definition sofs_read ::
    "'d disk_ops \<Rightarrow> byte list \<Rightarrow> 'd fs_t option \<Rightarrow> byte list \<Rightarrow> u32 \<Rightarrow> u64 \<Rightarrow> u64 \<Rightarrow>
     (int \<times> 'd fs_t option \<times> byte list) c" where
  "sofs_read D junk FS buf sz offset fh =
     c_bind (fs_read D junk FS (ucast fh) (ucast offset) sz (Some buf) (Some 0))
       (\<lambda>(rc, FS', bufp, nreadp).
     c_bind (deref bufp) (\<lambda>buf'.
     c_bind (deref nreadp) (\<lambda>nread.
     Inr (if rc = 0 then nread else -1, FS', buf'))))"

definition sofs_write ::
    "'d disk_ops \<Rightarrow> byte list \<Rightarrow> 'd fs_t option \<Rightarrow> byte list \<Rightarrow> u32 \<Rightarrow> u64 \<Rightarrow> u64 \<Rightarrow>
     (int \<times> 'd fs_t option) c" where
  "sofs_write D junk FS buf sz offset fh =
     c_bind (mem_read buf 0 (unat sz)) (\<lambda>filedata.
     c_bind (fs_write D junk FS (ucast fh) (ucast offset) sz (Some filedata)) (\<lambda>(rc, FS').
     Inr (if rc = 0 then sint sz else -1, FS')))"

text \<open>The new size is not looked at.\<close>

definition sofs_truncate ::
    "'d disk_ops \<Rightarrow> byte list \<Rightarrow> u16 \<Rightarrow> 'd fs_t option \<Rightarrow> byte list \<Rightarrow> u64 \<Rightarrow>
     (int \<times> 'd fs_t option) c" where
  "sofs_truncate D junk fid0 FS path newsize =
     c_bind (copy_name path) (\<lambda>filename.
     c_bind (fs_lookup D junk FS (Some filename) fid0) (\<lambda>(rc, fileid, FS').
     if rc = 1 then
       c_bind (fs_truncate FS' fileid) (\<lambda>(rc', FS'').
       Inr (if rc' = 0 then 0 else - ENOENT, FS''))
     else Inr (- ENOENT, FS')))"

section \<open>Attributes and directories\<close>

record stat =
  st_mode :: u32
  st_nlink :: u32
  st_size :: u64

definition S_IFDIR :: u32 where
  "S_IFDIR = 0x4000"

definition S_IFREG :: u32 where
  "S_IFREG = 0x8000"

text \<open>\<open>filename\<close> is an uninitialised pointer. \<open>filename_room\<close> says how many bytes may be written where
  it happens to point: \<open>None\<close> when it is not the address of an object.\<close>

definition sofs_getattr ::
    "'d disk_ops \<Rightarrow> byte list \<Rightarrow> u16 \<Rightarrow> fs_file_attrs_t \<Rightarrow> nat option \<Rightarrow> 'd fs_t option \<Rightarrow>
     byte list \<Rightarrow> (int \<times> 'd fs_t option \<times> stat) c" where
  "sofs_getattr D junk fid0 attrs0 filename_room FS path =
     (case filename_room of None \<Rightarrow> Inl WildPointer
      | Some room \<Rightarrow>
        if length path + 1 > room then Inl WildPointer else
        let stbuf = \<lparr>st_mode = 0, st_nlink = 0, st_size = 0\<rparr> in
        if path = [SLASH] then
          Inr (0, FS, stbuf\<lparr>st_mode := S_IFDIR OR 0x1ED, st_nlink := 2, st_size := 512\<rparr>)
        else
          c_bind (fs_lookup D junk FS (Some path) fid0) (\<lambda>(rc, fileid, FS').
          if rc = 1 then
            c_bind (deref FS') (\<lambda>fs.
            c_bind (fs_get_attrs fs fileid attrs0) (\<lambda>(rc', attrs).
            if rc' = 0 then
              if at_type attrs = 2 then
                Inr (0, FS', stbuf\<lparr>st_mode := S_IFREG OR 0x1FF, st_nlink := 1,
                       st_size := ucast (at_size attrs)\<rparr>)
              else if at_type attrs = 1 then
                Inr (0, FS', stbuf\<lparr>st_mode := S_IFDIR OR 0x1FF, st_nlink := 2, st_size := 512\<rparr>)
              else Inr (- ENOENT, FS', stbuf)
            else Inr (- ENOENT, FS', stbuf)))
          else Inr (- ENOENT, FS', stbuf)))"

text \<open>The loop that hands the entries to the library.\<close>

fun fill_entries ::
    "('b \<Rightarrow> byte list \<Rightarrow> 'b) \<Rightarrow> nat list \<Rightarrow> fs_file_name_t list \<Rightarrow> 'b \<Rightarrow> 'b c" where
  "fill_entries filler [] entries buf = Inr buf"
| "fill_entries filler (i # is) entries buf =
     c_bind (c_nth entries i) (\<lambda>(nm, ty). fill_entries filler is entries (filler buf nm))"

definition DOT :: byte where
  "DOT = 0x2E"

definition sofs_readdir ::
    "'d disk_ops \<Rightarrow> byte list \<Rightarrow> fs_file_attrs_t \<Rightarrow> int \<Rightarrow> fs_file_name_t list \<Rightarrow> int \<Rightarrow>
     ('b \<Rightarrow> byte list \<Rightarrow> 'b) \<Rightarrow> 'd fs_t option \<Rightarrow> byte list \<Rightarrow> 'b \<Rightarrow> (int \<times> 'd fs_t option \<times> 'b) c" where
  "sofs_readdir D junk attrs0 maxentries0 entries0 numentries0 filler FS path buf =
     (if path \<noteq> [SLASH] then Inr (- ENOENT, FS, buf)
      else
        let buf' = filler (filler buf [DOT]) [DOT, DOT] in
        c_bind (deref FS) (\<lambda>fs.
        c_bind (fs_get_attrs fs 1 attrs0) (\<lambda>(rc, attrs).
        if rc = 0 then
          let maxentries = (if at_type attrs = 1 then at_num_entries attrs else maxentries0);
              res = (if at_type attrs = 1 then 0 else -1) in
          if maxentries \<noteq> 0 then
            c_bind (fs_readdir D junk FS 1 (Some entries0) maxentries (Some numentries0))
              (\<lambda>(rc', FS', entriesp, nump).
            if rc' = 0 then
              c_bind (deref entriesp) (\<lambda>entries.
              c_bind (deref nump) (\<lambda>numentries.
              c_bind (fill_entries filler [0..<nat numentries] entries buf') (\<lambda>buf''.
              Inr (0, FS', buf''))))
            else Inr (res, FS', buf'))
          else Inr (res, FS, buf')
        else Inr (-1, FS, buf'))))"

section \<open>Callbacks without an effect\<close>

definition sofs_mknod :: "byte list \<Rightarrow> u32 \<Rightarrow> u64 \<Rightarrow> int" where
  "sofs_mknod path mode dev = 0"

definition sofs_flush :: "byte list \<Rightarrow> u64 \<Rightarrow> int" where
  "sofs_flush path fh = 0"

definition sofs_utime :: "byte list \<Rightarrow> int \<times> int \<Rightarrow> int" where
  "sofs_utime path ubuf = 0"

definition sofs_chown :: "byte list \<Rightarrow> u32 \<Rightarrow> u32 \<Rightarrow> int" where
  "sofs_chown path uid gid = 0"

definition sofs_chmod :: "byte list \<Rightarrow> u32 \<Rightarrow> int" where
  "sofs_chmod path mode = 0"

definition sofs_release :: "byte list \<Rightarrow> u64 \<Rightarrow> int" where
  "sofs_release path fh = 0"

definition sofs_getxattr :: "byte list \<Rightarrow> byte list \<Rightarrow> byte list \<Rightarrow> u32 \<Rightarrow> int" where
  "sofs_getxattr path name val sz = 0"

section \<open>The table of callbacks\<close>

text \<open>A request of the FUSE library, one constructor for each entry of \<open>sofs_oper\<close> but \<open>init\<close> and
  \<open>destroy\<close>, with the arguments that the callback uses; an open file is given by its handle.\<close>

datatype request =
    Getattr "byte list"
  | Readdir "byte list"
  | Open "byte list" u64                   \<comment> \<open>path, handle before the call\<close>
  | Create_file "byte list" u64
  | Mknod "byte list" u32 u64
  | Read_file "byte list" u32 u64 u64      \<comment> \<open>buffer, size, offset, handle\<close>
  | Write_file "byte list" u32 u64 u64
  | Flush "byte list" u64
  | Release "byte list" u64
  | Utime "byte list" "int \<times> int"
  | Chown "byte list" u32 u32
  | Chmod "byte list" u32
  | Truncate_file "byte list" u64          \<comment> \<open>path, new size\<close>
  | Getxattr "byte list" "byte list" "byte list" u32

text \<open>What uninitialised locals of the callbacks hold.\<close>

record garbage =
  g_block :: "byte list"
  g_fileid :: u16
  g_attrs :: fs_file_attrs_t
  g_maxentries :: int
  g_entries :: "fs_file_name_t list"
  g_numentries :: int
  g_filename :: "nat option"

text \<open>What a callback gives back beside its result: an open file's handle, the attributes, the contents of the
  buffer, the names that were handed to the library.\<close>

datatype response =
    Nothing
  | Handle u64
  | Attributes stat
  | Buffer "byte list"
  | Names "byte list list"

definition sofs_oper ::
    "'d disk_ops \<Rightarrow> garbage \<Rightarrow> 'd fs_t option \<Rightarrow> request \<Rightarrow> ((int \<times> response) \<times> 'd fs_t option) c" where
  "sofs_oper D g FS req =
     (case req of
        Getattr path \<Rightarrow>
          c_bind (sofs_getattr D (g_block g) (g_fileid g) (g_attrs g) (g_filename g) FS path)
            (\<lambda>(res, FS', st). Inr ((res, Attributes st), FS'))
      | Readdir path \<Rightarrow>
          c_bind (sofs_readdir D (g_block g) (g_attrs g) (g_maxentries g) (g_entries g)
            (g_numentries g) (\<lambda>buf nm. buf @ [nm]) FS path []) (\<lambda>(res, FS', buf). Inr ((res, Names buf), FS'))
      | Open path fh \<Rightarrow>
          c_bind (sofs_open D (g_block g) (g_fileid g) FS path fh) (\<lambda>(res, FS', fh'). Inr ((res, Handle fh'), FS'))
      | Create_file path fh \<Rightarrow>
          c_bind (sofs_create D (g_block g) (g_fileid g) FS path fh) (\<lambda>(res, FS', fh'). Inr ((res, Handle fh'), FS'))
      | Mknod path mode dev \<Rightarrow> Inr ((sofs_mknod path mode dev, Nothing), FS)
      | Read_file buf sz offset fh \<Rightarrow>
          c_bind (sofs_read D (g_block g) FS buf sz offset fh) (\<lambda>(res, FS', buf'). Inr ((res, Buffer buf'), FS'))
      | Write_file buf sz offset fh \<Rightarrow>
          c_bind (sofs_write D (g_block g) FS buf sz offset fh) (\<lambda>(res, FS'). Inr ((res, Nothing), FS'))
      | Flush path fh \<Rightarrow> Inr ((sofs_flush path fh, Nothing), FS)
      | Release path fh \<Rightarrow> Inr ((sofs_release path fh, Nothing), FS)
      | Utime path ubuf \<Rightarrow> Inr ((sofs_utime path ubuf, Nothing), FS)
      | Chown path uid gid \<Rightarrow> Inr ((sofs_chown path uid gid, Nothing), FS)
      | Chmod path mode \<Rightarrow> Inr ((sofs_chmod path mode, Nothing), FS)
      | Truncate_file path newsize \<Rightarrow>
          c_bind (sofs_truncate D (g_block g) (g_fileid g) FS path newsize) (\<lambda>(res, FS'). Inr ((res, Nothing), FS'))
      | Getxattr path name val sz \<Rightarrow> Inr ((sofs_getxattr path name val sz, Nothing), FS))"

end
