(* ===== verification/Sofs_Session.thy ===== *)
theory Sofs_Session
  imports Sofs_Fuse
begin

text \<open>
  What a user of the mounted file system sees: a file that is created, written, opened and read
  again gives back its data; and no request, in any order, makes the file system fault, as long
  as paths are short enough for the buffers of the front end, except one for attributes, which writes through
  an uninitialised pointer.
\<close>

section \<open>Creating takes at most one block\<close>

lemma fsi_dir_search_bits: "fsi_dir_search D junk fs dir nm = Inr (r, fs') \<Longrightarrow> blk_bmap fs' = blk_bmap fs"
  by (auto simp: fsi_dir_search_def c_bind_eq_Inr)

lemma fs_create_bits:
  assumes "fs_create D junk (Some fs) dir nm fid = Inr (rc, Some fs', r)"
  shows "\<exists>b. \<forall>m. bmap_has (blk_bmap fs') m \<longrightarrow> m = b \<or> bmap_has (blk_bmap fs) m"
  using assms add_dir_block_bits
  by (fastforce simp: fs_create_def c_bind_eq_Inr
      dest: fsi_dir_search_bits add_dir_entry_bits add_inode_bits split: if_splits option.splits)

lemma fs_create_result:
  "fs_create D junk fsp dir nm (Some x) = Inr (rc, p, r) \<Longrightarrow> r \<noteq> None"
  by (auto simp: fs_create_def c_bind_eq_Inr split: if_splits option.splits)

lemma fs_create_free:
  assumes "fs_create D junk (Some fs) dir nm fid = Inr (rc, Some fs', r)"
    and "DISK_BLOCKS D (fs_blocks fs') = DISK_BLOCKS D (fs_blocks fs)"
  shows "card (free_blocks D fs) \<le> Suc (card (free_blocks D fs'))"
proof -
  obtain b where "\<forall>m. bmap_has (blk_bmap fs') m \<longrightarrow> m = b \<or> bmap_has (blk_bmap fs) m"
    using fs_create_bits [OF assms(1)] by blast
  from free_blocks_but_one [OF this assms(2)] show ?thesis .
qed

section \<open>Names and paths\<close>

definition sofs_name :: "byte list \<Rightarrow> bool" where
  "sofs_name nm \<longleftrightarrow> nm \<noteq> [] \<and> SLASH \<notin> set nm \<and> 0 \<notin> set nm \<and> length nm \<le> 12"

lemma strtok_tokens_name:
  "SLASH \<notin> set nm \<Longrightarrow> strtok_tokens acc nm = (if rev acc @ nm = [] then [] else [rev acc @ nm])"
  by (induction nm arbitrary: acc) auto

lemma sofs_nameD:
  assumes "sofs_name nm"
  shows "strtok_tokens [] (SLASH # nm) = [nm]" and "copy_name (SLASH # nm) = Inr (SLASH # nm)"
    and "0 \<notin> set (SLASH # nm)" and "length (SLASH # nm) < 14"
    and "length (SLASH # nm) < MAX_PATH_NAME_SIZE"
  using assms strtok_tokens_name [of nm "[]"]
  by (simp_all add: sofs_name_def copy_name_def MAX_FILE_NAME_SIZE_def MAX_PATH_NAME_SIZE_def SLASH_def)

lemma fh_back: "(ucast (ucast (i :: u16) :: u64) :: u16) = i"
  by (rule bit_word_eqI) (simp add: bit_simps)

context disk
begin

lemma sofs_create_ok:
  assumes inv: "fs_inv V fs" and root: "fs_abs V fs 1 = Some (DirNode es)" and nm: "sofs_name nm"
    and new: "map_of es (SLASH # nm) = None" and inodes: "used_inodes fs \<noteq> {..<ITAB_SIZE}"
    and room: "free_blocks D fs \<noteq> {}" and junk: "length junk = 512"
  shows "\<exists>n fs'. sofs_create D junk fid0 (Some fs) (SLASH # nm) fh = Inr (0, Some fs', ucast n)
    \<and> fs_inv V fs' \<and> DISK_BLOCKS D (fs_blocks fs') = DISK_BLOCKS D (fs_blocks fs)
    \<and> card (free_blocks D fs) \<le> Suc (card (free_blocks D fs'))
    \<and> \<not> live fs (unat n)
    \<and> fs_abs V fs' = (fs_abs V fs)(1 \<mapsto> DirNode (es @ [(nm, n)]), unat n \<mapsto> FileNode [])"
proof -
  note r = fs_abs_DirD [OF root] and p = sofs_nameD [OF nm]
  have r1: "live fs (unat (1 :: u16))" "itype (inode_tab fs ! unat (1 :: u16)) = FS_DIR"
    "map_of (dentries (content V fs (unat (1 :: u16)))) (SLASH # nm) = None" using r new by simp_all
  obtain n fs' where c: "fs_create D junk (Some fs) 1 (Some (SLASH # nm)) (Some fid0) =
      Inr (0, Some fs', Some (of_nat n))" and n: "n < ITAB_SIZE" "\<not> bmap_has (inode_bmap fs) n"
    and fs': "fs_inv V fs'" "dev_same D V (fs_blocks fs) (fs_blocks fs')"
      "fs_abs V fs' = (fs_abs V fs)(1 \<mapsto> DirNode (es @ [(nm, of_nat n)]), n \<mapsto> FileNode [])"
    using fs_create_ok [OF inv r1(1,2) _ p(4,3) r1(3) inodes room junk, of fid0] r(3) by auto
  have un: "unat (of_nat n :: u16) = n" using n(1) by (intro unat_of_nat_u16) (simp add: ITAB_SIZE_def)
  have "\<not> live fs n" using n(2) by (simp add: live_def)
  with c p(2) fs' un fs_create_free [OF c] show ?thesis
    by (intro exI [of _ "of_nat n"] exI [of _ fs']) (auto simp: sofs_create_def dev_same_def)
qed

lemma sofs_open_ok:
  assumes inv: "fs_inv V fs" and root: "fs_abs V fs 1 = Some (DirNode es)" and nm: "sofs_name nm"
    and junk: "length junk = 512"
  shows "sofs_open D junk fid0 (Some fs) (SLASH # nm) fh =
    (case map_of es nm of Some j \<Rightarrow> Inr (0, Some fs, ucast j) | None \<Rightarrow> Inr (- ENOENT, Some fs, fh))"
proof -
  note p = sofs_nameD [OF nm]
  obtain rc fid where l: "fs_lookup D junk (Some fs) (Some (SLASH # nm)) fid0 = Inr (rc, fid, Some fs)"
    "case abs_walk (fs_abs V fs) 1 [nm] of Some j \<Rightarrow> rc = 1 \<and> unat fid = j | None \<Rightarrow> rc \<in> {0, -1}"
    using fs_lookup_ok [OF inv p(3) _ _ p(5) junk, of fid0] p(1) by (auto split: option.splits)
  show ?thesis
    using l(2) root
    by (cases "map_of es nm") (auto simp: sofs_open_def p(2) l(1) simp flip: word_unat_eq_iff)
qed

section \<open>A session\<close>

lemma sofs_session_ok:
  assumes inv: "fs_inv V fs" and root: "fs_abs V fs 1 = Some (DirNode es)" and nm: "sofs_name nm"
    and new: "map_of es (SLASH # nm) = None" "map_of es nm = None"
    and inodes: "used_inodes fs \<noteq> {..<ITAB_SIZE}"
    and sz: "length bytes \<le> 5120" "length bytes \<le> length buf"
    and room: "(length bytes + 511) div 512 < card (free_blocks D fs)" and junk: "length junk = 512"
  shows "\<exists>fh fs1 fs2. sofs_create D junk fid0 (Some fs) (SLASH # nm) fh0 = Inr (0, Some fs1, fh)
    \<and> sofs_write D junk (Some fs1) bytes (of_nat (length bytes)) 0 fh =
        Inr (int (length bytes), Some fs2)
    \<and> sofs_open D junk fid1 (Some fs2) (SLASH # nm) fh1 = Inr (0, Some fs2, fh)
    \<and> sofs_read D junk (Some fs2) buf (of_nat (length bytes)) 0 fh =
        Inr (int (length bytes), Some fs2, bytes @ drop (length bytes) buf)
    \<and> fs_inv V fs2 \<and> synced V fs2
    \<and> (\<exists>n. \<not> live fs (unat n) \<and> fs_abs V fs2 =
        (fs_abs V fs)(1 \<mapsto> DirNode (es @ [(nm, n)]), unat n \<mapsto> FileNode bytes))"
proof -
  let ?n = "length bytes" and ?c = "of_nat (length bytes) :: u32"
  have c: "unat ?c = ?n" using sz by (simp add: unat_of_nat_u32)
  have si: "sint ?c = int ?n" using sz by (simp add: sint_small c)
  have "free_blocks D fs \<noteq> {}" using room by auto
  from sofs_create_ok [OF inv root nm new(1) inodes this junk, of fid0 fh0] obtain n fs1
    where c1: "sofs_create D junk fid0 (Some fs) (SLASH # nm) fh0 = Inr (0, Some fs1, ucast n)"
      and fs1: "fs_inv V fs1" "card (free_blocks D fs) \<le> Suc (card (free_blocks D fs1))"
      and abs1: "fs_abs V fs1 = (fs_abs V fs)(1 \<mapsto> DirNode (es @ [(nm, n)]), unat n \<mapsto> FileNode [])"
      and nl: "\<not> live fs (unat n)" by blast
  have n1: "unat n \<noteq> 1" using nl fs_invD(4) [OF inv] by auto
  have f1: "fs_abs V fs1 (unat n) = Some (FileNode [])" using abs1 by simp
  note f = fs_abs_FileD [OF f1]
  have off: "0 = min (unat (0 :: u32)) (fsize fs1 (unat n))" by simp
  have cnt: "0 + unat ?c \<le> 5120" "unat ?c \<le> length bytes"
    "(0 + unat ?c + 511) div 512 - nblocks fs1 (unat n) \<le> card (free_blocks D fs1)"
    using sz c room fs1(2) f(5) by auto
  obtain fs2 where w: "fs_write D junk (Some fs1) n 0 ?c (Some bytes) = Inr (0, Some fs2)"
    "fs_inv V fs2" "synced V fs2" "fs_abs V fs2 = (fs_abs V fs1)(unat n \<mapsto>
        FileNode (overwrite (content V fs1 (unat n)) 0 (take (unat ?c) bytes)))"
    using fs_write_ok [OF fs1(1) f(1,2) off cnt(1,2) junk cnt(3)] by blast
  have abs2: "fs_abs V fs2 = (fs_abs V fs)(1 \<mapsto> DirNode (es @ [(nm, n)]), unat n \<mapsto> FileNode bytes)"
    using w(4) c f(3) abs1 by (simp add: overwrite_def)
  have writes: "sofs_write D junk (Some fs1) bytes ?c 0 (ucast n) = Inr (int ?n, Some fs2)"
    using w(1) c si by (simp add: sofs_write_def mem_read_def fh_back)
  have root2: "fs_abs V fs2 1 = Some (DirNode (es @ [(nm, n)]))" using abs2 n1 by simp
  have opened: "sofs_open D junk fid1 (Some fs2) (SLASH # nm) fh1 = Inr (0, Some fs2, ucast n)"
    using sofs_open_ok [OF w(2) root2 nm junk, of fid1 fh1] new(2) by (simp add: map_add_def)
  have "fs_abs V fs2 (unat n) = Some (FileNode bytes)" using abs2 by simp
  note g = fs_abs_FileD [OF this]
  have "?n = min (unat ?c) (fsize fs2 (unat n) - unat (0 :: u32))" using g(4) c by simp
  from fs_read_ok [OF w(2) g(1,2) this sz(2) junk, of 0] g(3)
  have reads: "sofs_read D junk (Some fs2) buf ?c 0 (ucast n) =
      Inr (int ?n, Some fs2, bytes @ drop ?n buf)"
    by (simp add: sofs_read_def fh_back)
  show ?thesis using c1 writes opened reads w(2,3) nl abs2 by blast
qed

section \<open>Attributes, listing, truncating\<close>

lemma abs_walk_live:
  "fs_inv V fs \<Longrightarrow> live fs i \<Longrightarrow> abs_walk (fs_abs V fs) i path = Some j \<Longrightarrow> live fs j"
proof (induction path arbitrary: i)
  case Nil
  then show ?case by simp
next
  case (Cons t path)
  from Cons.prems(3) obtain es k where es: "fs_abs V fs i = Some (DirNode es)" "map_of es t = Some k"
    and walk: "abs_walk (fs_abs V fs) (unat k) path = Some j"
    by (auto split: option.splits node.splits)
  note d = fs_abs_DirD [OF es(1)]
  have "live fs (unat k)" using map_of_dentries_live [OF Cons.prems(1) d(1,2)] d(3) es(2) by simp
  from Cons.IH [OF Cons.prems(1) this walk] show ?case .
qed

lemma few_entries:
  assumes "fs_inv V fs" and "fs_abs V fs i = Some (DirNode es)"
  shows "length es \<le> 64"
proof -
  note d = fs_abs_DirD [OF assms(2)]
  have "length es \<le> card (used_inodes fs)"
    using fs_invD(8) [OF assms(1) d(1,2)] d(4) by (simp add: dir_ok_def)
  also have "\<dots> \<le> card {..<64 :: nat}"
    by (intro card_mono) (auto simp: used_inodes_def ITAB_SIZE_def)
  finally show ?thesis by simp
qed

lemma ucast_of_nat: "n < 2 ^ 32 \<Longrightarrow> ucast (of_nat n :: u32) = (of_nat n :: u64)"
  by (simp add: word_unat_eq_iff unsigned_of_nat take_bit_nat_eq_self unsigned_ucast_eq)

lemma sofs_getattr_ok:
  assumes inv: "fs_inv V fs" and path: "0 \<notin> set path" "path \<noteq> []" "hd path = SLASH"
      "length path < MAX_PATH_NAME_SIZE" "length path < room"
    and toks: "strtok_tokens [] path \<noteq> []" and junk: "length junk = 512"
  shows "sofs_getattr D junk fid0 attrs0 (Some room) (Some fs) path =
    (case abs_walk (fs_abs V fs) 1 (strtok_tokens [] path) of
       Some j \<Rightarrow> (case fs_abs V fs j of
           Some (FileNode bs) \<Rightarrow> Inr (0, Some fs, \<lparr>st_mode = S_IFREG OR 0x1FF, st_nlink = 1,
             st_size = of_nat (length bs)\<rparr>)
         | _ \<Rightarrow> Inr (0, Some fs, \<lparr>st_mode = S_IFDIR OR 0x1FF, st_nlink = 2, st_size = 512\<rparr>))
     | None \<Rightarrow> Inr (- ENOENT, Some fs, \<lparr>st_mode = 0, st_nlink = 0, st_size = 0\<rparr>))"
proof -
  have ns: "path \<noteq> [SLASH]" using toks by auto
  obtain rc fid where l: "fs_lookup D junk (Some fs) (Some path) fid0 = Inr (rc, fid, Some fs)"
    "case abs_walk (fs_abs V fs) 1 (strtok_tokens [] path) of
       Some j \<Rightarrow> rc = 1 \<and> unat fid = j | None \<Rightarrow> rc \<in> {0, -1}"
    using fs_lookup_ok [OF inv path(1-4) junk, of fid0] toks by (auto split: option.splits)
  show ?thesis
  proof (cases "abs_walk (fs_abs V fs) 1 (strtok_tokens [] path)")
    case None
    then show ?thesis using l ns path(5) by (auto simp: sofs_getattr_def)
  next
    case (Some j)
    then have j: "rc = 1" "j = unat fid" using l(2) by auto
    have live: "live fs (unat fid)"
      using abs_walk_live [OF inv fs_invD(4) [OF inv] Some] j by simp
    then have ty: "itype (inode_tab fs ! unat fid) = FS_DIR \<or> itype (inode_tab fs ! unat fid) = FS_FILE"
      by (simp add: live_def)
    have sz: "fsize fs (unat fid) < 2 ^ 32" using fs_invD(7) [OF inv live] by simp
    show ?thesis
      using Some l(1) ns path(5) j ty sz fs_get_attrs_ok [OF inv live, of attrs0] live
      by (auto simp: sofs_getattr_def fs_abs_def FS_DIR_def FS_FILE_def ucast_of_nat)
  qed
qed

lemma fill_entries_ok:
  "set is \<subseteq> {..<length entries} \<Longrightarrow>
   fill_entries filler is entries buf = Inr (foldl filler buf (map (\<lambda>i. fst (entries ! i)) is))"
  by (induction "is" arbitrary: buf) (auto simp: c_nth_ok split: prod.splits)

lemma sofs_readdir_ok:
  assumes inv: "fs_inv V fs" and root: "fs_abs V fs 1 = Some (DirNode es)"
    and room: "length entries0 = MAX_READDIR_ENTRIES" and junk: "length junk = 512"
  shows "sofs_readdir D junk attrs0 max0 entries0 num0 filler (Some fs) [SLASH] buf =
    Inr (0, Some fs, foldl filler buf ([DOT] # [DOT, DOT] # map fst es))"
proof -
  note d = fs_abs_DirD [OF root]
  have d1: "live fs (unat (1 :: u16))" "itype (inode_tab fs ! unat (1 :: u16)) = FS_DIR"
    "fs_abs V fs (unat (1 :: u16)) = Some (DirNode es)" using d root by simp_all
  note attrs = fs_get_attrs_ok [OF inv d1(1), of attrs0]
  define l where "l = dir_listing V fs (unat (1 :: u16))"
  have l: "length l = length es" "map fst l = map fst es"
    using d(3) by (auto simp: l_def dir_listing_def)
  have le: "length es \<le> length entries0"
    using few_entries [OF inv root] room by (simp add: MAX_READDIR_ENTRIES_def)
  have zero: "0 \<le> int (length es)" by simp
  have n: "length es = min (length (dir_listing V fs (unat (1 :: u16)))) (nat (int (length es)))"
    using l(1) by (simp add: l_def)
  note rd = fs_readdir_ok [OF inv d1(1,2) zero n le junk, of num0, folded l_def]
  have fill: "fill_entries filler [0..<length es] (l @ drop (length es) entries0) b =
      Inr (foldl filler b (map fst es))" for b
  proof -
    have "map (\<lambda>i. fst ((l @ drop (length es) entries0) ! i)) [0..<length es] = map fst es"
      unfolding l(2) [symmetric] by (rule nth_equalityI) (simp_all add: nth_append l(1))
    then show ?thesis using l(1) by (subst fill_entries_ok) auto
  qed
  have rd': "fs_readdir D junk (Some fs) 1 (Some entries0) (int (length es)) (Some num0) =
      Inr (0, Some fs, Some (l @ drop (length es) entries0), Some (int (length es)))"
    using rd l(1) by simp
  have dt: "FS_DIR = 1" by (simp add: FS_DIR_def)
  show ?thesis
    using attrs d1(2,3) rd' fill
    by (cases "es = []") (simp_all add: sofs_readdir_def Let_def dt)
qed

lemma sofs_truncate_ok:
  assumes inv: "fs_inv V fs" and root: "fs_abs V fs 1 = Some (DirNode es)" and nm: "sofs_name nm"
    and found: "map_of es nm = Some j" "fs_abs V fs (unat j) = Some (FileNode bs)"
    and junk: "length junk = 512"
  shows "\<exists>fs'. sofs_truncate D junk fid0 (Some fs) (SLASH # nm) newsize = Inr (0, Some fs')
    \<and> fs_inv V fs' \<and> fs_abs V fs' = (fs_abs V fs)(unat j \<mapsto> FileNode [])"
proof -
  note p = sofs_nameD [OF nm]
  obtain rc fid where l: "fs_lookup D junk (Some fs) (Some (SLASH # nm)) fid0 = Inr (rc, fid, Some fs)"
    "case abs_walk (fs_abs V fs) 1 [nm] of Some j \<Rightarrow> rc = 1 \<and> unat fid = j | None \<Rightarrow> rc \<in> {0, -1}"
    using fs_lookup_ok [OF inv p(3) _ _ p(5) junk, of fid0] p(1) by (auto split: option.splits)
  then have "rc = 1" "fid = j" using root found(1) by (auto simp flip: word_unat_eq_iff)
  note f = fs_abs_FileD [OF found(2)]
  obtain fs' where "fs_truncate (Some fs) j = Inr (0, Some fs')" "fs_inv V fs'"
    "fs_abs V fs' = (fs_abs V fs)(unat j \<mapsto> FileNode [])"
    using fs_truncate_ok [OF inv f(1,2)] by blast
  then show ?thesis using l(1) \<open>rc = 1\<close> \<open>fid = j\<close> by (auto simp: sofs_truncate_def p(2))
qed

end

section \<open>Every request is served\<close>

text \<open>The requests that the front end can take: paths that fit in its buffers and name something, buffers as
  long as they say, and written ranges that end at a 32-bit number.\<close>

definition path_ok :: "byte list \<Rightarrow> bool" where
  "path_ok path \<longleftrightarrow> 0 \<notin> set path \<and> path \<noteq> [] \<and> hd path = SLASH \<and> length path < MAX_FILE_NAME_SIZE
     \<and> strtok_tokens [] path \<noteq> []"

definition request_ok :: "request \<Rightarrow> bool" where
  "request_ok req =
     (case req of
        Getattr path \<Rightarrow> path = [SLASH] \<or> path_ok path
      | Open path fh \<Rightarrow> path_ok path
      | Create_file path fh \<Rightarrow> path_ok path
      | Truncate_file path sz \<Rightarrow> path_ok path
      | Read_file buf sz offset fh \<Rightarrow> unat sz \<le> length buf
      | Write_file buf sz offset fh \<Rightarrow>
          unat sz \<le> length buf \<and> unat (ucast offset :: u32) + unat sz < 2 ^ 32
      | _ \<Rightarrow> True)"

text \<open>\<open>sofs_getattr\<close> copies the path to where its uninitialised pointer points: a request for the attributes goes
  wild when there is not enough room for it.\<close>

definition goes_wild :: "garbage \<Rightarrow> request \<Rightarrow> bool" where
  "goes_wild g req =
     (case req of
        Getattr path \<Rightarrow> (case g_filename g of None \<Rightarrow> True | Some room \<Rightarrow> room < length path + 1)
      | _ \<Rightarrow> False)"

lemma goes_wild_Some [simp]: "goes_wild g (Getattr path) \<longleftrightarrow> (\<forall>room. g_filename g = Some room \<longrightarrow> room < length path + 1)"
  by (simp add: goes_wild_def split: option.split)

lemma goes_wild_faults: "goes_wild g req \<Longrightarrow> sofs_oper D g FS req = Inl WildPointer"
  by (auto simp: goes_wild_def sofs_oper_def sofs_getattr_def split: request.splits option.splits)

definition garbage_ok :: "garbage \<Rightarrow> bool" where
  "garbage_ok g \<longleftrightarrow> length (g_block g) = BLOCK_SIZE \<and> length (g_entries g) = MAX_READDIR_ENTRIES"

text \<open>For examples: what the uninitialised locals could hold, with this much room behind the pointer.\<close>

definition demo_garbage :: "nat option \<Rightarrow> garbage" where
  "demo_garbage room = \<lparr>g_block = replicate 512 0, g_fileid = 7, g_attrs = \<lparr>at_inodeid = 0, at_type = 0, at_size = 0,
     at_num_entries = 0\<rparr>, g_maxentries = 0, g_entries = replicate 64 ([], 0), g_numentries = 0, g_filename = room\<rparr>"

lemma demo_garbage_ok: "garbage_ok (demo_garbage room)"
  by (simp add: demo_garbage_def garbage_ok_def BLOCK_SIZE_def MAX_READDIR_ENTRIES_def)

lemma demo_garbage_room [simp]: "g_filename (demo_garbage room) = room"
  by (simp add: demo_garbage_def)

inductive serves :: "'d disk_ops \<Rightarrow> 'd fs_t \<Rightarrow> 'd fs_t \<Rightarrow> bool" for D where
  servesI: "garbage_ok g \<Longrightarrow> request_ok req \<Longrightarrow>
     sofs_oper D g (Some fs) req = Inr (res, Some fs') \<Longrightarrow> serves D fs fs'"

inductive_cases servesE: "serves D fs fs'"

lemma path_okD:
  assumes "path_ok path"
  shows "0 \<notin> set path" "path \<noteq> []" "hd path = SLASH" "length path < MAX_PATH_NAME_SIZE"
    "length path < MAX_FILE_NAME_SIZE" "strtok_tokens [] path \<noteq> []" "copy_name path = Inr path"
  using assms
  by (auto simp: path_ok_def MAX_PATH_NAME_SIZE_def MAX_FILE_NAME_SIZE_def copy_name_def)

context disk
begin

text \<open>A read of any inode returns.\<close>

lemma fs_read_safe:
  assumes inv: "fs_inv V fs" and "unat count \<le> length buffer" and "length junk = 512"
  shows "\<exists>rc n buf'. fs_read D junk (Some fs) i offset count (Some buffer) (Some nr) =
    Inr (rc, Some fs, Some buf', Some n)"
proof (cases "live fs (unat i) \<and> itype (inode_tab fs ! unat i) = FS_FILE")
  case False
  from fs_write_bad_inode(2) [OF inv False] show ?thesis by auto
next
  case True
  from fs_read_ok [OF inv _ _ refl _ assms(3)] True assms(2) show ?thesis by force
qed

text \<open>A lookup of a proper path returns 1 with an existing inode, or something else.\<close>

lemma fs_lookup_safe:
  assumes inv: "fs_inv V fs" and path: "path_ok path" and junk: "length junk = 512"
  shows "\<exists>rc fid. fs_lookup D junk (Some fs) (Some path) fid0 = Inr (rc, fid, Some fs)
    \<and> (rc = 1 \<longrightarrow> live fs (unat fid))"
proof -
  note p = path_okD [OF path]
  obtain rc fid where l: "fs_lookup D junk (Some fs) (Some path) fid0 = Inr (rc, fid, Some fs)"
    "case abs_walk (fs_abs V fs) 1 (strtok_tokens [] path) of
       Some j \<Rightarrow> rc = 1 \<and> unat fid = j | None \<Rightarrow> rc \<in> {0, -1}"
    using fs_lookup_ok [OF inv p(1-4) junk, of fid0] p(6) by (auto split: option.splits)
  then show ?thesis
    using abs_walk_live [OF inv fs_invD(4) [OF inv]] by (fastforce split: option.splits)
qed

lemma sofs_oper_safe:
  assumes run: "run_inv D V fs" and g: "garbage_ok g" and req: "request_ok req" and tame: "\<not> goes_wild g req"
  shows "\<exists>res fs'. sofs_oper D g (Some fs) req = Inr (res, Some fs') \<and> stays D V fs fs'"
proof -
  have inv: "fs_inv V fs" using run by (simp add: run_inv_def)
  note stay = stays_refl [OF run]
  have junk: "length (g_block g) = 512" using g by (simp add: garbage_ok_def BLOCK_SIZE_def)
  obtain es where root: "fs_abs V fs 1 = Some (DirNode es)"
    using fs_invD(4,5) [OF inv] by (simp add: fs_abs_def)
  show ?thesis
  proof (cases req)
    case (Getattr path)
    then obtain room where room: "g_filename g = Some room" "length path < room" using tame by auto
    show ?thesis
    proof (cases "path = [SLASH]")
      case True
      then show ?thesis using Getattr room stay by (simp add: sofs_oper_def sofs_getattr_def)
    next
      case False
      then have path: "path_ok path" using Getattr req by (auto simp: request_ok_def)
      note p = path_okD [OF path]
      from sofs_getattr_ok [OF inv p(1-4) room(2) p(6) junk] Getattr room(1) stay show ?thesis
        by (auto simp: sofs_oper_def split: option.splits node.splits)
    qed
  next
    case (Readdir path)
    have "length (g_entries g) = MAX_READDIR_ENTRIES" using g by (simp add: garbage_ok_def)
    note rd = sofs_readdir_ok [OF inv root this junk, of "g_attrs g" "g_maxentries g"
        "g_numentries g" "\<lambda>buf nm. buf @ [nm]" "[]"]
    from Readdir stay rd show ?thesis
      by (cases "path = [SLASH]") (simp_all add: sofs_oper_def, simp add: sofs_readdir_def)
  next
    case (Open path fh)
    then have path: "path_ok path" using req by (simp add: request_ok_def)
    obtain rc fid where "fs_lookup D (g_block g) (Some fs) (Some path) (g_fileid g) =
        Inr (rc, fid, Some fs)"
      using fs_lookup_safe [OF inv path junk] by blast
    with Open stay path_okD(7) [OF path] show ?thesis
      by (simp add: sofs_oper_def sofs_open_def)
  next
    case (Create_file path fh)
    then have path: "path_ok path" using req by (simp add: request_ok_def)
    obtain rc fs' r where c: "fs_create D (g_block g) (Some fs) 1 (Some path) (Some (g_fileid g)) =
        Inr (rc, Some fs', r)" "stays D V fs fs'"
      using create_safe(1) [OF run path_okD(1) [OF path] junk, of 1 "g_fileid g"] by auto
    with fs_create_result [OF c(1)] show ?thesis
      using Create_file path_okD(7) [OF path] by (auto simp: sofs_oper_def sofs_create_def)
  next
    case (Read_file buf sz offset fh)
    then have "unat sz \<le> length buf" using req by (simp add: request_ok_def)
    from fs_read_safe [OF inv this junk, of "ucast fh" "ucast offset" 0] Read_file stay show ?thesis
      by (auto simp: sofs_oper_def sofs_read_def)
  next
    case (Write_file buf sz offset fh)
    then have "unat sz \<le> length buf" and w: "unat (ucast offset :: u32) + unat sz < 2 ^ 32"
      using req by (simp_all add: request_ok_def)
    then have b: "mem_read buf 0 (unat sz) = Inr (take (unat sz) buf)"
      and l: "unat sz \<le> length (take (unat sz) buf)" by (simp_all add: mem_read_def)
    from fs_write_safe [OF run l junk w, of "ucast fh"] Write_file b show ?thesis
      by (auto simp: sofs_oper_def sofs_write_def)
  next
    case (Truncate_file path newsize)
    then have path: "path_ok path" using req by (simp add: request_ok_def)
    obtain rc fid where l: "fs_lookup D (g_block g) (Some fs) (Some path) (g_fileid g) =
        Inr (rc, fid, Some fs)" "rc = 1 \<longrightarrow> live fs (unat fid)"
      using fs_lookup_safe [OF inv path junk] by blast
    show ?thesis
    proof (cases "rc = 1")
      case False
      then show ?thesis using Truncate_file l stay path_okD(7) [OF path]
        by (simp add: sofs_oper_def sofs_truncate_def)
    next
      case True
      then have ok: "call_ok V fs (Truncate fid)" using l by (simp add: call_ok_def)
      have "length (g_block g) = BLOCK_SIZE" using g by (simp add: garbage_ok_def)
      from run_call_safe [OF run ok this] obtain rc' fs'
        where "fs_truncate (Some fs) fid = Inr (rc', Some fs')" "stays D V fs fs'"
        by (auto simp: run_call_def)
      then show ?thesis using True Truncate_file l path_okD(7) [OF path]
        by (simp add: sofs_oper_def sofs_truncate_def)
    qed
  qed (use stay in \<open>simp_all add: sofs_oper_def\<close>)
qed

lemma serves_stays: "serves D fs fs' \<Longrightarrow> run_inv D V fs \<Longrightarrow> stays D V fs fs'"
proof (erule servesE)
  fix g req res
  assume "run_inv D V fs" "garbage_ok g" "request_ok req"
    and "sofs_oper D g (Some fs) req = Inr (res, Some fs')"
  with sofs_oper_safe [of fs g req] goes_wild_faults [of g req D "Some fs"] show "stays D V fs fs'" by fastforce
qed

lemma serves_inv: "serves D fs fs' \<Longrightarrow> run_inv D V fs \<Longrightarrow> run_inv D V fs'"
  using serves_stays by (simp add: stays_def)

end

sublocale disk \<subseteq> mounted: transition_system "formatted D V" "serves D" "run_inv D V"
  by unfold_locales (rule formatted_inv, assumption, rule serves_inv)

end
