(* ===== verification/Sofs_Default.thy ===== *)
theory Sofs_Default
  imports Sofs_Session
begin

text \<open>
  The file system of the default build without its delays: the plain disk of \<open>NUM_BLOCKS\<close> blocks, formatted and
  mounted by \<open>sofs_init\<close>. The disk has more blocks than the bitmap has bits, but whatever is
  requested, the file system never needs so many.
\<close>

section \<open>The mounted file system\<close>

lemma default_boot:
  assumes "mem_ok mem"
  shows "\<exists>d fs. fs_new block_disk block_disk_init mem n = Inr (zero_fs d)
    \<and> fs_format block_disk (Some (zero_fs d)) = Inr (0, Some fs) \<and> formatted block_disk block_view fs
    \<and> fs_inv block_view fs \<and> synced block_view fs \<and> fs_abs block_view fs = [1 \<mapsto> DirNode []]
    \<and> used_inodes fs = {0, 1} \<and> bks_num_blocks (fs_blocks fs) = NUM_BLOCKS
    \<and> sofs_init block_disk block_disk_init mem on = Inr (Some (fs\<lparr>fs_blocks := on (fs_blocks fs)\<rparr>))"
proof -
  obtain d where d: "block_disk_init = Inr (Some d)" "blocks_wf d" "bks_num_blocks d = NUM_BLOCKS"
    "bks_block_size d = of_nat BLOCK_SIZE" "\<forall>i < unat NUM_BLOCKS. block_at d i = replicate 512 0"
    using block_new_wf [of NUM_BLOCKS "of_nat BLOCK_SIZE"]
    by (auto simp: block_disk_init_def NUM_BLOCKS_def BLOCK_SIZE_def)
  have view: "dv_ok block_view d" "10 \<le> dv_cap block_view d"
    "\<And>k. k < 10 \<Longrightarrow> dv_block block_view d k = replicate 512 0"
    using d by (simp_all add: block_view_def NUM_BLOCKS_def BLOCK_SIZE_def)
  have sh: "fs_shape block_view (mem\<lparr>fs_blocks := fs_blocks (zero_fs d)\<rparr>)"
    using assms view by (simp add: fs_shape_def mem_ok_def zero_fs_def)
  have new: "fs_new block_disk block_disk_init mem k = Inr (zero_fs d)" for k
    using bd.fs_new_ok [OF zero_fs_shape [OF view(1,2)] zero_fs_synced [OF view(3)] sh, of k]
    by (simp add: d(1) zero_fs_def)
  note blank = zero_fs_blank [OF view(1,2)]
  have free: "free_blocks block_disk (zero_fs d) = {..<BMAP_BITS}"
    by (auto simp: free_blocks_def zero_fs_def bmap_has_zero block_disk_def block_num_blocks_def d(3)
        NUM_BLOCKS_def BMAP_BITS_def BLOCK_SIZE_def)
  obtain fs where fs: "fs_format block_disk (Some (zero_fs d)) = Inr (0, Some fs)"
    "fs_inv block_view fs" "synced block_view fs" "fs_abs block_view fs = [1 \<mapsto> DirNode []]"
    "used_inodes fs = {0, 1}" "DISK_BLOCKS block_disk (fs_blocks fs) = DISK_BLOCKS block_disk (fs_blocks (zero_fs d))"
    using bd.fs_format_ok [OF blank] by blast
  have "formatted block_disk block_view fs"
    unfolding formatted_def using blank free fs(1) by blast
  moreover have "bks_num_blocks (fs_blocks fs) = NUM_BLOCKS"
    using fs(6) d(3) by (simp add: block_disk_def block_num_blocks_def zero_fs_def)
  ultimately show ?thesis using new fs
    by (intro exI [of _ d] exI [of _ fs]) (simp add: sofs_init_def)
qed

text \<open>The states that requests lead to after \<open>sofs_init\<close>.\<close>

definition default_mounted :: "blocks_t fs_t \<Rightarrow> bool" where
  "default_mounted fs \<longleftrightarrow> (\<exists>mem. mem_ok mem \<and> sofs_init block_disk block_disk_init mem id = Inr (Some fs))"

lemma default_mounted_inv:
  assumes "default_mounted fs"
  shows "formatted block_disk block_view fs" and "bks_num_blocks (fs_blocks fs) = NUM_BLOCKS"
proof -
  obtain mem where mem: "mem_ok mem" "sofs_init block_disk block_disk_init mem id = Inr (Some fs)"
    using assms by (auto simp: default_mounted_def)
  obtain fs' where "sofs_init block_disk block_disk_init mem id = Inr (Some fs')"
    "formatted block_disk block_view fs'" "bks_num_blocks (fs_blocks fs') = NUM_BLOCKS"
    using default_boot [OF mem(1), of 0 id] by auto
  with mem(2) show "formatted block_disk block_view fs" "bks_num_blocks (fs_blocks fs) = NUM_BLOCKS" by auto
qed

interpretation default: transition_system default_mounted "serves block_disk"
  "\<lambda>fs. run_inv block_disk block_view fs \<and> bks_num_blocks (fs_blocks fs) = NUM_BLOCKS"
proof
  fix fs assume "default_mounted fs"
  then show "run_inv block_disk block_view fs \<and> bks_num_blocks (fs_blocks fs) = NUM_BLOCKS"
    using default_mounted_inv bd.formatted_inv by blast
next
  fix fs fs' assume "serves block_disk fs fs'"
    and "run_inv block_disk block_view fs \<and> bks_num_blocks (fs_blocks fs) = NUM_BLOCKS"
  then show "run_inv block_disk block_view fs' \<and> bks_num_blocks (fs_blocks fs') = NUM_BLOCKS"
    using bd.serves_stays [of fs fs'] by (simp add: stays_def block_disk_def block_num_blocks_def)
qed

text \<open>At most 650 of the 4096 blocks that the bitmap has bits for are reserved.\<close>

lemma default_free:
  assumes "reach default_mounted (serves block_disk) fs"
  shows "fs_inv block_view fs" and "10 < card (free_blocks block_disk fs)"
  using default.reach_inv [OF assms] run_inv_room [of block_disk block_view fs]
  by (auto simp: run_inv_def block_disk_def block_num_blocks_def NUM_BLOCKS_def BMAP_BITS_def BLOCK_SIZE_def)

section \<open>There is always room\<close>

text \<open>The plain disk of the default build never fills up. Whatever requests have been served since the
  file system was mounted, a write to an existing file within the ten blocks of its inode returns 0
  and replaces the range.\<close>

lemma default_disk_never_full:
  assumes "reach default_mounted (serves block_disk) fs" and "length junk = BLOCK_SIZE"
    and "fs_abs block_view fs (unat i) = Some (FileNode bs)" and "off = min (unat offset) (length bs)"
    and "off + unat count \<le> 5120" and "unat count \<le> length buffer"
  shows "\<exists>fs'. fs_write block_disk junk (Some fs) i offset count (Some buffer) = Inr (0, Some fs')
    \<and> fs_abs block_view fs' = (fs_abs block_view fs)
        (unat i \<mapsto> FileNode (overwrite bs off (take (unat count) buffer)))"
proof -
  note inv = default_free(1) [OF assms(1)] and f = fs_abs_FileD [OF assms(3)]
  have junk: "length junk = 512" using assms(2) by (simp add: BLOCK_SIZE_def)
  have off: "off = min (unat offset) (fsize fs (unat i))" by (simp add: assms(4) f(4))
  have "(off + unat count + 511) div 512 - nblocks fs (unat i) \<le> 10" using assms(5) by linarith
  then have "(off + unat count + 511) div 512 - nblocks fs (unat i) \<le> card (free_blocks block_disk fs)"
    using default_free(2) [OF assms(1)] by linarith
  from bd.fs_write_ok [OF inv f(1,2) off assms(5,6) junk this] f(3) show ?thesis by auto
qed

text \<open>Creating a file or a directory under a new name fails only when all inodes are taken.\<close>

lemma default_disk_creates:
  assumes "reach default_mounted (serves block_disk) fs" and "length junk = BLOCK_SIZE"
    and "fs_abs block_view fs (unat dir) = Some (DirNode es)" and "map_of es nm = None"
    and "0 < length nm" and "length nm < 14" and "0 \<notin> set nm" and "used_inodes fs \<noteq> {..<ITAB_SIZE}"
  shows "\<exists>fs1 r1. fs_create block_disk junk (Some fs) dir (Some nm) (Some fid) = Inr (0, Some fs1, r1)"
    and "\<exists>fs2 r2. fs_mkdir block_disk junk (Some fs) dir (Some nm) (Some fid) = Inr (0, Some fs2, r2)"
proof -
  note inv = default_free(1) [OF assms(1)] and d = fs_abs_DirD [OF assms(3)]
  have junk: "length junk = 512" using assms(2) by (simp add: BLOCK_SIZE_def)
  have new: "map_of (dentries (content block_view fs (unat dir))) nm = None" by (simp add: d(3) assms(4))
  have room: "free_blocks block_disk fs \<noteq> {}" using default_free(2) [OF assms(1)] by auto
  show "\<exists>fs1 r1. fs_create block_disk junk (Some fs) dir (Some nm) (Some fid) = Inr (0, Some fs1, r1)"
    "\<exists>fs2 r2. fs_mkdir block_disk junk (Some fs) dir (Some nm) (Some fid) = Inr (0, Some fs2, r2)"
    using bd.fs_create_ok [OF inv d(1,2) assms(5-7) new assms(8) room junk]
      bd.fs_mkdir_ok [OF inv d(1,2) assms(5-7) new assms(8) room junk] by blast+
qed

text \<open>An example: a file is created on the freshly mounted disk.\<close>

definition zero_mem :: "blocks_t fs_t" where
  "zero_mem = zero_fs \<lparr>bks_block_size = 4, bks_num_blocks = 1, bks_blocks = [0, 0, 0, 0]\<rparr>"

lemma default_mounted_root:
  assumes "default_mounted fs"
  shows "fs_inv block_view fs" "fs_abs block_view fs = [1 \<mapsto> DirNode []]" "used_inodes fs = {0, 1}"
proof -
  obtain mem where mem: "mem_ok mem" "sofs_init block_disk block_disk_init mem id = Inr (Some fs)"
    using assms by (auto simp: default_mounted_def)
  obtain fs' where "sofs_init block_disk block_disk_init mem id = Inr (Some fs')" "fs_inv block_view fs'"
    "fs_abs block_view fs' = [1 \<mapsto> DirNode []]" "used_inodes fs' = {0, 1}"
    using default_boot [OF mem(1), of 0 id] by auto
  with mem(2) show "fs_inv block_view fs" "fs_abs block_view fs = [1 \<mapsto> DirNode []]" "used_inodes fs = {0, 1}"
    by auto
qed

lemma default_first_file:
  assumes "default_mounted fs"
  shows "\<exists>fs' n. serves block_disk fs fs' \<and> fs_abs block_view fs' (unat (n :: u16)) = Some (FileNode [])"
proof -
  note fs = default_mounted_root [OF assms]
  have root: "fs_abs block_view fs 1 = Some (DirNode [])" by (simp add: fs(2))
  have nm: "sofs_name [0x61]" by (simp add: sofs_name_def SLASH_def)
  have "(2 :: nat) \<in> {..<ITAB_SIZE} - {0, 1}" by simp
  then have ins: "used_inodes fs \<noteq> {..<ITAB_SIZE}" using fs(3) by blast
  have room: "free_blocks block_disk fs \<noteq> {}"
    using default_free(2) [OF reach_init, of fs] assms by auto
  let ?g = "demo_garbage None"
  obtain n fs' where fs': "sofs_create block_disk (g_block ?g) 7 (Some fs) [0x2F, 0x61] 0 = Inr (0, Some fs', ucast n)"
    "fs_abs block_view fs' = (fs_abs block_view fs)(1 \<mapsto> DirNode ([] @ [([0x61], n)]), unat n \<mapsto> FileNode [])"
    using bd.sofs_create_ok [OF fs(1) root nm _ ins room, of "g_block ?g" 7 0] by (auto simp: demo_garbage_def SLASH_def)
  have "serves block_disk fs fs'"
  proof (rule servesI)
    show "garbage_ok ?g" by (rule demo_garbage_ok)
    show "request_ok (Create_file [0x2F, 0x61] 0)"
      by (simp add: request_ok_def path_ok_def SLASH_def MAX_FILE_NAME_SIZE_def)
    show "sofs_oper block_disk ?g (Some fs) (Create_file [0x2F, 0x61] 0) = Inr ((0, Handle (ucast n)), Some fs')"
      using fs'(1) by (simp add: sofs_oper_def demo_garbage_def)
  qed
  with fs'(2) show ?thesis by (intro exI [of _ fs'] exI [of _ n]) auto
qed

end
