(* ===== verification/Sofs_Delayed.thy ===== *)
theory Sofs_Delayed
  imports Fs_Sim Sofs_Default
begin

text \<open>
  The default build as it is: the plain disk behind the delay simulator, which \<open>sofs_init\<close> switches on.
  The simulation between the delayed and the plain disk carries over to the callbacks of the front end
  and to every sequence of requests, so what \<open>Sofs_Default\<close> shows of the plain disk holds here.
\<close>

section \<open>The callbacks on related disks\<close>

definition answers :: "('d \<Rightarrow> 'e \<Rightarrow> bool) \<Rightarrow> 'r \<times> 'd fs_t option \<Rightarrow> 'r \<times> 'e fs_t option \<Rightarrow> bool" where
  "answers R = (\<lambda>(res, p) (res', q). res = res' \<and> fsp_rel R p q)"

lemma answers_simp [simp]: "answers R (res, p) (res', q) \<longleftrightarrow> res = res' \<and> fsp_rel R p q"
  by (simp add: answers_def)

lemma fsp_rel_Some: "fsp_rel R (Some fs) q \<longleftrightarrow> (\<exists>gs. q = Some gs \<and> fs_rel R fs gs)"
  by (cases q) (simp_all add: fsp_rel_def)

lemma fsp_rel_Some': "fsp_rel R p (Some gs) \<longleftrightarrow> (\<exists>fs. p = Some fs \<and> fs_rel R fs gs)"
  by (cases p) (simp_all add: fsp_rel_def)

lemma rel_c_deref: "fsp_rel R p q \<Longrightarrow> rel_c (fs_rel R) (deref p) (deref q)"
  by (cases p; cases q) (auto simp: deref_def fsp_rel_def)

context disk_sim
begin

lemma fs_truncate_sim': "fsp_rel R p q \<Longrightarrow> rel_c (answers R) (fs_truncate p i) (fs_truncate q i)"
proof (cases p; cases q)
  fix fs gs assume "fsp_rel R p q" "p = Some fs" "q = Some gs"
  then show ?thesis using fs_truncate_sim [of fs gs i] by (simp add: answers_def)
qed (simp_all add: fs_truncate_def fsp_rel_def deref_def)

lemma getattr_sim:
  assumes "fs_rel R fs gs"
  shows "rel_c (\<lambda>(res, p, st) (res', q, st'). res = res' \<and> fsp_rel R p q \<and> st = st')
    (sofs_getattr D junk fid0 attrs0 room (Some fs) path) (sofs_getattr E junk fid0 attrs0 room (Some gs) path)"
  using assms
  by (auto simp: sofs_getattr_def Let_def split: option.split intro!: fs_bind rel_c_deref [THEN rel_c_bind] rel_c_same)

lemma readdir_sim:
  assumes "fs_rel R fs gs"
  shows "rel_c (\<lambda>(res, p, b) (res', q, b'). res = res' \<and> fsp_rel R p q \<and> b = b')
    (sofs_readdir D junk attrs0 max0 entries0 num0 filler (Some fs) path buf)
    (sofs_readdir E junk attrs0 max0 entries0 num0 filler (Some gs) path buf)"
  using assms
  by (auto simp: sofs_readdir_def Let_def intro!: fs_bind rel_c_same)

lemma sofs_oper_sim:
  assumes "fs_rel R fs gs"
  shows "rel_c (answers R) (sofs_oper D g (Some fs) req) (sofs_oper E g (Some gs) req)"
proof (cases req)
  case (Getattr path)
  then show ?thesis
    by (auto simp: sofs_oper_def intro!: getattr_sim [OF assms, THEN rel_c_bind])
next
  case (Readdir path)
  then show ?thesis
    by (auto simp: sofs_oper_def intro!: readdir_sim [OF assms, THEN rel_c_bind])
next
  case (Truncate_file path newsize)
  then show ?thesis using assms
    by (auto simp: sofs_oper_def sofs_truncate_def c_bind_assoc if_distrib [where f = "\<lambda>m. c_bind m h" for h]
        intro!: rel_c_same fs_bind fs_truncate_sim' [THEN rel_c_bind])
next
  case (Open path fh)
  then show ?thesis using assms
    by (auto simp: sofs_oper_def sofs_open_def c_bind_assoc if_distrib [where f = "\<lambda>m. c_bind m h" for h] intro!: rel_c_same fs_bind)
next
  case (Create_file path fh)
  then show ?thesis using assms
    by (auto simp: sofs_oper_def sofs_create_def c_bind_assoc if_distrib [where f = "\<lambda>m. c_bind m h" for h] intro!: rel_c_same fs_bind)
next
  case (Read_file buf sz offset fh)
  then show ?thesis using assms
    by (auto simp: sofs_oper_def sofs_read_def c_bind_assoc intro!: rel_c_same fs_bind)
next
  case (Write_file buf sz offset fh)
  then show ?thesis using assms
    by (auto simp: sofs_oper_def sofs_write_def c_bind_assoc intro!: rel_c_same fs_bind)
qed (simp_all add: sofs_oper_def assms)

lemma fs_new_sim:
  assumes "rel_c (rel_option R) init init'" and "inode_bmap mem' = inode_bmap mem" "blk_bmap mem' = blk_bmap mem"
    "inode_tab mem' = inode_tab mem"
  shows "rel_c (fs_rel R) (fs_new D init mem n) (fs_new E init' mem' n)"
proof -
  have "rel_c R (deref p) (deref q)" if "rel_option R p q" for p q
    using that by cases (auto simp: deref_def)
  then show ?thesis
    unfolding fs_new_def using assms
    by (auto intro!: rel_c_bind [OF assms(1)] rel_c_bind [where R = R] fsi_load_fsdata_sim fs_relI)
qed

lemma sofs_init_sim:
  assumes "rel_c (rel_option R) init init'" and "inode_bmap mem' = inode_bmap mem" "blk_bmap mem' = blk_bmap mem"
    "inode_tab mem' = inode_tab mem" and "\<And>d e. R d e \<Longrightarrow> S (on d) (on' e)"
  shows "rel_c (fsp_rel S) (sofs_init D init mem on) (sofs_init E init' mem' on')"
  unfolding sofs_init_def
  by (auto intro!: fs_new_sim [THEN rel_c_bind] assms fs_format_sim [THEN rel_c_bind])
    (auto simp: fsp_rel_def fs_rel_def assms(5) elim!: option.rel_cases)

end

section \<open>Delays that are counted\<close>

text \<open>A property of the simulator that no access changes may be added to the simulation.\<close>

definition delayed :: "(io_delay \<Rightarrow> bool) \<Rightarrow> blocks_t \<times> io_delay \<Rightarrow> blocks_t \<Rightarrow> bool" where
  "delayed Q d bks \<longleftrightarrow> delay_rel d bks \<and> Q (snd d)"

lemma delayed_access:
  assumes "delay_rel d bks"
  shows "DISK_READ (delay_disk SLEEP_ON) d n buf = Inr (rc, b, d') \<Longrightarrow> snd d' \<in> {snd d, io_step SLEEP_ON (snd d) n}"
    and "DISK_WRITE (delay_disk SLEEP_ON) d n buf = Inr (rc, d') \<Longrightarrow> snd d' \<in> {snd d, io_step SLEEP_ON (snd d) n}"
  using assms by (cases d; auto simp: delay_rel_def delay_disk_def delayed_read_eq delayed_write_eq c_bind_eq_Inr)+

lemma delayed_sim:
  assumes "\<And>io n. Q io \<Longrightarrow> Q (io_step SLEEP_ON io n)"
  shows "disk_sim (delay_disk SLEEP_ON) block_disk (delayed Q)"
proof
  fix d :: "blocks_t \<times> io_delay" and bks n buf assume d: "delayed Q d bks"
  then have rel: "delay_rel d bks" by (simp add: delayed_def)
  have q: "Q (snd d')" if "snd d' \<in> {snd d, io_step SLEEP_ON (snd d) n}" for d' :: "blocks_t \<times> io_delay"
    using that d assms by (auto simp: delayed_def)
  show "rel_c (\<lambda>(rc, b, d') (rc', b', e'). rc = rc' \<and> b = b' \<and> delayed Q d' e')
      (DISK_READ (delay_disk SLEEP_ON) d n buf) (DISK_READ block_disk bks n buf)"
    using dsim.sim_read [OF rel, of SLEEP_ON n buf] delayed_access(1) [OF rel, of SLEEP_ON n buf] q
    by (cases "DISK_READ (delay_disk SLEEP_ON) d n buf"; cases "DISK_READ block_disk bks n buf") (auto simp: delayed_def)
  show "rel_c (\<lambda>(rc, d') (rc', e'). rc = rc' \<and> delayed Q d' e')
      (DISK_WRITE (delay_disk SLEEP_ON) d n buf) (DISK_WRITE block_disk bks n buf)"
    using dsim.sim_write [OF rel, of SLEEP_ON n buf] delayed_access(2) [OF rel, of SLEEP_ON n buf] q
    by (cases "DISK_WRITE (delay_disk SLEEP_ON) d n buf"; cases "DISK_WRITE block_disk bks n buf") (auto simp: delayed_def)
  show "DISK_BLOCKS (delay_disk SLEEP_ON) d = DISK_BLOCKS block_disk bks" by (rule dsim.sim_blocks [OF rel])
qed

section \<open>The default build\<close>

text \<open>The static variables of \<open>io_delay.c\<close> at the start: the delays are off until \<open>sofs_init\<close> calls
  \<open>io_delay_on\<close>.\<close>

definition io_delay_statics :: io_delay where
  "io_delay_statics = \<lparr>Is_off = 1, last_access = 0, slept = []\<rparr>"

definition delay_disk_init :: "(blocks_t \<times> io_delay) option c" where
  "delay_disk_init = c_bind block_disk_init (\<lambda>bks. Inr (map_option (\<lambda>b. (b, io_delay_statics)) bks))"

definition delay_on :: "blocks_t \<times> io_delay \<Rightarrow> blocks_t \<times> io_delay" where
  "delay_on = (\<lambda>(bks, io). (bks, io_delay_on io))"

definition build_init :: "bool \<Rightarrow> (blocks_t \<times> io_delay) fs_t \<Rightarrow> (blocks_t \<times> io_delay) fs_t option c" where
  "build_init SLEEP_ON mem = sofs_init (delay_disk SLEEP_ON) delay_disk_init mem delay_on"

definition build_mounted :: "bool \<Rightarrow> (blocks_t \<times> io_delay) fs_t \<Rightarrow> bool" where
  "build_mounted SLEEP_ON fs \<longleftrightarrow> (\<exists>mem. mem_ok mem \<and> build_init SLEEP_ON mem = Inr (Some fs))"

text \<open>The delays of the mounted file system are on, and each access has slept one to four seconds.\<close>

definition sleeps :: "io_delay \<Rightarrow> bool" where
  "sleeps io \<longleftrightarrow> Is_off io = 0 \<and> set (slept io) \<subseteq> {1..4}"

interpretation quiet: disk_sim "delay_disk SLEEP_ON" block_disk "delayed (\<lambda>io. io = io_delay_statics)" for SLEEP_ON
  by (rule delayed_sim) (simp add: io_step_def io_delay_statics_def)

interpretation slow: disk_sim "delay_disk SLEEP_ON" block_disk "delayed sleeps" for SLEEP_ON
  by (rule delayed_sim) (use seek_bounds in \<open>auto simp: io_step_def sleeps_def\<close>)

text \<open>The file system without the delays.\<close>

definition undelayed :: "(blocks_t \<times> io_delay) fs_t \<Rightarrow> blocks_t fs_t" where
  "undelayed fs = \<lparr>fs_blocks = fst (fs_blocks fs), inode_bmap = inode_bmap fs, blk_bmap = blk_bmap fs,
     inode_tab = inode_tab fs\<rparr>"

lemma undelayed_rel: "fs_rel (delayed Q) fs gs \<Longrightarrow> undelayed fs = gs"
  by (cases gs) (auto simp: fs_rel_def delay_rel_def delayed_def undelayed_def)

lemma delay_disk_init_rel:
  "rel_c (rel_option (delayed (\<lambda>io. io = io_delay_statics))) delay_disk_init block_disk_init"
proof -
  obtain d where d: "block_disk_init = Inr (Some d)" "bks_num_blocks d = NUM_BLOCKS"
    using block_new_wf [of NUM_BLOCKS "of_nat BLOCK_SIZE"]
    by (auto simp: block_disk_init_def NUM_BLOCKS_def BLOCK_SIZE_def)
  show ?thesis
    unfolding delay_disk_init_def d(1)
    by (simp add: d(2) delayed_def delay_rel_def io_delay_statics_def io_small_def NUM_BLOCKS_def)
qed

text \<open>Mounting does not sleep.\<close>

lemma build_init_rel:
  "rel_c (fsp_rel (delayed (\<lambda>io. io = io_delay_on io_delay_statics)))
     (build_init SLEEP_ON mem) (sofs_init block_disk block_disk_init (undelayed mem) id)"
  unfolding build_init_def
  by (rule quiet.sofs_init_sim [OF delay_disk_init_rel])
    (auto simp: undelayed_def delayed_def delay_rel_def delay_on_def io_delay_on_def io_small_def)

lemma mem_ok_undelayed: "mem_ok mem \<Longrightarrow> mem_ok (undelayed mem)"
  by (simp add: mem_ok_def undelayed_def)

lemma build_mounted_rel:
  assumes "build_mounted SLEEP_ON fs"
  shows "default_mounted (undelayed fs)" and "fs_rel (delayed (\<lambda>io. io = io_delay_on io_delay_statics)) fs (undelayed fs)"
proof -
  from assms obtain mem where mem: "mem_ok mem" "build_init SLEEP_ON mem = Inr (Some fs)"
    by (auto simp: build_mounted_def)
  with build_init_rel [of SLEEP_ON mem] obtain gs where
    gs: "sofs_init block_disk block_disk_init (undelayed mem) id = Inr (Some gs)"
      "fs_rel (delayed (\<lambda>io. io = io_delay_on io_delay_statics)) fs gs"
    by (cases "sofs_init block_disk block_disk_init (undelayed mem) id") (auto simp: fsp_rel_Some)
  with undelayed_rel [OF gs(2)] mem_ok_undelayed [OF mem(1)]
  show "default_mounted (undelayed fs)" "fs_rel (delayed (\<lambda>io. io = io_delay_on io_delay_statics)) fs (undelayed fs)"
    by (auto simp: default_mounted_def)
qed

interpretation build: transition_system "build_mounted SLEEP_ON" "serves (delay_disk SLEEP_ON)"
  "\<lambda>fs. reach default_mounted (serves block_disk) (undelayed fs) \<and> fs_rel (delayed sleeps) fs (undelayed fs)" for SLEEP_ON
proof
  fix fs assume "build_mounted SLEEP_ON fs"
  note m = build_mounted_rel [OF this]
  have "fs_rel (delayed sleeps) fs (undelayed fs)"
    using m(2) by (simp add: fs_rel_def delayed_def sleeps_def io_delay_on_def io_delay_statics_def)
  with m(1) show "reach default_mounted (serves block_disk) (undelayed fs) \<and> fs_rel (delayed sleeps) fs (undelayed fs)"
    by (blast intro: reach_init)
next
  fix fs fs' assume inv: "reach default_mounted (serves block_disk) (undelayed fs) \<and> fs_rel (delayed sleeps) fs (undelayed fs)"
    and s: "serves (delay_disk SLEEP_ON) fs fs'"
  from s obtain g req res where o: "garbage_ok g" "request_ok req"
    "sofs_oper (delay_disk SLEEP_ON) g (Some fs) req = Inr (res, Some fs')" by (rule servesE)
  with slow.sofs_oper_sim [OF conjunct2 [OF inv], of SLEEP_ON g req] obtain gs where
    gs: "sofs_oper block_disk g (Some (undelayed fs)) req = Inr (res, Some gs)" "fs_rel (delayed sleeps) fs' gs"
    by (cases "sofs_oper block_disk g (Some (undelayed fs)) req") (auto simp: fsp_rel_Some)
  from undelayed_rel [OF gs(2)] have eq: "gs = undelayed fs'" by simp
  have "serves block_disk (undelayed fs) (undelayed fs')" using o(1,2) gs(1) unfolding eq by (rule servesI)
  with inv gs(2) show "reach default_mounted (serves block_disk) (undelayed fs') \<and> fs_rel (delayed sleeps) fs' (undelayed fs')"
    unfolding eq by (blast intro: reach_step)
qed

section \<open>Properties\<close>

text \<open>C6: In the default build the disk never fills up. Whatever requests have been served since the
  file system was mounted, a write to an existing file within the ten blocks of its inode returns 0
  and replaces the range, although the accesses are delayed.\<close>

theorem build_never_full:
  assumes "reach (build_mounted SLEEP_ON) (serves (delay_disk SLEEP_ON)) fs" and "length junk = BLOCK_SIZE"
    and "fs_abs block_view (undelayed fs) (unat i) = Some (FileNode bs)" and "off = min (unat offset) (length bs)"
    and "off + unat count \<le> 5120" and "unat count \<le> length buffer"
  shows "\<exists>fs'. fs_write (delay_disk SLEEP_ON) junk (Some fs) i offset count (Some buffer) = Inr (0, Some fs')
    \<and> fs_abs block_view (undelayed fs') = (fs_abs block_view (undelayed fs))
        (unat i \<mapsto> FileNode (overwrite bs off (take (unat count) buffer)))"
proof -
  note inv = build.reach_inv [OF assms(1)]
  obtain gs where gs: "fs_write block_disk junk (Some (undelayed fs)) i offset count (Some buffer) = Inr (0, Some gs)"
    "fs_abs block_view gs = (fs_abs block_view (undelayed fs))
        (unat i \<mapsto> FileNode (overwrite bs off (take (unat count) buffer)))"
    using default_disk_never_full [OF conjunct1 [OF inv] assms(2-6)] by blast
  with slow.fs_write_sim [OF conjunct2 [OF inv], of SLEEP_ON junk i offset count "Some buffer"]
  obtain fs' where "fs_write (delay_disk SLEEP_ON) junk (Some fs) i offset count (Some buffer) = Inr (0, Some fs')"
    "fs_rel (delayed sleeps) fs' gs"
    by (cases "fs_write (delay_disk SLEEP_ON) junk (Some fs) i offset count (Some buffer)")
      (auto simp: fsp_rel_def elim: option.rel_cases)
  with gs(2) undelayed_rel show ?thesis by blast
qed

text \<open>Making a file through the callbacks on the delayed disk, for examples.\<close>

lemma build_follows:
  assumes "reach (build_mounted SLEEP_ON) (serves (delay_disk SLEEP_ON)) fs" and "serves block_disk (undelayed fs) gs"
  shows "\<exists>fs'. reach (build_mounted SLEEP_ON) (serves (delay_disk SLEEP_ON)) fs' \<and> undelayed fs' = gs"
proof -
  note inv = build.reach_inv [OF assms(1)]
  from assms(2) obtain g req res where o: "garbage_ok g" "request_ok req"
    "sofs_oper block_disk g (Some (undelayed fs)) req = Inr (res, Some gs)" by (rule servesE)
  with slow.sofs_oper_sim [OF conjunct2 [OF inv], of SLEEP_ON g req]
  obtain fs' where fs': "sofs_oper (delay_disk SLEEP_ON) g (Some fs) req = Inr (res, Some fs')" "fs_rel (delayed sleeps) fs' gs"
    by (cases "sofs_oper (delay_disk SLEEP_ON) g (Some fs) req") (auto simp: fsp_rel_Some')
  from servesI [OF o(1,2) fs'(1)] assms(1) undelayed_rel [OF fs'(2)] show ?thesis by (blast intro: reach_step)
qed

section \<open>Examples\<close>

lemma build_starts:
  "\<exists>fs. build_mounted SLEEP_ON fs"
proof -
  define mem :: "(blocks_t \<times> io_delay) fs_t" where "mem = \<lparr>fs_blocks = (fs_blocks zero_mem, io_delay_statics),
     inode_bmap = inode_bmap zero_mem, blk_bmap = blk_bmap zero_mem, inode_tab = inode_tab zero_mem\<rparr>"
  have "mem_ok zero_mem"
    by (simp add: mem_ok_def zero_mem_def zero_fs_def BLOCK_SIZE_def list_all_length inode_wf_zero)
  then have ok: "mem_ok mem" and u: "undelayed mem = zero_mem" by (simp_all add: mem_def mem_ok_def undelayed_def)
  obtain gs where "sofs_init block_disk block_disk_init zero_mem id = Inr (Some gs)"
    using default_boot [OF \<open>mem_ok zero_mem\<close>, of 0 id] by auto
  with build_init_rel [of SLEEP_ON mem] obtain fs where "build_init SLEEP_ON mem = Inr (Some fs)"
    unfolding u by (cases "build_init SLEEP_ON mem") (auto simp: fsp_rel_def elim: option.rel_cases)
  with ok show ?thesis by (auto simp: build_mounted_def)
qed

theorem build_never_full_witness:
  "\<exists>fs i fs'. reach (build_mounted True) (serves (delay_disk True)) fs
    \<and> fs_write (delay_disk True) (replicate 512 0) (Some fs) i 0 3 (Some [1, 2, 3]) = Inr (0, Some fs')
    \<and> fs_abs block_view (undelayed fs') (unat (i :: u16)) = Some (FileNode [1, 2, 3])"
proof -
  obtain fs0 where fs0: "build_mounted True fs0" using build_starts by blast
  then have "reach (build_mounted True) (serves (delay_disk True)) fs0" by (rule reach_init)
  moreover obtain gs and i :: u16 where "serves block_disk (undelayed fs0) gs" "fs_abs block_view gs (unat i) = Some (FileNode [])"
    using default_first_file [OF build_mounted_rel(1) [OF fs0]] by blast
  ultimately obtain fs where fs: "reach (build_mounted True) (serves (delay_disk True)) fs"
    "fs_abs block_view (undelayed fs) (unat i) = Some (FileNode [])"
    using build_follows by blast
  have "\<exists>fs'. fs_write (delay_disk True) (replicate 512 0) (Some fs) i 0 3 (Some [1, 2, 3]) = Inr (0, Some fs')
    \<and> fs_abs block_view (undelayed fs') = (fs_abs block_view (undelayed fs))
        (unat i \<mapsto> FileNode (overwrite [] 0 (take (unat (3 :: u32)) [1, 2, 3])))"
    by (rule build_never_full [OF fs(1) _ fs(2)]) (simp_all add: BLOCK_SIZE_def)
  then obtain fs' where "fs_write (delay_disk True) (replicate 512 0) (Some fs) i 0 3 (Some [1, 2, 3]) = Inr (0, Some fs')"
    "fs_abs block_view (undelayed fs') (unat i) = Some (FileNode [1, 2, 3])" by (auto simp: overwrite_def)
  with fs(1) show ?thesis by blast
qed

section \<open>One sleep for each access\<close>

text \<open>The plain disk that also notes the number of each block that it has read or written, latest first.\<close>

definition traced_disk :: "(blocks_t \<times> u32 list) disk_ops" where
  "traced_disk =
     \<lparr>DISK_READ = (\<lambda>(bks, ns) n buf.
        c_bind (block_read bks n buf) (\<lambda>(rc, buf'). Inr (rc, buf', bks, if rc = 0 then n # ns else ns))),
      DISK_WRITE = (\<lambda>(bks, ns) n buf.
        c_bind (block_write bks n buf) (\<lambda>(rc, bks'). Inr (rc, bks', if rc = 0 then n # ns else ns))),
      DISK_BLOCKS = (\<lambda>(bks, ns). block_num_blocks bks)\<rparr>"

text \<open>The seconds to sleep for accesses to these blocks, latest first, when \<open>l\<close> was accessed before them.\<close>

fun waits :: "u32 \<Rightarrow> u32 list \<Rightarrow> nat list" where
  "waits l [] = []"
| "waits l (n # ns) = seek (unat n) (unat (hd (ns @ [l]))) # waits l ns"

lemma waits_length [simp]: "length (waits l ns) = length ns"
  by (induction ns) simp_all

lemma waits_bounds: "set (waits l ns) \<subseteq> {1..4}"
  using seek_bounds by (induction ns) auto

definition after_accesses :: "io_delay \<Rightarrow> u32 list \<Rightarrow> io_delay" where
  "after_accesses io ns = io\<lparr>slept := waits (last_access io) ns @ slept io, last_access := hd (ns @ [last_access io])\<rparr>"

lemma after_accesses_Nil [simp]: "after_accesses io [] = io"
  by (simp add: after_accesses_def)

lemma after_accesses_Cons: "Is_off io = 0 \<Longrightarrow> io_step True (after_accesses io ns) n = after_accesses io (n # ns)"
  by (simp add: io_step_def after_accesses_def)

definition traces :: "io_delay \<Rightarrow> blocks_t \<times> io_delay \<Rightarrow> blocks_t \<times> u32 list \<Rightarrow> bool" where
  "traces io0 d e \<longleftrightarrow> delay_rel d (fst e) \<and> Is_off io0 = 0 \<and> snd d = after_accesses io0 (snd e)"

interpretation traced: disk_sim "delay_disk True" traced_disk "traces io0" for io0
proof
  fix d e n buf assume t: "traces io0 d e"
  obtain bks io where d: "d = (bks, io)" by (cases d)
  with t obtain ns where e: "e = (bks, ns)" and io: "io = after_accesses io0 ns" "Is_off io0 = 0"
    by (cases e) (auto simp: traces_def delay_rel_def)
  have r: "delay_rel d bks" using t e by (simp add: traces_def)
  then have small: "io_small io" "unat (bks_num_blocks bks) \<le> 2 ^ 31" by (simp_all add: d delay_rel_def)
  have next_io: "io_step True io n = after_accesses io0 (n # ns)" using after_accesses_Cons [OF io(2)] io(1) by simp
  note small = small [unfolded io(1)] and step = next_io [unfolded io(1)]
  show "rel_c (\<lambda>(rc, b, d') (rc', b', e'). rc = rc' \<and> b = b' \<and> traces io0 d' e')
      (DISK_READ (delay_disk True) d n buf) (DISK_READ traced_disk e n buf)"
    using dsim.sim_read [OF r, of True n buf] step io
    by (cases "block_read bks n buf")
      (auto simp: delay_disk_def traced_disk_def block_disk_def d e delayed_read_eq [OF small] traces_def)
  show "rel_c (\<lambda>(rc, d') (rc', e'). rc = rc' \<and> traces io0 d' e')
      (DISK_WRITE (delay_disk True) d n buf) (DISK_WRITE traced_disk e n buf)"
    using dsim.sim_write [OF r, of True n buf] step io
    by (cases "block_write bks n buf")
      (auto simp: delay_disk_def traced_disk_def block_disk_def d e delayed_write_eq [OF small] traces_def)
  show "DISK_BLOCKS (delay_disk True) d = DISK_BLOCKS traced_disk e"
    by (simp add: delay_disk_def traced_disk_def d e)
qed

text \<open>The file system on the plain disk, with a record of accesses.\<close>

definition with_trace :: "(blocks_t \<times> io_delay) fs_t \<Rightarrow> u32 list \<Rightarrow> (blocks_t \<times> u32 list) fs_t" where
  "with_trace fs ns = \<lparr>fs_blocks = (fst (fs_blocks fs), ns), inode_bmap = inode_bmap fs, blk_bmap = blk_bmap fs,
     inode_tab = inode_tab fs\<rparr>"

lemma traces_rel:
  assumes "fs_rel (traces io0) fs hs"
  shows "hs = with_trace fs (snd (fs_blocks hs))" and "snd (fs_blocks fs) = after_accesses io0 (snd (fs_blocks hs))"
  using assms by (cases hs; auto simp: fs_rel_def traces_def delay_rel_def with_trace_def)+

text \<open>C26: After the default build is mounted, each request that its front end can take returns the result and the data
  that it returns without delays, and sleeps exactly once for each block that it accesses: on the plain disk
  the request reads and writes the blocks \<open>ns\<close>, the latest first, and for each of them one number of seconds is
  added to those slept, between one and four, given by the distance from the block accessed before.
  Mounting does not sleep.\<close>

theorem build_sleeps:
  assumes "reach (build_mounted True) (serves (delay_disk True)) fs" and "garbage_ok g" and "request_ok req"
    and "\<not> goes_wild g req"
  shows "(\<exists>answer fs' ns. sofs_oper (delay_disk True) g (Some fs) req = Inr (answer, Some fs')
      \<and> sofs_oper block_disk g (Some (undelayed fs)) req = Inr (answer, Some (undelayed fs'))
      \<and> sofs_oper traced_disk g (Some (with_trace fs [])) req = Inr (answer, Some (with_trace fs' ns))
      \<and> slept (snd (fs_blocks fs')) = waits (last_access (snd (fs_blocks fs))) ns @ slept (snd (fs_blocks fs))
      \<and> length (slept (snd (fs_blocks fs'))) = length ns + length (slept (snd (fs_blocks fs)))
      \<and> set (slept (snd (fs_blocks fs'))) \<subseteq> {1..4})
    \<and> (build_mounted True fs \<longrightarrow> slept (snd (fs_blocks fs)) = [])"
proof -
  note inv = build.reach_inv [OF assms(1)]
  let ?io = "snd (fs_blocks fs)"
  have "run_inv block_disk block_view (undelayed fs)" using default.reach_inv [OF conjunct1 [OF inv]] by simp
  from bd.sofs_oper_safe [OF this assms(2-4)] obtain res gs where
    gs: "sofs_oper block_disk g (Some (undelayed fs)) req = Inr (res, Some gs)" by blast
  with slow.sofs_oper_sim [OF conjunct2 [OF inv], of True g req]
  obtain fs' where fs': "sofs_oper (delay_disk True) g (Some fs) req = Inr (res, Some fs')" "fs_rel (delayed sleeps) fs' gs"
    by (cases "sofs_oper (delay_disk True) g (Some fs) req") (auto simp: fsp_rel_Some')
  have "fs_rel (traces ?io) fs (with_trace fs [])"
    using inv by (simp add: fs_rel_def with_trace_def traces_def delayed_def sleeps_def undelayed_def)
  from traced.sofs_oper_sim [OF this, of g req] fs'(1) obtain hs where
    hs: "sofs_oper traced_disk g (Some (with_trace fs [])) req = Inr (res, Some hs)" "fs_rel (traces ?io) fs' hs"
    by (cases "sofs_oper traced_disk g (Some (with_trace fs [])) req") (auto simp: fsp_rel_Some)
  have "set (slept (snd (fs_blocks fs'))) \<subseteq> {1..4}"
    using fs_relD(1) [OF fs'(2)] by (simp add: delayed_def sleeps_def)
  moreover have "slept (snd (fs_blocks fs')) = waits (last_access ?io) (snd (fs_blocks hs)) @ slept ?io"
    using traces_rel(2) [OF hs(2)] by (simp add: after_accesses_def)
  moreover have "slept ?io = []" if "build_mounted True fs"
    using fs_relD(1) [OF build_mounted_rel(2) [OF that]] by (simp add: delayed_def io_delay_on_def io_delay_statics_def)
  moreover have "gs = undelayed fs'" using undelayed_rel [OF fs'(2)] by simp
  moreover have "hs = with_trace fs' (snd (fs_blocks hs))" by (rule traces_rel(1) [OF hs(2)])
  ultimately show ?thesis
    using gs fs'(1) hs(1) by (intro conjI exI [of _ res] exI [of _ fs'] exI [of _ "snd (fs_blocks hs)"]) auto
qed

text \<open>A file is created just after mounting.\<close>

theorem build_sleeps_witness:
  "\<exists>fs answer fs' ns. build_mounted True fs
    \<and> sofs_oper (delay_disk True) (demo_garbage None) (Some fs) (Create_file [0x2F, 0x61] 0) = Inr (answer, Some fs')
    \<and> sofs_oper traced_disk (demo_garbage None) (Some (with_trace fs [])) (Create_file [0x2F, 0x61] 0) =
        Inr (answer, Some (with_trace fs' ns))
    \<and> slept (snd (fs_blocks fs)) = [] \<and> slept (snd (fs_blocks fs')) = waits (last_access (snd (fs_blocks fs))) ns"
proof -
  obtain fs0 where fs0: "build_mounted True fs0" using build_starts by blast
  then have r: "reach (build_mounted True) (serves (delay_disk True)) fs0" by (rule reach_init)
  have req: "request_ok (Create_file [0x2F, 0x61] 0)" "\<not> goes_wild (demo_garbage None) (Create_file [0x2F, 0x61] 0)"
    by (simp_all add: request_ok_def path_ok_def goes_wild_def SLASH_def MAX_FILE_NAME_SIZE_def)
  note sleeps = build_sleeps [OF r demo_garbage_ok req]
  have start: "slept (snd (fs_blocks fs0)) = []" using sleeps fs0 by blast
  from sleeps obtain answer fs' ns where
    "sofs_oper (delay_disk True) (demo_garbage None) (Some fs0) (Create_file [0x2F, 0x61] 0) = Inr (answer, Some fs')"
    "sofs_oper traced_disk (demo_garbage None) (Some (with_trace fs0 [])) (Create_file [0x2F, 0x61] 0) =
      Inr (answer, Some (with_trace fs' ns))"
    "slept (snd (fs_blocks fs')) = waits (last_access (snd (fs_blocks fs0))) ns @ slept (snd (fs_blocks fs0))" by blast
  with fs0 start show ?thesis by (intro exI [of _ fs0] exI [of _ answer] exI [of _ fs'] exI [of _ ns]) simp
qed

end
