(* ===== verification/Fs_Threads.thy ===== *)
theory Fs_Threads
  imports Sofs_Session
begin

text \<open>
  The file system between threads. FUSE serves requests in several threads unless it is told not to, and
  neither \<open>sofs.c\<close> nor \<open>fs.c\<close> takes a lock. Here \<open>fs_create\<close> is cut once, after it has chosen
  a free inode in its local variable \<open>finode\<close> and before it changes anything. Another creation that
  runs in between chooses the same inode.
\<close>

section \<open>A creation in two parts\<close>

datatype creation = Finished int "u16 option" | Found nat

text \<open>\<open>fs_create\<close> up to the search for a free inode.\<close>

definition create_begin ::
    "'d disk_ops \<Rightarrow> byte list \<Rightarrow> 'd fs_t \<Rightarrow> u16 \<Rightarrow> byte list \<Rightarrow> u16 \<Rightarrow> ('d fs_t \<times> creation) c" where
  "create_begin D junk fs dir file fileid =
     (if unat dir \<ge> ITAB_SIZE then Inr (fs, Finished (-1) (Some fileid)) else
      if length file = 0 \<or> length file + 1 > FS_MAX_FNAME_SZ then Inr (fs, Finished (-1) (Some fileid)) else
      c_bind (BMAP_ISSET (inode_bmap fs) (unat dir)) (\<lambda>used.
      if \<not> used then Inr (fs, Finished (-1) (Some fileid)) else
      c_bind (c_nth (inode_tab fs) (unat dir)) (\<lambda>idir.
      if itype idir \<noteq> FS_DIR then Inr (fs, Finished (-1) (Some fileid)) else
      c_bind (fsi_dir_search D junk fs (unat dir) file) (\<lambda>(r, fs1).
      case r of Some fid \<Rightarrow> Inr (fs1, Finished (-1) (Some fid))
      | None \<Rightarrow>
        c_bind (fsi_bmap_find_free (inode_bmap fs1) ITAB_SIZE) (\<lambda>free.
        case free of None \<Rightarrow> Inr (fs1, Finished (-1) (Some fileid))
        | Some finode \<Rightarrow> Inr (fs1, Found finode))))))"

text \<open>The rest, with \<open>finode\<close> as it was found.\<close>

definition create_end ::
    "'d disk_ops \<Rightarrow> byte list \<Rightarrow> 'd fs_t \<Rightarrow> u16 \<Rightarrow> byte list \<Rightarrow> u16 \<Rightarrow> nat \<Rightarrow> (int \<times> 'd fs_t option \<times> u16 option) c" where
  "create_end D junk fs dir file fileid finode =
     c_bind (add_dir_block D fs (unat dir)) (\<lambda>(rc, fs2).
     if rc = -1 then Inr (-1, Some fs2, Some fileid)
     else
       c_bind (add_dir_entry D junk fs2 (unat dir) (tl file) finode) (\<lambda>fs3.
       c_bind (add_inode D fs3 finode FS_FILE) (\<lambda>fs4.
       Inr (0, Some fs4, Some (of_nat finode)))))"

lemma fs_create_parts:
  "fs_create D junk (Some fs) dir (Some file) (Some fileid) =
     c_bind (create_begin D junk fs dir file fileid) (\<lambda>(fs1, st). case st of
         Finished rc r \<Rightarrow> Inr (rc, Some fs1, r)
       | Found n \<Rightarrow> create_end D junk fs1 dir file fileid n)"
  by (auto simp: fs_create_def create_begin_def create_end_def c_bind_def split: sum.split option.split)

section \<open>Threads\<close>

text \<open>The file system, the creations that have found an inode, and the results of those that have
  returned.\<close>

record 'd fs_sys =
  filesystem :: "'d fs_t"
  creating :: "nat \<Rightarrow> (u16 \<times> byte list \<times> u16 \<times> nat) option"
  created :: "(byte list \<times> int \<times> u16 option) list"

definition fs_start :: "'d fs_t \<Rightarrow> 'd fs_sys" where
  "fs_start fs = \<lparr>filesystem = fs, creating = Map.empty, created = []\<rparr>"

inductive creates :: "'d disk_ops \<Rightarrow> byte list \<Rightarrow> 'd fs_sys \<Rightarrow> 'd fs_sys \<Rightarrow> bool" for D junk where
  fails: "creating S t = None \<Longrightarrow> create_begin D junk (filesystem S) dir file fileid = Inr (fs, Finished rc r) \<Longrightarrow>
     creates D junk S (S\<lparr>filesystem := fs, created := created S @ [(file, rc, r)]\<rparr>)"
| finds: "creating S t = None \<Longrightarrow> create_begin D junk (filesystem S) dir file fileid = Inr (fs, Found n) \<Longrightarrow>
     creates D junk S (S\<lparr>filesystem := fs, creating := (creating S)(t \<mapsto> (dir, file, fileid, n))\<rparr>)"
| ends: "creating S t = Some (dir, file, fileid, n) \<Longrightarrow>
     create_end D junk (filesystem S) dir file fileid n = Inr (rc, Some fs, r) \<Longrightarrow>
     creates D junk S (S\<lparr>filesystem := fs, creating := (creating S)(t := None),
       created := created S @ [(file, rc, r)]\<rparr>)"

text \<open>A name that \<open>fs_create\<close> takes and does not find among the entries.\<close>

definition new_name :: "byte list \<Rightarrow> (byte list \<times> u16) list \<Rightarrow> bool" where
  "new_name file es \<longleftrightarrow> 0 < length file \<and> length file < 14 \<and> 0 \<notin> set file \<and> map_of es file = None"

section \<open>The second creation of an inode\<close>

context disk
begin

text \<open>Initialising an empty file again changes nothing.\<close>

lemma inode_again:
  assumes sh: "fs_shape V fs" and own: "owns V fs (nblocks fs)"
    and n: "n < 64" "live fs n" "itype (inode_tab fs ! n) = FS_FILE" "fsize fs n = 0"
  shows "\<exists>fs'. add_inode D fs n FS_FILE = Inr fs' \<and> fs_abs V fs' = fs_abs V fs"
proof -
  note shD = fs_shapeD [OF sh]
  obtain ib where ib: "BMAP_SET (inode_bmap fs) n = Inr ib" "length ib = 512"
    "\<And>m. bmap_has ib m \<longleftrightarrow> m = n \<or> bmap_has (inode_bmap fs) m"
    using BMAP_SET_ok [of n "inode_bmap fs"] n(1) shD(4) by auto
  define fs1 where "fs1 = fs\<lparr>inode_bmap := ib,
    inode_tab := (inode_tab fs)[n := fsi_inode_init (inode_tab fs ! n) FS_FILE]\<rparr>"
  have tab: "inode_tab fs1 ! j = (if j = n then fsi_inode_init (inode_tab fs ! n) FS_FILE else inode_tab fs ! j)" for j
    using n(1) shD(5) by (simp add: fs1_def)
  have same: "live fs1 j = live fs j" "fsize fs1 j = fsize fs j" "itype (inode_tab fs1 ! j) = itype (inode_tab fs ! j)"
    "nblocks fs1 j = nblocks fs j" for j
  proof -
    show "fsize fs1 j = fsize fs j" using n(4) by (simp add: fsize_def tab fsi_inode_init_def)
    then show "nblocks fs1 j = nblocks fs j" by (simp add: nblocks_def)
    show "itype (inode_tab fs1 ! j) = itype (inode_tab fs ! j)" using n(3) by (simp add: tab fsi_inode_init_def)
    then show "live fs1 j = live fs j" using n(2) by (auto simp: live_def fs1_def ib(3))
  qed
  have blk: "fblk fs1 j k = fblk fs j k" if "k < nblocks fs j" for j k
    using that n(4) by (cases "j = n") (simp_all add: fblk_def tab nblocks_def)
  have "inode_wf (inode_tab fs1 ! j)" if "j < 64" for j
    using shD(5,6) that by (simp add: tab list_all_length inode_wf_def fsi_inode_init_def INODE_NUM_BLKS_def)
  then have "fs_shape V fs1"
    using sh ib(2) shD(5) by (simp add: fs_shape_def fs1_def BLOCK_SIZE_def list_all_length)
  from store_ok [OF this] obtain d where d: "fsi_store_fsdata D fs1 = Inr (fs1\<lparr>fs_blocks := d\<rparr>)"
    "\<forall>m < dv_cap V (fs_blocks fs1). dv_block V d m = (if m < 10 then meta_block fs1 m else dv_block V (fs_blocks fs1) m)"
    by blast
  let ?fs = "fs1\<lparr>fs_blocks := d\<rparr>"
  have "content V ?fs j = content V fs j" if j: "live fs j" for j
  proof (rule content_cong)
    show "fsize ?fs j = fsize fs j" using same(2) by (simp add: fsize_def)
    fix k assume k: "k < nblocks fs j"
    from ownsD [OF own j k] d(2) blk [OF k]
    show "dv_block V (fs_blocks ?fs) (fblk ?fs j k) = dv_block V (fs_blocks fs) (fblk fs j k)"
      by (simp add: fblk_def) (simp add: fs1_def)
  qed
  moreover have "live ?fs j = live fs j" for j using same(1) by (simp add: live_def)
  ultimately have "fs_abs V ?fs = fs_abs V fs"
    using same(3) by (intro HOL.ext) (simp add: fs_abs_def)
  moreover have "add_inode D fs n FS_FILE = Inr ?fs"
    using ib(1) d(1) n(1) shD(5) by (simp add: add_inode_def c_nth_ok flip: fs1_def)
  ultimately show ?thesis by blast
qed

lemma create_end_again:
  assumes inv: "fs_inv V fs" and i: "live fs (unat dir)" "itype (inode_tab fs ! unat dir) = FS_DIR"
    and nm: "length (tl file) < 14" "0 \<notin> set (tl file)" and junk: "length junk = 512"
    and room: "fsize fs (unat dir) mod 512 = 0 \<Longrightarrow> free_blocks D fs \<noteq> {}"
    and n: "n < 64" "fs_abs V fs n = Some (FileNode [])"
  shows "\<exists>fs'. create_end D junk fs dir file fileid n = Inr (0, Some fs', Some (of_nat n))
    \<and> fs_abs V fs' = (fs_abs V fs)(unat dir \<mapsto> DirNode (dentries (content V fs (unat dir)) @ [(tl file, of_nat n)]))"
proof -
  let ?i = "unat dir"
  define T where "T = fsize fs ?i div 512 + 1"
  note f = fs_abs_FileD [OF n(2)]
  have ni: "n \<noteq> ?i" using i f by (auto simp: FS_DIR_def FS_FILE_def)
  obtain fs1 where add: "add_dir_block D fs ?i = Inr (0, fs1)" and fs1: "fs_shape V fs1"
    "owns V fs1 ((nblocks fs)(?i := T))" "grown fs ?i (nblocks fs ?i) fs1"
    using add_dir_block_ok [OF inv i room] unfolding T_def by blast
  note gr = grownD [OF fs1(3)]
  have T10: "T \<le> 10" using dir_size(2) [OF inv i] unfolding T_def by linarith
  let ?fs2 = "\<lambda>d. fs1\<lparr>fs_blocks := d, inode_tab :=
        (inode_tab fs1)[?i := (inode_tab fs1 ! ?i)\<lparr>isize := isize (inode_tab fs1 ! ?i) + 16\<rparr>]\<rparr>"
  obtain d old where entry: "add_dir_entry D junk fs1 ?i (tl file) n = Inr (?fs2 d)" "length old = 16"
    "wrote D V (fblk fs1 ?i) T T (fsize fs ?i) (new_entry old (tl file) (of_nat n)) (fs_blocks fs1)
      (fsize fs ?i) (fsize fs ?i + 16) d"
    using add_dir_entry_ok [OF fs1(1,2), of ?i "tl file" junk n] gr(3) i dir_size(1) [OF inv i] nm(1) junk T10
      gr(4) by (auto simp: T_def)
  note ne = new_entry_ok [OF entry(2) nm, of "of_nat n"]
  note ea = entry_added [OF inv i T_def fs1 ne(1) entry(3) refl]
  have "live (?fs2 d) n" "itype (inode_tab (?fs2 d) ! n) = FS_FILE" "fsize (?fs2 d) n = 0"
    using f ni ea(1) ea(3) [of n] ea(4) [of n] by simp_all
  from inode_again [OF ea(5,6) n(1) this] obtain fs' where fs': "add_inode D (?fs2 d) n FS_FILE = Inr fs'"
    "fs_abs V fs' = fs_abs V (?fs2 d)" by blast
  have con: "dentries (content V (?fs2 d) ?i) = dentries (content V fs ?i) @ [(tl file, of_nat n)]"
    using dentries_snoc [of "content V fs ?i" "new_entry old (tl file) (of_nat n)"] dir_size(1) [OF inv i] ne(1,2) ea(9)
    by simp
  have "fs_abs V (?fs2 d) j = ((fs_abs V fs)(?i \<mapsto> DirNode (dentries (content V fs ?i) @ [(tl file, of_nat n)]))) j" for j
  proof (cases "j = ?i")
    case True
    with con i ea(1) ea(3) [of j] show ?thesis by (simp add: fs_abs_def)
  next
    case False
    with ea(1) ea(3) [of j] ea(8) [of j] show ?thesis by (simp add: fs_abs_def)
  qed
  then have "fs_abs V (?fs2 d) = (fs_abs V fs)(?i \<mapsto> DirNode (dentries (content V fs ?i) @ [(tl file, of_nat n)]))"
    by (rule HOL.ext)
  moreover have "create_end D junk fs dir file fileid n = Inr (0, Some fs', Some (of_nat n))"
    using add entry(1) fs'(1) by (simp add: create_end_def)
  ultimately show ?thesis using fs'(2) by metis
qed

lemma create_begin_ok:
  assumes inv: "fs_inv V fs" and dir: "fs_abs V fs (unat dir) = Some (DirNode es)" and nm: "new_name file es"
    and inodes: "used_inodes fs \<noteq> {..<ITAB_SIZE}" and junk: "length junk = 512"
  shows "create_begin D junk fs dir file fileid = Inr (fs, Found (LEAST n. \<not> bmap_has (inode_bmap fs) n))"
proof -
  note i = fs_abs_DirD [OF dir]
  have "unat dir < 64" "unat dir < length (inode_tab fs)"
    using live_inode [OF fs_invD(1) [OF inv] i(1)] fs_shapeD(5) [OF fs_invD(1) [OF inv]] by auto
  then show ?thesis
    using nm i inode_isset [OF fs_invD(1) [OF inv]] live_used [OF i(1)] find_free_inode [OF fs_shapeD(4) [OF fs_invD(1) [OF inv]]] inodes
      fsi_dir_search_ok [OF inv i(1,2) _ junk]
    by (simp add: create_begin_def FS_MAX_FNAME_SZ_def c_nth_ok new_name_def)
qed

text \<open>Between the two parts of one creation another one runs from beginning to end.\<close>

lemma create_between:
  fixes dir :: u16
  assumes inv: "fs_inv V fs" and dir: "fs_abs V fs (unat dir) = Some (DirNode es)"
    and nm: "new_name file es" and inodes: "used_inodes fs \<noteq> {..<ITAB_SIZE}"
    and room: "1 < card (free_blocks D fs)" and junk: "length junk = 512"
    and n: "n = (LEAST n. \<not> bmap_has (inode_bmap fs) n)"
  obtains fs' where "create_end D junk fs dir file 0 n = Inr (0, Some fs', Some (of_nat n))"
    and "fs_inv V fs'" and "free_blocks D fs' \<noteq> {}" and "n < 64" and "\<not> bmap_has (inode_bmap fs) n"
    and "fs_abs V fs' = (fs_abs V fs)(unat dir \<mapsto> DirNode (es @ [(tl file, of_nat n)]), n \<mapsto> FileNode [])"
proof -
  note i = fs_abs_DirD [OF dir]
  have free: "free_blocks D fs \<noteq> {}" using room by auto
  have new: "0 < length file" "length file < 14" "0 \<notin> set file"
    "map_of (dentries (content V fs (unat dir))) file = None"
    using nm i(3) by (simp_all add: new_name_def)
  obtain m fs' where c: "fs_create D junk (Some fs) dir (Some file) (Some 0) = Inr (0, Some fs', Some (of_nat m))"
    and m: "m < ITAB_SIZE" "\<not> bmap_has (inode_bmap fs) m" and fs': "fs_inv V fs'" "dev_same D V (fs_blocks fs) (fs_blocks fs')"
      "fs_abs V fs' = (fs_abs V fs)(unat dir \<mapsto> DirNode (es @ [(tl file, of_nat m)]), m \<mapsto> FileNode [])"
    using fs_create_ok [OF inv i(1,2) new inodes free junk, of 0] i(3) by auto
  have e: "create_end D junk fs dir file 0 n = Inr (0, Some fs', Some (of_nat m))"
    using c create_begin_ok [OF inv dir nm inodes junk, of 0] by (simp add: fs_create_parts n)
  have n64: "n < 64" unfolding n using Least_le [of "\<lambda>n. \<not> bmap_has (inode_bmap fs) n", OF m(2)] m(1) by simp
  have "(of_nat m :: u16) = of_nat n" using e by (auto simp: create_end_def c_bind_eq_Inr split: if_splits)
  then have "unat (of_nat m :: u16) = unat (of_nat n :: u16)" by simp
  then have mn: "m = n" using m(1) n64 by (simp add: unat_of_nat_u16)
  have "card (free_blocks D fs) \<le> Suc (card (free_blocks D fs'))"
    using fs_create_free [OF c] fs'(2) by (simp add: dev_same_def)
  then have "free_blocks D fs' \<noteq> {}" using room by auto
  with e fs' m(2) n64 mn that show ?thesis by blast
qed

text \<open>The schedule: both threads find an inode, then the second ends, then the first.\<close>

lemma race_reach:
  assumes "create_begin D junk fs dir file1 0 = Inr (fs, Found n)" and "create_begin D junk fs dir file2 0 = Inr (fs, Found n)"
    and "create_end D junk fs dir file2 0 n = Inr (0, Some fs2, Some i)"
    and "create_end D junk fs2 dir file1 0 n = Inr (0, Some fs1, Some i)"
  shows "\<exists>S. reach (\<lambda>S. S = fs_start fs) (creates D junk) S \<and> creating S = Map.empty
    \<and> created S = [(file2, 0, Some i), (file1, 0, Some i)] \<and> filesystem S = fs1"
proof -
  let ?init = "\<lambda>S. S = fs_start fs"
  define S0 where "S0 = fs_start fs"
  define S1 where "S1 = S0\<lparr>filesystem := fs, creating := (creating S0)(1 \<mapsto> (dir, file1, 0, n))\<rparr>"
  define S2 where "S2 = S1\<lparr>filesystem := fs, creating := (creating S1)(2 \<mapsto> (dir, file2, 0, n))\<rparr>"
  define S3 where "S3 = S2\<lparr>filesystem := fs2, creating := (creating S2)(2 := None),
     created := created S2 @ [(file2, 0, Some i)]\<rparr>"
  define S4 where "S4 = S3\<lparr>filesystem := fs1, creating := (creating S3)(1 := None),
     created := created S3 @ [(file1, 0, Some i)]\<rparr>"
  have "reach ?init (creates D junk) S0" by (rule reach_init) (simp add: S0_def)
  then have "reach ?init (creates D junk) S1"
    by (rule reach_step) (unfold S1_def, rule creates.finds, simp_all add: S0_def fs_start_def assms(1))
  then have "reach ?init (creates D junk) S2"
    by (rule reach_step) (unfold S2_def, rule creates.finds, simp_all add: S1_def S0_def fs_start_def assms(2))
  then have "reach ?init (creates D junk) S3"
    by (rule reach_step) (unfold S3_def, rule creates.ends, simp add: S2_def, use assms(3) in \<open>simp add: S2_def\<close>)
  then have "reach ?init (creates D junk) S4"
    by (rule reach_step) (unfold S4_def, rule creates.ends, simp add: S3_def S2_def S1_def, use assms(4) in \<open>simp add: S3_def\<close>)
  then show ?thesis
    by (intro exI [of _ S4]) (auto simp: S4_def S3_def S2_def S1_def S0_def fs_start_def)
qed

lemma create_race:
  fixes dir :: u16
  assumes inv: "fs_inv V fs" and dir: "fs_abs V fs (unat dir) = Some (DirNode es)"
    and nm: "new_name file1 es" "new_name file2 es" and inodes: "used_inodes fs \<noteq> {..<ITAB_SIZE}"
    and room: "1 < card (free_blocks D fs)" and junk: "length junk = 512"
  shows "\<exists>S n. reach (\<lambda>S. S = fs_start fs) (creates D junk) S \<and> creating S = Map.empty
    \<and> created S = [(file2, 0, Some n), (file1, 0, Some n)] \<and> fs_abs V fs (unat n) = None
    \<and> fs_abs V (filesystem S) = (fs_abs V fs)
        (unat dir \<mapsto> DirNode (es @ [(tl file2, n), (tl file1, n)]), unat n \<mapsto> FileNode [])"
proof -
  note i = fs_abs_DirD [OF dir]
  define n where "n = (LEAST n. \<not> bmap_has (inode_bmap fs) n)"
  have tl1: "length (tl file1) < 14" "0 \<notin> set (tl file1)"
    using nm(1) by (auto simp: new_name_def dest: list.set_sel(2) [rotated])
  have found: "create_begin D junk fs dir file1 0 = Inr (fs, Found n)" "create_begin D junk fs dir file2 0 = Inr (fs, Found n)"
    using create_begin_ok [OF inv dir _ inodes junk] nm unfolding n_def by blast+
  obtain fs2 where fs2: "create_end D junk fs dir file2 0 n = Inr (0, Some fs2, Some (of_nat n))"
    "fs_inv V fs2" "free_blocks D fs2 \<noteq> {}" "n < 64" "\<not> bmap_has (inode_bmap fs) n"
    "fs_abs V fs2 = (fs_abs V fs)(unat dir \<mapsto> DirNode (es @ [(tl file2, of_nat n)]), n \<mapsto> FileNode [])"
    by (rule create_between [OF inv dir nm(2) inodes room junk n_def])
  have un: "unat (of_nat n :: u16) = n" using fs2(4) by (simp add: unat_of_nat_u16)
  have nd: "n \<noteq> unat dir" using fs2(5) i(1) by (auto simp: live_def)
  have dir2: "fs_abs V fs2 (unat dir) = Some (DirNode (es @ [(tl file2, of_nat n)]))" using fs2(6) nd by simp
  note i2 = fs_abs_DirD [OF dir2]
  have "fs_abs V fs2 n = Some (FileNode [])" using fs2(6) by simp
  from create_end_again [OF fs2(2) i2(1,2) tl1 junk fs2(3,4) this] obtain fs1 where
    fs1: "create_end D junk fs2 dir file1 0 n = Inr (0, Some fs1, Some (of_nat n))"
      "fs_abs V fs1 = (fs_abs V fs2)(unat dir \<mapsto> DirNode (es @ [(tl file2, of_nat n), (tl file1, of_nat n)]))"
    using i2(3) by auto
  have "fs_abs V fs1 = (fs_abs V fs)
      (unat dir \<mapsto> DirNode (es @ [(tl file2, of_nat n), (tl file1, of_nat n)]), n \<mapsto> FileNode [])"
    using nd by (auto simp: fs1(2) fs2(6))
  moreover have "fs_abs V fs n = None" using fs2(5) by (simp add: fs_abs_fresh)
  ultimately show ?thesis using race_reach [OF found fs2(1) fs1(1)] un by metis
qed

end

section \<open>Properties\<close>

text \<open>C7: Two threads that create files at once may get the same inode. In any file system with room
  for both, there is an interleaving in which both creations return 0 and the same inode number, and
  the directory has two new entries for one new file: what is written to one file is in the other.\<close>

theorem creations_race:
  fixes dir :: u16
  assumes "fs_inv block_view fs" and "fs_abs block_view fs (unat dir) = Some (DirNode es)"
    and "new_name file1 es" and "new_name file2 es" and "used_inodes fs \<noteq> {..<ITAB_SIZE}"
    and "1 < card (free_blocks block_disk fs)" and "length junk = BLOCK_SIZE"
  shows "\<exists>S n. reach (\<lambda>S. S = fs_start fs) (creates block_disk junk) S \<and> creating S = Map.empty
    \<and> created S = [(file2, 0, Some n), (file1, 0, Some n)] \<and> fs_abs block_view fs (unat n) = None
    \<and> fs_abs block_view (filesystem S) = (fs_abs block_view fs)
        (unat dir \<mapsto> DirNode (es @ [(tl file2, n), (tl file1, n)]), unat n \<mapsto> FileNode [])"
  using assms by (intro bd.create_race) (simp_all add: BLOCK_SIZE_def)

theorem creations_race_witness:
  "\<exists>S n. created S = [([0x2F, 0x62], 0, Some n), ([0x2F, 0x61], 0, Some n)]
    \<and> fs_abs block_view (filesystem (S :: blocks_t fs_sys)) 1 = Some (DirNode [([0x62], n), ([0x61], n)])"
proof -
  have dir: "fs_abs block_view demo_fs (unat (1 :: u16)) = Some (DirNode [])" by (simp add: demo_fs_facts(2))
  have nm: "new_name [0x2F, 0x61] []" "new_name [0x2F, 0x62] []" by (simp_all add: new_name_def)
  have room: "used_inodes demo_fs \<noteq> {..<ITAB_SIZE}" "1 < card (free_blocks block_disk demo_fs)"
    by (simp_all add: demo_fs_facts)
  have junk: "length (replicate 512 (0 :: byte)) = BLOCK_SIZE" by (simp add: BLOCK_SIZE_def)
  obtain S :: "blocks_t fs_sys" and n where S: "created S = [([0x2F, 0x62], 0, Some n), ([0x2F, 0x61], 0, Some n)]"
    "fs_abs block_view demo_fs (unat n) = None"
    "fs_abs block_view (filesystem S) = (fs_abs block_view demo_fs)
        (unat (1 :: u16) \<mapsto> DirNode ([] @ [(tl [0x2F, 0x62], n), (tl [0x2F, 0x61], n)]), unat n \<mapsto> FileNode [])"
    using creations_race [OF demo_fs_facts(1) dir nm room junk] by blast
  have "unat n \<noteq> 1" using S(2) by (auto simp: demo_fs_facts(2))
  then show ?thesis by (intro exI [of _ S] exI [of _ n]) (simp add: S)
qed

end
