(* ===== verification/Log_Dump.thy ===== *)
theory Log_Dump
  imports Log_Store
begin

text \<open>
  What the dump functions of \<open>src/logrw/block.c\<close> and \<open>src/logrw/logrw.c\<close> print. They return the printed
  text. \<open>isprint\<close> is that of the C locale and does not hold for negative characters. A \<open>char\<close> is signed.
\<close>

section \<open>Formats\<close>

fun digits :: "nat \<Rightarrow> nat \<Rightarrow> string" where
  "digits b n =
     (if b < 2 \<or> n < b then [''0123456789ABCDEF'' ! (n mod 16)]
      else digits b (n div b) @ [''0123456789ABCDEF'' ! (n mod b mod 16)])"

declare digits.simps [simp del]

text \<open>\<open>%d\<close> and \<open>%ld\<close>, and \<open>%.2X\<close>.\<close>

definition fmt_d :: "int \<Rightarrow> string" where
  "fmt_d n = (if n < 0 then CHR ''-'' # digits 10 (nat (- n)) else digits 10 (nat n))"

definition fmt_2X :: "u32 \<Rightarrow> string" where
  "fmt_2X w = (let d = digits 16 (unat w) in if length d < 2 then CHR ''0'' # d else d)"

definition TAB :: char where "TAB = CHR 0x09"
definition NL :: char where "NL = CHR 0x0A"

definition isprint :: "byte \<Rightarrow> bool" where
  "isprint c \<longleftrightarrow> 0x20 \<le> c \<and> c \<le> 0x7E"

section \<open>Blocks\<close>

definition dump_text :: "byte list \<Rightarrow> string" where
  "dump_text bs = concat (map (\<lambda>b. fmt_2X (scast b) @ '':'') bs) @ [TAB]
     @ map (\<lambda>b. if isprint b then char_of (unat b) else CHR ''.'') bs @ [NL]"

definition dump_block :: "byte list \<Rightarrow> string c" where
  "dump_block block = c_bind (mem_read block 0 8) (\<lambda>bs. Inr (dump_text bs))"

definition block_dump :: "blocks_t \<Rightarrow> u32 \<Rightarrow> string c" where
  "block_dump bks block =
     (let off = unat (block * bks_block_size bks) in
      if off \<le> length (bks_blocks bks) then dump_block (drop off (bks_blocks bks)) else Inl OutOfBounds)"

fun print_loop :: "nat list \<Rightarrow> (nat \<Rightarrow> string c) \<Rightarrow> string c" where
  "print_loop [] f = Inr ''''"
| "print_loop (i # is) f = c_bind (f i) (\<lambda>out. c_bind (print_loop is f) (\<lambda>rest. Inr (out @ rest)))"

definition dump_all_blocks :: "blocks_t \<Rightarrow> string c" where
  "dump_all_blocks bks =
     c_bind (print_loop [0..<unat (bks_num_blocks bks)] (\<lambda>i. block_dump bks (of_nat i))) (\<lambda>out.
     Inr (out @ [NL]))"

section \<open>The log\<close>

definition reg_lines :: "logrw_struct \<Rightarrow> string \<Rightarrow> u32 \<Rightarrow> int \<Rightarrow> string c" where
  "reg_lines log indent base active =
     print_loop [0..<unat (num_reg log)] (\<lambda>i.
       c_bind (c_nth (registo log) i) (\<lambda>r.
       Inr (indent @ ''R['' @ fmt_d (int i) @ '']='' @ fmt_d (sint (r - base)) @ '' ''
         @ (if array_activo log = active then ''in active array'' else ''in inactive array'') @ [NL])))"

definition logrw_dump :: "logrw_struct \<Rightarrow> (string \<times> lock_call list) c" where
  "logrw_dump log =
     c_bind (deref (array_1 log)) (\<lambda>a1.
     let info = [NL] @ ''General Info:'' @ [NL] @ ''Array: '' @ fmt_d (array_activo log) @ '' NextWrBlk: '' in
     if livre log \<le> block_num_blocks a1 then
       c_bind (reg_lines log '''' 0 1) (\<lambda>out.
       Inr (info @ fmt_d (sint (livre log)) @ '' ThreadWaiting='' @ fmt_d (tempo log) @ [NL]
         @ ''REG_INDX: '' @ [NL] @ out, [RdLock, Unlock]))
     else
       c_bind (reg_lines log [TAB] (block_num_blocks a1) 2) (\<lambda>out.
       Inr (info @ fmt_d (sint (livre log - block_num_blocks a1)) @ '' ThreadWaiting='' @ fmt_d (tempo log)
         @ ''REG_INDX:'' @ [NL] @ '' '' @ out, [RdLock, Unlock])))"

definition impossible :: string where
  "impossible = [TAB] @ ''data: impossible to read'' @ [NL]"

definition logrw_dump_register :: "u32 \<Rightarrow> logrw_struct \<Rightarrow> (string \<times> lock_call list) c" where
  "logrw_dump_register i log =
     c_bind (c_nth (registo log) (unat i)) (\<lambda>indice.
     c_bind (deref (array_1 log)) (\<lambda>a1.
     let block = fresh_bytes (unat (block_size a1)) in
     if indice \<le> block_num_blocks a1 then
       c_bind (block_read a1 indice block) (\<lambda>(rc, block').
       if rc = 0 then c_bind (dump_block block') (\<lambda>out. Inr (out, [RdLock, Unlock]))
       else Inr (impossible, [RdLock, Unlock]))
     else
       c_bind (deref (array_2 log)) (\<lambda>a2.
       c_bind (block_read a2 (indice - block_num_blocks a1) block) (\<lambda>(rc, block').
       if rc = 0 then c_bind (dump_block block') (\<lambda>out. Inr (out, [RdLock, Unlock]))
       else Inr (impossible, [RdLock, Unlock])))))"

definition logrw_dump_all_registers :: "logrw_struct \<Rightarrow> string c" where
  "logrw_dump_all_registers log =
     print_loop [0..<unat (num_reg log)] (\<lambda>i. c_bind (logrw_dump_register (of_nat i) log) (\<lambda>(out, calls). Inr out))"

section \<open>What is printed\<close>

definition log_num_blocks :: "logrw_struct \<Rightarrow> nat" where
  "log_num_blocks log = (case array_1 log of None \<Rightarrow> 0 | Some a1 \<Rightarrow> unat (bks_num_blocks a1))"

lemma dump_block_ok: "length b = n \<Longrightarrow> 8 \<le> n \<Longrightarrow> dump_block b = Inr (dump_text (take 8 b))"
  by (simp add: dump_block_def mem_read_ok)

text \<open>C14: The dump of a register shows the first eight bytes of its latest block, the one that a read
  returns, unless this is the first block of the second array: the test whether the block is in the
  first array includes its index, and the dump says that the register cannot be read. The lock is
  released in both cases.\<close>

theorem dump_register_shows:
  assumes inv: "log_inv log" and r: "unat r < unat (num_reg log)" and b: "8 \<le> log_block_size log"
  shows "logrw_dump_register r log =
    Inr (if unat (registo log ! unat r) = log_num_blocks log then impossible
         else dump_text (take 8 (reg_block log (unat r))), [RdLock, Unlock])
   \<and> logrw_read log r (fresh_bytes (log_block_size log)) = Inr (0, reg_block log (unat r), [WrLock, Unlock])"
proof -
  obtain a1 a2 where arr: "log_arrays log a1 a2"
    and lv: "unat (livre log) \<le> 2 * unat (bks_num_blocks a1)"
    and reg: "\<And>j. j < unat (num_reg log) \<Longrightarrow>
      reg_range (unat (bks_num_blocks a1)) (unat (livre log)) (unat (registo log ! j))"
    using log_invE [OF inv] by blast
  note a = log_arraysD [OF arr]
  let ?N = "unat (bks_num_blocks a1)" and ?k = "registo log ! unat r"
  have B: "log_block_size log = unat (bks_block_size a1)" and N: "log_num_blocks log = ?N"
    using a(1) by (simp_all add: log_block_size_def log_num_blocks_def)
  have k: "unat ?k < 2 * ?N" using reg_in_array [OF reg [OF r] lv] a(7) by simp
  consider "?k < bks_num_blocks a1" | "?k = bks_num_blocks a1" | "bks_num_blocks a1 < ?k" by fastforce
  then have "logrw_dump_register r log =
    Inr (if unat ?k = ?N then impossible else dump_text (take 8 (reg_block log (unat r))), [RdLock, Unlock])"
  proof cases
    case 1
    then show ?thesis using a r B b length_block_at [OF a(3), of "unat ?k"]
      by (auto simp: logrw_dump_register_def c_nth_ok block_num_blocks_def block_size_def block_read_ok reg_block_def
          index_block_eq [OF arr] word_less_nat_alt word_le_nat_alt fresh_bytes_def dump_block_ok Let_def)
  next
    case 2
    then show ?thesis using a r
      by (simp add: logrw_dump_register_def c_nth_ok block_num_blocks_def block_read_def Let_def)
  next
    case 3
    then have u: "unat (?k - bks_num_blocks a1) = unat ?k - ?N" by (simp add: unat_sub)
    with k 3 have lt: "?k - bks_num_blocks a1 < bks_num_blocks a2"
      using a(5) by (simp add: word_less_nat_alt)
    then show ?thesis using 3 u k a r B b length_block_at [OF a(4), of "unat ?k - ?N"]
      by (auto simp: logrw_dump_register_def c_nth_ok block_num_blocks_def block_size_def block_read_ok reg_block_def
          index_block_eq [OF arr] word_less_nat_alt word_le_nat_alt fresh_bytes_def dump_block_ok Let_def)
  qed
  moreover have "logrw_read log r (fresh_bytes (log_block_size log)) = Inr (0, reg_block log (unat r), [WrLock, Unlock])"
    using logrw_read_ok [OF inv r, of "fresh_bytes (log_block_size log)"] by (simp add: fresh_bytes_def)
  ultimately show ?thesis using N by simp
qed

text \<open>After four writes to register 1 of a log with two registers and arrays of three blocks, the flip has
  moved register 0 to the first block of the second array.\<close>

definition flipped_log :: "logrw_struct c" where
  "flipped_log = c_bind (logrw_init 2 8 3) (\<lambda>p. c_bind (deref p) (\<lambda>log.
     logrw_writes log (map (\<lambda>b. (1, replicate 8 b)) [1, 2, 3, 4])))"

lemma flipped_log_run:
  obtains log where "flipped_log = Inr log" "log_inv log" "num_reg log = 2" "log_block_size log = 8"
    "registo log ! 0 = 3" "log_num_blocks log = 3" "reg_block log 0 = replicate 8 1"
proof -
  obtain log0 where l0: "logrw_init 2 8 3 = Inr (Some log0)" "log_inv log0" "livre log0 = 0" "num_reg log0 = 2"
      "log_block_size log0 = 8"
    using logrw_init_ok [of 2 8 3] by auto
  have "case flipped_log of Inl e \<Rightarrow> False | Inr log \<Rightarrow> registo log ! 0 = 3 \<and> log_num_blocks log = 3
      \<and> reg_block log 0 = replicate 8 1 \<and> num_reg log = 2 \<and> log_block_size log = 8"
    by code_simp
  then obtain log where log: "flipped_log = Inr log" "registo log ! 0 = 3" "log_num_blocks log = 3"
      "reg_block log 0 = replicate 8 1" "num_reg log = 2" "log_block_size log = 8"
    by (auto split: sum.splits)
  obtain log1 where l1: "logrw_write log0 1 (replicate 8 1) = Inr (0, log1, [RdLock, Unlock])"
    and ap: "appended log0 1 (replicate 8 1) log1"
    using logrw_write_ok [of log0 1 "replicate 8 1"] l0 by auto
  have "log_inv log" using logrw_writes_primed [of log1 "map (\<lambda>b. (1, replicate 8 b)) [2, 3, 4]"] l0 l1 ap log(1)
    by (auto simp: appended_def writes_ok_def flipped_log_def)
  with that log show ?thesis by blast
qed

theorem dump_register_shows_witness:
  "\<exists>log. flipped_log = Inr log \<and> logrw_dump_register 0 log = Inr (impossible, [RdLock, Unlock])
     \<and> logrw_read log 0 (replicate 8 0) = Inr (0, replicate 8 1, [WrLock, Unlock])"
proof -
  obtain log where log: "flipped_log = Inr log" "log_inv log" "num_reg log = 2" "log_block_size log = 8"
    "registo log ! 0 = 3" "log_num_blocks log = 3" "reg_block log 0 = replicate 8 1"
    by (rule flipped_log_run)
  with dump_register_shows [of log 0] show ?thesis
    by (auto simp: fresh_bytes_def)
qed

section \<open>Active and inactive\<close>

text \<open>\<open>array_activo\<close> is 0 while the log writes to the first array, and 1 while it writes to the second.
  \<open>logrw_dump\<close> compares it with 1 and 2: it says of every register that it is in the inactive array.\<close>

definition activo_ok :: "logrw_struct \<Rightarrow> bool" where
  "activo_ok log \<longleftrightarrow> array_activo log = (if unat (livre log) \<le> log_num_blocks log then 0 else 1)"

definition array_shape :: "logrw_struct \<Rightarrow> u32 option \<times> u32 option" where
  "array_shape log = (map_option bks_num_blocks (array_1 log), map_option bks_num_blocks (array_2 log))"

lemma block_write_shape: "block_write a k b = Inr (rc, a') \<Longrightarrow> bks_num_blocks a' = bks_num_blocks a"
  by (auto simp: block_write_def c_bind_eq_Inr split: if_splits)

lemma flip_1_2_keeps:
  "flip_1_2 is log aux = Inr log' \<Longrightarrow> array_activo log' = array_activo log \<and> array_shape log' = array_shape log"
proof (induction "is" arbitrary: log aux)
  case (Cons i "is")
  from Cons.prems show ?case
    by (auto simp: c_bind_eq_Inr deref_def array_shape_def block_write_shape split: if_splits option.splits
        dest!: Cons.IH)
qed simp

lemma flip_2_1_keeps:
  "flip_2_1 is log aux = Inr log' \<Longrightarrow> array_activo log' = array_activo log \<and> array_shape log' = array_shape log"
proof (induction "is" arbitrary: log aux)
  case (Cons i "is")
  from Cons.prems show ?case
    by (auto simp: c_bind_eq_Inr deref_def array_shape_def block_write_shape split: if_splits option.splits
        dest!: Cons.IH)
qed simp

text \<open>A write that succeeds leaves the free index in the array that it wrote to.\<close>

lemma log_num_blocks_shape: "array_shape log' = array_shape log \<Longrightarrow> log_num_blocks log' = log_num_blocks log"
  by (auto simp: array_shape_def log_num_blocks_def split: option.splits)

lemma put_1_activo:
  assumes "put_1 log r b = Inr (0, log', calls)" and "log_num_blocks log < 2 ^ 31" and "array_activo log = 0"
  shows "activo_ok log'"
proof -
  from assms(1) obtain a1 a1' where a: "array_1 log = Some a1" "block_write a1 (livre log) b = Inr (0, a1')"
      "livre log' = livre log + 1" "array_activo log' = array_activo log" "array_1 log' = Some a1'"
    by (auto simp: put_1_def c_bind_eq_Inr deref_def split: option.splits if_splits)
  have "unat (livre log) < unat (bks_num_blocks a1)"
    using a(2) by (auto simp: block_write_def word_le_nat_alt split: if_splits)
  then show ?thesis using a block_write_shape [OF a(2)] assms(2,3) unat_Suc_u32 [of "livre log"]
    by (simp add: activo_ok_def log_num_blocks_def)
qed

lemma put_2_activo:
  assumes "put_2 log r b = Inr (0, log', calls)" and "array_shape log = (Some n, Some n)" and "unat n < 2 ^ 31"
    and "array_activo log = 1"
  shows "activo_ok log'"
proof -
  from assms(1) obtain a1 a2 a2' where a: "array_1 log = Some a1" "array_2 log = Some a2"
      "block_write a2 (livre log - block_num_blocks a1) b = Inr (0, a2')"
      "livre log' = livre log + 1" "array_activo log' = array_activo log" "array_1 log' = Some a1"
    by (auto simp: put_2_def c_bind_eq_Inr deref_def split: option.splits if_splits)
  have n: "bks_num_blocks a1 = n" "bks_num_blocks a2 = n" using a(1,2) assms(2) by (simp_all add: array_shape_def)
  have "unat (livre log - n) < unat n"
    using a(3) n by (auto simp: block_write_def block_num_blocks_def word_le_nat_alt split: if_splits)
  moreover have "unat (x + n) = unat x + unat n" if "unat x < unat n" for x :: u32
    using that assms(3) by (simp add: unat_word_ariths)
  ultimately have "unat (livre log - n + n) = unat (livre log - n) + unat n" by blast
  then have "unat (livre log) = unat (livre log - n) + unat n" by simp
  then show ?thesis using a n assms(3,4) \<open>unat (livre log - n) < unat n\<close> unat_Suc_u32 [of "livre log"]
    by (simp add: activo_ok_def log_num_blocks_def)
qed

lemma logrw_write_activo:
  assumes inv: "log_inv log" and act: "activo_ok log" and run: "logrw_write log r b = Inr (0, log', calls)"
  shows "activo_ok log'"
proof -
  obtain a1 a2 where arr: "log_arrays log a1 a2" and lv: "unat (livre log) \<le> 2 * unat (bks_num_blocks a1)"
    using log_invE [OF inv] by blast
  note a = log_arraysD [OF arr]
  let ?n = "bks_num_blocks a1" and ?regs = "[0..<nat (logrw_num_registers log)]"
  have sh: "array_shape log = (Some ?n, Some ?n)" and N: "log_num_blocks log = unat ?n"
    using a by (simp_all add: array_shape_def log_num_blocks_def)
  have n: "unat ?n < 2 ^ 31" using a(8) by simp
  consider "livre log = ?n" | "livre log \<noteq> ?n" "livre log = 2 * ?n"
    | "livre log \<noteq> ?n" "livre log \<noteq> 2 * ?n" "livre log < ?n"
    | "livre log \<noteq> ?n" "livre log \<noteq> 2 * ?n" "?n < livre log"
    by fastforce
  then show ?thesis
  proof cases
    case 1
    then obtain log1 where f: "flip_1_2 ?regs (log\<lparr>array_activo := 1\<rparr>) (fresh_bytes (unat (block_size a1))) = Inr log1"
      and p: "put_2 log1 r b = Inr (0, log', calls)"
      using run a(1) by (auto simp: logrw_write_def Let_def block_num_blocks_def c_bind_eq_Inr)
    from flip_1_2_keeps [OF f] sh have "array_activo log1 = 1" "array_shape log1 = (Some ?n, Some ?n)"
      by (simp_all add: array_shape_def)
    with put_2_activo [OF p] n show ?thesis by blast
  next
    case 2
    then obtain log1 where f: "flip_2_1 ?regs (log\<lparr>array_activo := 0, livre := 0\<rparr>)
        (fresh_bytes (unat (block_size a1))) = Inr log1" and p: "put_1 log1 r b = Inr (0, log', calls)"
      using run a(1) by (auto simp: logrw_write_def Let_def block_num_blocks_def c_bind_eq_Inr)
    from flip_2_1_keeps [OF f] sh have "array_activo log1 = 0" "array_shape log1 = array_shape log"
      by (simp_all add: array_shape_def)
    with put_1_activo [OF p] log_num_blocks_shape [of log1 log] N n show ?thesis by simp
  next
    case 3
    then have "put_1 log r b = Inr (0, log', calls)"
      using run a(1) by (simp add: logrw_write_def Let_def block_num_blocks_def)
    moreover have "array_activo log = 0" using act 3 N by (simp add: activo_ok_def word_less_nat_alt)
    ultimately show ?thesis using put_1_activo N n by simp
  next
    case 4
    then have "\<not> livre log < ?n" by simp
    with 4 have "put_2 log r b = Inr (0, log', calls)"
      using run a(1) by (simp add: logrw_write_def Let_def block_num_blocks_def)
    moreover have "array_activo log = 1" using act 4 N by (simp add: activo_ok_def word_less_nat_alt)
    ultimately show ?thesis using put_2_activo sh n by blast
  qed
qed

lemma logrw_writes_activo:
  assumes "log_inv log" and "activo_ok log" and "writes_ok log ws" and "logrw_writes log ws = Inr log'"
  shows "activo_ok log' \<and> log_inv log'"
  using assms
proof (induction ws arbitrary: log)
  case (Cons w ws)
  obtain r b where w: "w = (r, b)" by (cases w)
  have r: "unat r < unat (num_reg log)" "length b = log_block_size log" "writes_ok log ws"
    using Cons.prems(3) w by (simp_all add: writes_ok_def)
  obtain log1 where st: "logrw_write log r b = Inr (0, log1, [RdLock, Unlock])" and ap: "appended log (unat r) b log1"
    using logrw_write_ok [OF Cons.prems(1) r(1), of b] r(2) by auto
  have "log_inv log1" "writes_ok log1 ws" using ap r(3) by (simp_all add: appended_def writes_ok_def)
  moreover have "activo_ok log1" by (rule logrw_write_activo [OF Cons.prems(1,2) st])
  moreover have "logrw_writes log1 ws = Inr log'" using Cons.prems(4) st w by simp
  ultimately show ?case using Cons.IH by blast
qed simp

text \<open>The line that \<open>logrw_dump\<close> prints for a register whose index in its array is \<open>k\<close>.\<close>

definition inactive_line :: "string \<Rightarrow> nat \<Rightarrow> u32 \<Rightarrow> string" where
  "inactive_line indent i k =
     indent @ ''R['' @ fmt_d (int i) @ '']='' @ fmt_d (sint k) @ '' in inactive array'' @ [NL]"

lemma print_loop_map: "(\<And>i. i \<in> set is \<Longrightarrow> f i = Inr (g i)) \<Longrightarrow> print_loop is f = Inr (concat (map g is))"
  by (induction "is") simp_all

text \<open>After any writes to a fresh log \<open>logrw_dump\<close> says of every register that it is in the inactive
  array.\<close>

lemma dump_says_inactive:
  assumes "log_inv log0" and "activo_ok log0" and "writes_ok log0 ws" and "logrw_writes log0 ws = Inr log"
  shows "\<exists>front. logrw_dump log = Inr (front @ concat (map (\<lambda>i.
      if unat (livre log) \<le> log_num_blocks log then inactive_line [] i (registo log ! i)
      else inactive_line [TAB] i (registo log ! i - of_nat (log_num_blocks log))) [0..<unat (num_reg log)]),
    [RdLock, Unlock])"
proof -
  from logrw_writes_activo [OF assms] have act: "activo_ok log" and inv: "log_inv log" by simp_all
  obtain a1 a2 where arr: "log_arrays log a1 a2" using log_invE [OF inv] by blast
  note a = log_arraysD [OF arr]
  have N: "log_num_blocks log = unat (bks_num_blocks a1)" using a(1) by (simp add: log_num_blocks_def)
  have lines: "reg_lines log ind base v = Inr (concat (map (\<lambda>i. inactive_line ind i (registo log ! i - base))
      [0..<unat (num_reg log)]))" if "array_activo log \<noteq> v" for ind base v
    unfolding reg_lines_def by (rule print_loop_map) (use a that in \<open>simp add: c_nth_ok inactive_line_def\<close>)
  show ?thesis
  proof (cases "livre log \<le> bks_num_blocks a1")
    case True
    then have "array_activo log \<noteq> 1" using act N by (simp add: activo_ok_def word_le_nat_alt)
    from lines [OF this, of "[]" 0] show ?thesis using True a(1) N
      by (simp add: logrw_dump_def block_num_blocks_def word_le_nat_alt Let_def)
  next
    case False
    then have "array_activo log \<noteq> 2" using act N by (simp add: activo_ok_def word_le_nat_alt)
    from lines [OF this, of "[TAB]" "bks_num_blocks a1"] show ?thesis using False a(1) N
      by (simp add: logrw_dump_def block_num_blocks_def word_le_nat_alt Let_def)
  qed
qed

end
