(* ===== verification/Thread_Queue.thy ===== *)
theory Thread_Queue
  imports Log_Store
begin

text \<open>
  The queues of threads, \<open>src/sthread_lib/queue.c\<close>: singly linked lists with a pointer to the first
  and the last element, on an explicit heap. One element that a removal leaves over is kept in
  the global \<open>empty_element_ptr\<close> for the next insertion.

  A heap holds the elements and the queue headers by address; every allocation takes the address
  \<open>next_addr\<close>. Threads are addresses of another heap. An access to an address without an object
  is a wild pointer. \<open>sthread_user_free\<close>, which \<open>delete_queue\<close> calls for the threads in the queue,
  belongs to \<open>sthread_user.c\<close>: the threads that are freed are returned.

  The second half relates heaps to finite maps from queues to lists of threads. This is the
  interface on which the scheduler rests.
\<close>

section \<open>The heap\<close>

type_synonym addr = nat
type_synonym thread_ptr = nat

record queue_element =
  qe_thread :: "thread_ptr option"
  qe_next :: "addr option"

record queue_t =
  q_first :: "addr option"
  q_last :: "addr option"

record queue_heap =
  elems :: "addr \<Rightarrow> queue_element option"
  queues :: "addr \<Rightarrow> queue_t option"
  empty_element_ptr :: "addr option"
  next_addr :: addr

definition load_elem :: "queue_heap \<Rightarrow> addr \<Rightarrow> queue_element c" where
  "load_elem h a =
     (if a < next_addr h then (case elems h a of None \<Rightarrow> Inl WildPointer | Some e \<Rightarrow> Inr e)
      else Inl WildPointer)"

definition load_queue :: "queue_heap \<Rightarrow> addr \<Rightarrow> queue_t c" where
  "load_queue h q = (case queues h q of None \<Rightarrow> Inl WildPointer | Some Q \<Rightarrow> Inr Q)"

definition set_elem :: "queue_heap \<Rightarrow> addr \<Rightarrow> queue_element \<Rightarrow> queue_heap" where
  "set_elem h a e = h\<lparr>elems := (elems h)(a \<mapsto> e)\<rparr>"

definition set_queue :: "queue_heap \<Rightarrow> addr \<Rightarrow> queue_t \<Rightarrow> queue_heap" where
  "set_queue h q Q = h\<lparr>queues := (queues h)(q \<mapsto> Q)\<rparr>"

definition free_elem :: "queue_heap \<Rightarrow> addr \<Rightarrow> queue_heap" where
  "free_elem h a = h\<lparr>elems := (elems h)(a := None)\<rparr>"

section \<open>Operations\<close>

definition create_queue :: "queue_heap \<Rightarrow> addr \<times> queue_heap" where
  "create_queue h =
     (let queue = next_addr h in
      (queue, h\<lparr>queues := (queues h)(queue \<mapsto> \<lparr>q_first = None, q_last = None\<rparr>),
                empty_element_ptr := None, next_addr := next_addr h + 1\<rparr>))"

text \<open>The element for a new entry: the one that is kept, or a new one with arbitrary contents.\<close>

definition new_element :: "queue_heap \<Rightarrow> addr \<times> queue_heap" where
  "new_element h =
     (case empty_element_ptr h of
        None \<Rightarrow> (next_addr h, h\<lparr>elems := (elems h)(next_addr h \<mapsto> \<lparr>qe_thread = None, qe_next = None\<rparr>),
                                  next_addr := next_addr h + 1\<rparr>)
      | Some a \<Rightarrow> (a, h\<lparr>empty_element_ptr := None\<rparr>))"

definition queue_insert :: "queue_heap \<Rightarrow> addr \<Rightarrow> thread_ptr \<Rightarrow> queue_heap c" where
  "queue_insert h queue thread =
     (let (a, h1) = new_element h in
      c_bind (load_elem h1 a) (\<lambda>old.
      let h2 = set_elem h1 a \<lparr>qe_thread = Some thread, qe_next = None\<rparr> in
      c_bind (load_queue h2 queue) (\<lambda>Q.
      case q_first Q of
        None \<Rightarrow> Inr (set_queue h2 queue \<lparr>q_first = Some a, q_last = Some a\<rparr>)
      | Some _ \<Rightarrow>
          c_bind (deref (q_last Q)) (\<lambda>l.
          c_bind (load_elem h2 l) (\<lambda>e.
          let h3 = set_elem h2 l (e\<lparr>qe_next := Some a\<rparr>) in
          Inr (set_queue h3 queue (Q\<lparr>q_last := Some a\<rparr>)))))))"

definition queue_is_empty :: "queue_heap \<Rightarrow> addr \<Rightarrow> bool c" where
  "queue_is_empty h queue = c_bind (load_queue h queue) (\<lambda>Q. Inr (q_first Q = None))"

definition queue_first :: "queue_heap \<Rightarrow> addr \<Rightarrow> thread_ptr option c" where
  "queue_first h queue =
     c_bind (load_queue h queue) (\<lambda>Q.
     c_bind (deref (q_first Q)) (\<lambda>a.
     c_bind (load_elem h a) (\<lambda>e. Inr (qe_thread e))))"

definition queue_remove :: "queue_heap \<Rightarrow> addr \<Rightarrow> (thread_ptr option \<times> queue_heap) c" where
  "queue_remove h queue =
     c_bind (load_queue h queue) (\<lambda>Q.
     c_bind (deref (q_first Q)) (\<lambda>temp.
     c_bind (load_elem h temp) (\<lambda>e.
     let h1 = set_queue h queue (Q\<lparr>q_first := qe_next e\<rparr>);
         h2 = set_elem h1 temp \<lparr>qe_thread = None, qe_next = None\<rparr> in
     Inr (qe_thread e,
          case empty_element_ptr h2 of
            Some _ \<Rightarrow> free_elem h2 temp
          | None \<Rightarrow> h2\<lparr>empty_element_ptr := Some temp\<rparr>))))"

text \<open>The loop of \<open>delete_queue\<close>; the last component are the threads that it frees. It ends because
  every turn frees an element.\<close>

definition live_elems :: "queue_heap \<Rightarrow> addr set" where
  "live_elems h = {a. a < next_addr h \<and> elems h a \<noteq> None}"

lemma free_elem_decreases:
  assumes "load_elem h a = Inr e"
  shows "card (live_elems (free_elem h a)) < card (live_elems h)"
proof -
  have "a \<in> live_elems h"
    using assms by (auto simp: load_elem_def live_elems_def split: if_splits option.splits)
  moreover have "live_elems (free_elem h a) = live_elems h - {a}"
    by (auto simp: live_elems_def free_elem_def)
  moreover have "finite (live_elems h)"
    by (rule finite_subset [of _ "{..<next_addr h}"]) (auto simp: live_elems_def)
  ultimately show ?thesis by (metis card_Diff1_less)
qed

function delete_loop :: "queue_heap \<Rightarrow> addr option \<Rightarrow> (thread_ptr option list \<times> queue_heap) c" where
  "delete_loop h None = Inr ([], h)"
| "delete_loop h (Some pointer) =
     c_bind (load_elem h pointer) (\<lambda>e.
     c_bind (delete_loop (free_elem h pointer) (qe_next e)) (\<lambda>(ts, h').
     Inr (qe_thread e # ts, h')))"
  by pat_completeness auto
termination
  by (relation "measure (\<lambda>(h, p). card (live_elems h))") (auto intro: free_elem_decreases)

definition delete_queue :: "queue_heap \<Rightarrow> addr \<Rightarrow> (thread_ptr option list \<times> queue_heap) c" where
  "delete_queue h queue =
     c_bind (load_queue h queue) (\<lambda>Q.
     c_bind (delete_loop h (q_first Q)) (\<lambda>(ts, h').
     Inr (ts, h'\<lparr>queues := (queues h')(queue := None)\<rparr>)))"

section \<open>Heaps as maps from queues to lists\<close>

text \<open>The elements at the addresses \<open>as\<close> are linked in this order, from \<open>p\<close> on.\<close>

primrec chain :: "(addr \<Rightarrow> queue_element option) \<Rightarrow> addr option \<Rightarrow> addr list \<Rightarrow> bool" where
  "chain m p [] = (p = None)"
| "chain m p (a # as) = (p = Some a \<and> (case m a of None \<Rightarrow> False | Some e \<Rightarrow> chain m (qe_next e) as))"

lemma chain_frame: "\<forall>a \<in> set as. m' a = m a \<Longrightarrow> chain m' p as = chain m p as"
  by (induction as arbitrary: p) (auto split: option.splits)

lemma chain_upd [simp]: "a \<notin> set as \<Longrightarrow> chain (m(a := x)) p as = chain m p as"
  by (rule chain_frame) auto

lemma chain_snoc:
  "chain m p as \<Longrightarrow> as \<noteq> [] \<Longrightarrow> distinct as \<Longrightarrow> a \<notin> set as \<Longrightarrow> m (last as) = Some e \<Longrightarrow>
   chain (m(a \<mapsto> \<lparr>qe_thread = t, qe_next = None\<rparr>, last as \<mapsto> e\<lparr>qe_next := Some a\<rparr>)) p (as @ [a])"
proof (induction as arbitrary: p)
  case Nil
  then show ?case by simp
next
  case (Cons b bs)
  show ?case
  proof (cases "bs = []")
    case True
    with Cons.prems show ?thesis by auto
  next
    case False
    then have "last bs \<in> set bs" by simp
    with False Cons.prems have "last bs \<noteq> b" "a \<noteq> b" by auto
    moreover obtain e' where "m b = Some e'" "chain m (qe_next e') bs"
      using Cons.prems(1) by (auto split: option.splits)
    ultimately show ?thesis
      using Cons.IH [of "qe_next e'"] Cons.prems False by simp
  qed
qed

text \<open>\<open>holds h as q ts\<close>: queue \<open>q\<close> consists of the elements \<open>as\<close> and holds the threads \<open>ts\<close>.\<close>

definition holds :: "queue_heap \<Rightarrow> addr list \<Rightarrow> addr \<Rightarrow> thread_ptr list \<Rightarrow> bool" where
  "holds h as q ts \<longleftrightarrow>
     (\<exists>Q. queues h q = Some Q \<and> chain (elems h) (q_first Q) as
        \<and> (as \<noteq> [] \<longrightarrow> q_last Q = Some (last as)))
     \<and> distinct as \<and> (\<forall>a \<in> set as. a < next_addr h)
     \<and> map (\<lambda>a. map_option qe_thread (elems h a)) as = map (\<lambda>t. Some (Some t)) ts"

text \<open>\<open>heap_rep h M\<close>: the queues in the domain of \<open>M\<close> hold the lists that \<open>M\<close> says, in elements of
  their own, and the spare element belongs to none of them.\<close>

definition heap_rep :: "queue_heap \<Rightarrow> (addr \<Rightarrow> thread_ptr list option) \<Rightarrow> bool" where
  "heap_rep h M \<longleftrightarrow>
     (\<exists>A. (\<forall>q ts. M q = Some ts \<longrightarrow> holds h (A q) q ts \<and> q < next_addr h)
        \<and> (\<forall>q q'. q \<in> dom M \<longrightarrow> q' \<in> dom M \<longrightarrow> q \<noteq> q' \<longrightarrow> set (A q) \<inter> set (A q') = {})
        \<and> (case empty_element_ptr h of None \<Rightarrow> True
           | Some e \<Rightarrow> e < next_addr h \<and> elems h e \<noteq> None \<and> (\<forall>q \<in> dom M. e \<notin> set (A q))))"

lemma holds_frame:
  assumes "holds h as q ts" and "\<forall>a \<in> set as. elems h' a = elems h a" and "queues h' q = queues h q"
    and "next_addr h \<le> next_addr h'"
  shows "holds h' as q ts"
proof -
  have "chain (elems h') p as = chain (elems h) p as" for p by (rule chain_frame [OF assms(2)])
  moreover have "map (\<lambda>a. map_option qe_thread (elems h' a)) as = map (\<lambda>a. map_option qe_thread (elems h a)) as"
    using assms(2) by simp
  ultimately show ?thesis using assms(1,3,4) unfolding holds_def by auto
qed

lemma holds_length: "holds h as q ts \<Longrightarrow> length as = length ts"
  by (auto simp: holds_def dest: map_eq_imp_length_eq)

lemma heap_repE:
  assumes "heap_rep h M"
  obtains A where "\<And>q ts. M q = Some ts \<Longrightarrow> holds h (A q) q ts"
    and "\<And>q. q \<in> dom M \<Longrightarrow> q < next_addr h"
    and "\<And>q q'. q \<in> dom M \<Longrightarrow> q' \<in> dom M \<Longrightarrow> q \<noteq> q' \<Longrightarrow> set (A q) \<inter> set (A q') = {}"
    and "\<And>e. empty_element_ptr h = Some e \<Longrightarrow> e < next_addr h \<and> elems h e \<noteq> None
      \<and> (\<forall>q \<in> dom M. e \<notin> set (A q))"
proof -
  from assms obtain A where "\<forall>q ts. M q = Some ts \<longrightarrow> holds h (A q) q ts \<and> q < next_addr h"
    "\<forall>q q'. q \<in> dom M \<longrightarrow> q' \<in> dom M \<longrightarrow> q \<noteq> q' \<longrightarrow> set (A q) \<inter> set (A q') = {}"
    "case empty_element_ptr h of None \<Rightarrow> True
       | Some e \<Rightarrow> e < next_addr h \<and> elems h e \<noteq> None \<and> (\<forall>q \<in> dom M. e \<notin> set (A q))"
    unfolding heap_rep_def by blast
  then show ?thesis by (intro that [of A]) auto
qed

lemma heap_repI:
  assumes "\<And>q ts. M q = Some ts \<Longrightarrow> holds h (A q) q ts \<and> q < next_addr h"
    and "\<And>q q'. q \<in> dom M \<Longrightarrow> q' \<in> dom M \<Longrightarrow> q \<noteq> q' \<Longrightarrow> set (A q) \<inter> set (A q') = {}"
    and "\<And>e. empty_element_ptr h = Some e \<Longrightarrow> e < next_addr h \<and> elems h e \<noteq> None
      \<and> (\<forall>q \<in> dom M. e \<notin> set (A q))"
  shows "heap_rep h M"
  unfolding heap_rep_def using assms by (intro exI [of _ A]) (auto split: option.splits)

text \<open>An operation that gives the queue \<open>q\<close> new elements and leaves those of the others alone.\<close>

lemma heap_rep_upd:
  assumes A: "\<And>p us. M p = Some us \<Longrightarrow> holds h (A p) p us" and lt: "\<And>p. p \<in> dom M \<Longrightarrow> p < next_addr h"
    and disj: "\<And>p p'. p \<in> dom M \<Longrightarrow> p' \<in> dom M \<Longrightarrow> p \<noteq> p' \<Longrightarrow> set (A p) \<inter> set (A p') = {}"
    and new: "holds h' as q ts" and q: "q < next_addr h'" and nx: "next_addr h \<le> next_addr h'"
    and qs: "\<And>p. p \<noteq> q \<Longrightarrow> queues h' p = queues h p"
    and same: "\<And>p b. p \<in> dom M \<Longrightarrow> p \<noteq> q \<Longrightarrow> b \<in> set (A p) \<Longrightarrow> elems h' b = elems h b"
    and apart: "\<And>p. p \<in> dom M \<Longrightarrow> p \<noteq> q \<Longrightarrow> set as \<inter> set (A p) = {}"
    and em: "\<And>e. empty_element_ptr h' = Some e \<Longrightarrow> e < next_addr h' \<and> elems h' e \<noteq> None \<and> e \<notin> set as
      \<and> (\<forall>p \<in> dom M. p \<noteq> q \<longrightarrow> e \<notin> set (A p))"
  shows "heap_rep h' (M(q \<mapsto> ts))"
proof (rule heap_repI [of _ _ "A(q := as)"])
  fix p us assume p: "(M(q \<mapsto> ts)) p = Some us"
  show "holds h' ((A(q := as)) p) p us \<and> p < next_addr h'"
  proof (cases "p = q")
    case True
    then show ?thesis using p new q by auto
  next
    case False
    then have Mp: "M p = Some us" "p \<in> dom M" using p by auto
    then have "holds h' (A p) p us"
      using holds_frame [OF A [OF Mp(1)]] same [OF Mp(2) False] qs [OF False] nx by blast
    then show ?thesis using False lt [OF Mp(2)] nx by simp
  qed
next
  fix p p' assume "p \<in> dom (M(q \<mapsto> ts))" "p' \<in> dom (M(q \<mapsto> ts))" "p \<noteq> p'"
  then show "set ((A(q := as)) p) \<inter> set ((A(q := as)) p') = {}"
    using disj [of p p'] apart [of p] apart [of p'] by (auto split: if_splits)
qed (use em in auto)

section \<open>The operations on the lists\<close>

lemma create_queue_rep:
  assumes "heap_rep h M"
  shows "fst (create_queue h) \<notin> dom M"
    and "heap_rep (snd (create_queue h)) (M(fst (create_queue h) \<mapsto> []))"
proof -
  obtain A where A: "\<And>q ts. M q = Some ts \<Longrightarrow> holds h (A q) q ts" "\<And>q. q \<in> dom M \<Longrightarrow> q < next_addr h"
    "\<And>q q'. q \<in> dom M \<Longrightarrow> q' \<in> dom M \<Longrightarrow> q \<noteq> q' \<Longrightarrow> set (A q) \<inter> set (A q') = {}"
    using heap_repE [OF assms] by metis
  have f: "fst (create_queue h) = next_addr h" by (simp add: create_queue_def Let_def)
  show "fst (create_queue h) \<notin> dom M" using A(2) f by auto
  have "holds (snd (create_queue h)) (A q) q ts \<and> q < next_addr h" if "M q = Some ts" for q ts
    using A(1) [OF that] A(2) [OF domI [where m = M, OF that]]
    by (auto intro!: holds_frame [of h] simp: create_queue_def Let_def)
  then show "heap_rep (snd (create_queue h)) (M(fst (create_queue h) \<mapsto> []))"
    using A(3) A(2)
    by (intro heap_repI [of _ _ "A(next_addr h := [])"])
      (force simp: f create_queue_def Let_def holds_def split: if_splits)+
qed

lemma new_element_ok:
  assumes "heap_rep h M"
  obtains A a h1 where "new_element h = (a, h1)" and "\<And>q ts. M q = Some ts \<Longrightarrow> holds h (A q) q ts"
    and "\<And>q. q \<in> dom M \<Longrightarrow> q < next_addr h \<and> a \<notin> set (A q)"
    and "\<And>q q'. q \<in> dom M \<Longrightarrow> q' \<in> dom M \<Longrightarrow> q \<noteq> q' \<Longrightarrow> set (A q) \<inter> set (A q') = {}"
    and "a < next_addr h1" and "elems h1 a \<noteq> None" and "\<And>b. b \<noteq> a \<Longrightarrow> elems h1 b = elems h b"
    and "queues h1 = queues h" and "next_addr h \<le> next_addr h1" and "empty_element_ptr h1 = None"
proof -
  obtain A where A: "\<And>q ts. M q = Some ts \<Longrightarrow> holds h (A q) q ts" "\<And>q. q \<in> dom M \<Longrightarrow> q < next_addr h"
    "\<And>q q'. q \<in> dom M \<Longrightarrow> q' \<in> dom M \<Longrightarrow> q \<noteq> q' \<Longrightarrow> set (A q) \<inter> set (A q') = {}"
    "\<And>e. empty_element_ptr h = Some e \<Longrightarrow> e < next_addr h \<and> elems h e \<noteq> None
      \<and> (\<forall>q \<in> dom M. e \<notin> set (A q))"
    using heap_repE [OF assms] by metis
  have "next_addr h \<notin> set (A q)" if "q \<in> dom M" for q
    using that A(1) [of q] by (auto simp: holds_def)
  note nx = this
  show ?thesis
  proof (cases "empty_element_ptr h")
    case None
    show ?thesis
      by (rule that [OF _ A(1) _ A(3), of "next_addr h" "snd (new_element h)"])
        (use A(2) nx None in \<open>auto simp: new_element_def\<close>)
  next
    case (Some e)
    show ?thesis
      by (rule that [OF _ A(1) _ A(3), of e "snd (new_element h)"])
        (use A(2) A(4) [OF Some] Some in \<open>auto simp: new_element_def\<close>)
  qed
qed

lemma queue_insert_holds:
  assumes new: "new_element h = (a, h1)" and hq: "holds h as q ts" and fresh: "a \<notin> set as"
    and a: "a < next_addr h1" "elems h1 a \<noteq> None" and same: "\<And>b. b \<noteq> a \<Longrightarrow> elems h1 b = elems h b"
    and h1: "queues h1 = queues h" "next_addr h \<le> next_addr h1" "empty_element_ptr h1 = None"
  shows "\<exists>h'. queue_insert h q t = Inr h' \<and> holds h' (as @ [a]) q (ts @ [t])
      \<and> (\<forall>b. b \<notin> set as \<longrightarrow> b \<noteq> a \<longrightarrow> elems h' b = elems h b)
      \<and> (\<forall>p. p \<noteq> q \<longrightarrow> queues h' p = queues h p) \<and> next_addr h \<le> next_addr h'
      \<and> empty_element_ptr h' = None"
proof -
  define h2 where "h2 = set_elem h1 a \<lparr>qe_thread = Some t, qe_next = None\<rparr>"
  obtain Q where Q: "queues h q = Some Q" "chain (elems h) (q_first Q) (as)"
    "as \<noteq> [] \<Longrightarrow> q_last Q = Some (last (as))" using hq by (auto simp: holds_def)
  have load: "load_elem h1 a = Inr (the (elems h1 a))" "load_queue h2 q = Inr Q"
    using a Q(1) h1(1) by (auto simp: load_elem_def load_queue_def h2_def set_elem_def)
  show ?thesis
  proof (cases "as = []")
    case True
    then have "q_first Q = None" "ts = []" using Q(2) holds_length [OF hq] by auto
    then show ?thesis using new load a h1 same True
      by (simp add: queue_insert_def holds_def set_queue_def flip: h2_def) (simp add: h2_def set_elem_def)
  next
    case False
    let ?l = "last (as)"
    obtain first where first: "q_first Q = Some first" using Q(2) False by (cases "as") auto
    have l: "?l \<in> set (as)" "?l \<noteq> a" using False fresh by auto
    obtain e where e: "elems h ?l = Some e" "?l < next_addr h"
    proof -
      have "map_option qe_thread (elems h ?l) \<in> set (map (\<lambda>t. Some (Some t)) ts)"
        using hq l(1) unfolding holds_def by (metis (no_types, lifting) image_eqI set_map)
      then show ?thesis using that hq l(1) by (auto simp: holds_def)
    qed
    define h' where "h' = set_queue (set_elem h2 ?l (e\<lparr>qe_next := Some a\<rparr>)) q (Q\<lparr>q_last := Some a\<rparr>)"
    have load_l: "load_elem h2 ?l = Inr e"
      using e l same h1 by (simp add: load_elem_def h2_def set_elem_def)
    have run: "queue_insert h q t = Inr h'"
      using new load first Q(3) [OF False] load_l
      by (simp add: queue_insert_def h'_def flip: h2_def)
    have el: "elems h' = (elems h1)(a \<mapsto> \<lparr>qe_thread = Some t, qe_next = None\<rparr>, ?l \<mapsto> e\<lparr>qe_next := Some a\<rparr>)"
      by (simp add: h'_def h2_def set_elem_def set_queue_def)
    have dist: "distinct (as)" using hq by (simp add: holds_def)
    have "\<forall>b \<in> set (as). elems h1 b = elems h b" using fresh same by metis
    then have "chain (elems h1) (q_first Q) (as)" using Q(2) by (simp only: chain_frame)
    moreover have "elems h1 ?l = Some e" using e l same by simp
    ultimately have "chain (elems h') (q_first Q) (as @ [a])"
      unfolding el using chain_snoc [OF _ False dist] fresh by simp
    moreover have "map_option qe_thread (elems h' b) = map_option qe_thread (elems h b)"
      if "b \<in> set (as)" for b
      using that fresh same [of b] e by (auto simp: el)
    then have "map (\<lambda>b. map_option qe_thread (elems h' b)) (as) = map (\<lambda>b. map_option qe_thread (elems h b)) (as)"
      by simp
    moreover have "queues h' q = Some (Q\<lparr>q_last := Some a\<rparr>)" "next_addr h' = next_addr h1"
      "empty_element_ptr h' = None" "\<forall>p. p \<noteq> q \<longrightarrow> queues h' p = queues h p"
      using h1 by (simp_all add: h'_def h2_def set_elem_def set_queue_def)
    moreover have "elems h' a = Some \<lparr>qe_thread = Some t, qe_next = None\<rparr>" using l by (simp add: el)
    moreover have "elems h' b = elems h b" if "b \<notin> set (as)" "b \<noteq> a" for b
      using that l same by (auto simp: el)
    ultimately show ?thesis using run hq a h1 fresh unfolding holds_def by auto
  qed
qed

lemma queue_insert_rep:
  assumes "heap_rep h M" and "M q = Some ts"
  shows "\<exists>h'. queue_insert h q t = Inr h' \<and> heap_rep h' (M(q \<mapsto> ts @ [t]))"
proof -
  obtain A a h1 where new: "new_element h = (a, h1)" and A: "\<And>q ts. M q = Some ts \<Longrightarrow> holds h (A q) q ts"
    and fresh: "\<And>q. q \<in> dom M \<Longrightarrow> q < next_addr h \<and> a \<notin> set (A q)"
    and disj: "\<And>q q'. q \<in> dom M \<Longrightarrow> q' \<in> dom M \<Longrightarrow> q \<noteq> q' \<Longrightarrow> set (A q) \<inter> set (A q') = {}"
    and h1: "a < next_addr h1" "elems h1 a \<noteq> None" "\<And>b. b \<noteq> a \<Longrightarrow> elems h1 b = elems h b"
      "queues h1 = queues h" "next_addr h \<le> next_addr h1" "empty_element_ptr h1 = None"
    using new_element_ok [OF assms(1)] by metis
  have q: "q \<in> dom M" using assms(2) by auto
  obtain h' where run: "queue_insert h q t = Inr h'" and new_q: "holds h' (A q @ [a]) q (ts @ [t])"
    and other: "\<And>b. b \<notin> set (A q) \<Longrightarrow> b \<noteq> a \<Longrightarrow> elems h' b = elems h b"
    and qs: "\<And>p. p \<noteq> q \<Longrightarrow> queues h' p = queues h p" and nx: "next_addr h \<le> next_addr h'"
    and em: "empty_element_ptr h' = None"
    using queue_insert_holds [OF new A [OF assms(2)] conjunct2 [OF fresh [OF q]] h1] by blast
  have "heap_rep h' (M(q \<mapsto> ts @ [t]))"
  proof (rule heap_rep_upd [OF A _ disj new_q _ nx qs])
    fix p b assume p: "p \<in> dom M" "p \<noteq> q" "b \<in> set (A p)"
    then show "elems h' b = elems h b" using other [of b] disj [OF p(1) q p(2)] fresh [OF p(1)] by auto
  next
    fix p assume p: "p \<in> dom M" "p \<noteq> q"
    then show "set (A q @ [a]) \<inter> set (A p) = {}" using disj [OF q p(1)] fresh [OF p(1)] by auto
  qed (use fresh fresh [OF q] nx em in auto)
  with run show ?thesis by blast
qed

lemma holds_queue:
  assumes "holds h as q ts"
  shows "load_queue h q = Inr (the (queues h q))" and "q_first (the (queues h q)) = None \<longleftrightarrow> ts = []"
proof -
  obtain Q where Q: "queues h q = Some Q" "chain (elems h) (q_first Q) as"
    using assms by (auto simp: holds_def)
  then show "load_queue h q = Inr (the (queues h q))" by (simp add: load_queue_def)
  show "q_first (the (queues h q)) = None \<longleftrightarrow> ts = []"
    using Q holds_length [OF assms] by (cases as) auto
qed

lemma holds_first:
  assumes "holds h as q (t # ts)"
  obtains Q a as' e where "queues h q = Some Q" and "q_first Q = Some a" and "as = a # as'"
    and "load_elem h a = Inr e" and "qe_thread e = Some t" and "chain (elems h) (qe_next e) as'"
proof -
  obtain a as' where as: "as = a # as'" using holds_length [OF assms] by (cases as) auto
  obtain Q where Q: "queues h q = Some Q" "chain (elems h) (q_first Q) as"
    using assms by (auto simp: holds_def)
  then obtain e where e: "elems h a = Some e" "q_first Q = Some a" "chain (elems h) (qe_next e) as'"
    unfolding as by (auto split: option.splits)
  have "a < next_addr h" "map_option qe_thread (elems h a) = Some (Some t)"
    using assms unfolding as holds_def by auto
  then show ?thesis using that Q(1) e as by (simp add: load_elem_def)
qed

lemma queue_is_empty_rep:
  assumes "heap_rep h M" and "M q = Some ts"
  shows "queue_is_empty h q = Inr (ts = [])"
proof -
  obtain A where "holds h (A q) q ts" using heap_repE [OF assms(1)] assms(2) by metis
  then show ?thesis by (simp add: queue_is_empty_def holds_queue)
qed

lemma queue_first_rep:
  assumes "heap_rep h M" and "M q = Some ts"
  shows "queue_first h q = (case ts of [] \<Rightarrow> Inl NullDeref | t # _ \<Rightarrow> Inr (Some t))"
proof -
  obtain A where A: "holds h (A q) q ts" using heap_repE [OF assms(1)] assms(2) by metis
  show ?thesis
  proof (cases ts)
    case Nil
    then show ?thesis using holds_queue [OF A] by (simp add: queue_first_def deref_def)
  next
    case (Cons t us)
    with A have "holds h (A q) q (t # us)" by simp
    then show ?thesis
      by (rule holds_first) (simp add: queue_first_def load_queue_def Cons)
  qed
qed

lemma queue_remove_empty:
  assumes "heap_rep h M" and "M q = Some []"
  shows "queue_remove h q = Inl NullDeref"
proof -
  obtain A where "holds h (A q) q []" using heap_repE [OF assms(1)] assms(2) by metis
  from holds_queue [OF this] show ?thesis by (simp add: queue_remove_def deref_def)
qed

lemma queue_remove_rep:
  assumes "heap_rep h M" and "M q = Some (t # ts)"
  shows "\<exists>h'. queue_remove h q = Inr (Some t, h') \<and> heap_rep h' (M(q \<mapsto> ts))"
proof -
  obtain A where A: "\<And>q ts. M q = Some ts \<Longrightarrow> holds h (A q) q ts"
    and lt: "\<And>q. q \<in> dom M \<Longrightarrow> q < next_addr h"
    and disj: "\<And>q q'. q \<in> dom M \<Longrightarrow> q' \<in> dom M \<Longrightarrow> q \<noteq> q' \<Longrightarrow> set (A q) \<inter> set (A q') = {}"
    and em: "\<And>e. empty_element_ptr h = Some e \<Longrightarrow> e < next_addr h \<and> elems h e \<noteq> None
      \<and> (\<forall>q \<in> dom M. e \<notin> set (A q))"
    using heap_repE [OF assms(1)] by metis
  have q: "q \<in> dom M" using assms(2) by auto
  note hq = A [OF assms(2)]
  obtain Q a as' e where Q: "queues h q = Some Q" "q_first Q = Some a" and as: "A q = a # as'"
    and e: "load_elem h a = Inr e" "qe_thread e = Some t" "chain (elems h) (qe_next e) as'"
    using holds_first [OF hq] by metis
  define h2 where "h2 = set_elem (set_queue h q (Q\<lparr>q_first := qe_next e\<rparr>)) a
      \<lparr>qe_thread = None, qe_next = None\<rparr>"
  define h' where "h' = (case empty_element_ptr h2 of Some _ \<Rightarrow> free_elem h2 a
      | None \<Rightarrow> h2\<lparr>empty_element_ptr := Some a\<rparr>)"
  have run: "queue_remove h q = Inr (Some t, h')"
    unfolding queue_remove_def h'_def h2_def Let_def using Q e by (simp add: load_queue_def)
  have h': "queues h' = (queues h)(q \<mapsto> Q\<lparr>q_first := qe_next e\<rparr>)" "next_addr h' = next_addr h"
    "\<And>b. b \<noteq> a \<Longrightarrow> elems h' b = elems h b"
    by (simp_all add: h'_def h2_def set_elem_def set_queue_def free_elem_def split: option.splits)
  have a: "a \<notin> set as'" "distinct as'" "a < next_addr h" using hq by (auto simp: holds_def as)
  have keep: "\<forall>b \<in> set as'. elems h' b = elems h b" using a(1) h'(3) by metis
  have other: "a \<notin> set (A p)" if "p \<in> dom M" "p \<noteq> q" for p using disj [OF that(1) q that(2)] as by auto
  have "holds h' as' q ts"
  proof -
    have "chain (elems h') (qe_next e) as'" using e(3) by (simp only: chain_frame [OF keep])
    moreover have "map (\<lambda>b. map_option qe_thread (elems h' b)) as' =
        map (\<lambda>b. map_option qe_thread (elems h b)) as'"
      using keep by simp
    moreover have "map (\<lambda>b. map_option qe_thread (elems h b)) as' = map (\<lambda>t. Some (Some t)) ts"
      using hq unfolding holds_def as by simp
    moreover have "q_last Q = Some (last as')" if "as' \<noteq> []"
      using hq Q(1) that unfolding holds_def as by auto
    ultimately show ?thesis using a h'(1,2) hq unfolding holds_def as by auto
  qed
  note rest = this
  have "heap_rep h' (M(q \<mapsto> ts))"
  proof (rule heap_rep_upd [OF A lt disj rest])
    fix p b assume "p \<in> dom M" "p \<noteq> q" "b \<in> set (A p)"
    then show "elems h' b = elems h b" using other h'(3) by metis
  next
    fix p assume p: "p \<in> dom M" "p \<noteq> q"
    then show "set as' \<inter> set (A p) = {}" using disj [OF q p(1)] as by auto
  next
    fix x assume x: "empty_element_ptr h' = Some x"
    show "x < next_addr h' \<and> elems h' x \<noteq> None \<and> x \<notin> set as' \<and> (\<forall>p \<in> dom M. p \<noteq> q \<longrightarrow> x \<notin> set (A p))"
    proof (cases "empty_element_ptr h")
      case None
      then have "x = a" "elems h' a \<noteq> None"
        using x by (auto simp: h'_def h2_def set_elem_def set_queue_def)
      then show ?thesis using a h'(2) other by auto
    next
      case (Some y)
      then have "x = y" using x by (simp add: h'_def h2_def set_elem_def set_queue_def free_elem_def)
      moreover have "y \<notin> set (A q)" using em [OF Some] q by blast
      then have "y \<noteq> a" "y \<notin> set as'" by (auto simp: as)
      ultimately show ?thesis using em [OF Some] h' by auto
    qed
  qed (use h'(1,2) lt [OF q] in auto)
  with run show ?thesis by blast
qed

text \<open>Deleting a queue frees its elements and exactly the threads in it, in order.\<close>

lemma delete_loop_rep:
  assumes "chain (elems h) p as" and "distinct as" and "\<forall>a \<in> set as. a < next_addr h"
    and "map (\<lambda>a. map_option qe_thread (elems h a)) as = map (\<lambda>t. Some (Some t)) ts"
  shows "\<exists>h'. delete_loop h p = Inr (map Some ts, h') \<and> queues h' = queues h
    \<and> next_addr h' = next_addr h \<and> empty_element_ptr h' = empty_element_ptr h
    \<and> (\<forall>b. b \<notin> set as \<longrightarrow> elems h' b = elems h b)"
  using assms
proof (induction as arbitrary: h p ts)
  case Nil
  then show ?case by simp
next
  case (Cons a as)
  obtain e where e: "elems h a = Some e" "p = Some a" "chain (elems h) (qe_next e) as"
    using Cons.prems(1) by (auto split: option.splits)
  obtain t ts' where ts: "ts = t # ts'" using Cons.prems(4) by (cases ts) auto
  have t: "qe_thread e = Some t" using Cons.prems(4) e(1) ts by simp
  let ?h = "free_elem h a"
  have a: "a \<notin> set as" "distinct as" using Cons.prems(2) by auto
  have "map (\<lambda>b. map_option qe_thread (elems ?h b)) as = map (\<lambda>b. map_option qe_thread (elems h b)) as"
    using a(1) by (auto simp: free_elem_def)
  also have "\<dots> = map (\<lambda>t. Some (Some t)) ts'" using Cons.prems(4) ts by simp
  finally have "map (\<lambda>b. map_option qe_thread (elems ?h b)) as = map (\<lambda>t. Some (Some t)) ts'" .
  moreover have "chain (elems ?h) (qe_next e) as" using e(3) a(1) by (simp add: free_elem_def)
  moreover have "\<forall>b \<in> set as. b < next_addr ?h" using Cons.prems(3) by (simp add: free_elem_def)
  ultimately obtain h' where "delete_loop ?h (qe_next e) = Inr (map Some ts', h')"
    "queues h' = queues ?h" "next_addr h' = next_addr ?h" "empty_element_ptr h' = empty_element_ptr ?h"
    "\<forall>b. b \<notin> set as \<longrightarrow> elems h' b = elems ?h b"
    using Cons.IH [of ?h "qe_next e" ts'] a(2) by blast
  then show ?case
    using e Cons.prems(3) t ts by (auto simp: load_elem_def free_elem_def)
qed

lemma delete_queue_rep:
  assumes "heap_rep h M" and "M q = Some ts"
  shows "\<exists>h'. delete_queue h q = Inr (map Some ts, h') \<and> heap_rep h' (M(q := None))"
proof -
  obtain A where A: "\<And>q ts. M q = Some ts \<Longrightarrow> holds h (A q) q ts"
    and lt: "\<And>q. q \<in> dom M \<Longrightarrow> q < next_addr h"
    and disj: "\<And>q q'. q \<in> dom M \<Longrightarrow> q' \<in> dom M \<Longrightarrow> q \<noteq> q' \<Longrightarrow> set (A q) \<inter> set (A q') = {}"
    and em: "\<And>e. empty_element_ptr h = Some e \<Longrightarrow> e < next_addr h \<and> elems h e \<noteq> None
      \<and> (\<forall>q \<in> dom M. e \<notin> set (A q))"
    using heap_repE [OF assms(1)] by metis
  have q: "q \<in> dom M" using assms(2) by auto
  obtain Q where Q: "queues h q = Some Q" "chain (elems h) (q_first Q) (A q)"
    and hq: "distinct (A q)" "\<forall>a \<in> set (A q). a < next_addr h"
      "map (\<lambda>a. map_option qe_thread (elems h a)) (A q) = map (\<lambda>t. Some (Some t)) ts"
    using A [OF assms(2)] by (auto simp: holds_def)
  obtain h1 where h1: "delete_loop h (q_first Q) = Inr (map Some ts, h1)" "queues h1 = queues h"
    "next_addr h1 = next_addr h" "empty_element_ptr h1 = empty_element_ptr h"
    and same: "\<And>b. b \<notin> set (A q) \<Longrightarrow> elems h1 b = elems h b"
    using delete_loop_rep [OF Q(2) hq] by blast
  let ?h = "h1\<lparr>queues := (queues h1)(q := None)\<rparr>"
  have "heap_rep ?h (M(q := None))"
  proof (rule heap_repI [of _ _ A])
    fix p us assume p: "(M(q := None)) p = Some us"
    then have Mp: "M p = Some us" "p \<in> dom M" "p \<noteq> q" by (auto split: if_splits)
    have "\<forall>b \<in> set (A p). elems ?h b = elems h b"
      using same disj [OF Mp(2) q Mp(3)] by auto
    then show "holds ?h (A p) p us \<and> p < next_addr ?h"
      using holds_frame [OF A [OF Mp(1)], of ?h] h1 Mp(3) lt [OF Mp(2)] by simp
  next
    fix x assume "empty_element_ptr ?h = Some x"
    then have "empty_element_ptr h = Some x" using h1(4) by simp
    from em [OF this] show "x < next_addr ?h \<and> elems ?h x \<noteq> None \<and> (\<forall>p \<in> dom (M(q := None)). x \<notin> set (A p))"
      using h1(3) same [of x] q by auto
  qed (use disj in \<open>auto split: if_splits\<close>)
  then show ?thesis using Q(1) h1(1) by (simp add: delete_queue_def load_queue_def)
qed

section \<open>The interface of the scheduler\<close>

text \<open>Three loops of \<open>sthread_user.c\<close> have the same shape: they take all threads out of a queue and
  for each of them put one into one of two others. \<open>turn\<close> is what a loop does with a thread on the rest of
  the state: it says whether the first queue gets the thread, and which one. The recursion is bounded
  by a number of turns.\<close>

primrec drain ::
    "('h \<Rightarrow> 'q \<Rightarrow> bool c) \<Rightarrow> ('h \<Rightarrow> 'q \<Rightarrow> ('t option \<times> 'h) c) \<Rightarrow> ('h \<Rightarrow> 'q \<Rightarrow> 't \<Rightarrow> 'h c) \<Rightarrow>
     ('s \<Rightarrow> 't \<Rightarrow> (bool \<times> 't \<times> 's) c) \<Rightarrow> 'q \<Rightarrow> 'q \<Rightarrow> 'q \<Rightarrow> nat \<Rightarrow> 'h \<Rightarrow> 's \<Rightarrow> ('h \<times> 's) c" where
  "drain emp rem ins turn src yes no 0 h s = Inl Hangs"
| "drain emp rem ins turn src yes no (Suc n) h s =
     c_bind (emp h src) (\<lambda>e.
     if e then Inr (h, s)
     else
       c_bind (rem h src) (\<lambda>(tp, h1).
       c_bind (deref tp) (\<lambda>t.
       c_bind (turn s t) (\<lambda>(b, u, s1).
       c_bind (ins h1 (if b then yes else no) u) (\<lambda>h2.
       drain emp rem ins turn src yes no n h2 s1)))))"

text \<open>The same loop on lists: what it appends to the one and to the other.\<close>

fun sift :: "('s \<Rightarrow> 't \<Rightarrow> (bool \<times> 't \<times> 's) c) \<Rightarrow> 't list \<Rightarrow> 's \<Rightarrow> ('t list \<times> 't list \<times> 's) c" where
  "sift turn [] s = Inr ([], [], s)"
| "sift turn (t # ts) s =
     c_bind (turn s t) (\<lambda>(b, u, s1).
     c_bind (sift turn ts s1) (\<lambda>(ys, ns, s2). Inr (if b then (u # ys, ns, s2) else (ys, u # ns, s2))))"

locale fifo_heap =
  fixes rep :: "'h \<Rightarrow> ('q \<Rightarrow> 't list option) \<Rightarrow> bool"
    and mk :: "'h \<Rightarrow> 'q \<times> 'h"
    and ins :: "'h \<Rightarrow> 'q \<Rightarrow> 't \<Rightarrow> 'h c"
    and rem :: "'h \<Rightarrow> 'q \<Rightarrow> ('t option \<times> 'h) c"
    and emp :: "'h \<Rightarrow> 'q \<Rightarrow> bool c"
  assumes create_fresh: "rep h M \<Longrightarrow> fst (mk h) \<notin> dom M"
    and create_rep: "rep h M \<Longrightarrow> rep (snd (mk h)) (M(fst (mk h) \<mapsto> []))"
    and insert_rep: "rep h M \<Longrightarrow> M q = Some ts \<Longrightarrow>
      \<exists>h'. ins h q t = Inr h' \<and> rep h' (M(q \<mapsto> ts @ [t]))"
    and remove_rep: "rep h M \<Longrightarrow> M q = Some (t # ts) \<Longrightarrow>
      \<exists>h'. rem h q = Inr (Some t, h') \<and> rep h' (M(q \<mapsto> ts))"
    and is_empty_rep: "rep h M \<Longrightarrow> M q = Some ts \<Longrightarrow> emp h q = Inr (ts = [])"
begin

lemma drain_rep:
  assumes "rep h M" and "M src = Some ts" and "M yes = Some ys" and "M no = Some ns"
    and "src \<noteq> yes" and "src \<noteq> no" and "yes \<noteq> no" and "length ts < n"
  shows "case sift turn ts s of
      Inl e \<Rightarrow> drain emp rem ins turn src yes no n h s = Inl e
    | Inr (ys', ns', s') \<Rightarrow> \<exists>h'. drain emp rem ins turn src yes no n h s = Inr (h', s')
        \<and> rep h' (M(src \<mapsto> [], yes \<mapsto> ys @ ys', no \<mapsto> ns @ ns'))"
  using assms
proof (induction ts arbitrary: h s M ys ns n)
  case Nil
  then obtain m where "n = Suc m" by (cases n) auto
  then have "drain emp rem ins turn src yes no n h s = Inr (h, s)" using is_empty_rep [OF Nil.prems(1,2)] by simp
  moreover have "M(src \<mapsto> [], yes \<mapsto> ys, no \<mapsto> ns) = M" using Nil.prems by (auto simp: fun_eq_iff)
  ultimately show ?case using Nil.prems(1) by simp
next
  case (Cons t ts)
  then obtain m where n: "n = Suc m" "length ts < m" by (cases n) auto
  obtain h1 where h1: "rem h src = Inr (Some t, h1)" "rep h1 (M(src \<mapsto> ts))"
    using remove_rep [OF Cons.prems(1,2)] by blast
  show ?case
  proof (cases "turn s t")
    case (Inl e)
    then show ?thesis using is_empty_rep [OF Cons.prems(1,2)] n(1) h1(1) by simp
  next
    case (Inr r)
    then obtain b u s1 where r: "turn s t = Inr (b, u, s1)" by (cases r) auto
    define dest where "dest = (if b then yes else no)"
    define old where "old = (if b then ys else ns)"
    have "(M(src \<mapsto> ts)) dest = Some old" using Cons.prems(3-7) by (simp add: dest_def old_def)
    then obtain h2 where h2: "ins h1 dest u = Inr h2" "rep h2 (M(src \<mapsto> ts, dest \<mapsto> old @ [u]))"
      using insert_rep [OF h1(2)] by blast
    let ?M = "M(src \<mapsto> ts, dest \<mapsto> old @ [u])"
    have M: "?M src = Some ts" "?M yes = Some (if b then ys @ [u] else ys)"
      "?M no = Some (if b then ns else ns @ [u])"
      using Cons.prems(3-7) by (auto simp: dest_def old_def)
    have run: "drain emp rem ins turn src yes no n h s = drain emp rem ins turn src yes no m h2 s1"
      using is_empty_rep [OF Cons.prems(1,2)] n(1) h1(1) h2(1) r by (simp add: dest_def)
    have upd: "?M(src \<mapsto> [], yes \<mapsto> (if b then ys @ [u] else ys) @ ys', no \<mapsto> (if b then ns else ns @ [u]) @ ns') =
        M(src \<mapsto> [], yes \<mapsto> ys @ (if b then u # ys' else ys'), no \<mapsto> ns @ (if b then ns' else u # ns'))" for ys' ns'
      using Cons.prems(5-7) by (auto simp: fun_eq_iff dest_def)
    from Cons.IH [OF h2(2) M Cons.prems(5-7) n(2), of s1]
    show ?thesis unfolding run upd by (cases "sift turn ts s1") (auto simp: r)
  qed
qed

end

interpretation qh: fifo_heap heap_rep create_queue queue_insert queue_remove queue_is_empty
  by unfold_locales
    (rule create_queue_rep queue_insert_rep queue_remove_rep queue_is_empty_rep, assumption+)+

end
