(* ===== verification/Sthread_User.thy ===== *)
theory Sthread_User
  imports Thread_Queue
begin

text \<open>
  User-level threads, \<open>src/sthread_lib/sthread_user.c\<close>: the scheduler with its five lists, joining,
  sleeping, mutexes, semaphores, readers/writer locks and monitors.

  The lists of threads are HOL lists; \<open>Thread_Queue\<close> shows that the queues of \<open>queue.c\<close> behave
  like them: \<open>queue_insert\<close> appends, \<open>queue_remove\<close> takes the head and dereferences a null pointer
  on an empty queue.

  A context switch leaves a function in its middle. What a thread has still to do when it is
  resumed is its stack, a list of frames, kept in \<open>saved_ctx\<close> while another thread runs;
  \<open>stack\<close> is that of the active thread. \<open>sthread_switch\<close> exchanges the two. A thread with an empty
  stack executes the program's own code, which is not modelled and may call any operation. The
  results of operations are in \<open>result\<close>, as they may be produced after a switch.

  An operation, and the part of it behind a switch, runs in one step. Only the operations on readers/writer
  locks are cut further, behind each test of their counters and each update, because these are
  not protected from a time slice that ends between them. Elsewhere the model has no time slice that
  ends inside the code of the library. The spin locks of the objects are therefore
  free at the beginning of each step, and finding one taken means to spin for ever. \<open>spl\<close> is
  what \<open>splx\<close> sets. The prints are not modelled.
\<close>

section \<open>Data\<close>

type_synonym void_ptr = nat

definition NULL :: void_ptr where
  "NULL = 0"

text \<open>What is left of the operations when a thread is switched away, one constructor for each place
  behind a switch or behind a call that may switch.\<close>

datatype frame =
    Start                             \<comment> \<open>\<open>sthread_aux_start\<close>\<close>
  | Splx_low                          \<comment> \<open>\<open>splx(LOW)\<close> and return\<close>
  | Wake_sleepers                     \<comment> \<open>the end of the dispatcher, after its yield\<close>
  | Slept                             \<comment> \<open>the end of \<open>sleep\<close>\<close>
  | After_join thread_ptr "nat option" \<comment> \<open>the end of \<open>join\<close>: target and \<open>value_ptr\<close>\<close>
  | Exited                            \<comment> \<open>the end of \<open>exit\<close>\<close>
  | No_return                         \<comment> \<open>the end of \<open>sthread_aux_start\<close>, below which the stack is cleared\<close>
  | Rd_test nat                       \<comment> \<open>\<open>rdlock\<close> with the mutex taken\<close>
  | Rd_wait nat                       \<comment> \<open>\<open>rdlock\<close> behind its test: a reader that waits\<close>
  | Rd_count nat                      \<comment> \<open>\<open>rdlock\<close> behind its test: one reader more\<close>
  | Wr_test nat                       \<comment> \<open>\<open>wrlock\<close> with the mutex taken\<close>
  | Wr_wait nat                       \<comment> \<open>\<open>wrlock\<close> behind its test: a writer that waits\<close>
  | Wr_take nat                       \<comment> \<open>\<open>wrlock\<close> behind its test: the lock is taken\<close>
  | Rw_release nat                    \<comment> \<open>\<open>unlock\<close> of a readers/writer lock with the mutex taken\<close>
  | Rw_written nat                    \<comment> \<open>\<open>unlock\<close> of a writer that is counted out\<close>
  | Rw_loop nat int                   \<comment> \<open>the loop that lets readers go, and its counter\<close>
  | Rw_read nat                       \<comment> \<open>\<open>unlock\<close> of a reader that is counted out\<close>
  | Rw_pass nat                       \<comment> \<open>\<open>unlock\<close> behind its test: a writer goes on\<close>
  | Rw_relock nat                     \<comment> \<open>behind the semaphore: take the mutex again\<close>
  | Rw_unlock nat                     \<comment> \<open>release the mutex and return\<close>

record sthread =
  saved_ctx :: "frame list"
  start_routine_ptr :: void_ptr
  wake_time :: int
  join_tid :: int
  join_ret :: void_ptr
  args :: void_ptr
  tid :: int
  clientID :: u32
  prio :: int
  nice :: int
  state :: u32
  vruntime :: u32
  runtime :: u32
  min_delay :: int
  initprio :: int
  waittime :: u32
  sleeptime :: u32

record sthread_mutex =
  m_l :: int
  m_thr :: "thread_ptr option"
  m_queue :: "thread_ptr list"

record sthread_sem =
  s_counter :: int
  s_l :: int
  s_queue :: "thread_ptr list"

record sthread_rwlock =
  nleitores :: int
  em_escrita :: int
  leitores_espera :: int
  escritores_espera :: int
  rw_m :: nat
  rw_leitores :: nat
  rw_escritores :: nat

record sthread_mon =
  mon_mutex :: nat
  mon_queue :: "thread_ptr list"

text \<open>The state: the threads by address, the lists, the active thread with its stack, the objects
  for synchronisation by index (\<open>None\<close> once freed), the memory in which \<open>join\<close> leaves its
  results, and the result of the last operation.\<close>

record sched =
  threads :: "thread_ptr \<Rightarrow> sthread option"
  next_ptr :: thread_ptr
  exe_thr_list :: "thread_ptr list"
  dead_thr_list :: "thread_ptr list"
  sleep_thr_list :: "thread_ptr list"
  join_thr_list :: "thread_ptr list"
  zombie_thr_list :: "thread_ptr list"
  active_thr :: thread_ptr
  stack :: "frame list"
  tid_gen :: int
  Clock :: int
  spl :: int
  mutexes :: "sthread_mutex option list"
  sems :: "sthread_sem option list"
  rwlocks :: "sthread_rwlock option list"
  mons :: "sthread_mon option list"
  user_mem :: "nat \<Rightarrow> void_ptr"
  result :: int

definition HIGH :: int where
  "HIGH = 1"

definition LOW :: int where
  "LOW = 0"

definition CLOCK_TICK :: int where
  "CLOCK_TICK = 10000"

definition get_thr :: "sched \<Rightarrow> thread_ptr \<Rightarrow> sthread c" where
  "get_thr s t = (case threads s t of None \<Rightarrow> Inl WildPointer | Some x \<Rightarrow> Inr x)"

definition put_thr :: "sched \<Rightarrow> thread_ptr \<Rightarrow> sthread \<Rightarrow> sched" where
  "put_thr s t x = s\<lparr>threads := (threads s)(t \<mapsto> x)\<rparr>"

definition upd_thr :: "sched \<Rightarrow> thread_ptr \<Rightarrow> (sthread \<Rightarrow> sthread) \<Rightarrow> sched c" where
  "upd_thr s t f = c_bind (get_thr s t) (\<lambda>x. Inr (put_thr s t (f x)))"

text \<open>Objects by index.\<close>

definition get_obj :: "'a option list \<Rightarrow> nat \<Rightarrow> 'a c" where
  "get_obj xs i = (if i < length xs then (case xs ! i of None \<Rightarrow> Inl WildPointer | Some x \<Rightarrow> Inr x)
     else Inl WildPointer)"

section \<open>Switching\<close>

definition push_frame :: "frame \<Rightarrow> sched \<Rightarrow> sched" where
  "push_frame f s = s\<lparr>stack := f # stack s\<rparr>"

definition sthread_switch :: "sched \<Rightarrow> thread_ptr \<Rightarrow> thread_ptr \<Rightarrow> sched c" where
  "sthread_switch s old new =
     (if old = new then Inr s
      else
        c_bind (upd_thr s old (\<lambda>x. x\<lparr>saved_ctx := stack s\<rparr>)) (\<lambda>s1.
        c_bind (get_thr s1 new) (\<lambda>y. Inr (s1\<lparr>stack := saved_ctx y\<rparr>))))"

text \<open>\<open>active_thr = queue_remove(exe_thr_list)\<close>.\<close>

definition next_active :: "sched \<Rightarrow> sched c" where
  "next_active s =
     (case exe_thr_list s of [] \<Rightarrow> Inl NullDeref
      | t # ts \<Rightarrow> Inr (s\<lparr>active_thr := t, exe_thr_list := ts\<rparr>))"

text \<open>The tail that most blocking operations have: make the first executable thread the active one,
  set its state to 0 and switch from \<open>old\<close> to it; \<open>old\<close> goes on with the frame \<open>f\<close>.\<close>

definition switch_to_next :: "sched \<Rightarrow> frame \<Rightarrow> sched c" where
  "switch_to_next s f =
     (let old = active_thr s in
      c_bind (next_active s) (\<lambda>s1.
      c_bind (upd_thr s1 (active_thr s1) (\<lambda>x. x\<lparr>state := 0\<rparr>)) (\<lambda>s2.
      sthread_switch (push_frame f s2) old (active_thr s2))))"

section \<open>Creating and scheduling\<close>

definition sthread_nice :: "sched \<Rightarrow> int \<Rightarrow> sched c" where
  "sthread_nice s n =
     c_bind (if 0 \<le> n \<and> n \<le> 10 then upd_thr s (active_thr s) (\<lambda>x. x\<lparr>nice := n\<rparr>) else Inr s) (\<lambda>s1.
     c_bind (get_thr s1 (active_thr s1)) (\<lambda>x.
     c_bind (c_int (nice x + initprio x)) (\<lambda>r. Inr (s1\<lparr>result := r\<rparr>))))"

text \<open>\<open>mem\<close> is what the memory of the thread holds before.\<close>

definition sthread_user_init :: "sthread \<Rightarrow> sched" where
  "sthread_user_init mem =
     \<lparr>threads = [1 \<mapsto> mem\<lparr>start_routine_ptr := NULL, args := NULL, saved_ctx := [], wake_time := 0,
        join_tid := 0, join_ret := NULL, tid := 1, clientID := 0, prio := 10, nice := 0, state := 0,
        vruntime := 0, min_delay := 0, waittime := 0, sleeptime := 0, initprio := 0\<rparr>],
      next_ptr = 2, exe_thr_list = [], dead_thr_list = [], sleep_thr_list = [], join_thr_list = [],
      zombie_thr_list = [], active_thr = 1, stack = [], tid_gen = 2, Clock = 1, spl = LOW,
      mutexes = [], sems = [], rwlocks = [], mons = [], user_mem = (\<lambda>_. NULL), result = 0\<rparr>"

text \<open>The fields of a new thread. A priority out of range leaves what the memory held.\<close>

definition new_sthread :: "sthread \<Rightarrow> void_ptr \<Rightarrow> void_ptr \<Rightarrow> int \<Rightarrow> int \<Rightarrow> int \<Rightarrow> int \<Rightarrow> sthread" where
  "new_sthread mem start_routine arg client priority nice0 i =
     (let x = mem\<lparr>args := arg, start_routine_ptr := start_routine, wake_time := 0, join_tid := 0,
                join_ret := NULL, saved_ctx := [Start], clientID := of_int client, nice := nice0,
                state := 0, vruntime := 0, min_delay := 0, waittime := 0, sleeptime := 0, tid := i\<rparr> in
      if 1 \<le> priority \<and> priority \<le> 10 then x\<lparr>prio := priority, initprio := priority\<rparr> else x)"

definition sthread_user_create ::
    "sched \<Rightarrow> sthread \<Rightarrow> void_ptr \<Rightarrow> void_ptr \<Rightarrow> int \<Rightarrow> int \<Rightarrow> int \<Rightarrow> (thread_ptr \<times> sched) c" where
  "sthread_user_create s mem start_routine arg client priority nice0 =
     (let t = next_ptr s in
      c_bind (c_int (tid_gen s + 1)) (\<lambda>g.
      Inr (t, s\<lparr>threads := (threads s)(t \<mapsto>
              new_sthread mem start_routine arg client priority nice0 (tid_gen s)),
            next_ptr := next_ptr s + 1, tid_gen := g,
            exe_thr_list := exe_thr_list s @ [t], spl := LOW\<rparr>)))"

definition sthread_user_free :: "sched \<Rightarrow> thread_ptr \<Rightarrow> sched c" where
  "sthread_user_free s t =
     c_bind (get_thr s t) (\<lambda>x. Inr (s\<lparr>threads := (threads s)(t := None)\<rparr>))"

text \<open>The threads that \<open>delete_queue\<close> frees.\<close>

fun free_all :: "thread_ptr list \<Rightarrow> sched \<Rightarrow> sched c" where
  "free_all [] s = Inr s"
| "free_all (t # ts) s = c_bind (sthread_user_free s t) (\<lambda>s1. free_all ts s1)"

text \<open>The last thread leaves: the dead threads and itself are freed and the program ends.\<close>

definition exit_program :: "sched \<Rightarrow> sched c" where
  "exit_program s =
     c_bind (free_all (dead_thr_list s) s) (\<lambda>s1.
     c_bind (sthread_user_free s1 (active_thr s1)) (\<lambda>_. Inl (ExitCall 0)))"

text \<open>The loop of \<open>sthread_user_exit\<close> over the threads that wait in \<open>join\<close>: those that wait for the
  active thread become executable.\<close>

fun exit_loop :: "void_ptr \<Rightarrow> thread_ptr list \<Rightarrow> thread_ptr list \<Rightarrow> bool \<Rightarrow> sched \<Rightarrow> (bool \<times> sched) c" where
  "exit_loop ret [] tmp is_zombie s = Inr (is_zombie, s\<lparr>join_thr_list := tmp\<rparr>)"
| "exit_loop ret (t # ts) tmp is_zombie s =
     c_bind (get_thr s t) (\<lambda>x.
     c_bind (get_thr s (active_thr s)) (\<lambda>a.
     if join_tid x = tid a then
       let s1 = put_thr s t (x\<lparr>join_ret := ret\<rparr>) in
       exit_loop ret ts tmp False (s1\<lparr>exe_thr_list := exe_thr_list s1 @ [t]\<rparr>)
     else exit_loop ret ts (tmp @ [t]) is_zombie s))"

definition sthread_user_exit :: "sched \<Rightarrow> void_ptr \<Rightarrow> sched c" where
  "sthread_user_exit s ret =
     c_bind (exit_loop ret (join_thr_list s) [] True (s\<lparr>spl := HIGH\<rparr>)) (\<lambda>(is_zombie, s1).
     let s2 = (if is_zombie then s1\<lparr>zombie_thr_list := zombie_thr_list s1 @ [active_thr s1]\<rparr>
               else s1\<lparr>dead_thr_list := dead_thr_list s1 @ [active_thr s1]\<rparr>) in
     if exe_thr_list s2 = [] then exit_program s2
     else
       let old = active_thr s2 in
       c_bind (next_active s2) (\<lambda>s3.
       sthread_switch (push_frame Exited s3) old (active_thr s3)))"

text \<open>\<open>qsort\<close> is asked to sort as many elements as the size of a queue divided by that of a thread.
  Any number but zero would make it move memory behind the queue header.\<close>

definition SIZEOF_QUEUE_T :: nat where
  "SIZEOF_QUEUE_T = 8"

definition SIZEOF_STHREAD :: nat where
  "SIZEOF_STHREAD = 68"

definition int_cmp :: "sthread \<Rightarrow> sthread \<Rightarrow> int" where
  "int_cmp ia ib = sint (vruntime ia - vruntime ib)"

definition qsort_exe :: "sched \<Rightarrow> sched c" where
  "qsort_exe s = (if SIZEOF_QUEUE_T div SIZEOF_STHREAD = 0 then Inr s else Inl OutOfBounds)"

definition sthread_user_yield :: "sched \<Rightarrow> sched c" where
  "sthread_user_yield s =
     c_bind (upd_thr (s\<lparr>spl := HIGH\<rparr>) (active_thr s) (\<lambda>x. x\<lparr>state := 0\<rparr>)) (\<lambda>s1.
     c_bind (qsort_exe (s1\<lparr>exe_thr_list := exe_thr_list s1 @ [active_thr s1]\<rparr>)) (\<lambda>s2.
     switch_to_next s2 Splx_low))"

text \<open>The three loops of the dispatcher that update the statistics of the threads in a list and count
  those of the active thread's client.\<close>

fun tick_loop :: "(sthread \<Rightarrow> sthread) \<Rightarrow> thread_ptr list \<Rightarrow> int \<Rightarrow> sched \<Rightarrow> (int \<times> sched) c" where
  "tick_loop f [] n s = Inr (n, s)"
| "tick_loop f (t # ts) n s =
     c_bind (upd_thr s t (\<lambda>x. (f x)\<lparr>state := state x + 1\<rparr>)) (\<lambda>s1.
     c_bind (get_thr s1 t) (\<lambda>x.
     c_bind (get_thr s1 (active_thr s1)) (\<lambda>a.
     tick_loop f ts (if clientID x = clientID a then n + 1 else n) s1)))"

fun wake_loop :: "thread_ptr list \<Rightarrow> thread_ptr list \<Rightarrow> sched \<Rightarrow> sched c" where
  "wake_loop [] tmp s = Inr (s\<lparr>sleep_thr_list := tmp\<rparr>)"
| "wake_loop (t # ts) tmp s =
     c_bind (get_thr s t) (\<lambda>x.
     if wake_time x = Clock s then
       let s1 = put_thr s t (x\<lparr>wake_time := 0, state := 0\<rparr>) in
       wake_loop ts tmp (s1\<lparr>exe_thr_list := exe_thr_list s1 @ [t]\<rparr>)
     else wake_loop ts (tmp @ [t]) s)"

definition wake_sleepers :: "sched \<Rightarrow> sched c" where
  "wake_sleepers s = wake_loop (sleep_thr_list s) [] s"

definition sthread_user_dispatcher :: "sched \<Rightarrow> sched c" where
  "sthread_user_dispatcher s =
     c_bind (c_int (Clock s + 1)) (\<lambda>clk.
     c_bind (get_thr s (active_thr s)) (\<lambda>a.
     c_bind (c_int (min_delay a + 1)) (\<lambda>d.
     let s1 = put_thr (s\<lparr>Clock := clk\<rparr>) (active_thr s) (a\<lparr>min_delay := d, runtime := runtime a + 1\<rparr>) in
     c_bind (tick_loop (\<lambda>x. x\<lparr>sleeptime := sleeptime x + 1\<rparr>) (sleep_thr_list s1) 0 s1) (\<lambda>(n1, s2).
     c_bind (tick_loop (\<lambda>x. x\<lparr>sleeptime := sleeptime x + 1\<rparr>) (join_thr_list s2) n1 s2) (\<lambda>(n2, s3).
     c_bind (tick_loop (\<lambda>x. x\<lparr>waittime := waittime x + 1\<rparr>) (exe_thr_list s3) n2 s3) (\<lambda>(n, s4).
     c_bind (get_thr s4 (active_thr s4)) (\<lambda>b.
     c_bind (c_int (prio b + nice b)) (\<lambda>p.
     c_bind (c_int (p * n)) (\<lambda>v.
     let s5 = put_thr s4 (active_thr s4) (b\<lparr>vruntime := of_int v, state := state b + 1\<rparr>) in
     if exe_thr_list s5 \<noteq> [] \<and> min_delay b \<ge> 5
     then sthread_user_yield (push_frame Wake_sleepers s5)
     else wake_sleepers s5)))))))))"

section \<open>Joining and sleeping\<close>

definition store_ret :: "sched \<Rightarrow> nat option \<Rightarrow> void_ptr \<Rightarrow> sched c" where
  "store_ret s value_ptr v =
     c_bind (deref value_ptr) (\<lambda>p. Inr (s\<lparr>user_mem := (user_mem s)(p := v)\<rparr>))"

text \<open>The loop of \<open>join\<close> over the zombies. Every other zombie is replaced by the target itself.\<close>

fun zombie_loop ::
    "thread_ptr \<Rightarrow> nat option \<Rightarrow> thread_ptr list \<Rightarrow> thread_ptr list \<Rightarrow> bool \<Rightarrow> sched \<Rightarrow> (bool \<times> sched) c"
where
  "zombie_loop thread value_ptr [] tmp found s = Inr (found, s\<lparr>zombie_thr_list := tmp\<rparr>)"
| "zombie_loop thread value_ptr (z # zs) tmp found s =
     c_bind (get_thr s z) (\<lambda>zthread.
     c_bind (get_thr s thread) (\<lambda>x.
     if tid x = tid zthread then
       c_bind (store_ret s value_ptr (join_ret x)) (\<lambda>s1.
       zombie_loop thread value_ptr zs tmp True (s1\<lparr>dead_thr_list := dead_thr_list s1 @ [thread]\<rparr>))
     else zombie_loop thread value_ptr zs (tmp @ [thread]) found s))"

fun has_tid :: "int \<Rightarrow> thread_ptr list \<Rightarrow> sched \<Rightarrow> bool c" where
  "has_tid i [] s = Inr False"
| "has_tid i (t # ts) s = c_bind (get_thr s t) (\<lambda>x. if tid x = i then Inr True else has_tid i ts s)"

definition sthread_user_join :: "sched \<Rightarrow> thread_ptr \<Rightarrow> nat option \<Rightarrow> sched c" where
  "sthread_user_join s thread value_ptr =
     c_bind (zombie_loop thread value_ptr (zombie_thr_list s) [] False (s\<lparr>spl := HIGH\<rparr>)) (\<lambda>(found, s1).
     if found then Inr (s1\<lparr>spl := LOW, result := 0\<rparr>)
     else
       c_bind (get_thr s1 thread) (\<lambda>x.
       c_bind (has_tid (tid x) (active_thr s1 # exe_thr_list s1 @ sleep_thr_list s1 @ join_thr_list s1) s1)
         (\<lambda>found'.
       if \<not> found' then Inr (s1\<lparr>spl := LOW, result := -1\<rparr>)
       else
         c_bind (upd_thr s1 (active_thr s1) (\<lambda>a. a\<lparr>join_tid := tid x, state := 0\<rparr>)) (\<lambda>s2.
         switch_to_next (s2\<lparr>join_thr_list := join_thr_list s2 @ [active_thr s2]\<rparr>)
           (After_join thread value_ptr)))))"

text \<open>The division of C rounds towards zero.\<close>

definition c_div :: "int \<Rightarrow> int \<Rightarrow> int" where
  "c_div a b = sgn a * sgn b * (\<bar>a\<bar> div \<bar>b\<bar>)"

definition sthread_user_sleep :: "sched \<Rightarrow> int \<Rightarrow> sched c" where
  "sthread_user_sleep s time =
     (let num_ticks = c_div time CLOCK_TICK in
      if num_ticks = 0 then Inr (s\<lparr>spl := LOW, result := 0\<rparr>)
      else
        c_bind (c_int (Clock s + num_ticks)) (\<lambda>w.
        c_bind (upd_thr (s\<lparr>spl := HIGH\<rparr>) (active_thr s) (\<lambda>x. x\<lparr>wake_time := w, state := 0\<rparr>)) (\<lambda>s1.
        let s2 = s1\<lparr>sleep_thr_list := sleep_thr_list s1 @ [active_thr s1]\<rparr> in
        if exe_thr_list s2 = [] then exit_program s2
        else switch_to_next s2 Slept)))"

end
