(* ===== verification/Sthread_Sync.thy ===== *)
theory Sthread_Sync
  imports Sthread_User
begin

text \<open>
  Synchronisation on user-level threads, \<open>src/sthread_lib/sthread_user.c\<close> from line 435 on, with
  the test-and-set locks of \<open>src/sthread_lib/sthread_time_slice.c\<close>; then the steps of a program.

  Objects are allocated at the end of the list of their kind, and a pointer to one is its index.
  A readers/writer lock is a mutex and two semaphores, and its operations may be switched away in
  any of the calls of these: what is left of them is a frame.

  \<open>sthread_step\<close> is one step of a program: a call of an operation by the active thread, the rest of
  an operation that a thread was resumed in, or a clock tick while these are let through.
\<close>

section \<open>Spin locks\<close>

text \<open>The value that the lock had, and that which it has now.\<close>

definition atomic_test_and_set :: "int \<Rightarrow> int \<times> int" where
  "atomic_test_and_set l = (if l = 0 then (0, 1) else (l, l))"

definition atomic_clear :: "int \<Rightarrow> int" where
  "atomic_clear l = 0"

text \<open>\<open>while(atomic_test_and_set(l)) {}\<close>. A second turn finds what the first one did.\<close>

definition spin_lock :: "int \<Rightarrow> int c" where
  "spin_lock l = (case atomic_test_and_set l of (old, new) \<Rightarrow> if old = 0 then Inr new else Inl Hangs)"

section \<open>Mutexes\<close>

definition put_mutex :: "sched \<Rightarrow> nat \<Rightarrow> sthread_mutex \<Rightarrow> sched" where
  "put_mutex s i m = s\<lparr>mutexes := (mutexes s)[i := Some m]\<rparr>"

definition sthread_user_mutex_init :: "sched \<Rightarrow> nat \<times> sched" where
  "sthread_user_mutex_init s =
     (length (mutexes s),
      s\<lparr>mutexes := mutexes s @ [Some \<lparr>m_l = 0, m_thr = None, m_queue = []\<rparr>]\<rparr>)"

definition sthread_user_mutex_free :: "sched \<Rightarrow> nat \<Rightarrow> sched c" where
  "sthread_user_mutex_free s lock =
     c_bind (get_obj (mutexes s) lock) (\<lambda>m.
     c_bind (free_all (m_queue m) s) (\<lambda>s1. Inr (s1\<lparr>mutexes := (mutexes s1)[lock := None]\<rparr>)))"

text \<open>A thread that finds the mutex taken enters its queue and the list of executable threads.\<close>

definition sthread_user_mutex_lock :: "sched \<Rightarrow> nat \<Rightarrow> sched c" where
  "sthread_user_mutex_lock s lock =
     c_bind (get_obj (mutexes s) lock) (\<lambda>m.
     c_bind (spin_lock (m_l m)) (\<lambda>l.
     case m_thr m of
       None \<Rightarrow> Inr (put_mutex s lock (m\<lparr>m_thr := Some (active_thr s), m_l := atomic_clear l\<rparr>))
     | Some _ \<Rightarrow>
         let s1 = put_mutex s lock (m\<lparr>m_queue := m_queue m @ [active_thr s], m_l := atomic_clear l\<rparr>) in
         switch_to_next (s1\<lparr>spl := HIGH, exe_thr_list := exe_thr_list s1 @ [active_thr s1]\<rparr>) Splx_low))"

definition sthread_user_mutex_unlock :: "sched \<Rightarrow> nat \<Rightarrow> sched c" where
  "sthread_user_mutex_unlock s lock =
     c_bind (get_obj (mutexes s) lock) (\<lambda>m.
     if m_thr m \<noteq> Some (active_thr s) then Inr s
     else
       c_bind (spin_lock (m_l m)) (\<lambda>l.
       case m_queue m of
         [] \<Rightarrow> Inr (put_mutex s lock (m\<lparr>m_thr := None, m_l := atomic_clear l\<rparr>))
       | t # ts \<Rightarrow>
           c_bind (upd_thr (put_mutex s lock (m\<lparr>m_thr := Some t, m_queue := ts, m_l := atomic_clear l\<rparr>)) t
             (\<lambda>x. x\<lparr>state := 0\<rparr>)) (\<lambda>s1.
           Inr (s1\<lparr>exe_thr_list := exe_thr_list s1 @ [t]\<rparr>))))"

section \<open>Semaphores\<close>

definition put_sem :: "sched \<Rightarrow> nat \<Rightarrow> sthread_sem \<Rightarrow> sched" where
  "put_sem s i m = s\<lparr>sems := (sems s)[i := Some m]\<rparr>"

definition sthread_user_sem_init :: "sched \<Rightarrow> u32 \<Rightarrow> nat \<times> sched" where
  "sthread_user_sem_init s initial_count =
     (length (sems s),
      s\<lparr>sems := sems s @ [Some \<lparr>s_counter = sint initial_count, s_l = 0, s_queue = []\<rparr>]\<rparr>)"

definition sthread_user_sem_wait :: "sched \<Rightarrow> nat \<Rightarrow> sched c" where
  "sthread_user_sem_wait s i =
     c_bind (get_obj (sems s) i) (\<lambda>m.
     c_bind (spin_lock (s_l m)) (\<lambda>l.
     if s_counter m > 0 then Inr (put_sem s i (m\<lparr>s_counter := s_counter m - 1, s_l := atomic_clear l\<rparr>))
     else
       c_bind (upd_thr s (active_thr s) (\<lambda>x. x\<lparr>state := 0\<rparr>)) (\<lambda>s1.
       let s2 = put_sem s1 i (m\<lparr>s_queue := s_queue m @ [active_thr s1], s_l := atomic_clear l\<rparr>) in
       switch_to_next (s2\<lparr>spl := HIGH\<rparr>) Splx_low)))"

definition sthread_user_sem_post :: "sched \<Rightarrow> nat \<Rightarrow> sched c" where
  "sthread_user_sem_post s i =
     c_bind (get_obj (sems s) i) (\<lambda>m.
     c_bind (spin_lock (s_l m)) (\<lambda>l.
     case s_queue m of
       t # ts \<Rightarrow>
         c_bind (upd_thr (put_sem s i (m\<lparr>s_queue := ts, s_l := atomic_clear l\<rparr>)) t
           (\<lambda>x. x\<lparr>state := 0\<rparr>)) (\<lambda>s1.
         Inr (s1\<lparr>exe_thr_list := exe_thr_list s1 @ [t]\<rparr>))
     | [] \<Rightarrow>
         c_bind (c_int (s_counter m + 1)) (\<lambda>n.
         Inr (put_sem s i (m\<lparr>s_counter := n, s_l := atomic_clear l\<rparr>)))))"

definition sthread_user_sem_destroy :: "sched \<Rightarrow> nat \<Rightarrow> sched c" where
  "sthread_user_sem_destroy s i =
     c_bind (get_obj (sems s) i) (\<lambda>m.
     c_bind (free_all (s_queue m) s) (\<lambda>s1. Inr (s1\<lparr>sems := (sems s1)[i := None]\<rparr>)))"

section \<open>Readers/writer locks\<close>

definition put_rwlock :: "sched \<Rightarrow> nat \<Rightarrow> sthread_rwlock \<Rightarrow> sched" where
  "put_rwlock s i r = s\<lparr>rwlocks := (rwlocks s)[i := Some r]\<rparr>"

definition sthread_user_rwlock_destroy :: "sched \<Rightarrow> nat \<Rightarrow> sched c" where
  "sthread_user_rwlock_destroy s i =
     c_bind (get_obj (rwlocks s) i) (\<lambda>r.
     c_bind (sthread_user_mutex_free s (rw_m r)) (\<lambda>s1.
     c_bind (sthread_user_sem_destroy s1 (rw_leitores r)) (\<lambda>s2.
     c_bind (sthread_user_sem_destroy s2 (rw_escritores r)) (\<lambda>s3.
     Inr (s3\<lparr>rwlocks := (rwlocks s3)[i := None]\<rparr>)))))"

definition sthread_user_rwlock_init :: "sched \<Rightarrow> nat \<times> sched" where
  "sthread_user_rwlock_init s =
     (let (leitores, s1) = sthread_user_sem_init s 0;
          (escritores, s2) = sthread_user_sem_init s1 0;
          (m, s3) = sthread_user_mutex_init s2 in
      (length (rwlocks s3),
       s3\<lparr>rwlocks := rwlocks s3 @ [Some \<lparr>nleitores = 0, em_escrita = 0, leitores_espera = 0,
            escritores_espera = 0, rw_m = m, rw_leitores = leitores, rw_escritores = escritores\<rparr>]\<rparr>))"

text \<open>Each operation takes the mutex; the frames hold what follows.\<close>

definition rwlock_enter :: "frame \<Rightarrow> sched \<Rightarrow> nat \<Rightarrow> sched c" where
  "rwlock_enter f s i =
     c_bind (get_obj (rwlocks s) i) (\<lambda>r. sthread_user_mutex_lock (push_frame f s) (rw_m r))"

definition sthread_user_rwlock_rdlock :: "sched \<Rightarrow> nat \<Rightarrow> sched c" where
  "sthread_user_rwlock_rdlock s i = rwlock_enter (Rd_test i) s i"

definition sthread_user_rwlock_wrlock :: "sched \<Rightarrow> nat \<Rightarrow> sched c" where
  "sthread_user_rwlock_wrlock s i = rwlock_enter (Wr_test i) s i"

definition sthread_user_rwlock_unlock :: "sched \<Rightarrow> nat \<Rightarrow> sched c" where
  "sthread_user_rwlock_unlock s i = rwlock_enter (Rw_release i) s i"

text \<open>Release the mutex, wait on the semaphore, take the mutex again, release it.\<close>

definition rwlock_block :: "sched \<Rightarrow> nat \<Rightarrow> sthread_rwlock \<Rightarrow> nat \<Rightarrow> sched c" where
  "rwlock_block s i r queue =
     c_bind (sthread_user_mutex_unlock s (rw_m r)) (\<lambda>s1.
     sthread_user_sem_wait (push_frame (Rw_relock i) s1) queue)"

text \<open>Each of the following functions is what happens between one access to the counters and the next.
  It leaves the frame of the part that follows on the stack, so that a clock tick may come first.\<close>

definition rd_test :: "sched \<Rightarrow> nat \<Rightarrow> sched c" where
  "rd_test s i =
     c_bind (get_obj (rwlocks s) i) (\<lambda>r.
     Inr (push_frame (if em_escrita r \<noteq> 0 \<or> escritores_espera r > 0 then Rd_wait i else Rd_count i) s))"

definition rd_wait :: "sched \<Rightarrow> nat \<Rightarrow> sched c" where
  "rd_wait s i =
     c_bind (get_obj (rwlocks s) i) (\<lambda>r.
     c_bind (c_int (leitores_espera r + 1)) (\<lambda>n.
     rwlock_block (put_rwlock s i (r\<lparr>leitores_espera := n\<rparr>)) i r (rw_leitores r)))"

definition rd_count :: "sched \<Rightarrow> nat \<Rightarrow> sched c" where
  "rd_count s i =
     c_bind (get_obj (rwlocks s) i) (\<lambda>r.
     c_bind (c_int (nleitores r + 1)) (\<lambda>n.
     Inr (push_frame (Rw_unlock i) (put_rwlock s i (r\<lparr>nleitores := n\<rparr>)))))"

definition wr_test :: "sched \<Rightarrow> nat \<Rightarrow> sched c" where
  "wr_test s i =
     c_bind (get_obj (rwlocks s) i) (\<lambda>r.
     Inr (push_frame (if em_escrita r \<noteq> 0 \<or> nleitores r > 0 then Wr_wait i else Wr_take i) s))"

definition wr_wait :: "sched \<Rightarrow> nat \<Rightarrow> sched c" where
  "wr_wait s i =
     c_bind (get_obj (rwlocks s) i) (\<lambda>r.
     c_bind (c_int (escritores_espera r + 1)) (\<lambda>n.
     rwlock_block (put_rwlock s i (r\<lparr>escritores_espera := n\<rparr>)) i r (rw_escritores r)))"

definition wr_take :: "sched \<Rightarrow> nat \<Rightarrow> sched c" where
  "wr_take s i =
     c_bind (get_obj (rwlocks s) i) (\<lambda>r.
     Inr (push_frame (Rw_unlock i) (put_rwlock s i (r\<lparr>em_escrita := 1\<rparr>))))"

definition rw_release :: "sched \<Rightarrow> nat \<Rightarrow> sched c" where
  "rw_release s i =
     c_bind (get_obj (rwlocks s) i) (\<lambda>r.
     if em_escrita r = 1 then
       Inr (push_frame (Rw_written i) (put_rwlock s i (r\<lparr>em_escrita := 0\<rparr>)))
     else
       c_bind (c_int (nleitores r - 1)) (\<lambda>n.
       Inr (push_frame (Rw_read i) (put_rwlock s i (r\<lparr>nleitores := n\<rparr>)))))"

definition rw_written :: "sched \<Rightarrow> nat \<Rightarrow> sched c" where
  "rw_written s i =
     c_bind (get_obj (rwlocks s) i) (\<lambda>r.
     Inr (push_frame (if leitores_espera r > 0 then Rw_loop i 0
       else if escritores_espera r > 0 then Rw_pass i else Rw_unlock i) s))"

text \<open>A turn of the loop that lets readers go, with the counter \<open>k\<close>, or its end.\<close>

definition rw_loop :: "sched \<Rightarrow> nat \<Rightarrow> int \<Rightarrow> sched c" where
  "rw_loop s i k =
     c_bind (get_obj (rwlocks s) i) (\<lambda>r.
     if k < leitores_espera r then
       c_bind (sthread_user_sem_post s (rw_leitores r)) (\<lambda>s1.
       c_bind (c_int (nleitores r + 1)) (\<lambda>n.
       Inr (push_frame (Rw_loop i (k + 1)) (put_rwlock s1 i (r\<lparr>nleitores := n\<rparr>)))))
     else
       c_bind (c_int (leitores_espera r - k)) (\<lambda>n.
       Inr (push_frame (Rw_unlock i) (put_rwlock s i (r\<lparr>leitores_espera := n\<rparr>)))))"

definition rw_read :: "sched \<Rightarrow> nat \<Rightarrow> sched c" where
  "rw_read s i =
     c_bind (get_obj (rwlocks s) i) (\<lambda>r.
     Inr (push_frame (if nleitores r = 0 \<and> escritores_espera r > 0 then Rw_pass i else Rw_unlock i) s))"

definition rw_pass :: "sched \<Rightarrow> nat \<Rightarrow> sched c" where
  "rw_pass s i =
     c_bind (get_obj (rwlocks s) i) (\<lambda>r.
     c_bind (sthread_user_sem_post s (rw_escritores r)) (\<lambda>s1.
     c_bind (c_int (escritores_espera r - 1)) (\<lambda>n.
     Inr (push_frame (Rw_unlock i) (put_rwlock s1 i (r\<lparr>em_escrita := 1, escritores_espera := n\<rparr>))))))"

definition rw_unlock :: "sched \<Rightarrow> nat \<Rightarrow> sched c" where
  "rw_unlock s i = c_bind (get_obj (rwlocks s) i) (\<lambda>r. sthread_user_mutex_unlock s (rw_m r))"

section \<open>Monitors\<close>

definition put_mon :: "sched \<Rightarrow> nat \<Rightarrow> sthread_mon \<Rightarrow> sched" where
  "put_mon s i m = s\<lparr>mons := (mons s)[i := Some m]\<rparr>"

definition sthread_user_monitor_init :: "sched \<Rightarrow> nat \<times> sched" where
  "sthread_user_monitor_init s =
     (let (m, s1) = sthread_user_mutex_init s in
      (length (mons s1), s1\<lparr>mons := mons s1 @ [Some \<lparr>mon_mutex = m, mon_queue = []\<rparr>]\<rparr>))"

definition sthread_user_monitor_free :: "sched \<Rightarrow> nat \<Rightarrow> sched c" where
  "sthread_user_monitor_free s i =
     c_bind (get_obj (mons s) i) (\<lambda>mon.
     c_bind (sthread_user_mutex_free s (mon_mutex mon)) (\<lambda>s1.
     c_bind (free_all (mon_queue mon) s1) (\<lambda>s2. Inr (s2\<lparr>mons := (mons s2)[i := None]\<rparr>))))"

definition sthread_user_monitor_enter :: "sched \<Rightarrow> nat \<Rightarrow> sched c" where
  "sthread_user_monitor_enter s i =
     c_bind (get_obj (mons s) i) (\<lambda>mon. sthread_user_mutex_lock s (mon_mutex mon))"

definition sthread_user_monitor_exit :: "sched \<Rightarrow> nat \<Rightarrow> sched c" where
  "sthread_user_monitor_exit s i =
     c_bind (get_obj (mons s) i) (\<lambda>mon. sthread_user_mutex_unlock s (mon_mutex mon))"

definition sthread_user_monitor_wait :: "sched \<Rightarrow> nat \<Rightarrow> sched c" where
  "sthread_user_monitor_wait s i =
     c_bind (get_obj (mons s) i) (\<lambda>mon.
     c_bind (get_obj (mutexes s) (mon_mutex mon)) (\<lambda>m.
     if m_thr m \<noteq> Some (active_thr s) then Inr s
     else
       c_bind (sthread_user_mutex_unlock (put_mon s i (mon\<lparr>mon_queue := mon_queue mon @ [active_thr s]\<rparr>))
         (mon_mutex mon)) (\<lambda>s1.
       c_bind (next_active (s1\<lparr>spl := HIGH\<rparr>)) (\<lambda>s2.
       sthread_switch (push_frame Splx_low s2) (active_thr s) (active_thr s2)))))"

definition sthread_user_monitor_signal :: "sched \<Rightarrow> nat \<Rightarrow> sched c" where
  "sthread_user_monitor_signal s i =
     c_bind (get_obj (mons s) i) (\<lambda>mon.
     c_bind (get_obj (mutexes s) (mon_mutex mon)) (\<lambda>m.
     if m_thr m \<noteq> Some (active_thr s) then Inr s
     else
       c_bind (spin_lock (m_l m)) (\<lambda>l.
       case mon_queue mon of
         [] \<Rightarrow> Inr (put_mutex s (mon_mutex mon) (m\<lparr>m_l := atomic_clear l\<rparr>))
       | t # ts \<Rightarrow>
           Inr (put_mutex (put_mon s i (mon\<lparr>mon_queue := ts\<rparr>)) (mon_mutex mon)
             (m\<lparr>m_queue := m_queue m @ [t], m_l := atomic_clear l\<rparr>)))))"

text \<open>The loop of \<open>signalall\<close>: the waiting threads, then the queue of the mutex.\<close>

fun signal_loop :: "thread_ptr list \<Rightarrow> thread_ptr list \<Rightarrow> thread_ptr list" where
  "signal_loop [] q = q"
| "signal_loop (t # ts) q = signal_loop ts (q @ [t])"

definition sthread_user_monitor_signalall :: "sched \<Rightarrow> nat \<Rightarrow> sched c" where
  "sthread_user_monitor_signalall s i =
     c_bind (get_obj (mons s) i) (\<lambda>mon.
     c_bind (get_obj (mutexes s) (mon_mutex mon)) (\<lambda>m.
     if m_thr m \<noteq> Some (active_thr s) then Inr s
     else
       c_bind (spin_lock (m_l m)) (\<lambda>l.
       Inr (put_mutex (put_mon s i (mon\<lparr>mon_queue := []\<rparr>)) (mon_mutex mon)
         (m\<lparr>m_queue := signal_loop (mon_queue mon) (m_queue m), m_l := atomic_clear l\<rparr>)))))"

section \<open>Programs\<close>

text \<open>The end of \<open>sthread_aux_start\<close>: the thread exits when its routine returns.\<close>

definition sthread_aux_end :: "sched \<Rightarrow> sched c" where
  "sthread_aux_end s = sthread_user_exit (push_frame No_return s) NULL"

text \<open>What follows when a thread goes on with a frame.\<close>

fun run_frame :: "frame \<Rightarrow> sched \<Rightarrow> sched c" where
  "run_frame Start s = Inr (s\<lparr>spl := LOW\<rparr>)"
| "run_frame Splx_low s = Inr (s\<lparr>spl := LOW\<rparr>)"
| "run_frame Slept s = Inr (s\<lparr>spl := LOW, result := 0\<rparr>)"
| "run_frame Wake_sleepers s = wake_sleepers s"
| "run_frame (After_join thread value_ptr) s =
     c_bind (get_thr s thread) (\<lambda>x.
     c_bind (store_ret s value_ptr (join_ret x)) (\<lambda>s1. Inr (s1\<lparr>spl := LOW, result := 0\<rparr>)))"
| "run_frame Exited s = Inr (s\<lparr>spl := LOW\<rparr>)"
| "run_frame No_return s = Inl WildPointer"
| "run_frame (Rd_test i) s = rd_test s i"
| "run_frame (Rd_wait i) s = rd_wait s i"
| "run_frame (Rd_count i) s = rd_count s i"
| "run_frame (Wr_test i) s = wr_test s i"
| "run_frame (Wr_wait i) s = wr_wait s i"
| "run_frame (Wr_take i) s = wr_take s i"
| "run_frame (Rw_release i) s = rw_release s i"
| "run_frame (Rw_written i) s = rw_written s i"
| "run_frame (Rw_loop i k) s = rw_loop s i k"
| "run_frame (Rw_read i) s = rw_read s i"
| "run_frame (Rw_pass i) s = rw_pass s i"
| "run_frame (Rw_relock i) s = rwlock_enter (Rw_unlock i) s i"
| "run_frame (Rw_unlock i) s = rw_unlock s i"

text \<open>The calls of a program, by the name of the public operation.\<close>

datatype sthread_call =
    Thread_create sthread void_ptr void_ptr int int int
  | Exit void_ptr | Return | Yield | Sleep int | Join thread_ptr "nat option" | Nice int
  | Mutex_init | Mutex_free nat | Mutex_lock nat | Mutex_unlock nat
  | Sem_init u32 | Sem_wait nat | Sem_post nat | Sem_destroy nat
  | Rwlock_init | Rwlock_destroy nat | Rwlock_rdlock nat | Rwlock_wrlock nat | Rwlock_unlock nat
  | Monitor_init | Monitor_free nat | Monitor_enter nat | Monitor_exit nat
  | Monitor_wait nat | Monitor_signal nat | Monitor_signalall nat

text \<open>A pointer that an operation returns is left in \<open>result\<close>.\<close>

definition returns :: "nat \<times> sched \<Rightarrow> sched" where
  "returns = (\<lambda>(i, s). s\<lparr>result := int i\<rparr>)"

fun do_call :: "sthread_call \<Rightarrow> sched \<Rightarrow> sched c" where
  "do_call (Thread_create mem f arg client priority nice0) s =
     c_bind (sthread_user_create s mem f arg client priority nice0) (\<lambda>r. Inr (returns r))"
| "do_call (Exit ret) s = sthread_user_exit s ret"
| "do_call Return s = sthread_aux_end s"
| "do_call Yield s = sthread_user_yield s"
| "do_call (Sleep time) s = sthread_user_sleep s time"
| "do_call (Join t p) s = sthread_user_join s t p"
| "do_call (Nice n) s = sthread_nice s n"
| "do_call Mutex_init s = Inr (returns (sthread_user_mutex_init s))"
| "do_call (Mutex_free i) s = sthread_user_mutex_free s i"
| "do_call (Mutex_lock i) s = sthread_user_mutex_lock s i"
| "do_call (Mutex_unlock i) s = sthread_user_mutex_unlock s i"
| "do_call (Sem_init n) s = Inr (returns (sthread_user_sem_init s n))"
| "do_call (Sem_wait i) s = sthread_user_sem_wait s i"
| "do_call (Sem_post i) s = sthread_user_sem_post s i"
| "do_call (Sem_destroy i) s = sthread_user_sem_destroy s i"
| "do_call Rwlock_init s = Inr (returns (sthread_user_rwlock_init s))"
| "do_call (Rwlock_destroy i) s = sthread_user_rwlock_destroy s i"
| "do_call (Rwlock_rdlock i) s = sthread_user_rwlock_rdlock s i"
| "do_call (Rwlock_wrlock i) s = sthread_user_rwlock_wrlock s i"
| "do_call (Rwlock_unlock i) s = sthread_user_rwlock_unlock s i"
| "do_call Monitor_init s = Inr (returns (sthread_user_monitor_init s))"
| "do_call (Monitor_free i) s = sthread_user_monitor_free s i"
| "do_call (Monitor_enter i) s = sthread_user_monitor_enter s i"
| "do_call (Monitor_exit i) s = sthread_user_monitor_exit s i"
| "do_call (Monitor_wait i) s = sthread_user_monitor_wait s i"
| "do_call (Monitor_signal i) s = sthread_user_monitor_signal s i"
| "do_call (Monitor_signalall i) s = sthread_user_monitor_signalall s i"

text \<open>One step of a program whose calls are among \<open>C\<close>.\<close>

inductive sthread_step :: "sthread_call set \<Rightarrow> sched \<Rightarrow> sched \<Rightarrow> bool" for C where
  tick: "spl s = LOW \<Longrightarrow> sthread_user_dispatcher s = Inr s' \<Longrightarrow> sthread_step C s s'"
| call: "stack s = [] \<Longrightarrow> c \<in> C \<Longrightarrow> do_call c s = Inr s' \<Longrightarrow> sthread_step C s s'"
| resume: "stack s = f # fs \<Longrightarrow> run_frame f (s\<lparr>stack := fs\<rparr>) = Inr s' \<Longrightarrow> sthread_step C s s'"

inductive_cases sthread_stepE: "sthread_step C s s'"

end
