(* ===== verification/Sthread_Sched.thy ===== *)
theory Sthread_Sched
  imports Sthread_Sync "HOL-Library.Multiset"
begin

text \<open>
  What the operations on threads do to the lists of the scheduler and to the memory of the threads.

  The lemmas of the first section say what a successful run of each building block leaves; they form
  the collection \<open>sched_runs\<close>. \<open>placed\<close> is the multiset of all places at which a thread can be
  taken up again, and \<open>sched_inv\<close> says that no thread is at two of them and that all are alive.
  It is an invariant of the programs without mutexes, readers/writer locks and monitors.
\<close>

named_theorems sched_runs \<open>what a successful run means\<close>

section \<open>The building blocks\<close>

lemma get_thr_runs [sched_runs]: "(get_thr s t = Inr x) = (threads s t = Some x)"
  by (auto simp: get_thr_def split: option.splits)

lemma upd_thr_runs [sched_runs]:
  "(upd_thr s t f = Inr s') = (\<exists>x. threads s t = Some x \<and> s' = put_thr s t (f x))"
  by (auto simp: upd_thr_def c_bind_eq_Inr get_thr_runs)

lemma get_obj_runs [sched_runs]: "(get_obj xs i = Inr m) = (i < length xs \<and> xs ! i = Some m)"
  by (auto simp: get_obj_def split: option.splits)

lemma c_int_runs [sched_runs]: "(c_int x = Inr y) = (y = x \<and> - (2 ^ 31) \<le> x \<and> x < 2 ^ 31)"
  by (auto simp: c_int_def)

lemma spin_lock_runs [sched_runs]: "(spin_lock l = Inr l') = (l = 0 \<and> l' = 1)"
  by (auto simp: spin_lock_def atomic_test_and_set_def)

lemma next_active_runs [sched_runs]:
  "(next_active s = Inr s') =
     (\<exists>t ts. exe_thr_list s = t # ts \<and> s' = s\<lparr>active_thr := t, exe_thr_list := ts\<rparr>)"
  by (auto simp: next_active_def split: list.splits)

lemma store_ret_runs [sched_runs]:
  "(store_ret s p v = Inr s') = (\<exists>a. p = Some a \<and> s' = s\<lparr>user_mem := (user_mem s)(a := v)\<rparr>)"
  by (auto simp: store_ret_def deref_def c_bind_eq_Inr split: option.splits)

lemma sthread_switch_runs [sched_runs]:
  "(sthread_switch s old new = Inr s') =
     (if old = new then s' = s
      else \<exists>x y. threads s old = Some x \<and> threads s new = Some y
        \<and> s' = s\<lparr>threads := (threads s)(old \<mapsto> x\<lparr>saved_ctx := stack s\<rparr>), stack := saved_ctx y\<rparr>)"
  by (auto simp: sthread_switch_def c_bind_eq_Inr sched_runs put_thr_def)

section \<open>Places and the invariant\<close>

definition sem_threads :: "sthread_sem option \<Rightarrow> thread_ptr list" where
  "sem_threads m = (case m of None \<Rightarrow> [] | Some x \<Rightarrow> s_queue x)"

text \<open>The places besides the active thread, and all of them.\<close>

definition others :: "sched \<Rightarrow> thread_ptr multiset" where
  "others s = mset (exe_thr_list s) + mset (sleep_thr_list s) + mset (join_thr_list s)
     + mset (concat (map sem_threads (sems s)))"

definition placed :: "sched \<Rightarrow> thread_ptr multiset" where
  "placed s = add_mset (active_thr s) (others s)"

text \<open>The frames of a thread that can be resumed and has not come to its end.\<close>

fun live_frame :: "frame \<Rightarrow> bool" where
  "live_frame Start = True"
| "live_frame Splx_low = True"
| "live_frame Slept = True"
| "live_frame Wake_sleepers = True"
| "live_frame (After_join t p) = True"
| "live_frame _ = False"

definition live_thr :: "(thread_ptr \<Rightarrow> sthread option) \<Rightarrow> thread_ptr \<Rightarrow> bool" where
  "live_thr th t = (\<exists>x. th t = Some x \<and> list_all live_frame (saved_ctx x))"

definition all_live :: "sched \<Rightarrow> thread_ptr multiset \<Rightarrow> bool" where
  "all_live s M = ((\<forall>t. count M t \<le> 1) \<and> (\<forall>t. t \<in># M \<longrightarrow> live_thr (threads s) t)
     \<and> list_all live_frame (stack s) \<and> (\<forall>t. threads s t \<noteq> None \<longrightarrow> t < next_ptr s))"

definition sched_inv :: "sched \<Rightarrow> bool" where
  "sched_inv s = all_live s (placed s)"

definition wake :: "sched \<Rightarrow> thread_ptr \<Rightarrow> int option" where
  "wake s t = map_option wake_time (threads s t)"

lemma all_live_mono: "all_live s M \<Longrightarrow> N \<subseteq># M \<Longrightarrow> all_live s N"
  unfolding all_live_def by (metis le_trans mset_subset_eqD mset_subset_eq_count)

text \<open>Updates of a thread that keep its context, updates of fields that do not matter.\<close>

lemma live_thr_upd [simp]:
  "th t = Some x \<Longrightarrow> saved_ctx y = saved_ctx x \<Longrightarrow> live_thr (th(t \<mapsto> y)) u = live_thr th u"
  by (auto simp: live_thr_def)

lemma all_live_put:
  "threads s t = Some x \<Longrightarrow> saved_ctx y = saved_ctx x \<Longrightarrow> all_live (put_thr s t y) M = all_live s M"
  by (auto simp: all_live_def put_thr_def)

lemma all_live_cong:
  "threads s' = threads s \<Longrightarrow> stack s' = stack s \<Longrightarrow> next_ptr s' = next_ptr s \<Longrightarrow> all_live s' M = all_live s M"
  by (simp add: all_live_def)

lemma put_thr_sel [simp]:
  "threads (put_thr s t x) = (threads s)(t \<mapsto> x)" "next_ptr (put_thr s t x) = next_ptr s"
  "exe_thr_list (put_thr s t x) = exe_thr_list s" "dead_thr_list (put_thr s t x) = dead_thr_list s"
  "sleep_thr_list (put_thr s t x) = sleep_thr_list s" "join_thr_list (put_thr s t x) = join_thr_list s"
  "zombie_thr_list (put_thr s t x) = zombie_thr_list s" "active_thr (put_thr s t x) = active_thr s"
  "stack (put_thr s t x) = stack s" "tid_gen (put_thr s t x) = tid_gen s" "Clock (put_thr s t x) = Clock s"
  "spl (put_thr s t x) = spl s" "mutexes (put_thr s t x) = mutexes s" "sems (put_thr s t x) = sems s"
  "rwlocks (put_thr s t x) = rwlocks s" "mons (put_thr s t x) = mons s"
  "user_mem (put_thr s t x) = user_mem s" "result (put_thr s t x) = result s"
  by (simp_all add: put_thr_def)

lemma wake_put: "threads s t = Some x \<Longrightarrow> wake_time y = wake_time x \<Longrightarrow> wake (put_thr s t y) = wake s"
  by (auto simp: wake_def fun_eq_iff)

text \<open>A semaphore whose queue changes.\<close>

lemma concat_update:
  assumes "i < length xs"
  shows "mset (concat (map f (xs[i := y]))) + mset (f (xs ! i)) = mset (concat (map f xs)) + mset (f y)"
proof -
  have "mset (concat (map f xs)) = mset (concat (map f (take i xs))) + mset (f (xs ! i))
      + mset (concat (map f (drop (Suc i) xs)))"
    by (subst id_take_nth_drop [OF assms]) simp
  then show ?thesis using assms by (simp add: upd_conv_take_nth_drop)
qed

text \<open>The switch to the thread that has been made the active one.\<close>

lemma sthread_switch_inv:
  assumes "sthread_switch (push_frame f s) old (active_thr s) = Inr s'" and "all_live s (placed s)"
    and "live_frame f \<or> old \<notin># placed s"
  shows "sched_inv s'" and "wake s' = wake s" and "\<exists>th st. s' = s\<lparr>threads := th, stack := st\<rparr>"
proof -
  let ?n = "active_thr s"
  have "sched_inv s' \<and> wake s' = wake s \<and> (\<exists>th st. s' = s\<lparr>threads := th, stack := st\<rparr>)"
  proof (cases "old = ?n")
    case True
    then have "s' = s\<lparr>stack := f # stack s\<rparr>" "live_frame f"
      using assms by (auto simp: sthread_switch_runs push_frame_def placed_def)
    moreover from this have "s' = s\<lparr>threads := threads s, stack := f # stack s\<rparr>" by simp
    moreover have "sched_inv s'" "wake s' = wake s"
      using assms(2) calculation(1,2)
      by (simp_all add: sched_inv_def all_live_def placed_def others_def wake_def fun_eq_iff)
    ultimately show ?thesis by blast
  next
    case False
    then obtain x y where x: "threads s old = Some x" "threads s ?n = Some y"
      and s': "s' = s\<lparr>threads := (threads s)(old \<mapsto> x\<lparr>saved_ctx := f # stack s\<rparr>), stack := saved_ctx y\<rparr>"
      using assms(1) by (auto simp: sthread_switch_runs push_frame_def)
    have "live_thr (threads s) ?n" using assms(2) by (simp add: all_live_def placed_def)
    then have "list_all live_frame (saved_ctx y)" using x(2) by (simp add: live_thr_def)
    moreover have "live_thr (threads s') t" if "t \<in># placed s" for t
      using that assms(2,3) s' by (auto simp: all_live_def live_thr_def)
    moreover have "placed s' = placed s" using s' by (simp add: placed_def others_def)
    ultimately show ?thesis using assms(2) x s'
      by (auto simp: sched_inv_def all_live_def wake_def fun_eq_iff split: if_splits)
  qed
  then show "sched_inv s'" "wake s' = wake s" "\<exists>th st. s' = s\<lparr>threads := th, stack := st\<rparr>" by auto
qed

lemma next_active_placed: "next_active s = Inr s' \<Longrightarrow> placed s' = others s"
  by (auto simp: next_active_runs placed_def others_def)

lemma switch_to_next_inv:
  assumes "switch_to_next s f = Inr s'" and "all_live s (others s)"
    and "live_frame f \<or> active_thr s \<notin># others s"
  shows "sched_inv s'" and "wake s' = wake s"
    and "\<exists>t ts th st. exe_thr_list s = t # ts \<and>
      s' = s\<lparr>active_thr := t, exe_thr_list := ts, threads := th, stack := st\<rparr>"
proof -
  obtain s1 s2 where 1: "next_active s = Inr s1"
    and 2: "upd_thr s1 (active_thr s1) (\<lambda>x. x\<lparr>state := 0\<rparr>) = Inr s2"
    and 3: "sthread_switch (push_frame f s2) (active_thr s) (active_thr s2) = Inr s'"
    using assms(1) by (auto simp: switch_to_next_def Let_def c_bind_eq_Inr)
  obtain x where x: "threads s1 (active_thr s1) = Some x"
    and s2: "s2 = put_thr s1 (active_thr s1) (x\<lparr>state := 0\<rparr>)" using 2 by (auto simp: upd_thr_runs)
  have p: "placed s2 = others s" using next_active_placed [OF 1] s2 by (simp add: placed_def others_def)
  have e: "threads s1 = threads s" "stack s1 = stack s" "next_ptr s1 = next_ptr s"
    using 1 by (auto simp: next_active_runs)
  have l: "all_live s2 (placed s2)" using assms(2) s2 all_live_put [OF x] all_live_cong [OF e] p by simp
  have "wake s1 = wake s" using e(1) by (simp add: wake_def [abs_def])
  then have w: "wake s2 = wake s" using s2 wake_put [OF x] by simp
  show "sched_inv s'" using sthread_switch_inv(1) [OF 3 l] assms(3) p by simp
  show "wake s' = wake s" using sthread_switch_inv(2) [OF 3 l] assms(3) p w by simp
  show "\<exists>t ts th st. exe_thr_list s = t # ts \<and>
      s' = s\<lparr>active_thr := t, exe_thr_list := ts, threads := th, stack := st\<rparr>"
    using sthread_switch_inv(3) [OF 3 l] assms(3) p 1 s2 by (auto simp: next_active_runs put_thr_def)
qed

text \<open>It succeeds when both threads are in memory.\<close>

lemma switch_to_next_ex:
  assumes "exe_thr_list s = t # ts" and "threads s t \<noteq> None" and "threads s (active_thr s) \<noteq> None"
  obtains s' where "switch_to_next s f = Inr s'"
proof -
  obtain x y where "threads s t = Some x" "threads s (active_thr s) = Some y" using assms(2,3) by auto
  then have "\<exists>s'. switch_to_next s f = Inr s'" using assms(1)
    by (auto simp: switch_to_next_def next_active_def upd_thr_def get_thr_def sthread_switch_def
        push_frame_def Let_def)
  then show ?thesis using that by blast
qed

section \<open>The operations keep the invariant\<close>

text \<open>\<open>keeps s s'\<close>: who sleeps past its time in \<open>s\<close> still does so in \<open>s'\<close>.\<close>

definition keeps :: "sched \<Rightarrow> sched \<Rightarrow> bool" where
  "keeps s s' = (Clock s \<le> Clock s' \<and>
     (\<forall>t w. t \<in> set (sleep_thr_list s) \<longrightarrow> wake s t = Some w \<longrightarrow> w < Clock s \<longrightarrow>
        t \<in> set (sleep_thr_list s') \<and> wake s' t = Some w))"

lemma keepsI: "wake s' = wake s \<Longrightarrow> set (sleep_thr_list s) \<subseteq> set (sleep_thr_list s') \<Longrightarrow>
    Clock s' = Clock s \<Longrightarrow> keeps s s'"
  by (auto simp: keeps_def)

lemma keeps_trans: "keeps s s' \<Longrightarrow> keeps s' s'' \<Longrightarrow> keeps s s''"
  unfolding keeps_def by (meson less_le_trans order_trans)

text \<open>A blocking operation: put the active thread into some list and take the next one.\<close>

lemma block_step:
  assumes inv: "sched_inv s" and run: "switch_to_next s2 f = Inr s'" and "live_frame f"
    and p: "others s2 = placed s" and l: "\<And>M. all_live s2 M = all_live s M"
    and w: "keeps s s2"
  shows "sched_inv s' \<and> keeps s s'"
proof -
  have "all_live s2 (others s2)" using inv p l by (simp add: sched_inv_def)
  note sw = switch_to_next_inv [OF run this] 
  have "keeps s2 s'" by (rule keepsI) (use sw assms(3) in auto)
  then show ?thesis using sw(1) assms(3) w keeps_trans by blast
qed

lemma sthread_nice_step:
  assumes "sched_inv s" and "sthread_nice s n = Inr s'"
  shows "sched_inv s' \<and> keeps s s'"
proof -
  obtain s1 r where 1: "s' = s1\<lparr>result := r\<rparr>"
    and 2: "s1 = s \<or> (\<exists>x. threads s (active_thr s) = Some x \<and> s1 = put_thr s (active_thr s) (x\<lparr>nice := n\<rparr>))"
    using assms(2) by (auto simp: sthread_nice_def c_bind_eq_Inr sched_runs split: if_splits)
  have "sched_inv s1 \<and> wake s1 = wake s"
    using 2 assms(1) by (auto simp: sched_inv_def all_live_put placed_def others_def wake_put)
  moreover have "sched_inv s' = sched_inv s1" "wake s' = wake s1"
    by (simp_all add: 1 sched_inv_def all_live_def placed_def others_def wake_def fun_eq_iff)
  moreover have "sleep_thr_list s' = sleep_thr_list s" "Clock s' = Clock s"
    using 1 2 by auto
  ultimately show ?thesis by (auto intro: keepsI)
qed

lemma new_sthread_sel [simp]:
  "saved_ctx (new_sthread mem f arg client priority nice0 i) = [Start]"
  "wake_time (new_sthread mem f arg client priority nice0 i) = 0"
  "tid (new_sthread mem f arg client priority nice0 i) = i"
  by (simp_all add: new_sthread_def Let_def)

lemma sthread_user_create_step:
  assumes "sched_inv s" and "sthread_user_create s mem f arg client priority nice0 = Inr (t, s')"
  shows "t = next_ptr s \<and> sched_inv s' \<and> keeps s s'"
proof -
  define y where "y = new_sthread mem f arg client priority nice0 (tid_gen s)"
  have y: "saved_ctx y = [Start]" by (simp add: y_def)
  have t: "t = next_ptr s" and s': "s' = s\<lparr>threads := (threads s)(next_ptr s \<mapsto> y),
      next_ptr := next_ptr s + 1, tid_gen := tid_gen s + 1,
      exe_thr_list := exe_thr_list s @ [next_ptr s], spl := LOW\<rparr>"
    using assms(2) unfolding sthread_user_create_def Let_def c_bind_eq_Inr c_int_runs y_def by blast+
  have new: "threads s (next_ptr s) = None" using assms(1) by (auto simp: sched_inv_def all_live_def)
  then have fresh: "next_ptr s \<notin># placed s"
    using assms(1) by (auto simp: sched_inv_def all_live_def live_thr_def)
  have p: "placed s' = add_mset (next_ptr s) (placed s)" using s' by (simp add: placed_def others_def)
  have "sched_inv s'"
    unfolding sched_inv_def all_live_def p
    using assms(1) fresh s' y
    by (auto simp: sched_inv_def all_live_def live_thr_def count_eq_zero_iff less_Suc_eq)
  moreover have "keeps s s'" using s' fresh by (auto simp: keeps_def wake_def placed_def others_def)
  ultimately show ?thesis using t by simp
qed

lemma qsort_exe_id [simp]: "qsort_exe s = Inr s"
  by (simp add: qsort_exe_def SIZEOF_QUEUE_T_def SIZEOF_STHREAD_def)

lemma sthread_user_yield_step:
  assumes "sched_inv s" and "sthread_user_yield s = Inr s'"
  shows "sched_inv s' \<and> keeps s s'"
proof -
  obtain x where x: "threads s (active_thr s) = Some x"
    and run: "switch_to_next ((put_thr (s\<lparr>spl := HIGH\<rparr>) (active_thr s) (x\<lparr>state := 0\<rparr>))
      \<lparr>exe_thr_list := exe_thr_list s @ [active_thr s]\<rparr>) Splx_low = Inr s'"
    using assms(2) by (auto simp: sthread_user_yield_def c_bind_eq_Inr upd_thr_runs)
  show ?thesis
    by (rule block_step [OF assms(1) run])
      (use x in \<open>auto simp: placed_def others_def all_live_def intro!: keepsI simp: wake_def fun_eq_iff\<close>)
qed

lemma sthread_user_yield_total:
  assumes "sched_inv s"
  shows "\<exists>s'. sthread_user_yield s = Inr s' \<and> active_thr s' # exe_thr_list s' = exe_thr_list s @ [active_thr s]
    \<and> sleep_thr_list s' = sleep_thr_list s \<and> Clock s' = Clock s"
proof -
  have live: "threads s t \<noteq> None" if "t \<in># placed s" for t
    using that assms by (auto simp: sched_inv_def all_live_def live_thr_def)
  obtain x where x: "threads s (active_thr s) = Some x" using live [of "active_thr s"] by (auto simp: placed_def)
  let ?s = "(put_thr (s\<lparr>spl := HIGH\<rparr>) (active_thr s) (x\<lparr>state := 0\<rparr>))\<lparr>exe_thr_list := exe_thr_list s @ [active_thr s]\<rparr>"
  have y: "sthread_user_yield s = switch_to_next ?s Splx_low"
    using x by (simp add: sthread_user_yield_def upd_thr_def get_thr_def)
  obtain t ts where t: "exe_thr_list s @ [active_thr s] = t # ts" by (cases "exe_thr_list s") auto
  then have "t \<in> set (exe_thr_list s @ [active_thr s])" by simp
  then have "t \<in># placed s" by (auto simp: placed_def others_def)
  then have "threads ?s t \<noteq> None" "threads ?s (active_thr ?s) \<noteq> None" "exe_thr_list ?s = t # ts"
    using t live [of t] by auto
  then obtain s' where s': "switch_to_next ?s Splx_low = Inr s'" using switch_to_next_ex by blast
  have "others ?s = placed s" "\<And>M. all_live ?s M = all_live s M"
    using x by (auto simp: placed_def others_def all_live_def)
  then have "all_live ?s (others ?s)" using assms by (simp add: sched_inv_def)
  from switch_to_next_inv(3) [OF s' this] show ?thesis using y s' t by auto
qed

section \<open>The loops\<close>

text \<open>The threads of a list that the loop acts on are updated, all others stay.\<close>

definition upd_in :: "(thread_ptr \<Rightarrow> bool) \<Rightarrow> (sthread \<Rightarrow> sthread) \<Rightarrow> (thread_ptr \<Rightarrow> sthread option) \<Rightarrow>
    thread_ptr \<Rightarrow> sthread option" where
  "upd_in P f th = (\<lambda>t. if P t then map_option f (th t) else th t)"

definition joins :: "sched \<Rightarrow> thread_ptr \<Rightarrow> bool" where
  "joins s t = (map_option join_tid (threads s t) = map_option tid (threads s (active_thr s)))"

definition due :: "sched \<Rightarrow> thread_ptr \<Rightarrow> bool" where
  "due s t = (wake s t = Some (Clock s))"

definition same_client :: "sched \<Rightarrow> thread_ptr \<Rightarrow> bool" where
  "same_client s t = (map_option clientID (threads s t) = map_option clientID (threads s (active_thr s)))"

lemma live_upd_in [simp]:
  "(\<And>x. saved_ctx (f x) = saved_ctx x) \<Longrightarrow> live_thr (upd_in P f th) t = live_thr th t"
  by (auto simp: live_thr_def upd_in_def)

lemma upd_in_None [simp]: "(upd_in P f th t = None) = (th t = None)"
  by (simp add: upd_in_def)

lemma exit_loop_eq:
  assumes "threads s (active_thr s) \<noteq> None" and "\<forall>t \<in> set l. threads s t \<noteq> None"
  shows "exit_loop ret l tmp z s = Inr (z \<and> \<not> (\<exists>t \<in> set l. joins s t),
    s\<lparr>threads := upd_in (\<lambda>t. t \<in> set l \<and> joins s t) (\<lambda>x. x\<lparr>join_ret := ret\<rparr>) (threads s),
      exe_thr_list := exe_thr_list s @ filter (joins s) l,
      join_thr_list := tmp @ filter (\<lambda>t. \<not> joins s t) l\<rparr>)"
  using assms
proof (induction l arbitrary: tmp z s)
  case Nil
  then show ?case by (simp add: upd_in_def)
next
  case (Cons t ts)
  obtain x a where x: "threads s t = Some x" and a: "threads s (active_thr s) = Some a"
    using Cons.prems by auto
  show ?case
  proof (cases "join_tid x = tid a")
    case True
    let ?s1 = "put_thr s t (x\<lparr>join_ret := ret\<rparr>)"
    let ?s2 = "?s1\<lparr>exe_thr_list := exe_thr_list s @ [t]\<rparr>"
    have j: "joins ?s2 = joins s" by (rule ext) (use x in \<open>auto simp: joins_def\<close>)
    have q: "threads ?s2 (active_thr ?s2) \<noteq> None" "\<forall>u \<in> set ts. threads ?s2 u \<noteq> None"
      using Cons.prems by auto
    have "exit_loop ret (t # ts) tmp z s = exit_loop ret ts tmp False ?s2"
      using x a True by (simp add: get_thr_def Let_def)
    also have "\<dots> = Inr (False, ?s2\<lparr>
        threads := upd_in (\<lambda>u. u \<in> set ts \<and> joins s u) (\<lambda>x. x\<lparr>join_ret := ret\<rparr>) (threads ?s2),
        exe_thr_list := exe_thr_list ?s2 @ filter (joins s) ts,
        join_thr_list := tmp @ filter (\<lambda>t. \<not> joins s t) ts\<rparr>)"
      by (subst Cons.IH [OF q]) (simp add: j)
    also have "upd_in (\<lambda>u. u \<in> set ts \<and> joins s u) (\<lambda>x. x\<lparr>join_ret := ret\<rparr>) (threads ?s2)
        = upd_in (\<lambda>u. u \<in> set (t # ts) \<and> joins s u) (\<lambda>x. x\<lparr>join_ret := ret\<rparr>) (threads s)"
      using x a True by (auto simp: upd_in_def fun_eq_iff joins_def)
    finally show ?thesis using x a True by (simp add: joins_def put_thr_def)
  next
    case False
    then have "\<not> joins s t" using x a by (simp add: joins_def)
    moreover from this have "(\<lambda>u. (u = t \<or> u \<in> set ts) \<and> joins s u) = (\<lambda>u. u \<in> set ts \<and> joins s u)"
      by auto
    ultimately show ?thesis using Cons.IH [of s] x a False Cons.prems by (simp add: get_thr_def)
  qed
qed

lemma wake_loop_eq:
  assumes "distinct l" and "\<forall>t \<in> set l. threads s t \<noteq> None"
  shows "wake_loop l tmp s = Inr (
    s\<lparr>threads := upd_in (\<lambda>t. t \<in> set l \<and> due s t) (\<lambda>x. x\<lparr>wake_time := 0, state := 0\<rparr>) (threads s),
      exe_thr_list := exe_thr_list s @ filter (due s) l,
      sleep_thr_list := tmp @ filter (\<lambda>t. \<not> due s t) l\<rparr>)"
  using assms
proof (induction l arbitrary: tmp s)
  case Nil
  then show ?case by (simp add: upd_in_def)
next
  case (Cons t ts)
  obtain x where x: "threads s t = Some x" using Cons.prems(2) by auto
  show ?case
  proof (cases "wake_time x = Clock s")
    case True
    let ?y = "x\<lparr>wake_time := 0, state := 0\<rparr>"
    let ?s1 = "put_thr s t ?y"
    let ?s2 = "?s1\<lparr>exe_thr_list := exe_thr_list s @ [t]\<rparr>"
    have j: "due ?s2 u = due s u" if "u \<in> set ts" for u
      using that Cons.prems(1) by (auto simp: due_def wake_def)
    then have f: "filter (due ?s2) ts = filter (due s) ts"
        "filter (\<lambda>u. \<not> due ?s2 u) ts = filter (\<lambda>u. \<not> due s u) ts"
      by (auto intro!: filter_cong)
    have q: "\<forall>u \<in> set ts. threads ?s2 u \<noteq> None" using Cons.prems by auto
    have "wake_loop (t # ts) tmp s = wake_loop ts tmp ?s2"
      using x True by (simp add: get_thr_def Let_def)
    also have "\<dots> = Inr (?s2\<lparr>
        threads := upd_in (\<lambda>u. u \<in> set ts \<and> due ?s2 u) (\<lambda>x. x\<lparr>wake_time := 0, state := 0\<rparr>) (threads ?s2),
        exe_thr_list := exe_thr_list ?s2 @ filter (due s) ts,
        sleep_thr_list := tmp @ filter (\<lambda>t. \<not> due s t) ts\<rparr>)"
      by (subst Cons.IH [OF _ q]) (use Cons.prems(1) in \<open>simp_all add: f\<close>)
    also have "upd_in (\<lambda>u. u \<in> set ts \<and> due ?s2 u) (\<lambda>x. x\<lparr>wake_time := 0, state := 0\<rparr>) (threads ?s2)
        = upd_in (\<lambda>u. u \<in> set (t # ts) \<and> due s u) (\<lambda>x. x\<lparr>wake_time := 0, state := 0\<rparr>) (threads s)"
      using x True Cons.prems(1) j by (auto simp: upd_in_def fun_eq_iff due_def wake_def)
    finally show ?thesis using x True by (simp add: due_def wake_def put_thr_def)
  next
    case False
    then have "\<not> due s t" using x by (simp add: due_def wake_def)
    moreover from this have "(\<lambda>u. (u = t \<or> u \<in> set ts) \<and> due s u) = (\<lambda>u. u \<in> set ts \<and> due s u)"
      by auto
    ultimately show ?thesis using Cons.IH [of s] x False Cons.prems by (simp add: get_thr_def)
  qed
qed

lemma tick_loop_eq:
  assumes "distinct l" and "threads s (active_thr s) \<noteq> None" and "\<forall>t \<in> set l. threads s t \<noteq> None"
    and c: "\<And>x. clientID (f x) = clientID x"
  shows "tick_loop f l n s = Inr (n + int (length (filter (same_client s) l)),
    s\<lparr>threads := upd_in (\<lambda>t. t \<in> set l) (\<lambda>x. (f x)\<lparr>state := state x + 1\<rparr>) (threads s)\<rparr>)"
  using assms(1-3)
proof (induction l arbitrary: n s)
  case Nil
  then show ?case by (simp add: upd_in_def)
next
  case (Cons t ts)
  obtain x a where x: "threads s t = Some x" and a: "threads s (active_thr s) = Some a"
    using Cons.prems by auto
  let ?s1 = "put_thr s t ((f x)\<lparr>state := state x + 1\<rparr>)"
  have j: "same_client ?s1 = same_client s" by (rule ext) (use x c in \<open>auto simp: same_client_def\<close>)
  obtain b where b: "get_thr ?s1 t = Inr b" "clientID b = clientID x"
    using c by (simp add: get_thr_def)
  obtain d where d: "get_thr ?s1 (active_thr ?s1) = Inr d" "clientID d = clientID a"
    using c x a by (cases "active_thr s = t") (auto simp: get_thr_def)
  have n: "(if clientID x = clientID a then n + 1 else n) + int (length (filter (same_client s) ts))
      = n + int (length (filter (same_client s) (t # ts)))"
    using x a by (simp add: same_client_def)
  have q: "threads ?s1 (active_thr ?s1) \<noteq> None" "\<forall>u \<in> set ts. threads ?s1 u \<noteq> None"
    using Cons.prems by auto
  have "tick_loop f (t # ts) n s
      = tick_loop f ts (if clientID x = clientID a then n + 1 else n) ?s1"
    using x b d by (simp add: upd_thr_def get_thr_def)
  also have "\<dots> = Inr (n + int (length (filter (same_client s) (t # ts))), ?s1\<lparr>threads :=
      upd_in (\<lambda>u. u \<in> set ts) (\<lambda>x. (f x)\<lparr>state := state x + 1\<rparr>) (threads ?s1)\<rparr>)"
    by (subst Cons.IH [OF _ q]) (use Cons.prems(1) n in \<open>simp_all add: j\<close>)
  also have "upd_in (\<lambda>u. u \<in> set ts) (\<lambda>x. (f x)\<lparr>state := state x + 1\<rparr>) (threads ?s1)
      = upd_in (\<lambda>u. u \<in> set (t # ts)) (\<lambda>x. (f x)\<lparr>state := state x + 1\<rparr>) (threads s)"
    using x Cons.prems(1) by (auto simp: upd_in_def fun_eq_iff)
  finally show ?case by (simp add: put_thr_def)
qed


section \<open>Exit, join, sleep and the clock tick\<close>

lemma others_sel [simp]:
  "others (put_thr s t x) = others s" "others (s\<lparr>spl := v\<rparr>) = others s" "others (s\<lparr>stack := k\<rparr>) = others s"
  "others (s\<lparr>result := r\<rparr>) = others s" "others (s\<lparr>user_mem := m\<rparr>) = others s"
  "others (s\<lparr>threads := th\<rparr>) = others s" "others (s\<lparr>zombie_thr_list := z\<rparr>) = others s"
  "others (s\<lparr>dead_thr_list := z\<rparr>) = others s" "others (s\<lparr>Clock := c\<rparr>) = others s"
  by (simp_all add: others_def)

lemma placedD:
  assumes "sched_inv s"
  shows "threads s (active_thr s) \<noteq> None"
    and "t \<in># others s \<Longrightarrow> threads s t \<noteq> None"
    and "t \<in> set (exe_thr_list s) \<Longrightarrow> threads s t \<noteq> None"
    and "t \<in> set (sleep_thr_list s) \<Longrightarrow> threads s t \<noteq> None"
    and "t \<in> set (join_thr_list s) \<Longrightarrow> threads s t \<noteq> None"
    and "active_thr s \<notin># others s"
    and "active_thr s \<notin> set (exe_thr_list s)" "active_thr s \<notin> set (sleep_thr_list s)"
    and "active_thr s \<notin> set (join_thr_list s)"
    and "all_live s (others s)"
proof -
  have a: "all_live s (add_mset (active_thr s) (others s))"
    using assms by (simp add: sched_inv_def placed_def)
  then have l: "t \<in># add_mset (active_thr s) (others s) \<Longrightarrow> threads s t \<noteq> None" for t
    by (auto simp: all_live_def live_thr_def)
  have c: "count (add_mset (active_thr s) (others s)) (active_thr s) \<le> 1"
    using a unfolding all_live_def by blast
  show n: "active_thr s \<notin># others s" using c by (simp add: count_eq_zero_iff)
  show "all_live s (others s)" by (rule all_live_mono [OF a]) simp
  show "threads s (active_thr s) \<noteq> None" using l [of "active_thr s"] by simp
  show "t \<in># others s \<Longrightarrow> threads s t \<noteq> None" for t using l [of t] by simp
  show "t \<in> set (exe_thr_list s) \<Longrightarrow> threads s t \<noteq> None"
    "t \<in> set (sleep_thr_list s) \<Longrightarrow> threads s t \<noteq> None"
    "t \<in> set (join_thr_list s) \<Longrightarrow> threads s t \<noteq> None" for t
    using l [of t] by (auto simp: others_def)
  show "active_thr s \<notin> set (exe_thr_list s)" "active_thr s \<notin> set (sleep_thr_list s)"
    "active_thr s \<notin> set (join_thr_list s)" using n by (auto simp: others_def)
qed

lemma distinct_sub:
  assumes "sched_inv s" and "mset l \<subseteq># placed s"
  shows "distinct l"
proof -
  have c: "count (mset l) t \<le> 1" for t
    using assms unfolding sched_inv_def all_live_def by (meson mset_subset_eq_count order_trans)
  show ?thesis
    unfolding distinct_count_atmost_1
  proof
    fix a
    show "count (mset l) a = (if a \<in> set l then 1 else 0)"
      using c [of a] count_greater_zero_iff [of "mset l" a] by (auto simp: le_Suc_eq)
  qed
qed

lemma distinct_lists:
  assumes "sched_inv s"
  shows "distinct (exe_thr_list s)" "distinct (sleep_thr_list s)" "distinct (join_thr_list s)"
proof -
  have "mset (exe_thr_list s) \<subseteq># placed s" "mset (sleep_thr_list s) \<subseteq># placed s"
    "mset (join_thr_list s) \<subseteq># placed s"
    by (auto simp: placed_def others_def subset_mset.le_iff_add intro: exI [of _ "add_mset _ _"])
  then show "distinct (exe_thr_list s)" "distinct (sleep_thr_list s)" "distinct (join_thr_list s)"
    using distinct_sub [OF assms] by blast+
qed

lemma mset_partition: "mset (filter P l) + mset (filter (\<lambda>t. \<not> P t) l) = mset l"
  by (metis mset_append mset_filter multiset_partition)

text \<open>The active thread leaves for good: what is on its stack does not matter.\<close>

lemma sthread_switch_leave:
  assumes "sthread_switch (push_frame f s) old (active_thr s) = Inr s'"
    and "all_live (s\<lparr>stack := []\<rparr>) (placed s)" and "old \<notin># placed s"
  shows "sched_inv s' \<and> wake s' = wake s \<and> (\<exists>th st. s' = s\<lparr>threads := th, stack := st\<rparr>)"
proof -
  let ?n = "active_thr s"
  have ne: "old \<noteq> ?n" using assms(3) by (auto simp: placed_def)
  then obtain x y where x: "threads s old = Some x" "threads s ?n = Some y"
    and s': "s' = s\<lparr>threads := (threads s)(old \<mapsto> x\<lparr>saved_ctx := f # stack s\<rparr>), stack := saved_ctx y\<rparr>"
    using assms(1) by (auto simp: sthread_switch_runs push_frame_def)
  have "live_thr (threads s) ?n" using assms(2) by (simp add: all_live_def placed_def)
  then have "list_all live_frame (saved_ctx y)" using x(2) by (simp add: live_thr_def)
  moreover have "live_thr (threads s') t" if "t \<in># placed s" for t
    using that assms(2,3) s' by (auto simp: all_live_def live_thr_def)
  moreover have "placed s' = placed s" using s' by (simp add: placed_def others_def)
  ultimately show ?thesis using assms(2) x s'
    by (auto simp: sched_inv_def all_live_def wake_def fun_eq_iff split: if_splits)
qed

lemma all_live_stack: "sched_inv s \<Longrightarrow> sched_inv (s\<lparr>stack := []\<rparr>)"
  by (simp add: sched_inv_def all_live_def placed_def)

text \<open>The state in which \<open>exit\<close> looks for the next thread.\<close>

definition exit_state :: "sched \<Rightarrow> void_ptr \<Rightarrow> sched" where
  "exit_state s ret =
     (let joined = (\<exists>t \<in> set (join_thr_list s). joins s t) in
      s\<lparr>spl := HIGH,
        threads := upd_in (\<lambda>t. t \<in> set (join_thr_list s) \<and> joins s t) (\<lambda>x. x\<lparr>join_ret := ret\<rparr>) (threads s),
        exe_thr_list := exe_thr_list s @ filter (joins s) (join_thr_list s),
        join_thr_list := filter (\<lambda>t. \<not> joins s t) (join_thr_list s),
        dead_thr_list := dead_thr_list s @ (if joined then [active_thr s] else []),
        zombie_thr_list := zombie_thr_list s @ (if joined then [] else [active_thr s])\<rparr>)"

lemma exit_state_stack:
  "all_live ((exit_state s ret)\<lparr>stack := []\<rparr>) M = all_live (s\<lparr>stack := []\<rparr>) M"
  by (simp add: exit_state_def Let_def all_live_def)

lemma sthread_user_exit_eq:
  assumes "threads s (active_thr s) \<noteq> None" and "\<forall>t \<in> set (join_thr_list s). threads s t \<noteq> None"
  shows "sthread_user_exit s ret =
     (if exe_thr_list (exit_state s ret) = [] then exit_program (exit_state s ret)
      else c_bind (next_active (exit_state s ret)) (\<lambda>s3.
        sthread_switch (push_frame Exited s3) (active_thr s) (active_thr s3)))"
proof -
  have j: "joins (s\<lparr>spl := HIGH\<rparr>) = joins s" by (rule ext) (simp add: joins_def)
  have "exit_loop ret (join_thr_list s) [] True (s\<lparr>spl := HIGH\<rparr>) =
      Inr (\<not> (\<exists>t \<in> set (join_thr_list s). joins s t), (exit_state s ret)
        \<lparr>dead_thr_list := dead_thr_list s, zombie_thr_list := zombie_thr_list s\<rparr>)"
    using assms by (subst exit_loop_eq) (simp_all add: j exit_state_def Let_def)
  moreover have "active_thr (exit_state s ret) = active_thr s" by (simp add: exit_state_def Let_def)
  ultimately show ?thesis
    by (simp add: sthread_user_exit_def Let_def) (simp add: exit_state_def Let_def)
qed

lemma exit_program_not_returns [simp]: "exit_program s \<noteq> Inr s'"
  by (auto simp: exit_program_def c_bind_eq_Inr)

lemma exit_state_facts:
  shows "others (exit_state s ret) = others s" and "wake (exit_state s ret) = wake s"
    and "sleep_thr_list (exit_state s ret) = sleep_thr_list s" and "Clock (exit_state s ret) = Clock s"
    and "all_live (exit_state s ret) M = all_live s M"
proof -
  let ?l = "join_thr_list s"
  show "others (exit_state s ret) = others s"
    using mset_partition [of "joins s" ?l] by (simp add: exit_state_def Let_def others_def ac_simps)
  show "wake (exit_state s ret) = wake s"
    by (auto simp: exit_state_def Let_def wake_def fun_eq_iff upd_in_def option.map_comp comp_def)
  show "sleep_thr_list (exit_state s ret) = sleep_thr_list s" "Clock (exit_state s ret) = Clock s"
    by (simp_all add: exit_state_def Let_def)
  show "all_live (exit_state s ret) M = all_live s M"
    by (simp add: exit_state_def Let_def all_live_def)
qed

lemma sthread_user_exit_step:
  assumes "sched_inv (s\<lparr>stack := []\<rparr>)" and "sthread_user_exit s ret = Inr s'"
  shows "sched_inv s' \<and> keeps s s'"
proof -
  have nn: "threads s (active_thr s) \<noteq> None" "\<forall>t \<in> set (join_thr_list s). threads s t \<noteq> None"
    using placedD(1,5) [OF assms(1)] by auto
  obtain s3 where 1: "next_active (exit_state s ret) = Inr s3"
    and 2: "sthread_switch (push_frame Exited s3) (active_thr s) (active_thr s3) = Inr s'"
    using assms(2) by (auto simp: sthread_user_exit_eq [OF nn] c_bind_eq_Inr exit_program_not_returns split: if_splits)
  have p: "placed s3 = others s" using next_active_placed [OF 1] by (simp add: exit_state_facts)
  have e: "threads s3 = threads (exit_state s ret)" "stack s3 = stack (exit_state s ret)"
    "next_ptr s3 = next_ptr (exit_state s ret)" "sleep_thr_list s3 = sleep_thr_list s" "Clock s3 = Clock s"
    using 1 by (auto simp: next_active_runs exit_state_facts)
  have "all_live (s\<lparr>stack := []\<rparr>) (others s)" using placedD(10) [OF assms(1)] by simp
  then have "all_live ((exit_state s ret)\<lparr>stack := []\<rparr>) (others s)" by (simp add: exit_state_stack)
  then have "all_live (s3\<lparr>stack := []\<rparr>) (placed s3)" using e p by (simp add: all_live_def)
  from sthread_switch_leave [OF 2 this] show ?thesis
    using placedD(6) [OF assms(1)] p e exit_state_facts(2) [of s ret]
    by (auto intro!: keepsI simp: wake_def fun_eq_iff)
qed

lemma zombie_loop_runs:
  "zombie_loop thread vp l tmp found s = Inr (found', s') \<Longrightarrow>
   \<exists>z d m. s' = s\<lparr>zombie_thr_list := z, dead_thr_list := d, user_mem := m\<rparr>"
proof (induction thread vp l tmp found s rule: zombie_loop.induct)
  case (1 thread vp tmp found s)
  then have e: "s' = s\<lparr>zombie_thr_list := tmp\<rparr>" by simp
  have "s' = s\<lparr>zombie_thr_list := tmp, dead_thr_list := dead_thr_list s, user_mem := user_mem s\<rparr>"
    by (simp add: e)
  then show ?case by blast
next
  case (2 thread vp z zs tmp found s)
  obtain y x where y: "get_thr s z = Inr y" and x: "get_thr s thread = Inr x"
    using 2(3) by (auto simp: c_bind_eq_Inr)
  show ?case
  proof (cases "tid x = tid y")
    case True
    then obtain s1 where s1: "store_ret s vp (join_ret x) = Inr s1" and r:
      "zombie_loop thread vp zs tmp True (s1\<lparr>dead_thr_list := dead_thr_list s1 @ [thread]\<rparr>) = Inr (found', s')"
      using 2(3) y x by (auto simp: c_bind_eq_Inr)
    obtain z d m where "s' = s1\<lparr>dead_thr_list := dead_thr_list s1 @ [thread],
        zombie_thr_list := z, dead_thr_list := d, user_mem := m\<rparr>"
      using 2(1) [OF y x True s1 r] by auto
    then have "s' = s\<lparr>zombie_thr_list := z, dead_thr_list := d, user_mem := m\<rparr>"
      using s1 by (auto simp: store_ret_runs)
    then show ?thesis by blast
  next
    case False
    then show ?thesis using 2(2) [OF y x False] 2(3) y x by auto
  qed
qed

lemma same_fields_step:
  assumes "sched_inv s"
    and "s' = s\<lparr>zombie_thr_list := z, dead_thr_list := d, user_mem := m, spl := h, result := r\<rparr>"
  shows "sched_inv s' \<and> keeps s s'"
  using assms by (auto simp: sched_inv_def placed_def others_def all_live_def wake_def fun_eq_iff intro!: keepsI)

lemma sthread_user_join_runs:
  assumes "sthread_user_join s t p = Inr s'"
  obtains z d m r where "s' = s\<lparr>zombie_thr_list := z, dead_thr_list := d, user_mem := m, spl := LOW, result := r\<rparr>"
  | z d m s1 i a where
      "s1 = s\<lparr>zombie_thr_list := z, dead_thr_list := d, user_mem := m, spl := HIGH, result := result s\<rparr>"
      and "threads s1 (active_thr s1) = Some a"
      and "switch_to_next ((put_thr s1 (active_thr s1) (a\<lparr>join_tid := i, state := 0\<rparr>))
        \<lparr>join_thr_list := join_thr_list s1 @ [active_thr s1]\<rparr>) (After_join t p) = Inr s'"
proof -
  obtain found s1 where 1: "zombie_loop t p (zombie_thr_list s) [] False (s\<lparr>spl := HIGH\<rparr>) = Inr (found, s1)"
    using assms by (auto simp: sthread_user_join_def c_bind_eq_Inr)
  obtain z d m where "s1 = (s\<lparr>spl := HIGH\<rparr>)\<lparr>zombie_thr_list := z, dead_thr_list := d, user_mem := m\<rparr>"
    using zombie_loop_runs [OF 1] by blast
  then have s1: "s1 = s\<lparr>zombie_thr_list := z, dead_thr_list := d, user_mem := m, spl := HIGH, result := result s\<rparr>"
    by simp
  show ?thesis
  proof (cases "\<exists>r. s' = s1\<lparr>spl := LOW, result := r\<rparr>")
    case True
    then obtain r where "s' = s1\<lparr>spl := LOW, result := r\<rparr>" by blast
    then show ?thesis using s1 by (intro that(1)) simp
  next
    case False
    then obtain i a where a: "threads s1 (active_thr s1) = Some a"
      "switch_to_next ((put_thr s1 (active_thr s1) (a\<lparr>join_tid := i, state := 0\<rparr>))
        \<lparr>join_thr_list := join_thr_list s1 @ [active_thr s1]\<rparr>) (After_join t p) = Inr s'"
      using assms 1 by (auto simp: sthread_user_join_def c_bind_eq_Inr upd_thr_runs split: if_splits)
    then show ?thesis by (rule that(2) [OF s1])
  qed
qed

lemma sthread_user_join_step:
  assumes "sched_inv s" and "sthread_user_join s t p = Inr s'"
  shows "sched_inv s' \<and> keeps s s'"
  using assms(2)
proof (cases rule: sthread_user_join_runs)
  case (1 z d m r)
  then show ?thesis by (rule same_fields_step [OF assms(1)])
next
  case (2 z d m s1 i a)
  have "sched_inv s1 \<and> keeps s s1" by (rule same_fields_step [OF assms(1) 2(1)])
  moreover from this have "sched_inv s' \<and> keeps s1 s'"
    by (intro block_step [OF _ 2(3)])
      (use 2(2) in \<open>auto simp: placed_def others_def all_live_def intro!: keepsI simp: wake_def fun_eq_iff\<close>)
  ultimately show ?thesis using keeps_trans by blast
qed

lemma sthread_user_sleep_runs:
  assumes "sthread_user_sleep s time = Inr s'"
  obtains "c_div time CLOCK_TICK = 0" and "s' = s\<lparr>spl := LOW, result := 0\<rparr>"
  | x w where "threads s (active_thr s) = Some x" and "switch_to_next
      ((put_thr (s\<lparr>spl := HIGH\<rparr>) (active_thr s) (x\<lparr>wake_time := w, state := 0\<rparr>))
        \<lparr>sleep_thr_list := sleep_thr_list s @ [active_thr s]\<rparr>) Slept = Inr s'"
  using assms by (auto simp: sthread_user_sleep_def Let_def c_bind_eq_Inr upd_thr_runs split: if_splits)

lemma sthread_user_sleep_step:
  assumes "sched_inv s" and "sthread_user_sleep s time = Inr s'"
  shows "sched_inv s' \<and> keeps s s'"
  using assms(2)
proof (cases rule: sthread_user_sleep_runs)
  case 1
  then have "s' = s\<lparr>zombie_thr_list := zombie_thr_list s, dead_thr_list := dead_thr_list s,
      user_mem := user_mem s, spl := LOW, result := 0\<rparr>" by simp
  then show ?thesis by (rule same_fields_step [OF assms(1)])
next
  case (2 x w)
  show ?thesis
    by (rule block_step [OF assms(1) 2(2)])
      (use 2(1) placedD(8) [OF assms(1)] in \<open>auto simp: placed_def others_def all_live_def keeps_def wake_def\<close>)
qed

lemma wake_sleepers_eq:
  assumes "sched_inv s"
  shows "wake_sleepers s = Inr (
    s\<lparr>threads := upd_in (\<lambda>t. t \<in> set (sleep_thr_list s) \<and> due s t) (\<lambda>x. x\<lparr>wake_time := 0, state := 0\<rparr>) (threads s),
      exe_thr_list := exe_thr_list s @ filter (due s) (sleep_thr_list s),
      sleep_thr_list := filter (\<lambda>t. \<not> due s t) (sleep_thr_list s)\<rparr>)"
  using wake_loop_eq [OF distinct_lists(2) [OF assms], where tmp = "[]"] placedD(4) [OF assms]
  by (simp add: wake_sleepers_def)

lemma wake_sleepers_step:
  assumes "sched_inv s" and "wake_sleepers s = Inr s'"
  shows "sched_inv s' \<and> keeps s s'"
proof -
  note s' = assms(2) [unfolded wake_sleepers_eq [OF assms(1)], simplified, symmetric]
  have p: "placed s' = placed s"
    using mset_partition [of "due s" "sleep_thr_list s"] s' by (simp add: placed_def others_def ac_simps)
  have "sched_inv s'" using assms(1) s' unfolding sched_inv_def p by (simp add: all_live_def)
  moreover have "keeps s s'"
    using s' by (auto simp: keeps_def due_def wake_def upd_in_def)
  ultimately show ?thesis by simp
qed

text \<open>The number of threads of the active thread's client that do not run, and the state in which the
  dispatcher decides whether to preempt.\<close>

definition clients :: "sched \<Rightarrow> int" where
  "clients s = int (length (filter (same_client s) (sleep_thr_list s @ join_thr_list s @ exe_thr_list s)))"

definition ticked :: "sched \<Rightarrow> sthread \<Rightarrow> sched" where
  "ticked s a = s\<lparr>Clock := Clock s + 1, threads :=
     (upd_in (\<lambda>t. t \<in> set (exe_thr_list s)) (\<lambda>x. x\<lparr>waittime := waittime x + 1, state := state x + 1\<rparr>)
     (upd_in (\<lambda>t. t \<in> set (join_thr_list s)) (\<lambda>x. x\<lparr>sleeptime := sleeptime x + 1, state := state x + 1\<rparr>)
     (upd_in (\<lambda>t. t \<in> set (sleep_thr_list s)) (\<lambda>x. x\<lparr>sleeptime := sleeptime x + 1, state := state x + 1\<rparr>)
       (threads s))))
     (active_thr s \<mapsto> a\<lparr>min_delay := min_delay a + 1, runtime := runtime a + 1,
        vruntime := of_int ((prio a + nice a) * clients s), state := state a + 1\<rparr>)\<rparr>"

lemma upd_in_other: "\<not> P t \<Longrightarrow> upd_in P f th t = th t"
  by (simp add: upd_in_def)

lemma upd_in_fun_upd: "\<not> P t \<Longrightarrow> upd_in P f (th(t \<mapsto> x)) = (upd_in P f th)(t \<mapsto> x)"
  by (auto simp: upd_in_def)

lemma same_client_upd_in:
  assumes "\<not> P (active_thr s)" and "\<And>x. clientID (f x) = clientID x"
    and "threads s (active_thr s) = Some a" and "clientID a' = clientID a"
  shows "same_client (s\<lparr>Clock := k, threads := (upd_in P f (threads s))(active_thr s \<mapsto> a')\<rparr>) = same_client s"
  using assms by (auto simp: same_client_def upd_in_def fun_eq_iff option.map_comp comp_def)

lemma dispatcher_eq:
  assumes inv: "sched_inv s" and a: "threads s (active_thr s) = Some a"
  shows "sthread_user_dispatcher s =
     c_bind (c_int (Clock s + 1)) (\<lambda>_. c_bind (c_int (min_delay a + 1)) (\<lambda>d.
     c_bind (c_int (prio a + nice a)) (\<lambda>p. c_bind (c_int (p * clients s)) (\<lambda>_.
     if exe_thr_list s \<noteq> [] \<and> d \<ge> 5 then sthread_user_yield (push_frame Wake_sleepers (ticked s a))
     else wake_sleepers (ticked s a)))))"
proof -
  let ?act = "active_thr s"
  let ?a = "a\<lparr>min_delay := min_delay a + 1, runtime := runtime a + 1\<rparr>"
  let ?f = "\<lambda>x. x\<lparr>sleeptime := sleeptime x + 1\<rparr>" and ?g = "\<lambda>x. x\<lparr>waittime := waittime x + 1\<rparr>"
  let ?f' = "\<lambda>x. x\<lparr>sleeptime := sleeptime x + 1, state := state x + 1\<rparr>"
    and ?g' = "\<lambda>x. x\<lparr>waittime := waittime x + 1, state := state x + 1\<rparr>"
  define th1 where "th1 = (threads s)(?act \<mapsto> ?a)"
  define th2 where "th2 = upd_in (\<lambda>t. t \<in> set (sleep_thr_list s)) ?f' th1"
  define th3 where "th3 = upd_in (\<lambda>t. t \<in> set (join_thr_list s)) ?f' th2"
  define th4 where "th4 = upd_in (\<lambda>t. t \<in> set (exe_thr_list s)) ?g' th3"
  let ?st = "\<lambda>th. s\<lparr>Clock := Clock s + 1, threads := th\<rparr>"
  note notin = placedD(7-9) [OF inv] and dis = distinct_lists [OF inv] and ex = placedD(3-5) [OF inv]
  have act: "th1 ?act = Some ?a" "th2 ?act = Some ?a" "th3 ?act = Some ?a" "th4 ?act = Some ?a"
    using notin by (simp_all add: th1_def th2_def th3_def th4_def upd_in_other)
  have dom: "(th1 t = None) = (threads s t = None)" "(th2 t = None) = (threads s t = None)"
    "(th3 t = None) = (threads s t = None)" for t
    using a by (auto simp: th1_def th2_def th3_def upd_in_def)
  have cl: "map_option clientID (th1 t) = map_option clientID (threads s t)"
    "map_option clientID (th2 t) = map_option clientID (threads s t)"
    "map_option clientID (th3 t) = map_option clientID (threads s t)" for t
    using a by (auto simp: th1_def th2_def th3_def upd_in_def option.map_comp comp_def)
  have sc: "same_client (?st th1) = same_client s" "same_client (?st th2) = same_client s"
    "same_client (?st th3) = same_client s"
    by (rule ext, simp add: same_client_def cl)+
  have 1: "tick_loop ?f (sleep_thr_list s) 0 (?st th1) = Inr (int (length (filter (same_client s) (sleep_thr_list s))), ?st th2)"
    using dis ex act dom by (subst tick_loop_eq) (simp_all add: sc th2_def)
  have 2: "tick_loop ?f (join_thr_list s) n (?st th2) = Inr (n + int (length (filter (same_client s) (join_thr_list s))), ?st th3)" for n
    using dis ex act dom by (subst tick_loop_eq) (simp_all add: sc th3_def)
  have 3: "tick_loop ?g (exe_thr_list s) n (?st th3) = Inr (n + int (length (filter (same_client s) (exe_thr_list s))), ?st th4)" for n
    using dis ex act dom by (subst tick_loop_eq) (simp_all add: sc th4_def)
  have t: "put_thr (?st th4) ?act (?a\<lparr>vruntime := of_int ((prio a + nice a) * clients s), state := state ?a + 1\<rparr>) = ticked s a"
    using notin by (simp add: ticked_def put_thr_def th1_def th2_def th3_def th4_def upd_in_fun_upd)
  have n: "int (length (filter (same_client s) (sleep_thr_list s))) + int (length (filter (same_client s) (join_thr_list s)))
      + int (length (filter (same_client s) (exe_thr_list s))) = clients s"
    by (simp add: clients_def)
  have p: "put_thr (s\<lparr>Clock := Clock s + 1\<rparr>) ?act ?a = ?st th1" by (simp add: put_thr_def th1_def)
  have sel: "exe_thr_list (ticked s a) = exe_thr_list s" by (simp add: ticked_def)
  have g: "get_thr (?st th4) ?act = Inr ?a" "get_thr s ?act = Inr a"
    using act a by (simp_all add: get_thr_def)
  show ?thesis
  proof (cases "c_int (Clock s + 1)")
    case (Inr k)
    then have k: "k = Clock s + 1" "c_int (Clock s + 1) = Inr (Clock s + 1)" by (simp_all add: c_int_runs)
    show ?thesis
    proof (cases "c_int (min_delay a + 1)")
      case (Inr d)
      then have d: "c_int (min_delay a + 1) = Inr (min_delay a + 1)" by (simp add: c_int_runs)
      show ?thesis
        unfolding sthread_user_dispatcher_def Let_def k(2) g(2) d c_bind_Inr p
        by (auto simp: 1 2 3 g n t [simplified] sel c_int_runs intro!: c_bind_cong)
    qed (simp add: sthread_user_dispatcher_def k(2) g)
  qed (simp add: sthread_user_dispatcher_def)
qed

lemma ticked_facts:
  assumes "sched_inv s" and a: "threads s (active_thr s) = Some a"
  shows "sched_inv (ticked s a)" and "wake (ticked s a) = wake s"
    and "sleep_thr_list (ticked s a) = sleep_thr_list s" and "exe_thr_list (ticked s a) = exe_thr_list s"
    and "Clock (ticked s a) = Clock s + 1"
proof -
  note notin = placedD(7-9) [OF assms(1)]
  have l: "live_thr (threads (ticked s a)) t = live_thr (threads s) t" for t
    using a notin by (auto simp: ticked_def live_thr_def upd_in_def)
  have d: "(threads (ticked s a) t = None) = (threads s t = None)" for t
    using a by (simp add: ticked_def)
  have "placed (ticked s a) = placed s" by (simp add: ticked_def placed_def others_def)
  then show "sched_inv (ticked s a)" using assms(1) l d
    by (simp add: sched_inv_def all_live_def) (simp add: ticked_def)
  show "wake (ticked s a) = wake s" using a
    by (auto simp: ticked_def wake_def fun_eq_iff upd_in_def option.map_comp comp_def)
qed (simp_all add: ticked_def)

lemma push_live: "sched_inv s \<Longrightarrow> live_frame f \<Longrightarrow> sched_inv (push_frame f s) \<and> keeps s (push_frame f s)"
  by (auto simp: push_frame_def sched_inv_def placed_def all_live_def wake_def fun_eq_iff intro!: keepsI)

lemma sthread_user_dispatcher_step:
  assumes "sched_inv s" and "sthread_user_dispatcher s = Inr s'"
  shows "sched_inv s' \<and> keeps s s'"
proof -
  obtain a where a: "threads s (active_thr s) = Some a" using placedD(1) [OF assms(1)] by auto
  let ?t = "ticked s a"
  note t = ticked_facts [OF assms(1) a]
  have "keeps s ?t" by (auto simp: keeps_def t)
  moreover have "sched_inv s' \<and> keeps ?t s'"
  proof (cases "sthread_user_yield (push_frame Wake_sleepers ?t) = Inr s'")
    case True
    then show ?thesis
      using push_live [OF t(1), of Wake_sleepers] sthread_user_yield_step keeps_trans by fastforce
  next
    case False
    then have "wake_sleepers ?t = Inr s'"
      using assms(2) by (auto simp: dispatcher_eq [OF assms(1) a] c_bind_eq_Inr split: if_splits)
    then show ?thesis using wake_sleepers_step [OF t(1)] by simp
  qed
  ultimately show ?thesis using keeps_trans by blast
qed

section \<open>Semaphores\<close>

lemma put_sem_others:
  assumes "i < length (sems s)" and "sems s ! i = Some m"
  shows "others (put_sem s i m') + mset (s_queue m) = others s + mset (s_queue m')"
  using concat_update [OF assms(1), of sem_threads "Some m'"] assms(2)
  by (simp add: others_def put_sem_def sem_threads_def ac_simps)

lemma put_sem_sel [simp]:
  "threads (put_sem s i m) = threads s" "next_ptr (put_sem s i m) = next_ptr s"
  "exe_thr_list (put_sem s i m) = exe_thr_list s" "sleep_thr_list (put_sem s i m) = sleep_thr_list s"
  "join_thr_list (put_sem s i m) = join_thr_list s" "active_thr (put_sem s i m) = active_thr s"
  "stack (put_sem s i m) = stack s" "Clock (put_sem s i m) = Clock s"
  "sems (put_sem s i m) = (sems s)[i := Some m]" "rwlocks (put_sem s i m) = rwlocks s"
  "mutexes (put_sem s i m) = mutexes s"
  by (simp_all add: put_sem_def)

lemma sthread_user_sem_wait_step:
  assumes "sched_inv s" and "sthread_user_sem_wait s i = Inr s'"
  shows "sched_inv s' \<and> keeps s s'"
proof -
  obtain m where m: "i < length (sems s)" "sems s ! i = Some m" and l: "s_l m = 0"
    using assms(2) by (auto simp: sthread_user_sem_wait_def c_bind_eq_Inr sched_runs)
  show ?thesis
  proof (cases "s_counter m > 0")
    case True
    then have s': "s' = put_sem s i (m\<lparr>s_counter := s_counter m - 1, s_l := 0\<rparr>)"
      using assms(2) m l by (auto simp: sthread_user_sem_wait_def c_bind_eq_Inr sched_runs atomic_clear_def)
    then have "others s' = others s" using put_sem_others [OF m, of "m\<lparr>s_counter := s_counter m - 1, s_l := 0\<rparr>"] by simp
    then show ?thesis using assms(1) s'
      by (auto simp: sched_inv_def placed_def all_live_def wake_def fun_eq_iff intro!: keepsI)
  next
    case False
    let ?m = "m\<lparr>s_queue := s_queue m @ [active_thr s], s_l := 0\<rparr>"
    obtain x where x: "threads s (active_thr s) = Some x" and
      run: "switch_to_next ((put_sem (put_thr s (active_thr s) (x\<lparr>state := 0\<rparr>)) i ?m)\<lparr>spl := HIGH\<rparr>) Splx_low = Inr s'"
      using assms(2) m l False
      by (auto simp: sthread_user_sem_wait_def c_bind_eq_Inr sched_runs atomic_clear_def Let_def)
    have "others (put_sem (put_thr s (active_thr s) (x\<lparr>state := 0\<rparr>)) i ?m) = placed s"
      using put_sem_others [of i "put_thr s (active_thr s) (x\<lparr>state := 0\<rparr>)" m ?m] m
      by (simp add: placed_def)
    then show ?thesis
      by (intro block_step [OF assms(1) run])
        (use x in \<open>auto simp: all_live_def intro!: keepsI simp: wake_def fun_eq_iff\<close>)
  qed
qed

lemma sthread_user_sem_post_step:
  assumes "sched_inv s" and "sthread_user_sem_post s i = Inr s'"
  shows "sched_inv s' \<and> keeps s s'"
proof -
  obtain m where m: "i < length (sems s)" "sems s ! i = Some m" and l: "s_l m = 0"
    using assms(2) by (auto simp: sthread_user_sem_post_def c_bind_eq_Inr sched_runs)
  show ?thesis
  proof (cases "s_queue m")
    case Nil
    then have s': "s' = put_sem s i (m\<lparr>s_counter := s_counter m + 1, s_l := 0\<rparr>)"
      using assms(2) m l by (auto simp: sthread_user_sem_post_def c_bind_eq_Inr sched_runs atomic_clear_def)
    then have "others s' = others s" using put_sem_others [OF m, of "m\<lparr>s_counter := s_counter m + 1, s_l := 0\<rparr>"] by simp
    then show ?thesis using assms(1) s'
      by (auto simp: sched_inv_def placed_def all_live_def wake_def fun_eq_iff intro!: keepsI)
  next
    case (Cons t ts)
    let ?m = "m\<lparr>s_queue := ts, s_l := 0\<rparr>"
    obtain x where x: "threads s t = Some x" and
      s': "s' = (put_thr (put_sem s i ?m) t (x\<lparr>state := 0\<rparr>))\<lparr>exe_thr_list := exe_thr_list s @ [t]\<rparr>"
      using assms(2) m l Cons
      by (auto simp: sthread_user_sem_post_def c_bind_eq_Inr sched_runs atomic_clear_def Let_def)
    have "others s' = add_mset t (others (put_sem s i ?m))" using s' by (simp add: others_def)
    also have "\<dots> = others s" using put_sem_others [OF m, of ?m] Cons by simp
    finally show ?thesis using assms(1) s' x
      by (auto simp: sched_inv_def placed_def all_live_def wake_def fun_eq_iff intro!: keepsI)
  qed
qed

lemma sthread_user_sem_init_step:
  assumes "sched_inv s" and "sthread_user_sem_init s n = (i, s')"
  shows "sched_inv s' \<and> keeps s s'"
proof -
  have s': "s' = s\<lparr>sems := sems s @ [Some \<lparr>s_counter = sint n, s_l = 0, s_queue = []\<rparr>]\<rparr>"
    using assms(2) by (simp add: sthread_user_sem_init_def)
  have "placed s' = placed s" by (simp add: s' placed_def others_def sem_threads_def)
  then have "sched_inv s'" using assms(1) by (simp add: s' sched_inv_def all_live_def)
  moreover have "keeps s s'" by (rule keepsI) (simp_all add: s' wake_def fun_eq_iff)
  ultimately show ?thesis by simp
qed

lemma free_all_runs:
  "free_all l s = Inr s' \<Longrightarrow> s' = s\<lparr>threads := (\<lambda>t. if t \<in> set l then None else threads s t)\<rparr>"
proof (induction l arbitrary: s)
  case Nil
  then show ?case by simp
next
  case (Cons t ts)
  then have f: "free_all ts (s\<lparr>threads := (threads s)(t := None)\<rparr>) = Inr s'"
    by (auto simp: sthread_user_free_def c_bind_eq_Inr)
  have e: "(\<lambda>u. if u \<in> set ts then None else ((threads s)(t := None)) u)
      = (\<lambda>u. if u \<in> set (t # ts) then None else threads s u)" by (auto simp: fun_eq_iff)
  have "s' = s\<lparr>threads := (\<lambda>u. if u \<in> set ts then None else ((threads s)(t := None)) u)\<rparr>"
    using Cons.IH [OF f] by (simp cong: if_cong)
  then show ?case by (simp only: e)
qed

lemma sthread_user_sem_destroy_step:
  assumes "sched_inv s" and "sthread_user_sem_destroy s i = Inr s'"
  shows "sched_inv s' \<and> keeps s s'"
proof -
  obtain m where m: "i < length (sems s)" "sems s ! i = Some m"
    and s': "s' = s\<lparr>threads := (\<lambda>t. if t \<in> set (s_queue m) then None else threads s t),
      sems := (sems s)[i := None]\<rparr>"
  proof -
    obtain m s1 where m: "i < length (sems s)" "sems s ! i = Some m" and "free_all (s_queue m) s = Inr s1"
      and s': "s' = s1\<lparr>sems := (sems s1)[i := None]\<rparr>"
      using assms(2) by (auto simp: sthread_user_sem_destroy_def c_bind_eq_Inr sched_runs)
    then have "s1 = s\<lparr>threads := (\<lambda>t. if t \<in> set (s_queue m) then None else threads s t)\<rparr>"
      by (intro free_all_runs)
    then show ?thesis using that m s' by simp
  qed
  have p: "placed s' + mset (s_queue m) = placed s"
    using concat_update [OF m(1), of sem_threads None] m(2) s'
    by (simp add: placed_def others_def sem_threads_def ac_simps)
  have disj: "t \<notin> set (s_queue m)" if "t \<in># placed s'" for t
  proof
    assume "t \<in> set (s_queue m)"
    then have "1 + 1 \<le> count (placed s') t + count (mset (s_queue m)) t"
      using that by (intro add_mono) (simp_all add: Suc_le_eq)
    also have "\<dots> = count (placed s) t" by (simp flip: p)
    also have "\<dots> \<le> 1" using assms(1) unfolding sched_inv_def all_live_def by blast
    finally show False by simp
  qed
  have "placed s' \<subseteq># placed s" using p by (metis mset_subset_eq_add_left)
  from all_live_mono [OF assms(1) [unfolded sched_inv_def] this]
  have "sched_inv s'" using disj s' by (auto simp: sched_inv_def all_live_def live_thr_def)
  moreover have "keeps s s'" using s' disj
    by (auto simp: keeps_def wake_def placed_def others_def)
  ultimately show ?thesis by simp
qed

section \<open>Programs without mutexes\<close>

fun basic_call :: "sthread_call \<Rightarrow> bool" where
  "basic_call (Thread_create mem f arg client priority nice0) = True"
| "basic_call (Exit ret) = True"
| "basic_call Return = True"
| "basic_call Yield = True"
| "basic_call (Sleep time) = True"
| "basic_call (Join t p) = True"
| "basic_call (Nice n) = True"
| "basic_call (Sem_init n) = True"
| "basic_call (Sem_wait i) = True"
| "basic_call (Sem_post i) = True"
| "basic_call (Sem_destroy i) = True"
| "basic_call _ = False"

lemma returns_step: "sched_inv s \<and> keeps s0 s \<Longrightarrow> sched_inv (returns (i, s)) \<and> keeps s0 (returns (i, s))"
  by (auto simp: returns_def sched_inv_def placed_def others_def all_live_def keeps_def wake_def)

lemma do_call_step:
  assumes "basic_call c" and "sched_inv s" and "stack s = []" and "do_call c s = Inr s'"
  shows "sched_inv s' \<and> keeps s s'"
proof (cases c)
  case (Thread_create mem f arg client priority nice0)
  then show ?thesis using assms(2,4) sthread_user_create_step returns_step
    by (fastforce simp: c_bind_eq_Inr)
next
  case (Exit ret)
  then show ?thesis using assms(2,4) sthread_user_exit_step [OF all_live_stack] by simp
next
  case Return
  let ?s = "push_frame No_return s"
  have "sched_inv (?s\<lparr>stack := []\<rparr>)" using all_live_stack [OF assms(2)]
    by (simp add: push_frame_def)
  moreover have "sthread_user_exit ?s NULL = Inr s'" using assms(4) Return by (simp add: sthread_aux_end_def)
  ultimately have "sched_inv s' \<and> keeps ?s s'" by (rule sthread_user_exit_step)
  moreover have "keeps s ?s" by (rule keepsI) (simp_all add: push_frame_def wake_def fun_eq_iff)
  ultimately show ?thesis using keeps_trans by blast
next
  case (Sem_init n)
  then show ?thesis
    using assms(2,4) sthread_user_sem_init_step [OF assms(2), of n] returns_step
    by (cases "sthread_user_sem_init s n") fastforce
qed (use assms in \<open>auto dest: sthread_user_yield_step sthread_user_sleep_step sthread_user_join_step
  sthread_nice_step sthread_user_sem_wait_step sthread_user_sem_post_step sthread_user_sem_destroy_step\<close>)

lemma run_frame_step:
  assumes "sched_inv s" and "live_frame f" and "run_frame f s = Inr s'"
  shows "sched_inv s' \<and> keeps s s'"
proof -
  have set_fields: "sched_inv (s\<lparr>spl := LOW\<rparr>) \<and> keeps s (s\<lparr>spl := LOW\<rparr>)"
    using assms(1) by (auto simp: sched_inv_def placed_def all_live_def wake_def fun_eq_iff intro!: keepsI)
  show ?thesis
  proof (cases f)
    case (After_join t p)
    then obtain m where "s' = s\<lparr>zombie_thr_list := zombie_thr_list s, dead_thr_list := dead_thr_list s,
        user_mem := m, spl := LOW, result := 0\<rparr>"
      using assms(3) by (auto simp: c_bind_eq_Inr sched_runs)
    then show ?thesis by (rule same_fields_step [OF assms(1)])
  next
    case Slept
    then have "s' = s\<lparr>zombie_thr_list := zombie_thr_list s, dead_thr_list := dead_thr_list s,
        user_mem := user_mem s, spl := LOW, result := 0\<rparr>"
      using assms(3) by simp
    then show ?thesis by (rule same_fields_step [OF assms(1)])
  next
    case Wake_sleepers
    then show ?thesis using assms wake_sleepers_step by simp
  qed (use set_fields assms in auto)
qed

lemma basic_step:
  assumes "sthread_step (Collect basic_call) s s'" and "sched_inv s"
  shows "sched_inv s' \<and> keeps s s'"
  using assms(1)
proof (cases rule: sthread_step.cases)
  case tick
  then show ?thesis using sthread_user_dispatcher_step [OF assms(2)] by simp
next
  case (call c)
  then show ?thesis using do_call_step [OF _ assms(2)] by simp
next
  case (resume f fs)
  have "sched_inv (s\<lparr>stack := fs\<rparr>)" "keeps s (s\<lparr>stack := fs\<rparr>)"
    using assms(2) resume(1)
    by (auto simp: sched_inv_def placed_def all_live_def wake_def fun_eq_iff intro!: keepsI)
  moreover have "live_frame f" using assms(2) resume(1) by (simp add: sched_inv_def all_live_def)
  ultimately show ?thesis using run_frame_step resume(2) keeps_trans by blast
qed

lemma sthread_user_init_inv: "sched_inv (sthread_user_init mem)"
  by (simp add: sthread_user_init_def sched_inv_def placed_def others_def all_live_def live_thr_def)

interpretation basic: transition_system
    "\<lambda>s. \<exists>mem. s = sthread_user_init mem" "sthread_step (Collect basic_call)" sched_inv
  by unfold_locales (auto simp: sthread_user_init_inv dest: basic_step)

end
