(* ===== verification/Sthread_Objects.thy ===== *)
theory Sthread_Objects
  imports Sthread_Sched
begin

text \<open>
  The objects for synchronisation, in all programs.

  Most operations leave the objects alone (\<open>same_objs\<close>); the others keep \<open>objs_ok\<close>: the spin locks
  are free between two steps, and a semaphore with waiting threads has no units.
\<close>

section \<open>Operations that leave the objects alone\<close>

lemma c_bindE:
  assumes "c_bind m f = Inr y"
  obtains x where "m = Inr x" and "f x = Inr y"
  using assms by (auto simp: c_bind_eq_Inr)

definition same_objs :: "sched \<Rightarrow> sched \<Rightarrow> bool" where
  "same_objs s s' = (mutexes s' = mutexes s \<and> sems s' = sems s \<and> rwlocks s' = rwlocks s \<and> mons s' = mons s)"

lemma same_objs_refl [simp]: "same_objs s s"
  by (simp add: same_objs_def)

lemma same_objs_trans: "same_objs s s' \<Longrightarrow> same_objs s' s'' \<Longrightarrow> same_objs s s''"
  by (simp add: same_objs_def)

lemma sthread_switch_objs: "sthread_switch s old new = Inr s' \<Longrightarrow> same_objs s s'"
  by (auto simp: sthread_switch_runs same_objs_def split: if_splits)

lemma next_active_objs: "next_active s = Inr s' \<Longrightarrow> same_objs s s'"
  by (auto simp: next_active_runs same_objs_def)

lemma switch_to_next_objs:
  assumes "switch_to_next s f = Inr s'"
  shows "same_objs s s'"
proof -
  obtain s1 s2 where 1: "next_active s = Inr s1" "upd_thr s1 (active_thr s1) (\<lambda>x. x\<lparr>state := 0\<rparr>) = Inr s2"
    "sthread_switch (push_frame f s2) (active_thr s) (active_thr s2) = Inr s'"
    using assms by (auto simp: switch_to_next_def Let_def c_bind_eq_Inr)
  show ?thesis using next_active_objs [OF 1(1)] 1(2) sthread_switch_objs [OF 1(3)]
    by (auto simp: same_objs_def upd_thr_runs push_frame_def)
qed

lemma switch_to_next_lists:
  assumes "switch_to_next s f = Inr s'"
  shows "active_thr s' # exe_thr_list s' = exe_thr_list s"
proof -
  obtain s1 s2 where 1: "next_active s = Inr s1" "upd_thr s1 (active_thr s1) (\<lambda>x. x\<lparr>state := 0\<rparr>) = Inr s2"
    "sthread_switch (push_frame f s2) (active_thr s) (active_thr s2) = Inr s'"
    using assms by (auto simp: switch_to_next_def Let_def c_bind_eq_Inr)
  have "active_thr s2 # exe_thr_list s2 = exe_thr_list s" using 1(1,2) by (auto simp: sched_runs)
  then show ?thesis using 1(3) by (auto simp: sthread_switch_runs push_frame_def split: if_splits)
qed

lemma exit_loop_objs: "exit_loop ret l tmp z s = Inr (z', s') \<Longrightarrow> same_objs s s'"
proof (induction ret l tmp z s rule: exit_loop.induct)
  case (2 ret t ts tmp z s)
  obtain x a where g: "get_thr s t = Inr x" "get_thr s (active_thr s) = Inr a"
    using 2(3) by (auto simp: c_bind_eq_Inr)
  show ?case
  proof (cases "join_tid x = tid a")
    case True
    show ?thesis using 2(1) [OF g True refl] 2(3) g True by (simp add: same_objs_def Let_def)
  next
    case False
    then show ?thesis using 2(2) [OF g] 2(3) g by simp
  qed
qed (auto simp: same_objs_def)

lemma wake_loop_objs: "wake_loop l tmp s = Inr s' \<Longrightarrow> same_objs s s'"
proof (induction l tmp s rule: wake_loop.induct)
  case (2 t ts tmp s)
  obtain x where g: "get_thr s t = Inr x" using 2(3) by (auto simp: c_bind_eq_Inr)
  show ?case
  proof (cases "wake_time x = Clock s")
    case True
    show ?thesis using 2(1) [OF g True refl] 2(3) g True by (simp add: same_objs_def Let_def)
  next
    case False
    then show ?thesis using 2(2) [OF g] 2(3) g by simp
  qed
qed (auto simp: same_objs_def)

lemma tick_loop_objs: "tick_loop f l n s = Inr (n', s') \<Longrightarrow> same_objs s s'"
proof (induction l arbitrary: n s)
  case (Cons t ts)
  then show ?case by (fastforce simp: c_bind_eq_Inr upd_thr_runs same_objs_def)
qed simp

lemma sthread_user_yield_objs: "sthread_user_yield s = Inr s' \<Longrightarrow> same_objs s s'"
  by (auto simp: sthread_user_yield_def c_bind_eq_Inr upd_thr_runs same_objs_def dest!: switch_to_next_objs)

lemma wake_sleepers_objs: "wake_sleepers s = Inr s' \<Longrightarrow> same_objs s s'"
  by (auto simp: wake_sleepers_def dest: wake_loop_objs)

lemma sthread_user_dispatcher_objs:
  assumes "sthread_user_dispatcher s = Inr s'"
  shows "same_objs s s'"
proof -
  note run = assms [unfolded sthread_user_dispatcher_def Let_def]
  obtain clk a d where 0: "c_int (Clock s + 1) = Inr clk" "get_thr s (active_thr s) = Inr a"
    "c_int (min_delay a + 1) = Inr d"
    using run by (elim c_bindE)
  let ?s1 = "put_thr (s\<lparr>Clock := clk\<rparr>) (active_thr s) (a\<lparr>min_delay := d, runtime := runtime a + 1\<rparr>)"
  let ?f = "\<lambda>x. x\<lparr>sleeptime := sleeptime x + 1\<rparr>" and ?g = "\<lambda>x. x\<lparr>waittime := waittime x + 1\<rparr>"
  obtain n1 s2 where 1: "tick_loop ?f (sleep_thr_list ?s1) 0 ?s1 = Inr (n1, s2)"
    using run unfolding 0 c_bind_Inr by (elim c_bindE) (metis surj_pair)
  obtain n2 s3 where 2: "tick_loop ?f (join_thr_list s2) n1 s2 = Inr (n2, s3)"
    using run unfolding 0 1 c_bind_Inr prod.case by (elim c_bindE) (metis surj_pair)
  obtain n s4 where 3: "tick_loop ?g (exe_thr_list s3) n2 s3 = Inr (n, s4)"
    using run unfolding 0 1 2 c_bind_Inr prod.case by (elim c_bindE) (metis surj_pair)
  obtain b v where "(if exe_thr_list s4 \<noteq> [] \<and> 5 \<le> min_delay b
      then sthread_user_yield (push_frame Wake_sleepers
        (put_thr s4 (active_thr s4) (b\<lparr>vruntime := of_int v, state := state b + 1\<rparr>)))
      else wake_sleepers (put_thr s4 (active_thr s4) (b\<lparr>vruntime := of_int v, state := state b + 1\<rparr>))) = Inr s'"
    using run unfolding 0 1 2 3 c_bind_Inr prod.case unfolding put_thr_sel by (elim c_bindE)
  moreover have "same_objs ?s1 s4"
    using 1 2 3 by (blast intro: tick_loop_objs same_objs_trans)
  then have "same_objs s (put_thr s4 t x)" "same_objs s (push_frame f (put_thr s4 t x))" for t x f
    by (simp_all add: same_objs_def push_frame_def)
  ultimately show ?thesis
    by (meson same_objs_trans sthread_user_yield_objs wake_sleepers_objs)
qed

lemma sthread_user_exit_objs:
  assumes "sthread_user_exit s ret = Inr s'"
  shows "same_objs s s'"
  using assms unfolding sthread_user_exit_def Let_def
proof (elim c_bindE, clarsimp)
  fix z and s1 :: sched
  let ?s2 = "if z then s1\<lparr>zombie_thr_list := zombie_thr_list s1 @ [active_thr s1]\<rparr>
    else s1\<lparr>dead_thr_list := dead_thr_list s1 @ [active_thr s1]\<rparr>"
  assume 1: "exit_loop ret (join_thr_list s) [] True (s\<lparr>spl := HIGH\<rparr>) = Inr (z, s1)"
    and 2: "(if exe_thr_list ?s2 = [] then exit_program ?s2
      else c_bind (next_active ?s2) (\<lambda>s3. sthread_switch (push_frame Exited s3) (active_thr ?s2) (active_thr s3))) = Inr s'"
  have "exit_program ?s2 \<noteq> Inr s'" by (simp add: exit_program_not_returns)
  then obtain s3 where "next_active ?s2 = Inr s3" "sthread_switch (push_frame Exited s3) (active_thr ?s2) (active_thr s3) = Inr s'"
    using 2 by (auto simp: c_bind_eq_Inr simp del: c_bind_Inr split: if_splits)
  from next_active_objs [OF this(1)] sthread_switch_objs [OF this(2)] exit_loop_objs [OF 1]
  show "same_objs s s'" by (cases z) (simp_all add: same_objs_def push_frame_def)
qed

lemma sthread_user_sleep_objs: "sthread_user_sleep s time = Inr s' \<Longrightarrow> same_objs s s'"
  by (erule sthread_user_sleep_runs) (auto simp: same_objs_def dest!: switch_to_next_objs)

lemma sthread_user_join_objs: "sthread_user_join s t p = Inr s' \<Longrightarrow> same_objs s s'"
  by (erule sthread_user_join_runs) (auto simp: same_objs_def dest!: switch_to_next_objs)

lemma sthread_nice_objs: "sthread_nice s n = Inr s' \<Longrightarrow> same_objs s s'"
  by (auto simp: sthread_nice_def c_bind_eq_Inr same_objs_def upd_thr_runs split: if_splits)

lemma sthread_user_create_objs: "sthread_user_create s mem f arg cl pr nc = Inr (t, s') \<Longrightarrow> same_objs s s'"
  by (auto simp: sthread_user_create_def Let_def c_bind_eq_Inr same_objs_def)

lemma free_all_objs: "free_all l s = Inr s' \<Longrightarrow> same_objs s s'"
  by (drule free_all_runs) (simp add: same_objs_def)

section \<open>The objects stay in order\<close>

definition sem_ok :: "sthread_sem \<Rightarrow> bool" where
  "sem_ok m = (s_l m = 0 \<and> (s_queue m \<noteq> [] \<longrightarrow> s_counter m \<le> 0))"

definition objs_ok :: "sched \<Rightarrow> bool" where
  "objs_ok s = ((\<forall>m. Some m \<in> set (mutexes s) \<longrightarrow> m_l m = 0)
     \<and> (\<forall>m. Some m \<in> set (sems s) \<longrightarrow> sem_ok m))"

lemma same_objs_ok: "same_objs s s' \<Longrightarrow> objs_ok s \<Longrightarrow> objs_ok s'"
  by (simp add: same_objs_def objs_ok_def)

lemma in_update: "Some x \<in> set (xs[i := y]) \<Longrightarrow> y = Some x \<or> Some x \<in> set xs"
  using set_update_subset_insert [of xs i y] by auto

lemma objs_okD:
  assumes "objs_ok s"
  shows "i < length (mutexes s) \<Longrightarrow> mutexes s ! i = Some m \<Longrightarrow> m_l m = 0"
    and "i < length (sems s) \<Longrightarrow> sems s ! i = Some x \<Longrightarrow> sem_ok x"
  using assms unfolding objs_ok_def by (metis nth_mem)+

lemma put_ok:
  assumes "objs_ok s"
  shows "m_l m = 0 \<Longrightarrow> objs_ok (put_mutex s i m)" and "sem_ok x \<Longrightarrow> objs_ok (put_sem s i x)"
    and "objs_ok (put_rwlock s i r)" and "objs_ok (put_mon s i y)"
  using assms by (auto simp: objs_ok_def put_mutex_def put_sem_def put_rwlock_def put_mon_def dest!: in_update)

lemma sthread_user_mutex_lock_ok:
  assumes "objs_ok s" and "sthread_user_mutex_lock s i = Inr s'"
  shows "objs_ok s'"
proof -
  obtain m where m: "i < length (mutexes s)" "mutexes s ! i = Some m" "m_l m = 0"
    using assms(2) by (auto simp: sthread_user_mutex_lock_def c_bind_eq_Inr sched_runs)
  show ?thesis
  proof (cases "m_thr m")
    case None
    then show ?thesis using assms m put_ok(1) [OF assms(1)]
      by (auto simp: sthread_user_mutex_lock_def c_bind_eq_Inr sched_runs atomic_clear_def)
  next
    case (Some u)
    let ?s = "put_mutex s i (m\<lparr>m_queue := m_queue m @ [active_thr s], m_l := 0\<rparr>)"
    have "switch_to_next (?s\<lparr>spl := HIGH, exe_thr_list := exe_thr_list ?s @ [active_thr ?s]\<rparr>) Splx_low = Inr s'"
      using assms(2) m Some
      by (simp add: sthread_user_mutex_lock_def c_bind_eq_Inr sched_runs atomic_clear_def Let_def)
    from switch_to_next_objs [OF this] have "same_objs ?s s'" by (simp add: same_objs_def)
    then show ?thesis using put_ok(1) [OF assms(1)] same_objs_ok by simp
  qed
qed

lemma sthread_user_mutex_unlock_ok:
  assumes "objs_ok s" and "sthread_user_mutex_unlock s i = Inr s'"
  shows "objs_ok s'"
proof (cases "s' = s")
  case False
  then obtain m where m: "i < length (mutexes s)" "mutexes s ! i = Some m" "m_l m = 0"
    using assms(2) by (auto simp: sthread_user_mutex_unlock_def c_bind_eq_Inr sched_runs split: if_splits)
  obtain m' where "m_l m' = 0" "same_objs (put_mutex s i m') s'"
  proof (cases "m_queue m")
    case Nil
    then have "s' = put_mutex s i (m\<lparr>m_thr := None, m_l := 0\<rparr>)" using assms(2) m False
      by (auto simp: sthread_user_mutex_unlock_def c_bind_eq_Inr sched_runs atomic_clear_def split: if_splits)
    then show ?thesis by (intro that [of "m\<lparr>m_thr := None, m_l := 0\<rparr>"]) simp_all
  next
    case (Cons t ts)
    then have "same_objs (put_mutex s i (m\<lparr>m_thr := Some t, m_queue := ts, m_l := 0\<rparr>)) s'"
      using assms(2) m False
      by (auto simp: sthread_user_mutex_unlock_def c_bind_eq_Inr sched_runs atomic_clear_def same_objs_def
          split: if_splits)
    then show ?thesis by (intro that [of "m\<lparr>m_thr := Some t, m_queue := ts, m_l := 0\<rparr>"]) simp_all
  qed
  then show ?thesis using put_ok(1) [OF assms(1)] same_objs_ok by blast
qed (use assms in simp)

lemma sthread_user_sem_wait_ok:
  assumes "objs_ok s" and "sthread_user_sem_wait s i = Inr s'"
  shows "objs_ok s'"
proof -
  obtain m where m: "i < length (sems s)" "sems s ! i = Some m"
    using assms(2) by (auto simp: sthread_user_sem_wait_def c_bind_eq_Inr sched_runs)
  have ok: "sem_ok m" using objs_okD(2) [OF assms(1) m] .
  obtain m' where "sem_ok m'" "same_objs (put_sem s i m') s'"
  proof (cases "s_counter m > 0")
    case True
    then have "s' = put_sem s i (m\<lparr>s_counter := s_counter m - 1, s_l := 0\<rparr>)"
      using assms(2) m by (auto simp: sthread_user_sem_wait_def c_bind_eq_Inr sched_runs atomic_clear_def)
    then show ?thesis using True ok by (intro that [of "m\<lparr>s_counter := s_counter m - 1, s_l := 0\<rparr>"])
      (auto simp: sem_ok_def)
  next
    case False
    let ?m = "m\<lparr>s_queue := s_queue m @ [active_thr s], s_l := 0\<rparr>"
    obtain x where run: "switch_to_next
        ((put_sem (put_thr s (active_thr s) (x\<lparr>state := 0\<rparr>)) i ?m)\<lparr>spl := HIGH\<rparr>) Splx_low = Inr s'"
      using assms(2) m False
      by (auto simp: sthread_user_sem_wait_def c_bind_eq_Inr sched_runs atomic_clear_def Let_def)
    have "same_objs (put_sem s i ?m) s'" using switch_to_next_objs [OF run] by (simp add: same_objs_def put_sem_def)
    then show ?thesis using False by (intro that [of ?m]) (simp_all add: sem_ok_def)
  qed
  then show ?thesis using put_ok(2) [OF assms(1)] same_objs_ok by blast
qed

lemma sthread_user_sem_post_ok:
  assumes "objs_ok s" and "sthread_user_sem_post s i = Inr s'"
  shows "objs_ok s' \<and> rwlocks s' = rwlocks s"
proof -
  obtain m where m: "i < length (sems s)" "sems s ! i = Some m"
    using assms(2) by (auto simp: sthread_user_sem_post_def c_bind_eq_Inr sched_runs)
  have ok: "sem_ok m" using objs_okD(2) [OF assms(1) m] .
  obtain m' where "sem_ok m'" "same_objs (put_sem s i m') s'"
  proof (cases "s_queue m")
    case Nil
    then have "s' = put_sem s i (m\<lparr>s_counter := s_counter m + 1, s_l := 0\<rparr>)"
      using assms(2) m by (auto simp: sthread_user_sem_post_def c_bind_eq_Inr sched_runs atomic_clear_def)
    then show ?thesis using Nil by (intro that [of "m\<lparr>s_counter := s_counter m + 1, s_l := 0\<rparr>"])
      (auto simp: sem_ok_def)
  next
    case (Cons t ts)
    let ?m = "m\<lparr>s_queue := ts, s_l := 0\<rparr>"
    have "same_objs (put_sem s i ?m) s'" using assms(2) m Cons
      by (auto simp: sthread_user_sem_post_def c_bind_eq_Inr sched_runs atomic_clear_def same_objs_def)
    then show ?thesis using Cons ok by (intro that [of ?m]) (auto simp: sem_ok_def)
  qed
  moreover from this have "objs_ok s'" using put_ok(2) [OF assms(1)] same_objs_ok by blast
  ultimately show ?thesis by (simp add: same_objs_def put_sem_def)
qed

lemma sthread_user_mutex_init_ok: "objs_ok s \<Longrightarrow> objs_ok (snd (sthread_user_mutex_init s))"
  by (auto simp: sthread_user_mutex_init_def objs_ok_def)

lemma sthread_user_sem_init_ok: "objs_ok s \<Longrightarrow> objs_ok (snd (sthread_user_sem_init s n))"
  by (auto simp: sthread_user_sem_init_def objs_ok_def sem_ok_def)

lemma sthread_user_mutex_free_ok:
  "objs_ok s \<Longrightarrow> sthread_user_mutex_free s i = Inr s' \<Longrightarrow> objs_ok s'"
  by (auto simp: sthread_user_mutex_free_def c_bind_eq_Inr objs_ok_def same_objs_def
      dest!: in_update free_all_objs)

lemma sthread_user_sem_destroy_ok:
  "objs_ok s \<Longrightarrow> sthread_user_sem_destroy s i = Inr s' \<Longrightarrow> objs_ok s'"
  by (auto simp: sthread_user_sem_destroy_def c_bind_eq_Inr objs_ok_def same_objs_def
      dest!: in_update free_all_objs)

section \<open>Readers/writer locks and monitors\<close>

lemma push_frame_objs [simp]: "objs_ok (push_frame f s) = objs_ok s"
  by (simp add: push_frame_def objs_ok_def)

lemma rwlock_enter_ok: "objs_ok s \<Longrightarrow> rwlock_enter f s i = Inr s' \<Longrightarrow> objs_ok s'"
  by (auto simp: rwlock_enter_def c_bind_eq_Inr dest!: sthread_user_mutex_lock_ok [rotated])

lemma rwlock_block_ok: "objs_ok s \<Longrightarrow> rwlock_block s i r q = Inr s' \<Longrightarrow> objs_ok s'"
  by (auto simp: rwlock_block_def c_bind_eq_Inr
      dest!: sthread_user_mutex_unlock_ok [rotated] sthread_user_sem_wait_ok [rotated])

lemmas rw_parts = rd_test_def rd_wait_def rd_count_def wr_test_def wr_wait_def wr_take_def rw_release_def
  rw_written_def rw_loop_def rw_read_def rw_pass_def rw_unlock_def

lemma rw_parts_ok:
  assumes "objs_ok s"
  shows "rd_test s i = Inr s' \<Longrightarrow> objs_ok s'" and "rd_wait s i = Inr s' \<Longrightarrow> objs_ok s'"
    and "rd_count s i = Inr s' \<Longrightarrow> objs_ok s'" and "wr_test s i = Inr s' \<Longrightarrow> objs_ok s'"
    and "wr_wait s i = Inr s' \<Longrightarrow> objs_ok s'" and "wr_take s i = Inr s' \<Longrightarrow> objs_ok s'"
    and "rw_release s i = Inr s' \<Longrightarrow> objs_ok s'" and "rw_written s i = Inr s' \<Longrightarrow> objs_ok s'"
    and "rw_loop s i k = Inr s' \<Longrightarrow> objs_ok s'" and "rw_read s i = Inr s' \<Longrightarrow> objs_ok s'"
    and "rw_pass s i = Inr s' \<Longrightarrow> objs_ok s'" and "rw_unlock s i = Inr s' \<Longrightarrow> objs_ok s'"
proof -
  show "rd_wait s i = Inr s' \<Longrightarrow> objs_ok s'" "wr_wait s i = Inr s' \<Longrightarrow> objs_ok s'"
    by (auto simp: rd_wait_def wr_wait_def c_bind_eq_Inr elim!: rwlock_block_ok [rotated] intro: put_ok(3) assms)
  show "rw_loop s i k = Inr s' \<Longrightarrow> objs_ok s'" "rw_pass s i = Inr s' \<Longrightarrow> objs_ok s'"
    using sthread_user_sem_post_ok [OF assms]
    by (auto simp: rw_loop_def rw_pass_def c_bind_eq_Inr put_ok(3) assms split: if_splits)
  show "rw_unlock s i = Inr s' \<Longrightarrow> objs_ok s'"
    by (auto simp: rw_unlock_def c_bind_eq_Inr elim!: sthread_user_mutex_unlock_ok [OF assms])
qed (auto simp: rd_test_def rd_count_def wr_test_def wr_take_def rw_release_def rw_written_def rw_read_def
    c_bind_eq_Inr put_ok(3) assms split: if_splits)

lemma sthread_user_rwlock_init_ok: "objs_ok s \<Longrightarrow> objs_ok (snd (sthread_user_rwlock_init s))"
  by (auto simp: sthread_user_rwlock_init_def sthread_user_sem_init_def sthread_user_mutex_init_def
      objs_ok_def sem_ok_def)

lemma sthread_user_rwlock_destroy_ok:
  assumes "objs_ok s" and "sthread_user_rwlock_destroy s i = Inr s'"
  shows "objs_ok s'"
proof -
  obtain r :: sthread_rwlock and s1 s2 s3 :: sched where "sthread_user_mutex_free s (rw_m r) = Inr s1"
    "sthread_user_sem_destroy s1 (rw_leitores r) = Inr s2" "sthread_user_sem_destroy s2 (rw_escritores r) = Inr s3"
    and s': "Inr (s3\<lparr>rwlocks := (rwlocks s3)[i := None]\<rparr>) = (Inr s' :: sched c)"
    using assms(2) unfolding sthread_user_rwlock_destroy_def by (elim c_bindE)
  then have "objs_ok s3" using assms(1) by (blast intro: sthread_user_mutex_free_ok sthread_user_sem_destroy_ok)
  then show ?thesis using s' by (auto simp: objs_ok_def dest!: in_update)
qed

lemma sthread_user_monitor_init_ok: "objs_ok s \<Longrightarrow> objs_ok (snd (sthread_user_monitor_init s))"
  by (auto simp: sthread_user_monitor_init_def sthread_user_mutex_init_def objs_ok_def)

lemma sthread_user_monitor_free_ok:
  assumes "objs_ok s" and "sthread_user_monitor_free s i = Inr s'"
  shows "objs_ok s'"
proof -
  obtain mon :: sthread_mon and s1 s2 :: sched where "sthread_user_mutex_free s (mon_mutex mon) = Inr s1" "free_all (mon_queue mon) s1 = Inr s2"
    and s': "Inr (s2\<lparr>mons := (mons s2)[i := None]\<rparr>) = (Inr s' :: sched c)"
    using assms(2) unfolding sthread_user_monitor_free_def by (elim c_bindE)
  then have "objs_ok s2"
    using assms(1) by (blast intro: sthread_user_mutex_free_ok same_objs_ok free_all_objs)
  then show ?thesis using s' by (auto simp: objs_ok_def)
qed

lemma sthread_user_monitor_wait_ok:
  assumes "objs_ok s" and "sthread_user_monitor_wait s i = Inr s'"
  shows "objs_ok s'"
proof (cases "s' = s")
  case False
  then obtain mon s1 s2 where 1: "sthread_user_mutex_unlock
        (put_mon s i (mon\<lparr>mon_queue := mon_queue mon @ [active_thr s]\<rparr>)) (mon_mutex mon) = Inr s1"
    and 2: "next_active (s1\<lparr>spl := HIGH\<rparr>) = Inr s2"
      "sthread_switch (push_frame Splx_low s2) (active_thr s) (active_thr s2) = Inr s'"
    using assms(2) by (auto simp: sthread_user_monitor_wait_def c_bind_eq_Inr split: if_splits)
  have "objs_ok s1" by (rule sthread_user_mutex_unlock_ok [OF put_ok(4) [OF assms(1)] 1])
  moreover have "same_objs s1 s'" using next_active_objs [OF 2(1)] sthread_switch_objs [OF 2(2)]
    by (simp add: same_objs_def push_frame_def)
  ultimately show ?thesis using same_objs_ok by blast
qed (use assms in simp)

lemma sthread_user_monitor_signal_ok:
  assumes "objs_ok s" and "sthread_user_monitor_signal s i = Inr s'"
  shows "objs_ok s'"
proof (cases "s' = s")
  case False
  then obtain mon m where "(case mon_queue mon of
      [] \<Rightarrow> Inr (put_mutex s (mon_mutex mon) (m\<lparr>m_l := 0\<rparr>))
    | t # ts \<Rightarrow> Inr (put_mutex (put_mon s i (mon\<lparr>mon_queue := ts\<rparr>)) (mon_mutex mon)
        (m\<lparr>m_queue := m_queue m @ [t], m_l := 0\<rparr>))) = (Inr s' :: sched c)"
    using assms(2) unfolding sthread_user_monitor_signal_def atomic_clear_def
    by (elim c_bindE) (auto split: if_splits elim!: c_bindE)
  then show ?thesis using assms(1) put_ok by (cases "mon_queue mon") auto
qed (use assms in simp)

lemma sthread_user_monitor_signalall_ok:
  "objs_ok s \<Longrightarrow> sthread_user_monitor_signalall s i = Inr s' \<Longrightarrow> objs_ok s'"
  by (auto simp: sthread_user_monitor_signalall_def c_bind_eq_Inr atomic_clear_def put_ok split: if_splits)

section \<open>All programs\<close>

lemma returns_ok [simp]: "objs_ok (returns x) = objs_ok (snd x)"
  by (simp add: returns_def objs_ok_def split: prod.splits)

lemmas objs_inits = sthread_user_mutex_init_ok sthread_user_sem_init_ok sthread_user_rwlock_init_ok
  sthread_user_monitor_init_ok

lemmas objs_steps = sthread_user_mutex_lock_ok sthread_user_mutex_unlock_ok
  sthread_user_mutex_free_ok sthread_user_sem_wait_ok sthread_user_sem_post_ok [THEN conjunct1]
  sthread_user_sem_destroy_ok rwlock_enter_ok
  sthread_user_rwlock_destroy_ok sthread_user_monitor_free_ok sthread_user_monitor_wait_ok
  sthread_user_monitor_signal_ok sthread_user_monitor_signalall_ok
  same_objs_ok [OF sthread_user_exit_objs] same_objs_ok [OF sthread_user_yield_objs]
  same_objs_ok [OF sthread_user_sleep_objs] same_objs_ok [OF sthread_user_join_objs]
  same_objs_ok [OF sthread_nice_objs]

lemma do_call_ok:
  assumes "objs_ok s" and "do_call c s = Inr s'"
  shows "objs_ok s'"
proof (cases c)
  case (Thread_create mem f arg client priority nice0)
  then obtain t s1 where 1: "sthread_user_create s mem f arg client priority nice0 = Inr (t, s1)"
    and "s' = returns (t, s1)" using assms(2) by (auto simp: c_bind_eq_Inr)
  then show ?thesis using same_objs_ok [OF sthread_user_create_objs [OF 1] assms(1)] by simp
next
  case Return
  then have "same_objs (push_frame No_return s) s'"
    using assms(2) by (auto simp: sthread_aux_end_def dest: sthread_user_exit_objs)
  then show ?thesis using assms(1) same_objs_ok push_frame_objs by blast
next
  case (Monitor_enter i)
  then show ?thesis using assms by (auto simp: sthread_user_monitor_enter_def c_bind_eq_Inr intro: objs_steps)
next
  case (Monitor_exit i)
  then show ?thesis using assms by (auto simp: sthread_user_monitor_exit_def c_bind_eq_Inr intro: objs_steps)
next
  case Mutex_init
  then show ?thesis using assms objs_inits by auto
next
  case (Sem_init n)
  then show ?thesis using assms objs_inits by auto
next
  case Rwlock_init
  then show ?thesis using assms objs_inits by auto
next
  case Monitor_init
  then show ?thesis using assms objs_inits by auto
qed (insert assms, simp_all only: do_call.simps sthread_user_rwlock_rdlock_def
    sthread_user_rwlock_wrlock_def sthread_user_rwlock_unlock_def, (rule objs_steps, assumption+)+)

lemma set_spl_ok [simp]: "objs_ok (s\<lparr>spl := v\<rparr>) = objs_ok s" "objs_ok (s\<lparr>stack := k\<rparr>) = objs_ok s"
    "objs_ok (s\<lparr>result := r\<rparr>) = objs_ok s" "objs_ok (s\<lparr>user_mem := m\<rparr>) = objs_ok s"
  by (simp_all add: objs_ok_def)

lemma run_frame_ok:
  assumes "objs_ok s" and "run_frame f s = Inr s'"
  shows "objs_ok s'"
proof (cases f)
  case Wake_sleepers
  then show ?thesis using assms same_objs_ok [OF wake_sleepers_objs] by simp
next
  case (After_join t p)
  then show ?thesis using assms by (auto simp: c_bind_eq_Inr sched_runs)
next
  case (Rw_relock i)
  then show ?thesis using assms rwlock_enter_ok by simp
qed (use assms rw_parts_ok [OF assms(1)] in \<open>simp_all, auto\<close>)

lemma sthread_step_ok: "sthread_step C s s' \<Longrightarrow> objs_ok s \<Longrightarrow> objs_ok s'"
  by (auto elim!: sthread_stepE intro: do_call_ok run_frame_ok [rotated]
      same_objs_ok [OF sthread_user_dispatcher_objs])

interpretation objs: transition_system
    "\<lambda>s. \<exists>mem. s = sthread_user_init mem" "sthread_step C" objs_ok for C
  by unfold_locales (auto simp: sthread_user_init_def objs_ok_def dest: sthread_step_ok)

section \<open>No operation spins for ever\<close>

lemma c_bind_eq_Inl: "(c_bind m f = Inl e) = (m = Inl e \<or> (\<exists>x. m = Inr x \<and> f x = Inl e))"
  by (cases m) simp_all

named_theorems no_hang \<open>pieces that cannot spin\<close>

lemma get_thr_nh [no_hang]: "get_thr s t \<noteq> Inl Hangs"
  by (simp add: get_thr_def split: option.splits)

lemma get_obj_nh [no_hang]: "get_obj xs i \<noteq> Inl Hangs"
  by (simp add: get_obj_def split: option.splits)

lemma c_int_nh [no_hang]: "c_int x \<noteq> Inl Hangs"
  by (simp add: c_int_def)

lemma upd_thr_nh [no_hang]: "upd_thr s t f \<noteq> Inl Hangs"
  by (simp add: upd_thr_def c_bind_eq_Inl no_hang)

lemma next_active_nh [no_hang]: "next_active s \<noteq> Inl Hangs"
  by (simp add: next_active_def split: list.splits)

lemma sthread_switch_nh [no_hang]: "sthread_switch s old new \<noteq> Inl Hangs"
  by (simp add: sthread_switch_def c_bind_eq_Inl no_hang)

lemma switch_to_next_nh [no_hang]: "switch_to_next s f \<noteq> Inl Hangs"
  by (simp add: switch_to_next_def Let_def c_bind_eq_Inl no_hang)

lemma store_ret_nh [no_hang]: "store_ret s p v \<noteq> Inl Hangs"
  by (simp add: store_ret_def deref_def c_bind_eq_Inl split: option.splits)

lemma free_all_nh [no_hang]: "free_all l s \<noteq> Inl Hangs"
  by (induction l s rule: free_all.induct) (auto simp: sthread_user_free_def c_bind_eq_Inl no_hang)

lemma exit_program_nh [no_hang]: "exit_program s \<noteq> Inl Hangs"
  by (simp add: exit_program_def sthread_user_free_def c_bind_eq_Inl no_hang)

lemma exit_loop_nh [no_hang]: "exit_loop ret l tmp z s \<noteq> Inl Hangs"
  by (induction ret l tmp z s rule: exit_loop.induct) (auto simp: c_bind_eq_Inl no_hang Let_def)

lemma wake_loop_nh [no_hang]: "wake_loop l tmp s \<noteq> Inl Hangs"
  by (induction l tmp s rule: wake_loop.induct) (auto simp: c_bind_eq_Inl no_hang Let_def)

lemma tick_loop_nh [no_hang]: "tick_loop f l n s \<noteq> Inl Hangs"
  by (induction l arbitrary: n s) (auto simp: c_bind_eq_Inl no_hang)

lemma zombie_loop_nh [no_hang]: "zombie_loop t p l tmp f s \<noteq> Inl Hangs"
  by (induction t p l tmp f s rule: zombie_loop.induct) (auto simp: c_bind_eq_Inl no_hang)

lemma has_tid_nh [no_hang]: "has_tid i l s \<noteq> Inl Hangs"
  by (induction i l s rule: has_tid.induct) (auto simp: c_bind_eq_Inl no_hang)

lemma sthread_user_yield_nh [no_hang]: "sthread_user_yield s \<noteq> Inl Hangs"
  by (simp add: sthread_user_yield_def c_bind_eq_Inl no_hang)

lemma wake_sleepers_nh [no_hang]: "wake_sleepers s \<noteq> Inl Hangs"
  by (simp add: wake_sleepers_def no_hang)

lemma sthread_user_dispatcher_nh [no_hang]: "sthread_user_dispatcher s \<noteq> Inl Hangs"
  by (auto simp: sthread_user_dispatcher_def Let_def c_bind_eq_Inl no_hang split: if_splits)

lemma sthread_user_exit_nh [no_hang]: "sthread_user_exit s ret \<noteq> Inl Hangs"
  by (auto simp: sthread_user_exit_def Let_def c_bind_eq_Inl no_hang split: if_splits)

lemma sthread_user_join_nh [no_hang]: "sthread_user_join s t p \<noteq> Inl Hangs"
  by (auto simp: sthread_user_join_def Let_def c_bind_eq_Inl no_hang split: if_splits)

lemma sthread_user_sleep_nh [no_hang]: "sthread_user_sleep s time \<noteq> Inl Hangs"
  by (auto simp: sthread_user_sleep_def Let_def c_bind_eq_Inl no_hang split: if_splits)

lemma sthread_nice_nh [no_hang]: "sthread_nice s n \<noteq> Inl Hangs"
  by (auto simp: sthread_nice_def c_bind_eq_Inl no_hang split: if_splits)

lemma sthread_user_create_nh [no_hang]: "sthread_user_create s mem f arg cl pr nc \<noteq> Inl Hangs"
  by (simp add: sthread_user_create_def Let_def c_bind_eq_Inl no_hang)

text \<open>The operations with a spin lock.\<close>

lemma spin_lock_free [simp]: "spin_lock 0 = Inr 1"
  by (simp add: spin_lock_def atomic_test_and_set_def)

lemma sthread_user_mutex_lock_nh: "objs_ok s \<Longrightarrow> sthread_user_mutex_lock s i \<noteq> Inl Hangs"
  by (auto simp: sthread_user_mutex_lock_def Let_def c_bind_eq_Inl no_hang sched_runs objs_okD(1)
      split: option.splits)

lemma sthread_user_mutex_unlock_nh: "objs_ok s \<Longrightarrow> sthread_user_mutex_unlock s i \<noteq> Inl Hangs"
  by (auto simp: sthread_user_mutex_unlock_def c_bind_eq_Inl no_hang sched_runs objs_okD(1)
      split: if_splits list.splits)

lemma sem_free: "objs_ok s \<Longrightarrow> i < length (sems s) \<Longrightarrow> sems s ! i = Some m \<Longrightarrow> s_l m = 0"
  using objs_okD(2) by (auto simp: sem_ok_def)

lemma sthread_user_sem_wait_nh: "objs_ok s \<Longrightarrow> sthread_user_sem_wait s i \<noteq> Inl Hangs"
  by (auto simp: sthread_user_sem_wait_def Let_def c_bind_eq_Inl no_hang sched_runs sem_free split: if_splits)

lemma sthread_user_sem_post_nh: "objs_ok s \<Longrightarrow> sthread_user_sem_post s i \<noteq> Inl Hangs"
  by (auto simp: sthread_user_sem_post_def c_bind_eq_Inl no_hang sched_runs sem_free split: list.splits)

lemma rwlock_enter_nh: "objs_ok s \<Longrightarrow> rwlock_enter f s i \<noteq> Inl Hangs"
  by (simp add: rwlock_enter_def c_bind_eq_Inl no_hang sthread_user_mutex_lock_nh)

lemma rwlock_block_nh: "objs_ok s \<Longrightarrow> rwlock_block s i r q \<noteq> Inl Hangs"
  by (auto simp: rwlock_block_def c_bind_eq_Inl sthread_user_mutex_unlock_nh sthread_user_sem_wait_nh
      dest!: sthread_user_mutex_unlock_ok [rotated])

lemma rw_parts_nh:
  assumes "objs_ok s"
  shows "rd_test s i \<noteq> Inl Hangs" and "rd_wait s i \<noteq> Inl Hangs" and "rd_count s i \<noteq> Inl Hangs"
    and "wr_test s i \<noteq> Inl Hangs" and "wr_wait s i \<noteq> Inl Hangs" and "wr_take s i \<noteq> Inl Hangs"
    and "rw_release s i \<noteq> Inl Hangs" and "rw_written s i \<noteq> Inl Hangs" and "rw_loop s i k \<noteq> Inl Hangs"
    and "rw_read s i \<noteq> Inl Hangs" and "rw_pass s i \<noteq> Inl Hangs" and "rw_unlock s i \<noteq> Inl Hangs"
  by (simp_all add: rw_parts c_bind_eq_Inl no_hang put_ok(3) rwlock_block_nh sthread_user_mutex_unlock_nh
      sthread_user_sem_post_nh assms)

lemma sthread_user_mutex_free_nh [no_hang]: "sthread_user_mutex_free s i \<noteq> Inl Hangs"
  by (simp add: sthread_user_mutex_free_def c_bind_eq_Inl no_hang)

lemma sthread_user_sem_destroy_nh [no_hang]: "sthread_user_sem_destroy s i \<noteq> Inl Hangs"
  by (simp add: sthread_user_sem_destroy_def c_bind_eq_Inl no_hang)

lemma sthread_user_monitor_wait_nh: "objs_ok s \<Longrightarrow> sthread_user_monitor_wait s i \<noteq> Inl Hangs"
  by (auto simp: sthread_user_monitor_wait_def c_bind_eq_Inl no_hang sthread_user_mutex_unlock_nh put_ok(4)
      split: if_splits)

lemma monitor_signals_nh:
  assumes "objs_ok s"
  shows "sthread_user_monitor_signal s i \<noteq> Inl Hangs" and "sthread_user_monitor_signalall s i \<noteq> Inl Hangs"
  using objs_okD(1) [OF assms]
  by (auto simp: sthread_user_monitor_signal_def sthread_user_monitor_signalall_def c_bind_eq_Inl no_hang
      sched_runs split: if_splits list.splits)

lemma do_call_nh: "objs_ok s \<Longrightarrow> do_call c s \<noteq> Inl Hangs"
  by (cases c)
    (simp_all add: c_bind_eq_Inl no_hang sthread_aux_end_def sthread_user_mutex_lock_nh
      sthread_user_mutex_unlock_nh sthread_user_sem_wait_nh sthread_user_sem_post_nh
      sthread_user_rwlock_destroy_def sthread_user_rwlock_rdlock_def sthread_user_rwlock_wrlock_def
      sthread_user_rwlock_unlock_def rwlock_enter_nh sthread_user_monitor_free_def
      sthread_user_monitor_enter_def sthread_user_monitor_exit_def sthread_user_monitor_wait_nh
      monitor_signals_nh)

lemma run_frame_nh: "objs_ok s \<Longrightarrow> run_frame f s \<noteq> Inl Hangs"
  by (cases f)
    (simp_all add: c_bind_eq_Inl no_hang rw_parts_nh rwlock_enter_nh)

end
