(* ===== verification/Sthread_Demo.thy ===== *)
theory Sthread_Demo
  imports Sthread_Objects
begin

text \<open>
  Runs of programs as lists of actions, to reach concrete states, and the programs that the
  examples for the properties of the threads use.
\<close>

datatype action = Tick | Do sthread_call | Go

definition returned :: "'a c \<Rightarrow> 'a option" where
  "returned x = (case x of Inl e \<Rightarrow> None | Inr y \<Rightarrow> Some y)"

fun perform :: "action \<Rightarrow> sched \<Rightarrow> sched option" where
  "perform Tick s = (if spl s = LOW then returned (sthread_user_dispatcher s) else None)"
| "perform (Do c) s = (if stack s = [] then returned (do_call c s) else None)"
| "perform Go s = (case stack s of [] \<Rightarrow> None | f # fs \<Rightarrow> returned (run_frame f (s\<lparr>stack := fs\<rparr>)))"

fun perform_all :: "action list \<Rightarrow> sched \<Rightarrow> sched option" where
  "perform_all [] s = Some s"
| "perform_all (a # as) s = (case perform a s of None \<Rightarrow> None | Some s' \<Rightarrow> perform_all as s')"

fun allowed :: "(sthread_call \<Rightarrow> bool) \<Rightarrow> action \<Rightarrow> bool" where
  "allowed P (Do c) = P c"
| "allowed P Tick = True"
| "allowed P Go = True"

lemma perform_step: "perform a s = Some s' \<Longrightarrow> allowed P a \<Longrightarrow> sthread_step (Collect P) s s'"
  by (cases a)
    (auto simp: returned_def split: if_splits sum.splits list.splits intro: sthread_step.intros)

lemma perform_all_reach:
  "perform_all as s = Some s' \<Longrightarrow> list_all (allowed P) as \<Longrightarrow> reach I (sthread_step (Collect P)) s \<Longrightarrow>
   reach I (sthread_step (Collect P)) s'"
proof (induction as arbitrary: s)
  case (Cons a as)
  then obtain s1 where "perform a s = Some s1" "perform_all as s1 = Some s'"
    by (auto split: option.splits)
  moreover from this have "reach I (sthread_step (Collect P)) s1"
    using Cons.prems perform_step by (auto intro: reach_step)
  ultimately show ?case using Cons by auto
qed simp

abbreviation started :: "sched \<Rightarrow> bool" where
  "started s \<equiv> \<exists>mem. s = sthread_user_init mem"

definition blank :: sthread where
  "blank = \<lparr>saved_ctx = [], start_routine_ptr = NULL, wake_time = 0, join_tid = 0, join_ret = NULL,
     args = NULL, tid = 0, clientID = 0, prio = 0, nice = 0, state = 0, vruntime = 0, runtime = 0,
     min_delay = 0, initprio = 0, waittime = 0, sleeptime = 0\<rparr>"

definition main_thread :: sched where
  "main_thread = sthread_user_init blank"

abbreviation spawn :: action where
  "spawn \<equiv> Do (Thread_create blank 7 0 1 5 0)"

lemma demo_reach:
  "perform_all as main_thread = Some s \<Longrightarrow> list_all (allowed P) as \<Longrightarrow>
   reach started (sthread_step (Collect P)) s"
  by (rule perform_all_reach [OF _ _ reach_init]) (auto simp: main_thread_def)

text \<open>Two threads sleep for two ticks; the third leaves the processor just before the second tick.\<close>

definition demo_missed :: "action list" where
  "demo_missed = [spawn, spawn, Tick, Tick, Tick, Tick, Tick, Go, Do (Sleep 20000), Go, Do Yield,
     Go, Go, Tick, Go, Do Yield, Go, Go, Tick, Go, Tick]"

lemma demo_missed_run:
  "map_option (\<lambda>s. (active_thr s, exe_thr_list s, sleep_thr_list s, wake s 2, Clock s, stack s))
     (perform_all demo_missed main_thread) = Some (3, [1], [2], Some 8, 9, [])"
  by code_simp

end
