(* ===== verification/Threads_Correct.thy ===== *)
theory Threads_Correct
  imports Sthread_Demo
begin

text \<open>
  The properties of the user-level threads. \<open>reach started (sthread_step C) s\<close> says that a program
  that calls operations of \<open>C\<close> only can come to the state \<open>s\<close>.
\<close>

lemma basic_inv: "reach started (sthread_step (Collect basic_call)) s \<Longrightarrow> sched_inv s"
  by (rule basic.reach_inv)

lemma any_objs: "reach started (sthread_step C) s \<Longrightarrow> objs_ok s"
  by (rule objs.reach_inv)

section \<open>Threads and lists\<close>

text \<open>C27: In every state of a program that uses threads, sleeping, joining and semaphores, no thread
  is at two places at once: the active thread, the executable ones, those that sleep, those that
  wait in a join and those that wait at semaphores are all different. All of them are in memory, and
  none has called \<open>exit\<close>: the frames behind \<open>exit\<close> are on none of their stacks.\<close>

theorem threads_in_one_place:
  assumes "reach started (sthread_step (Collect basic_call)) s"
  shows "distinct (active_thr s # exe_thr_list s @ sleep_thr_list s @ join_thr_list s
      @ concat (map sem_threads (sems s)))
    \<and> (\<forall>t \<in> set (active_thr s # exe_thr_list s @ sleep_thr_list s @ join_thr_list s
      @ concat (map sem_threads (sems s))).
        \<exists>x. threads s t = Some x \<and> Exited \<notin> set (saved_ctx x) \<and> No_return \<notin> set (saved_ctx x))
    \<and> Exited \<notin> set (stack s) \<and> No_return \<notin> set (stack s)"
proof -
  note inv = basic_inv [OF assms]
  let ?l = "active_thr s # exe_thr_list s @ sleep_thr_list s @ join_thr_list s @ concat (map sem_threads (sems s))"
  have p: "mset ?l = placed s" by (simp add: placed_def others_def)
  have "distinct ?l" by (rule distinct_sub [OF inv]) (simp only: p)
  moreover have nf: "Exited \<notin> set k \<and> No_return \<notin> set k" if "list_all live_frame k" for k
    using that by (auto simp: list_all_iff)
  have "\<exists>x. threads s t = Some x \<and> Exited \<notin> set (saved_ctx x) \<and> No_return \<notin> set (saved_ctx x)"
    if "t \<in> set ?l" for t
  proof -
    have "t \<in># placed s" using that by (simp only: set_mset_mset flip: p)
    then have "live_thr (threads s) t" using inv unfolding sched_inv_def all_live_def by blast
    then obtain x where "threads s t = Some x" "list_all live_frame (saved_ctx x)"
      by (auto simp: live_thr_def)
    then show ?thesis using nf by blast
  qed
  moreover have "list_all live_frame (stack s)" using inv by (simp add: sched_inv_def all_live_def)
  ultimately show ?thesis using nf by blast
qed

lemma demo_reaches:
  assumes "list_all (allowed P) as" and "perform_all as main_thread \<noteq> None"
  obtains s where "perform_all as main_thread = Some s" and "reach started (sthread_step (Collect P)) s"
  using assms demo_reach by blast

theorem threads_in_one_place_witness:
  "\<exists>s. perform_all demo_missed main_thread = Some s
     \<and> distinct (active_thr s # exe_thr_list s @ sleep_thr_list s @ join_thr_list s
      @ concat (map sem_threads (sems s)))"
proof -
  have "list_all (allowed basic_call) demo_missed" by (simp add: demo_missed_def)
  moreover have "perform_all demo_missed main_thread \<noteq> None" using demo_missed_run by auto
  ultimately show ?thesis using demo_reaches threads_in_one_place by metis
qed

text \<open>C29: In a program that uses threads, sleeping, joining and semaphores and no other operations, a thread
  that still sleeps although its time is over sleeps for ever: it stays in the list of
  sleeping threads whatever such a program and the clock do, and is never active nor executable again.
  (A mutex could still release it, because \<open>mutex_lock\<close> leaves a thread in two lists.)
  Such states exist, because the dispatcher only wakes a thread whose time is exactly the present
  tick and may leave the processor before it looks.\<close>

theorem sleeper_forgotten:
  assumes "reach started (sthread_step (Collect basic_call)) s"
    and "t \<in> set (sleep_thr_list s)" and "wake s t = Some w" and "w < Clock s"
    and "(sthread_step (Collect basic_call))\<^sup>*\<^sup>* s s'"
  shows "t \<in> set (sleep_thr_list s') \<and> t \<noteq> active_thr s' \<and> t \<notin> set (exe_thr_list s')"
proof -
  have "sched_inv s' \<and> keeps s s'" using assms(5)
  proof (induction rule: rtranclp_induct)
    case base
    then show ?case using basic_inv [OF assms(1)] by (simp add: keeps_def)
  next
    case (step s1 s2)
    then show ?case using basic_step keeps_trans by blast
  qed
  moreover from this have "t \<in> set (sleep_thr_list s')" using assms(2-4) by (auto simp: keeps_def)
  moreover have "t \<notin> set (exe_thr_list s')"
  proof
    assume e: "t \<in> set (exe_thr_list s')"
    have "mset (exe_thr_list s' @ sleep_thr_list s') \<subseteq># placed s'"
      by (auto simp: placed_def others_def subset_mset.le_iff_add intro: exI [of _ "add_mset _ _"])
    then have "distinct (exe_thr_list s' @ sleep_thr_list s')" using distinct_sub calculation(1) by blast
    then show False using e calculation(2) by auto
  qed
  ultimately show ?thesis using placedD(8) by blast
qed

theorem sleeper_forgotten_witness:
  "\<exists>s. perform_all demo_missed main_thread = Some s \<and> 2 \<in> set (sleep_thr_list s)
     \<and> wake s 2 = Some 8 \<and> Clock s = 9
     \<and> (\<forall>s'. (sthread_step (Collect basic_call))\<^sup>*\<^sup>* s s' \<longrightarrow> 2 \<in> set (sleep_thr_list s') \<and> 2 \<noteq> active_thr s')"
proof -
  obtain s where s: "perform_all demo_missed main_thread = Some s"
    "2 \<in> set (sleep_thr_list s)" "wake s 2 = Some 8" "Clock s = 9"
    using demo_missed_run by auto
  have "list_all (allowed basic_call) demo_missed" by (simp add: demo_missed_def)
  then have "reach started (sthread_step (Collect basic_call)) s" using demo_reach s(1) by blast
  from sleeper_forgotten [OF this s(2,3)] s show ?thesis by auto
qed

text \<open>C28: In a program that uses threads, sleeping, joining and semaphores and no other operations, a clock tick
  fails only when a signed number overflows. (With mutexes a thread may be freed while it is in
  a list of the scheduler, and the tick may fault.) Otherwise the time goes on by one. If
  other threads are executable and the active one has run through five ticks, it goes behind them
  and nobody is woken; if not, exactly the threads whose time is the new tick leave the sleeping
  threads and become executable, in the order in which they went to sleep, and the active thread
  goes on.\<close>

theorem tick_wakes_the_due:
  assumes "reach started (sthread_step (Collect basic_call)) s" and "threads s (active_thr s) = Some a"
  shows "sthread_user_dispatcher s = Inl SignedOverflow \<or>
    (\<exists>s'. sthread_user_dispatcher s = Inr s' \<and> Clock s' = Clock s + 1 \<and>
      (if exe_thr_list s \<noteq> [] \<and> min_delay a \<ge> 4 then
         active_thr s' # exe_thr_list s' = exe_thr_list s @ [active_thr s]
         \<and> sleep_thr_list s' = sleep_thr_list s
       else
         active_thr s' = active_thr s
         \<and> exe_thr_list s' = exe_thr_list s @ filter (\<lambda>t. wake s t = Some (Clock s + 1)) (sleep_thr_list s)
         \<and> sleep_thr_list s' = filter (\<lambda>t. wake s t \<noteq> Some (Clock s + 1)) (sleep_thr_list s)))"
proof -
  note inv = basic_inv [OF assms(1)]
  let ?t = "ticked s a"
  note t = ticked_facts [OF inv assms(2)]
  note eq = dispatcher_eq [OF inv assms(2)]
  have overflow: "c_int x = Inl SignedOverflow \<or> c_int x = Inr x" for x by (simp add: c_int_def)
  show ?thesis
  proof (cases "exe_thr_list s \<noteq> [] \<and> min_delay a \<ge> 4")
    case True
    obtain s' where s': "sthread_user_yield (push_frame Wake_sleepers ?t) = Inr s'"
      "active_thr s' # exe_thr_list s' = exe_thr_list s @ [active_thr s]"
      "sleep_thr_list s' = sleep_thr_list s" "Clock s' = Clock s + 1"
      using sthread_user_yield_total [of "push_frame Wake_sleepers ?t"] push_live [OF t(1), of Wake_sleepers] t
      by (auto simp: push_frame_def ticked_def)
    have "sthread_user_dispatcher s = Inl SignedOverflow \<or> sthread_user_dispatcher s = Inr s'"
      using True s'(1) eq overflow [of "Clock s + 1"] overflow [of "min_delay a + 1"]
        overflow [of "prio a + nice a"] overflow [of "(prio a + nice a) * clients s"]
      by (elim disjE) simp_all
    then show ?thesis using s' True by auto
  next
    case False
    have d: "due ?t = (\<lambda>u. wake s u = Some (Clock s + 1))" by (rule ext) (simp add: due_def t)
    obtain s' where s': "wake_sleepers ?t = Inr s'" "active_thr s' = active_thr s" "Clock s' = Clock s + 1"
      "exe_thr_list s' = exe_thr_list s @ filter (\<lambda>u. wake s u = Some (Clock s + 1)) (sleep_thr_list s)"
      "sleep_thr_list s' = filter (\<lambda>u. wake s u \<noteq> Some (Clock s + 1)) (sleep_thr_list s)"
      using wake_sleepers_eq [OF t(1)] t d by (simp add: ticked_def)
    have "sthread_user_dispatcher s = Inl SignedOverflow \<or> sthread_user_dispatcher s = Inr s'"
      using False s'(1) eq overflow [of "Clock s + 1"] overflow [of "min_delay a + 1"]
        overflow [of "prio a + nice a"] overflow [of "(prio a + nice a) * clients s"]
      by (elim disjE) auto
    then show ?thesis using s' False by auto
  qed
qed

definition demo_sleep :: "action list" where
  "demo_sleep = [spawn, Do (Sleep 10000), Go]"

lemma demo_sleep_run:
  "map_option (\<lambda>s. (active_thr s, exe_thr_list s, sleep_thr_list s, wake s 1, Clock s, threads s 2 = None))
     (perform_all demo_sleep main_thread) = Some (2, [], [1], Some 2, 1, False)"
  by code_simp

text \<open>In the example the first thread sleeps for one tick and is woken by the next one.\<close>

lemma demo_sleep_tick:
  "(case perform_all demo_sleep main_thread of None \<Rightarrow> False
    | Some s \<Rightarrow> case sthread_user_dispatcher s of Inl e \<Rightarrow> False | Inr s' \<Rightarrow> True)"
  by code_simp

theorem tick_wakes_the_due_witness:
  "\<exists>s s'. perform_all demo_sleep main_thread = Some s \<and> sthread_user_dispatcher s = Inr s'
     \<and> exe_thr_list s' = [1] \<and> sleep_thr_list s' = [] \<and> active_thr s' = 2"
proof -
  obtain s a where s: "perform_all demo_sleep main_thread = Some s" "active_thr s = 2" "exe_thr_list s = []"
    "sleep_thr_list s = [1]" "wake s 1 = Some 2" "Clock s = 1" "threads s (active_thr s) = Some a"
    using demo_sleep_run by auto
  have "list_all (allowed basic_call) demo_sleep" by (simp add: demo_sleep_def)
  then have r: "reach started (sthread_step (Collect basic_call)) s" using demo_reach s(1) by blast
  obtain s' where "sthread_user_dispatcher s = Inr s'"
    using demo_sleep_tick s(1) by (auto split: sum.splits)
  then show ?thesis using tick_wakes_the_due [OF r s(7)] s by auto
qed

text \<open>Yielding is round robin: it always succeeds and moves the active thread behind all executable
  ones, whatever their priorities and virtual run times are. The sorting by virtual run time that the
  code asks for has no effect.\<close>

lemma yield_round_robin:
  assumes "reach started (sthread_step (Collect basic_call)) s"
  shows "\<exists>s'. sthread_user_yield s = Inr s'
    \<and> active_thr s' # exe_thr_list s' = rotate1 (active_thr s # exe_thr_list s)
    \<and> sleep_thr_list s' = sleep_thr_list s \<and> Clock s' = Clock s"
  using sthread_user_yield_total [OF basic_inv [OF assms]] by simp

theorem yield_round_robin_witness:
  "\<exists>s s'. perform_all [spawn, spawn] main_thread = Some s \<and> sthread_user_yield s = Inr s'
     \<and> active_thr s' = 2 \<and> exe_thr_list s' = [3, 1]"
proof -
  have "map_option (\<lambda>s. (active_thr s, exe_thr_list s)) (perform_all [spawn, spawn] main_thread) = Some (1, [2, 3])"
    by code_simp
  then obtain s where s: "perform_all [spawn, spawn] main_thread = Some s" "active_thr s = 1" "exe_thr_list s = [2, 3]"
    by auto
  have "list_all (allowed basic_call) [spawn, spawn]" by simp
  then have r: "reach started (sthread_step (Collect basic_call)) s" using demo_reach s(1) by blast
  show ?thesis using yield_round_robin [OF r] s by auto
qed

section \<open>Exit and join\<close>

text \<open>C35: In a program that uses threads, sleeping, joining and semaphores and no other operations, with a thread
  left to run, a thread that exits makes exactly the threads executable that wait in a join for it, in order,
  and goes to the dead threads; if nobody waits it becomes a zombie. The threads that wait for others
  go on waiting. The value it exits with is stored in the waiting threads, but what their \<open>join\<close>
  returns is the \<open>join_ret\<close> of the exited thread, which is what it was before.\<close>

theorem exit_releases_joiners:
  assumes "reach started (sthread_step (Collect basic_call)) s" and "threads s (active_thr s) = Some x"
    and "exe_thr_list s @ filter (joins s) (join_thr_list s) \<noteq> []"
  shows "\<exists>s'. sthread_user_exit s ret = Inr s'
    \<and> active_thr s' # exe_thr_list s' = exe_thr_list s @ filter (joins s) (join_thr_list s)
    \<and> join_thr_list s' = filter (\<lambda>t. \<not> joins s t) (join_thr_list s)
    \<and> (if filter (joins s) (join_thr_list s) = []
       then zombie_thr_list s' = zombie_thr_list s @ [active_thr s] \<and> dead_thr_list s' = dead_thr_list s
       else zombie_thr_list s' = zombie_thr_list s \<and> dead_thr_list s' = dead_thr_list s @ [active_thr s])
    \<and> (\<forall>t \<in> set (join_thr_list s). joins s t \<longrightarrow> map_option join_ret (threads s' t) = Some ret)
    \<and> (\<forall>p. \<exists>s''. run_frame (After_join (active_thr s) (Some p)) s' = Inr s'' \<and> user_mem s'' p = join_ret x)"
proof -
  note inv = basic_inv [OF assms(1)]
  let ?e = "exit_state s ret" and ?j = "filter (joins s) (join_thr_list s)"
  have a: "threads s (active_thr s) \<noteq> None" "\<forall>t \<in> set (join_thr_list s). threads s t \<noteq> None"
    using placedD(1,5) [OF inv] by auto
  obtain t ts where t: "exe_thr_list s @ ?j = t # ts" using assms(3) by (cases "exe_thr_list s @ ?j") auto
  have eexe: "exe_thr_list ?e = t # ts" using t by (simp add: exit_state_def Let_def)
  define s3 where "s3 = ?e\<lparr>active_thr := t, exe_thr_list := ts\<rparr>"
  have n: "next_active ?e = Inr s3" using eexe by (simp add: next_active_def s3_def)
  have te: "threads s3 = upd_in (\<lambda>t. t \<in> set (join_thr_list s) \<and> joins s t) (\<lambda>x. x\<lparr>join_ret := ret\<rparr>) (threads s)"
    by (simp add: s3_def exit_state_def Let_def)
  have "t \<in> set (exe_thr_list s @ ?j)" using t by simp
  then have "t \<in># others s" by (auto simp: others_def)
  then have ne: "active_thr s \<noteq> t" and lt: "threads s3 t \<noteq> None"
    using placedD(2,6) [OF inv] te by auto
  have act: "threads s3 (active_thr s) = Some x" using te assms(2) placedD(9) [OF inv] by (simp add: upd_in_def)
  obtain y where y: "threads s3 t = Some y" using lt by auto
  define s' where "s' = s3\<lparr>threads := (threads s3)(active_thr s \<mapsto> x\<lparr>saved_ctx := Exited # stack s3\<rparr>), stack := saved_ctx y\<rparr>"
  have act3: "active_thr s3 = t" by (simp add: s3_def)
  have sw: "sthread_switch (push_frame Exited s3) (active_thr s) (active_thr s3) = Inr s'"
    unfolding sthread_switch_runs using ne act y act3 by (simp add: push_frame_def s'_def)
  have run: "sthread_user_exit s ret = Inr s'"
    using eexe n sw by (simp add: sthread_user_exit_eq [OF a])
  have lists: "active_thr s' # exe_thr_list s' = exe_thr_list s @ ?j"
    "join_thr_list s' = filter (\<lambda>t. \<not> joins s t) (join_thr_list s)"
    "if ?j = [] then zombie_thr_list s' = zombie_thr_list s @ [active_thr s] \<and> dead_thr_list s' = dead_thr_list s
       else zombie_thr_list s' = zombie_thr_list s \<and> dead_thr_list s' = dead_thr_list s @ [active_thr s]"
    using t by (auto simp: s'_def s3_def exit_state_def Let_def filter_empty_conv)
  have rets: "map_option join_ret (threads s' u) = Some ret" if u: "u \<in> set (join_thr_list s)" "joins s u" for u
  proof -
    have "u \<noteq> active_thr s" using u(1) placedD(9) [OF inv] by auto
    moreover obtain z where "threads s u = Some z" using a(2) u(1) by auto
    ultimately show ?thesis using u te by (simp add: s'_def upd_in_def)
  qed
  have "\<exists>s''. run_frame (After_join (active_thr s) (Some p)) s' = Inr s'' \<and> user_mem s'' p = join_ret x" for p
    by (simp add: get_thr_def s'_def store_ret_def deref_def)
  then show ?thesis using run lists rets by blast
qed

definition demo_join :: "action list" where
  "demo_join = [spawn, Do (Join 2 (Some 100)), Go]"

lemma demo_join_run:
  "map_option (\<lambda>s. (active_thr s, exe_thr_list s, join_thr_list s, joins s 1, map_option join_ret (threads s 2)))
     (perform_all demo_join main_thread) = Some (2, [], [1], True, Some NULL)"
  by code_simp

text \<open>The first thread joins the second, which exits with 42: the join returns a null pointer.\<close>

theorem exit_releases_joiners_witness:
  "\<exists>s s' s''. perform_all demo_join main_thread = Some s \<and> sthread_user_exit s 42 = Inr s'
     \<and> active_thr s' = 1 \<and> run_frame (After_join 2 (Some 100)) s' = Inr s'' \<and> user_mem s'' 100 = NULL"
proof -
  obtain s x where s: "perform_all demo_join main_thread = Some s" "active_thr s = 2" "exe_thr_list s = []"
    "join_thr_list s = [1]" "joins s 1" "threads s (active_thr s) = Some x" "join_ret x = NULL"
    using demo_join_run by auto
  have "list_all (allowed basic_call) demo_join" by (simp add: demo_join_def)
  then have r: "reach started (sthread_step (Collect basic_call)) s" using demo_reach s(1) by blast
  show ?thesis using exit_releases_joiners [OF r s(6), of 42] s by fastforce
qed

text \<open>When no other thread is executable, a thread that has to wait never comes back, although others
  may still sleep: waiting at a semaphore without units dereferences a null pointer, and sleeping or
  exiting ends the whole program.\<close>

lemma last_thread_cannot_wait:
  assumes "reach started (sthread_step (Collect basic_call)) s" and "exe_thr_list s = []"
  shows "(\<forall>i m. i < length (sems s) \<longrightarrow> sems s ! i = Some m \<longrightarrow> s_counter m \<le> 0 \<longrightarrow>
        sthread_user_sem_wait s i = Inl NullDeref)
    \<and> (\<forall>time s'. c_div time CLOCK_TICK \<noteq> 0 \<longrightarrow> sthread_user_sleep s time \<noteq> Inr s')
    \<and> (\<forall>ret s'. filter (joins s) (join_thr_list s) = [] \<longrightarrow> sthread_user_exit s ret \<noteq> Inr s')"
proof -
  note inv = basic_inv [OF assms(1)]
  obtain a where a: "threads s (active_thr s) = Some a" using placedD(1) [OF inv] by auto
  have "sthread_user_sem_wait s i = Inl NullDeref"
    if "i < length (sems s)" "sems s ! i = Some m" "s_counter m \<le> 0" for i m
    using that sem_free [OF any_objs [OF assms(1)] that(1,2)] a assms(2)
    by (simp add: sthread_user_sem_wait_def get_obj_def upd_thr_def get_thr_def switch_to_next_def
        next_active_def Let_def)
  moreover have "sthread_user_sleep s time \<noteq> Inr s'" if "c_div time CLOCK_TICK \<noteq> 0" for time s'
    using that assms(2) by (auto simp: sthread_user_sleep_def Let_def c_bind_eq_Inr upd_thr_runs)
  moreover have "sthread_user_exit s ret \<noteq> Inr s'" if "filter (joins s) (join_thr_list s) = []" for ret s'
    using that assms(2) placedD(1,5) [OF inv]
    by (subst sthread_user_exit_eq) (auto simp: exit_state_def Let_def)
  ultimately show ?thesis by blast
qed

lemma last_thread_cannot_wait_witness:
  "\<exists>s. perform_all [Do (Sem_init 0)] main_thread = Some s \<and> sthread_user_sem_wait s 0 = Inl NullDeref"
proof -
  have "map_option (\<lambda>s. (exe_thr_list s, length (sems s), map (map_option s_counter) (sems s)))
      (perform_all [Do (Sem_init 0)] main_thread) = Some ([], 1, [Some 0])" by code_simp
  then obtain s m where s: "perform_all [Do (Sem_init 0)] main_thread = Some s" "exe_thr_list s = []"
    "0 < length (sems s)" "sems s ! 0 = Some m" "s_counter m \<le> 0"
    by (auto simp: map_eq_Cons_conv)
  have "list_all (allowed basic_call) [Do (Sem_init 0)]" by simp
  then have r: "reach started (sthread_step (Collect basic_call)) s" using demo_reach s(1) by blast
  show ?thesis using last_thread_cannot_wait [OF r s(2)] s by blast
qed

section \<open>Synchronisation\<close>

text \<open>C38: Locking a mutex that is taken does not block. The thread enters the queue of the mutex, but
  also the list of executable threads, so that the lock is a yield: the thread is resumed in its
  turn, returns from the lock, and the mutex still belongs to the other thread.\<close>

theorem mutex_lock_is_a_yield:
  assumes "sthread_user_mutex_lock s i = Inr s'"
    and "i < length (mutexes s)" and "mutexes s ! i = Some m" and "m_thr m = Some u"
  shows "active_thr s' # exe_thr_list s' = exe_thr_list s @ [active_thr s]
    \<and> (if active_thr s' = active_thr s then stack s' = Splx_low # stack s
       else map_option saved_ctx (threads s' (active_thr s)) = Some (Splx_low # stack s))
    \<and> mutexes s' = (mutexes s)[i := Some (m\<lparr>m_queue := m_queue m @ [active_thr s], m_l := 0\<rparr>)]"
proof -
  let ?m = "m\<lparr>m_queue := m_queue m @ [active_thr s], m_l := 0\<rparr>"
  let ?s = "(put_mutex s i ?m)\<lparr>spl := HIGH, exe_thr_list := exe_thr_list s @ [active_thr s]\<rparr>"
  have run: "switch_to_next ?s Splx_low = Inr s'"
    using assms by (auto simp: sthread_user_mutex_lock_def c_bind_eq_Inr sched_runs atomic_clear_def
        Let_def put_mutex_def)
  then obtain s1 s2 where 1: "next_active ?s = Inr s1"
    and 2: "upd_thr s1 (active_thr s1) (\<lambda>x. x\<lparr>state := 0\<rparr>) = Inr s2"
    and 3: "sthread_switch (push_frame Splx_low s2) (active_thr s) (active_thr s2) = Inr s'"
    by (auto simp: switch_to_next_def Let_def c_bind_eq_Inr put_mutex_def)
  have "stack s2 = stack s" "active_thr s2 # exe_thr_list s2 = exe_thr_list s @ [active_thr s]"
    "mutexes s2 = (mutexes s)[i := Some ?m]"
    using 1 2 by (auto simp: sched_runs put_mutex_def)
  then show ?thesis using 3 by (auto simp: sthread_switch_runs push_frame_def split: if_splits)
qed

definition demo_mutex :: "action list" where
  "demo_mutex = [spawn, Do Mutex_init, Do (Mutex_lock 0), Do Yield, Go]"

lemma demo_mutex_run:
  "map_option (\<lambda>s. (active_thr s, exe_thr_list s, stack s, map (map_option m_thr) (mutexes s)))
     (perform_all demo_mutex main_thread) = Some (2, [1], [], [Some (Some 1)])"
  "map_option (\<lambda>s. (active_thr s, stack s, map (map_option m_thr) (mutexes s)))
     (perform_all (demo_mutex @ [Do (Mutex_lock 0), Go, Do Yield, Go]) main_thread) = Some (2, [], [Some (Some 1)])"
  by code_simp+

text \<open>The second thread locks the mutex of the first one. When the first one yields, the second one is
  back in its own code, behind the lock, and the first one has not unlocked.\<close>

theorem mutex_lock_is_a_yield_witness:
  "\<exists>s s' s''. perform_all demo_mutex main_thread = Some s \<and> active_thr s = 2 \<and>
     sthread_user_mutex_lock s 0 = Inr s' \<and> exe_thr_list s' = [2]
     \<and> perform_all [Go, Do Yield, Go] s' = Some s'' \<and> active_thr s'' = 2 \<and> stack s'' = []
     \<and> map (map_option m_thr) (mutexes s'') = [Some (Some 1)]"
proof -
  have app: "perform_all (as @ bs) s = (case perform_all as s of None \<Rightarrow> None | Some s' \<Rightarrow> perform_all bs s')" for as bs s
    by (induction as arbitrary: s) (auto split: option.splits)
  obtain s m where s: "perform_all demo_mutex main_thread = Some s" "active_thr s = 2" "exe_thr_list s = [1]"
    "stack s = []" "0 < length (mutexes s)" "mutexes s ! 0 = Some m" "m_thr m = Some 1"
    using demo_mutex_run(1) by (auto simp: map_eq_Cons_conv)
  obtain s'' where r: "perform_all (Do (Mutex_lock 0) # [Go, Do Yield, Go]) s = Some s''" "active_thr s'' = 2"
    "stack s'' = []" "map (map_option m_thr) (mutexes s'') = [Some (Some 1)]"
    using demo_mutex_run(2) s(1) by (auto simp: app simp del: perform_all.simps)
  obtain s' where s': "sthread_user_mutex_lock s 0 = Inr s'" "perform_all [Go, Do Yield, Go] s' = Some s''"
    using r(1) s(4) by (auto simp: returned_def simp del: perform.simps(3) split: option.splits sum.splits)
  have "exe_thr_list s' = [2]" using mutex_lock_is_a_yield [OF s'(1) s(5-7)] s(2,3) by simp
  then show ?thesis using s s' r by (intro exI [of _ s] exI [of _ s'] exI [of _ s''] conjI)
qed

definition sem_value :: "sthread_sem \<Rightarrow> int" where
  "sem_value m = s_counter m - int (length (s_queue m))"

text \<open>Semaphores count. The value of a semaphore is its counter less the number of threads that wait
  at it. In every state of every program, waiting takes one from the value and posting adds one.
  Waiting with a positive value goes on; otherwise the thread enters the queue and the first
  executable thread goes on. Posting with waiting threads makes the one executable that has waited
  longest.\<close>

lemma semaphore_counts:
  assumes "reach started (sthread_step C) s" and "i < length (sems s)" and "sems s ! i = Some m"
  shows "(\<forall>s'. sthread_user_sem_wait s i = Inr s' \<longrightarrow> (\<exists>m'. sems s' ! i = Some m' \<and> sem_value m' = sem_value m - 1
        \<and> (if sem_value m > 0 then active_thr s' = active_thr s \<and> stack s' = stack s
           else s_queue m' = s_queue m @ [active_thr s] \<and> active_thr s' # exe_thr_list s' = exe_thr_list s)))
    \<and> (\<forall>s'. sthread_user_sem_post s i = Inr s' \<longrightarrow> (\<exists>m'. sems s' ! i = Some m' \<and> sem_value m' = sem_value m + 1
        \<and> exe_thr_list s' = exe_thr_list s @ take 1 (s_queue m) \<and> s_queue m' = drop 1 (s_queue m)))"
proof -
  have ok: "sem_ok m" and l: "s_l m = 0"
    using objs_okD(2) [OF any_objs [OF assms(1)] assms(2,3)] by (auto simp: sem_ok_def)
  have pos: "sem_value m > 0 \<longleftrightarrow> s_counter m > 0"
    using ok by (cases "s_queue m") (auto simp: sem_ok_def sem_value_def)
  have "\<exists>m'. sems s' ! i = Some m' \<and> sem_value m' = sem_value m - 1
        \<and> (if sem_value m > 0 then active_thr s' = active_thr s \<and> stack s' = stack s
           else s_queue m' = s_queue m @ [active_thr s] \<and> active_thr s' # exe_thr_list s' = exe_thr_list s)"
    if run: "sthread_user_sem_wait s i = Inr s'" for s'
  proof (cases "s_counter m > 0")
    case True
    then have "s' = put_sem s i (m\<lparr>s_counter := s_counter m - 1, s_l := 0\<rparr>)"
      using run assms(2,3) l by (auto simp: sthread_user_sem_wait_def get_obj_def atomic_clear_def)
    then show ?thesis using True pos assms(2) by (simp add: sem_value_def)
  next
    case False
    let ?m = "m\<lparr>s_queue := s_queue m @ [active_thr s], s_l := 0\<rparr>"
    obtain x where "switch_to_next ((put_sem (put_thr s (active_thr s) (x\<lparr>state := 0\<rparr>)) i ?m)\<lparr>spl := HIGH\<rparr>) Splx_low = Inr s'"
      using run assms(2,3) l False
      by (auto simp: sthread_user_sem_wait_def c_bind_eq_Inr sched_runs atomic_clear_def Let_def)
    then have "sems s' ! i = Some ?m" "active_thr s' # exe_thr_list s' = exe_thr_list s"
      using assms(2) by (auto dest: switch_to_next_objs switch_to_next_lists simp: same_objs_def)
    then show ?thesis using False pos by (simp add: sem_value_def)
  qed
  moreover have "\<exists>m'. sems s' ! i = Some m' \<and> sem_value m' = sem_value m + 1
        \<and> exe_thr_list s' = exe_thr_list s @ take 1 (s_queue m) \<and> s_queue m' = drop 1 (s_queue m)"
    if run: "sthread_user_sem_post s i = Inr s'" for s'
    using run assms(2,3) l
    by (cases "s_queue m")
      (auto simp: sthread_user_sem_post_def c_bind_eq_Inr sched_runs atomic_clear_def sem_value_def)
  ultimately show ?thesis by blast
qed

definition demo_sem :: "action list" where
  "demo_sem = [spawn, Do (Sem_init 0), Do (Sem_wait 0), Go]"

lemma semaphore_counts_witness:
  "\<exists>s s' m. perform_all demo_sem main_thread = Some s \<and> active_thr s = 2 \<and> sthread_user_sem_post s 0 = Inr s'
     \<and> sems s ! 0 = Some m \<and> sem_value m = -1 \<and> exe_thr_list s' = [1]"
proof -
  have "map_option (\<lambda>s. (active_thr s, exe_thr_list s, length (sems s), map (map_option s_counter) (sems s),
      map (map_option s_queue) (sems s))) (perform_all demo_sem main_thread) = Some (2, [], 1, [Some 0], [Some [1]])"
    by code_simp
  then obtain s m where s: "perform_all demo_sem main_thread = Some s" "active_thr s = 2" "exe_thr_list s = []"
    "0 < length (sems s)" "sems s ! 0 = Some m" "s_counter m = 0" "s_queue m = [1]"
    by (auto simp: map_eq_Cons_conv)
  have "case perform_all demo_sem main_thread of None \<Rightarrow> False
      | Some s \<Rightarrow> case sthread_user_sem_post s 0 of Inl e \<Rightarrow> False | Inr s' \<Rightarrow> True" by code_simp
  then obtain s' where s': "sthread_user_sem_post s 0 = Inr s'" using s(1) by (auto split: sum.splits)
  have "list_all (allowed (\<lambda>c. True)) demo_sem" by (simp add: demo_sem_def)
  then have r: "reach started (sthread_step (Collect (\<lambda>c. True))) s" using demo_reach s(1) by blast
  have "exe_thr_list s' = [1]" "sem_value m = -1" using semaphore_counts [OF r s(4,5)] s' s(3,6,7)
    by (auto simp: sem_value_def)
  then show ?thesis using s s' by (intro exI [of _ s] exI [of _ s'] exI [of _ m] conjI)
qed

text \<open>A writer is interrupted between its test and its update, the reader gets the mutex in its turn, and both go on.\<close>

definition demo_rwlock :: "action list" where
  "demo_rwlock = [spawn, Do Rwlock_init, Tick, Tick, Tick, Tick, Do (Rwlock_wrlock 0), Go, Tick,
     Go, Do (Rwlock_rdlock 0), Go, Go, Tick, Go, Go, Go, Go, Do Yield, Go, Go, Go, Go]"

lemma demo_rwlock_run:
  "map_option (\<lambda>s. (active_thr s, stack s, exe_thr_list s, map_option saved_ctx (threads s 2),
      map (map_option (\<lambda>r. (em_escrita r, nleitores r))) (rwlocks s))) (perform_all demo_rwlock main_thread) =
    Some (1, [], [2, 2], Some [Splx_low], [Some (1, 1)])"
  by code_simp

text \<open>C36: A readers/writer lock may be taken for reading and for writing at once. The mutex that its operations
  take does not block, so a time slice that ends between the test of a writer and its
  update lets a reader through: both locks return, nobody unlocks, and the lock has a writer and a reader.\<close>

theorem rwlock_admits_both:
  "\<exists>s r. perform_all demo_rwlock main_thread = Some s \<and> reach started (sthread_step UNIV) s
     \<and> active_thr s = 1 \<and> stack s = [] \<and> map_option saved_ctx (threads s 2) = Some [Splx_low]
     \<and> rwlocks s = [Some r] \<and> em_escrita r = 1 \<and> nleitores r = 1"
proof -
  obtain s r where s: "perform_all demo_rwlock main_thread = Some s" "active_thr s = 1" "stack s = []"
    "map_option saved_ctx (threads s 2) = Some [Splx_low]" "rwlocks s = [Some r]" "em_escrita r = 1" "nleitores r = 1"
    using demo_rwlock_run by (auto simp: map_eq_Cons_conv)
  have "list_all (allowed (\<lambda>c. True)) demo_rwlock" by (simp add: demo_rwlock_def)
  then have "reach started (sthread_step (Collect (\<lambda>c. True))) s" using demo_reach s(1) by blast
  then show ?thesis using s by (auto simp flip: UNIV_def)
qed

text \<open>C37: No operation spins for ever at a lock: in every state of every program all spin locks are free,
  so that neither a call, nor the rest of an operation, nor a clock tick hangs.\<close>

theorem nothing_hangs:
  assumes "reach started (sthread_step C) s"
  shows "do_call c s \<noteq> Inl Hangs \<and> run_frame f s \<noteq> Inl Hangs \<and> sthread_user_dispatcher s \<noteq> Inl Hangs"
  using any_objs [OF assms] do_call_nh run_frame_nh sthread_user_dispatcher_nh by blast

theorem nothing_hangs_witness:
  "\<exists>s. perform_all demo_mutex main_thread = Some s \<and> do_call (Mutex_lock 0) s \<noteq> Inl Hangs"
proof -
  obtain s where s: "perform_all demo_mutex main_thread = Some s" using demo_mutex_run(1) by auto
  have "list_all (allowed (\<lambda>c. True)) demo_mutex" by (simp add: demo_mutex_def)
  then have "reach started (sthread_step (Collect (\<lambda>c. True))) s" using demo_reach s(1) by blast
  from nothing_hangs [OF this] show ?thesis using s by blast
qed

end
