(* ===== verification/Program_Dumps.thy ===== *)
theory Program_Dumps
  imports Log_Dump Fs_Create Threads_Correct
begin

text \<open>
  What \<open>fs_dump\<close> of \<open>src/sofs/fs.c\<close> and \<open>sthread_dump\<close> of \<open>src/sthread_lib/sthread_user.c\<close> print.
\<close>

section \<open>Bitmaps\<close>

text \<open>\<open>%x\<close>.\<close>

fun hex_digits :: "nat \<Rightarrow> nat list" where
  "hex_digits n = (if n < 16 then [n] else hex_digits (n div 16) @ [n mod 16])"

declare hex_digits.simps [simp del]

definition hex_char :: "nat \<Rightarrow> char" where
  "hex_char d = ''0123456789abcdef'' ! d"

definition fmt_x :: "nat \<Rightarrow> string" where
  "fmt_x n = map hex_char (hex_digits n)"

definition dump_byte :: "byte list \<Rightarrow> nat \<Rightarrow> string c" where
  "dump_byte bmap i = c_bind (c_nth bmap i) (\<lambda>b.
     Inr (fmt_x (unat b) @ ''.'' @ (if i > 0 \<and> i mod 32 = 0 then [NL] else [])))"

definition fsi_dump_bmap :: "byte list \<Rightarrow> nat \<Rightarrow> string c" where
  "fsi_dump_bmap bmap sz = print_loop [0..<sz] (dump_byte bmap)"

definition fs_dump :: "'d fs_t \<Rightarrow> string c" where
  "fs_dump fs =
     c_bind (fsi_dump_bmap (blk_bmap fs) BLOCK_SIZE) (\<lambda>blocks.
     c_bind (fsi_dump_bmap (inode_bmap fs) BLOCK_SIZE) (\<lambda>inodes.
     Inr (''Free block bitmap:'' @ [NL] @ blocks @ [NL] @ ''Free inode table bitmap:'' @ [NL] @ inodes @ [NL])))"

text \<open>Reading such a text back.\<close>

definition hex_value :: "char \<Rightarrow> nat" where
  "hex_value c = length (takeWhile (\<lambda>d. d \<noteq> c) ''0123456789abcdef'')"

fun read_bmap :: "nat \<Rightarrow> string \<Rightarrow> byte list" where
  "read_bmap acc [] = []"
| "read_bmap acc (c # cs) =
     (if c = NL then read_bmap acc cs
      else if c = CHR ''.'' then of_nat acc # read_bmap 0 cs
      else read_bmap (16 * acc + hex_value c) cs)"

lemma hex_char_value: "d < 16 \<Longrightarrow> hex_value (hex_char d) = d \<and> hex_char d \<noteq> NL \<and> hex_char d \<noteq> CHR ''.''"
proof -
  have "list_all (\<lambda>d. hex_value (hex_char d) = d \<and> hex_char d \<noteq> NL \<and> hex_char d \<noteq> CHR ''.'') [0..<16]"
    by code_simp
  then show "d < 16 \<Longrightarrow> ?thesis" by (simp add: list_all_iff del: upt_rec_numeral)
qed

lemma read_fmt_x:
  "read_bmap acc (fmt_x n @ cs) = read_bmap (16 ^ length (hex_digits n) * acc + n) cs"
proof (induction n arbitrary: acc cs rule: hex_digits.induct)
  case (1 n)
  show ?case
  proof (cases "n < 16")
    case True
    then show ?thesis using hex_char_value [of n] by (simp add: fmt_x_def hex_digits.simps [of n])
  next
    case False
    have m: "n mod 16 < 16" by simp
    have d: "hex_digits n = hex_digits (n div 16) @ [n mod 16]" using False by (simp add: hex_digits.simps [of n])
    have "fmt_x n @ cs = fmt_x (n div 16) @ hex_char (n mod 16) # cs" by (simp add: fmt_x_def d)
    then show ?thesis
      using 1 [OF False, of acc "hex_char (n mod 16) # cs"] hex_char_value [OF m] by (simp add: d algebra_simps)
  qed
qed

lemma read_dump_byte:
  assumes "i < length bmap"
  shows "\<exists>out. dump_byte bmap i = Inr out \<and> (\<forall>cs. read_bmap 0 (out @ cs) = bmap ! i # read_bmap 0 cs)"
  using assms by (simp add: dump_byte_def c_nth_ok read_fmt_x NL_def)

lemma read_dump_bmap:
  assumes "i \<le> length bmap"
  shows "\<exists>out. print_loop [i..<length bmap] (dump_byte bmap) = Inr out \<and> read_bmap 0 out = drop i bmap"
  using assms
proof (induction rule: inc_induct)
  case base
  then show ?case by simp
next
  case (step n)
  obtain out where out: "dump_byte bmap n = Inr out" "\<forall>cs. read_bmap 0 (out @ cs) = bmap ! n # read_bmap 0 cs"
    using read_dump_byte [OF step(2)] by blast
  obtain rest where rest: "print_loop [Suc n..<length bmap] (dump_byte bmap) = Inr rest" "read_bmap 0 rest = drop (Suc n) bmap"
    using step(3) by blast
  have "[n..<length bmap] = n # [Suc n..<length bmap]" using step(2) by (rule upt_conv_Cons)
  then show ?case using out rest step(2) by (simp add: Cons_nth_drop_Suc)
qed

text \<open>The dump of a file system shows both bitmaps, byte for byte: they can be read back from it.\<close>

theorem fs_dump_readable:
  assumes "length (blk_bmap fs) = BLOCK_SIZE" and "length (inode_bmap fs) = BLOCK_SIZE"
  shows "\<exists>blocks inodes. fs_dump fs = Inr (''Free block bitmap:'' @ [NL] @ blocks @ [NL]
      @ ''Free inode table bitmap:'' @ [NL] @ inodes @ [NL])
    \<and> read_bmap 0 blocks = blk_bmap fs \<and> read_bmap 0 inodes = inode_bmap fs"
proof -
  obtain blocks inodes where "fsi_dump_bmap (blk_bmap fs) BLOCK_SIZE = Inr blocks" "read_bmap 0 blocks = blk_bmap fs"
    "fsi_dump_bmap (inode_bmap fs) BLOCK_SIZE = Inr inodes" "read_bmap 0 inodes = inode_bmap fs"
    using read_dump_bmap [of 0 "blk_bmap fs"] read_dump_bmap [of 0 "inode_bmap fs"] assms
    unfolding fsi_dump_bmap_def by auto
  then show ?thesis unfolding fs_dump_def by (metis c_bind_Inr)
qed

section \<open>Threads\<close>

text \<open>A number of ticks, an \<open>unsigned long\<close>, as the dump shows it: in microseconds, with \<open>%ld\<close>.\<close>

definition fmt_time :: "u32 \<Rightarrow> string" where
  "fmt_time n = fmt_d (sint (n * of_int CLOCK_TICK))"

definition dump_times :: "string \<Rightarrow> sthread \<Rightarrow> string" where
  "dump_times colon x = ''runtime: '' @ fmt_time (runtime x) @ '' on state for'' @ colon @ fmt_time (state x)
     @ '' sleeptime: '' @ fmt_time (sleeptime x) @ '' waittime: '' @ fmt_time (waittime x) @ [NL, NL]"

definition dump_active :: "sthread \<Rightarrow> string c" where
  "dump_active x =
     c_bind (c_int (prio x + nice x)) (\<lambda>p.
     Inr (''id: '' @ fmt_d (sint (clientID x)) @ ''  request: '' @ fmt_d (tid x) @ ''  priority: '' @ fmt_d p @ '' ''
       @ ''vruntime: '' @ fmt_d (sint (vruntime x)) @ ''  '' @ dump_times '': '' x))"

definition dump_thread :: "string \<Rightarrow> string \<Rightarrow> sthread \<Rightarrow> string" where
  "dump_thread gap colon x =
     ''id: '' @ fmt_d (sint (clientID x)) @ '' request: '' @ fmt_d (tid x) @ '' priority: '' @ fmt_d (prio x) @ '' ''
       @ ''vruntime: '' @ fmt_d (sint (vruntime x)) @ gap @ dump_times colon x"

fun dump_queue :: "(sthread \<Rightarrow> string) \<Rightarrow> thread_ptr list \<Rightarrow> sched \<Rightarrow> string c" where
  "dump_queue f [] s = Inr []"
| "dump_queue f (t # ts) s = c_bind (get_thr s t) (\<lambda>x. c_bind (dump_queue f ts s) (\<lambda>out. Inr (f x @ out)))"

definition dump_section :: "string \<Rightarrow> string \<Rightarrow> (sthread \<Rightarrow> string) \<Rightarrow> thread_ptr list \<Rightarrow> sched \<Rightarrow> string c" where
  "dump_section title none f ts s =
     c_bind (if ts \<noteq> [] then dump_queue f ts s else Inr (none @ [NL, NL])) (\<lambda>out. Inr (title @ [NL, NL] @ out))"

text \<open>After \<open>sthread_user_init\<close> there is an active thread.\<close>

definition sthread_dump :: "sched \<Rightarrow> string c" where
  "sthread_dump s =
     c_bind (get_thr s (active_thr s)) (\<lambda>a.
     c_bind (dump_active a) (\<lambda>active.
     c_bind (dump_section ''>>>>Scheduler<<<<'' ''No threads in execute list'' (dump_thread '' '' '': '')
       (exe_thr_list s) s) (\<lambda>exe.
     c_bind (dump_section ''>>>>BlockedList<<<<'' ''No threads in blocked list'' (dump_thread [] '': '')
       (join_thr_list s) s) (\<lambda>blocked.
     c_bind (dump_section ''>>>>SleepList<<<<'' ''No threads in sleep list'' (dump_thread [] '':'')
       (sleep_thr_list s) s) (\<lambda>asleep.
     Inr ([NL] @ ''=== dump start ==='' @ [NL, NL] @ ''active thread'' @ [NL, NL] @ active
       @ exe @ blocked @ asleep @ ''=== dump end ==='' @ [NL, NL]))))))"

definition sec :: "string \<Rightarrow> string \<Rightarrow> (sthread \<Rightarrow> string) \<Rightarrow> thread_ptr list \<Rightarrow> sched \<Rightarrow> string" where
  "sec title none f ts s = title @ [NL, NL] @ (if ts = [] then none @ [NL, NL] else concat (map (f \<circ> the \<circ> threads s) ts))"

lemma dump_section_ok:
  assumes "\<forall>t \<in> set ts. threads s t \<noteq> None"
  shows "dump_section title none f ts s = Inr (sec title none f ts s)"
proof -
  have "dump_queue f ts s = Inr (concat (map (f \<circ> the \<circ> threads s) ts))"
    using assms by (induction ts) (auto simp: get_thr_def)
  then show ?thesis by (simp add: dump_section_def sec_def)
qed

text \<open>In every state that a program without mutexes reaches the dump returns, unless the priority of the
  active thread overflows. It shows the active thread and one line for each thread in the lists of the
  scheduler, in their order; threads that wait at a semaphore are not shown.\<close>

theorem sthread_dump_lists:
  assumes "reach started (sthread_step (Collect basic_call)) s"
    and "threads s (active_thr s) = Some a" and "dump_active a = Inr active"
  shows "sthread_dump s = Inr ([NL] @ ''=== dump start ==='' @ [NL, NL] @ ''active thread'' @ [NL, NL] @ active
    @ sec ''>>>>Scheduler<<<<'' ''No threads in execute list'' (dump_thread '' '' '': '') (exe_thr_list s) s
    @ sec ''>>>>BlockedList<<<<'' ''No threads in blocked list'' (dump_thread [] '': '') (join_thr_list s) s
    @ sec ''>>>>SleepList<<<<'' ''No threads in sleep list'' (dump_thread [] '':'') (sleep_thr_list s) s
    @ ''=== dump end ==='' @ [NL, NL])"
proof -
  note inv = basic_inv [OF assms(1)]
  have "\<forall>t \<in> set (exe_thr_list s). threads s t \<noteq> None" "\<forall>t \<in> set (join_thr_list s). threads s t \<noteq> None"
    "\<forall>t \<in> set (sleep_thr_list s). threads s t \<noteq> None"
    using placedD(3-5) [OF inv] by blast+
  then show ?thesis
    unfolding sthread_dump_def by (simp only: dump_section_ok get_thr_def assms option.case c_bind_Inr)
qed

text \<open>The times are right for 2147 seconds; at the next tick the dump shows a negative time.\<close>

lemma dump_time_right:
  assumes "unat n \<le> 214748"
  shows "fmt_time n = fmt_d (10000 * int (unat n))"
proof -
  have "unat (n * 10000) = unat n * 10000" using assms by (simp add: unat_word_ariths)
  with assms sint_small [of "n * 10000"] show ?thesis by (simp add: fmt_time_def CLOCK_TICK_def mult.commute)
qed

lemma dump_time_wraps: "\<exists>ds. fmt_time 214749 = CHR ''-'' # ds"
proof -
  have "sint (214749 * 10000 :: u32) = - 2147477296" by code_simp
  then show ?thesis by (simp add: fmt_time_def fmt_d_def CLOCK_TICK_def)
qed

end
