(* ===== verification/Log_Tests.thy ===== *)
theory Log_Tests
  imports Log_Dump
begin

text \<open>
  The clients of the log in \<open>src/tests/tests-1/tests-IA\<close>: the threads of \<open>test-logrw-wclean.c\<close> and
  \<open>test-logrw-ops_on_registers.c\<close>. Their buffer from \<open>malloc\<close> is an argument, of \<open>BLKSIZE\<close> bytes in the
  programs. Each thread runs alone here; \<open>Log_Serial\<close> has the log between threads. A reading thread
  watches the log until its time is over: its argument is the log as each of its rounds finds it.
\<close>

definition BLKSIZE :: u32 where "BLKSIZE = 8"
definition NUMBLK :: u32 where "NUMBLK = 12"
definition NUMREGS :: u32 where "NUMREGS = 3"

text \<open>The log that both programs create.\<close>

definition tests_log :: "logrw_struct option c" where
  "tests_log = logrw_init NUMREGS NUMBLK BLKSIZE"

section \<open>Macros\<close>

text \<open>\<open>block[0] = x, block[1] = y, ...\<close>\<close>

fun poke :: "nat \<Rightarrow> byte list \<Rightarrow> byte list \<Rightarrow> byte list c" where
  "poke i [] block = Inr block"
| "poke i (x # xs) block = c_bind (c_upd block i x) (\<lambda>block'. poke (i + 1) xs block')"

definition WRITEREGISTER :: "u32 \<Rightarrow> byte list \<Rightarrow> logrw_struct \<Rightarrow> byte list \<Rightarrow> (logrw_struct \<times> byte list) c" where
  "WRITEREGISTER number marks lbks block =
     c_bind (poke 0 marks block) (\<lambda>block'.
     c_bind (logrw_write lbks number block') (\<lambda>(rc, lbks', calls). Inr (lbks', block')))"

definition READREGISTER :: "u32 \<Rightarrow> logrw_struct \<Rightarrow> byte list \<Rightarrow> byte list c" where
  "READREGISTER number lbks block = c_bind (logrw_read lbks number block) (\<lambda>(rc, block', calls). Inr block')"

definition DUMP :: "logrw_struct \<Rightarrow> string c" where
  "DUMP lbks = c_bind (logrw_dump lbks) (\<lambda>(out, calls).
     c_bind (logrw_dump_all_registers lbks) (\<lambda>out'. Inr (out @ out')))"

section \<open>test-logrw-wclean.c\<close>

fun wclean_writes :: "(nat \<times> nat) list \<Rightarrow> u32 \<Rightarrow> logrw_struct \<Rightarrow> byte list \<Rightarrow> logrw_struct c" where
  "wclean_writes [] index lbks block = Inr lbks"
| "wclean_writes ((j, i) # jis) index lbks block =
     c_bind (WRITEREGISTER (of_nat i) [of_nat i, of_nat j, ucast index] lbks block) (\<lambda>(lbks', block').
     wclean_writes jis index lbks' block')"

definition wclean_BLKW :: "u32 \<Rightarrow> u32 \<Rightarrow> logrw_struct \<Rightarrow> byte list \<Rightarrow> logrw_struct c" where
  "wclean_BLKW n_cycle index lbks block =
     wclean_writes (List.product [0..<unat n_cycle] [0..<unat NUMREGS]) index lbks block"

text \<open>The first loop of the reading thread, and the loop of one round.\<close>

fun note_versions :: "nat list \<Rightarrow> logrw_struct \<Rightarrow> byte list \<Rightarrow> (byte \<times> byte) list \<Rightarrow>
    (byte list \<times> (byte \<times> byte) list) c" where
  "note_versions [] lbks block version = Inr (block, version)"
| "note_versions (i # is) lbks block version =
     c_bind (READREGISTER (of_nat i) lbks block) (\<lambda>block'.
     c_bind (c_nth block' 1) (\<lambda>x. c_bind (c_nth block' 2) (\<lambda>y.
     c_bind (c_upd version i (x, y)) (\<lambda>version'. note_versions is lbks block' version'))))"

fun watch_round :: "nat list \<Rightarrow> logrw_struct \<Rightarrow> byte list \<Rightarrow> (byte \<times> byte) list \<Rightarrow>
    (byte list \<times> (byte \<times> byte) list \<times> string) c" where
  "watch_round [] lbks block version = Inr (block, version, [])"
| "watch_round (i # is) lbks block version =
     c_bind (READREGISTER (of_nat i) lbks block) (\<lambda>block'.
     c_bind (c_nth version i) (\<lambda>v.
     c_bind (c_nth block' 1) (\<lambda>x. c_bind (c_nth block' 2) (\<lambda>y.
     if x \<noteq> fst v \<or> y \<noteq> snd v then
       c_bind (c_upd version i (x, y)) (\<lambda>version'.
       c_bind (DUMP lbks) (\<lambda>out.
       c_bind (watch_round is lbks block' version') (\<lambda>(block'', version'', out').
       Inr (block'', version'', out @ out'))))
     else watch_round is lbks block' version))))"

fun watch :: "logrw_struct list \<Rightarrow> byte list \<Rightarrow> (byte \<times> byte) list \<Rightarrow> string c" where
  "watch [] block version = Inr []"
| "watch (lbks # later) block version =
     c_bind (watch_round [0..<unat NUMREGS] lbks block version) (\<lambda>(block', version', out).
     c_bind (watch later block' version') (\<lambda>out'. Inr (out @ out')))"

text \<open>The array \<open>version\<close> is not initialised.\<close>

definition wclean_BLKR :: "(byte \<times> byte) list \<Rightarrow> logrw_struct \<Rightarrow> logrw_struct list \<Rightarrow> byte list \<Rightarrow> string c" where
  "wclean_BLKR version0 lbks later block =
     c_bind (note_versions [0..<unat NUMREGS] lbks block version0) (\<lambda>(block', version).
     c_bind (DUMP lbks) (\<lambda>out.
     c_bind (watch later block' version) (\<lambda>out'. Inr (out @ out'))))"

section \<open>test-logrw-ops_on_registers.c\<close>

definition ops_register :: "int \<Rightarrow> u32 \<Rightarrow> u32" where
  "ops_register registerN index = (if registerN > -1 then word_of_int registerN else index)"

fun ops_writes :: "nat list \<Rightarrow> u32 \<Rightarrow> logrw_struct \<Rightarrow> byte list \<Rightarrow> logrw_struct c" where
  "ops_writes [] ind lbks block = Inr lbks"
| "ops_writes (j # js) ind lbks block =
     c_bind (WRITEREGISTER ind [ucast ind, of_nat j] lbks block) (\<lambda>(lbks', block').
     ops_writes js ind lbks' block')"

definition ops_BLKW :: "int \<Rightarrow> u32 \<Rightarrow> u32 \<Rightarrow> logrw_struct \<Rightarrow> byte list \<Rightarrow> logrw_struct c" where
  "ops_BLKW registerN cycle_n index lbks block =
     ops_writes [unat (index * cycle_n)..<unat ((index + 1) * cycle_n)] (ops_register registerN index) lbks block"

fun ops_reads :: "nat list \<Rightarrow> u32 \<Rightarrow> logrw_struct \<Rightarrow> byte list \<Rightarrow> byte list c" where
  "ops_reads [] ind lbks block = Inr block"
| "ops_reads (j # js) ind lbks block =
     c_bind (READREGISTER ind lbks block) (\<lambda>block'. ops_reads js ind lbks block')"

definition ops_BLKR :: "int \<Rightarrow> u32 \<Rightarrow> u32 \<Rightarrow> logrw_struct \<Rightarrow> byte list \<Rightarrow> byte list c" where
  "ops_BLKR registerN cycle_n index lbks block =
     ops_reads [0..<unat cycle_n] (ops_register registerN index) lbks block"

section \<open>The buffers are too short\<close>

lemma poke_length: "poke i xs block = Inr block' \<Longrightarrow> length block' = length block"
  by (induction xs arbitrary: i block) (auto simp: c_bind_eq_Inr c_upd_eq_Inr)

lemma poke_ok: "i + length xs \<le> length block \<Longrightarrow> poke i xs block = Inr (take i block @ xs @ drop (i + length xs) block)"
proof (induction xs arbitrary: i block)
  case (Cons x xs)
  then have "poke (i + 1) xs (block[i := x]) = Inr (take (i + 1) (block[i := x]) @ xs @ drop (i + 1 + length xs) block)"
    by simp
  moreover have "take (i + 1) (block[i := x]) = take i block @ [x]"
    using Cons.prems by (simp add: take_Suc_conv_app_nth)
  ultimately show ?case using Cons.prems by (simp add: c_upd_ok)
qed simp

lemma block_short:
  assumes "n < bks_num_blocks bks" and "length block < unat (bks_block_size bks)"
  shows "block_read bks n block = Inl OutOfBounds" and "block_write bks n block = Inl OutOfBounds"
  using assms by (auto simp: block_read_def block_write_def mem_read_def mem_write_def)

lemma short_write:
  assumes inv: "log_inv log" and "livre log = 0" and "length block < log_block_size log"
  shows "logrw_write log r block = Inl OutOfBounds"
proof -
  obtain a1 a2 where arr: "log_arrays log a1 a2" using log_invE [OF inv] by blast
  note a = log_arraysD [OF arr]
  have pos: "0 < unat (bks_num_blocks a1)" and small: "2 * unat (bks_num_blocks a1) < 2 ^ 32" using a(7,8) by auto
  have "unat (2 * bks_num_blocks a1) = 2 * unat (bks_num_blocks a1)"
    using small by (simp add: unat_word_ariths)
  then have "bks_num_blocks a1 \<noteq> 0" "2 * bks_num_blocks a1 \<noteq> 0" "0 < bks_num_blocks a1"
    using pos by (auto simp: word_less_nat_alt)
  moreover have "length block < unat (bks_block_size a1)" using assms(3) a(1) by (simp add: log_block_size_def)
  ultimately show ?thesis
    using assms(2) a(1) block_short(2) [of 0 a1 block]
    by (simp add: logrw_write_def put_1_def block_num_blocks_def Let_def)
qed

lemma short_read:
  assumes inv: "log_inv log" and short: "length block < log_block_size log"
  shows "logrw_read log r block = Inl OutOfBounds"
proof (cases "unat r < unat (num_reg log)")
  case False
  obtain a1 a2 where "log_arrays log a1 a2" using log_invE [OF inv] by blast
  from log_arraysD(9) [OF this] False show ?thesis by (simp add: logrw_read_def c_nth_def)
next
  case True
  obtain a1 a2 where arr: "log_arrays log a1 a2"
    and lv: "unat (livre log) \<le> 2 * unat (bks_num_blocks a1)"
    and reg: "\<And>j. j < unat (num_reg log) \<Longrightarrow>
      reg_range (unat (bks_num_blocks a1)) (unat (livre log)) (unat (registo log ! j))"
    using log_invE [OF inv] by blast
  note a = log_arraysD [OF arr]
  let ?N = "unat (bks_num_blocks a1)" and ?k = "registo log ! unat r"
  have B: "length block < unat (bks_block_size a1)" using short a(1) by (simp add: log_block_size_def)
  have k: "unat ?k < 2 * ?N" using reg_in_array [OF reg [OF True] lv] a(7) by simp
  show ?thesis
  proof (cases "?k < bks_num_blocks a1")
    case True
    with a B \<open>unat r < unat (num_reg log)\<close> show ?thesis
      by (simp add: logrw_read_def c_nth_ok block_num_blocks_def block_short)
  next
    case False
    then have "unat (?k - bks_num_blocks a2) = unat ?k - ?N" using a(5) by (simp add: unat_sub)
    with k False have "?k - bks_num_blocks a2 < bks_num_blocks a2" using a(5) by (simp add: word_less_nat_alt)
    with a B False True show ?thesis
      by (simp add: logrw_read_def c_nth_ok block_num_blocks_def block_short)
  qed
qed

lemma tests_log_ok:
  "\<exists>log. tests_log = Inr (Some log) \<and> log_inv log \<and> livre log = 0 \<and> num_reg log = NUMREGS
     \<and> log_block_size log = unat NUMBLK"
  using logrw_init_ok [of NUMREGS NUMBLK BLKSIZE]
  by (auto simp: tests_log_def NUMREGS_def NUMBLK_def BLKSIZE_def)

lemma upt_not_empty: "i < j \<Longrightarrow> \<exists>js. [i..<j] = i # js"
  by (simp add: upt_conv_Cons)

text \<open>C13: Both test programs overrun their buffers with the first access to the log: \<open>logrw_init\<close> exchanges
  the two sizes, so that the blocks of their log have 12 bytes and not 8. The first write of a writing
  thread reads past the end of its buffer, and the first read of a reading thread writes past it,
  whatever the arguments of the programs are.\<close>

theorem log_tests_overrun:
  assumes "length block = unat BLKSIZE" and "n_cycle \<noteq> 0"
    and "unat index * unat n_cycle + unat n_cycle < 2 ^ 32"
  shows "\<exists>log. tests_log = Inr (Some log)
    \<and> wclean_BLKW n_cycle index log block = Inl OutOfBounds
    \<and> wclean_BLKR version0 log later block = Inl OutOfBounds
    \<and> ops_BLKW registerN n_cycle index log block = Inl OutOfBounds
    \<and> ops_BLKR registerN n_cycle index log block = Inl OutOfBounds"
proof -
  obtain log where log: "tests_log = Inr (Some log)" "log_inv log" "livre log = 0" "log_block_size log = 12"
    using tests_log_ok by (auto simp: NUMBLK_def)
  have len: "length block = 8" using assms(1) by (simp add: BLKSIZE_def)
  have short: "logrw_read log r block = Inl OutOfBounds" for r
    using short_read [OF log(2)] len log(4) by simp
  have w: "WRITEREGISTER r marks log block = Inl OutOfBounds" if "length marks \<le> 8" for r marks
  proof -
    have p: "poke 0 marks block = Inr (marks @ drop (length marks) block)"
      using poke_ok [of 0 marks block] that len by simp
    have "length (marks @ drop (length marks) block) < log_block_size log" using that len log(4) by simp
    from short_write [OF log(2,3) this, of r] p show ?thesis by (simp add: WRITEREGISTER_def)
  qed
  have r: "READREGISTER r log block = Inl OutOfBounds" for r by (simp add: READREGISTER_def short)
  have pos: "0 < unat n_cycle" using assms(2) by (simp add: word_neq_0_conv word_less_nat_alt)
  obtain js where js: "[0..<unat n_cycle] = 0 # js" using upt_not_empty [OF pos] by blast
  have regs: "[0..<unat NUMREGS] = [0, 1, 2]" by (simp add: NUMREGS_def upt_rec)
  have "unat (index * n_cycle) < unat ((index + 1) * n_cycle)"
  proof -
    have "unat (index * n_cycle) = unat index * unat n_cycle" using assms(3) by (simp add: unat_word_ariths)
    moreover have "unat (index * n_cycle + n_cycle) = unat index * unat n_cycle + unat n_cycle"
      using assms(3) by (simp add: unat_word_ariths)
    ultimately show ?thesis using pos by (simp add: distrib_right)
  qed
  then obtain ks where ks: "[unat (index * n_cycle)..<unat ((index + 1) * n_cycle)] = unat (index * n_cycle) # ks"
    using upt_not_empty by blast
  have "wclean_BLKW n_cycle index log block = Inl OutOfBounds"
    unfolding wclean_BLKW_def js regs by (simp add: w)
  moreover have "wclean_BLKR version0 log later block = Inl OutOfBounds"
    unfolding wclean_BLKR_def regs by (simp add: r)
  moreover have "ops_BLKW registerN n_cycle index log block = Inl OutOfBounds"
    unfolding ops_BLKW_def ks by (simp add: w)
  moreover have "ops_BLKR registerN n_cycle index log block = Inl OutOfBounds"
    unfolding ops_BLKR_def js by (simp add: r)
  ultimately show ?thesis using log(1) by blast
qed

theorem log_tests_overrun_witness:
  "\<exists>log. tests_log = Inr (Some log) \<and> wclean_BLKW 4 0 log [0, 0, 0, 0, 0, 0, 0, 0] = Inl OutOfBounds
    \<and> ops_BLKR 0 4 0 log [0, 0, 0, 0, 0, 0, 0, 0] = Inl OutOfBounds"
  using log_tests_overrun [of "[0, 0, 0, 0, 0, 0, 0, 0]" 4 0 "[]" "[]" 0] by (auto simp: BLKSIZE_def)

section \<open>With buffers of the right size\<close>

lemma wclean_writes_eq:
  assumes "3 \<le> length block"
  shows "wclean_writes jis index log block =
    logrw_writes log (map (\<lambda>(j, i). (of_nat i, [of_nat i, of_nat j, ucast index] @ drop 3 block)) jis)"
  using assms
proof (induction jis index log block rule: wclean_writes.induct)
  case (2 j i jis index log block)
  let ?block = "[of_nat i, of_nat j, ucast index] @ drop 3 block"
  have p: "poke 0 [of_nat i, of_nat j, ucast index] block = Inr ?block"
    using poke_ok [of 0 "[of_nat i, of_nat j, ucast index]" block] 2(2) by (simp add: numeral_3_eq_3)
  show ?case
  proof (cases "logrw_write log (of_nat i) ?block")
    case (Inl e)
    then show ?thesis using p by (simp add: WRITEREGISTER_def del: poke.simps)
  next
    case (Inr y)
    obtain rc log' calls where y: "y = (rc, log', calls)" by (cases y)
    have w: "WRITEREGISTER (of_nat i) [of_nat i, of_nat j, ucast index] log block = Inr (log', ?block)"
      using p Inr y by (simp add: WRITEREGISTER_def del: poke.simps)
    have "wclean_writes jis index log' ?block =
        logrw_writes log' (map (\<lambda>(j, i). (of_nat i, [of_nat i, of_nat j, ucast index] @ drop 3 ?block)) jis)"
      using 2(2) by (intro 2(1) [OF w refl]) simp
    then show ?thesis using w Inr y by simp
  qed
qed simp

lemma logrw_writes_last:
  assumes "log_inv log" and "writes_ok log ws" and "i < unat (num_reg log)" and "last_write ws i = Some b"
  shows "\<exists>log'. logrw_writes log ws = Inr log' \<and> log_inv log' \<and> reg_block log' i = b"
proof -
  from assms(4) obtain r0 b0 ws' where ws: "ws = (r0, b0) # ws'" by (cases ws) auto
  have r0: "unat r0 < unat (num_reg log)" "length b0 = log_block_size log" "writes_ok log ws'"
    using assms(2) ws by (simp_all add: writes_ok_def)
  obtain log1 where w: "logrw_write log r0 b0 = Inr (0, log1, [RdLock, Unlock])" "appended log (unat r0) b0 log1"
    using logrw_write_ok [OF assms(1) r0(1), of b0] r0(2) by auto
  then have ap: "log_inv log1" "livre log1 \<noteq> 0" "num_reg log1 = num_reg log" "writes_ok log1 ws'"
      "unat r0 = i \<Longrightarrow> reg_block log1 i = b0"
    using r0 by (auto simp: appended_def writes_ok_def)
  from logrw_writes_primed [OF ap(1,2,4)] obtain log' where "logrw_writes log1 ws' = Inr log'" "log_inv log'"
    "reg_block log' i = (case last_write ws' i of Some b \<Rightarrow> b | None \<Rightarrow> reg_block log1 i)"
    using assms(3) ap(3) by auto
  with w(1) ws assms(4) ap(5) show ?thesis by (auto split: option.splits if_splits)
qed

lemma last_write_append:
  "last_write (ws @ ws') i = (case last_write ws' i of Some b \<Rightarrow> Some b | None \<Rightarrow> last_write ws i)"
  by (induction ws i rule: last_write.induct) (auto split: option.splits)

lemma product_snoc: "List.product (xs @ [x]) ys = List.product xs ys @ map (Pair x) ys"
  by (induction xs) simp_all

text \<open>The writing thread of \<open>test-logrw-wclean.c\<close>, alone on a log whose blocks are as big as its buffer,
  does what it is for: at the end each register holds its number, the number of the last round and the
  number of the thread.\<close>

theorem wclean_writer_leaves:
  assumes "log_inv log" and "num_reg log = NUMREGS" and "log_block_size log = length block"
    and "3 \<le> length block" and "n_cycle \<noteq> 0" and "i < 3"
  shows "\<exists>log'. wclean_BLKW n_cycle index log block = Inr log' \<and> log_inv log'
    \<and> reg_block log' i = [of_nat i, of_nat (unat n_cycle - 1), ucast index] @ drop 3 block"
proof -
  let ?blk = "\<lambda>(j, i). (of_nat i :: u32, [of_nat i, of_nat j, ucast index] @ drop 3 block)"
  obtain m where m: "unat n_cycle = Suc m" using assms(5) by (metis not0_implies_Suc unat_eq_0)
  let ?ws = "map ?blk (List.product [0..<Suc m] [0, 1, 2])"
  have regs: "[0..<unat NUMREGS] = [0, 1, 2]" by (simp add: NUMREGS_def upt_rec)
  have eq: "wclean_BLKW n_cycle index log block = logrw_writes log ?ws"
    unfolding wclean_BLKW_def regs m by (rule wclean_writes_eq [OF assms(4)])
  have ok: "writes_ok log ?ws"
    using assms(2-4) by (auto simp: writes_ok_def list_all_iff NUMREGS_def)
  have split: "?ws = map ?blk (List.product [0..<m] [0, 1, 2]) @ map ?blk (map (Pair m) [0, 1, 2])"
    by (simp only: upt_Suc_append zero_le product_snoc map_append)
  have "i = 0 \<or> i = 1 \<or> i = 2" using assms(6) by auto
  then have "last_write ?ws i = Some ([of_nat i, of_nat m, ucast index] @ drop 3 block)"
    unfolding split last_write_append by auto
  from logrw_writes_last [OF assms(1) ok _ this] show ?thesis
    using assms(2,6) by (simp add: eq m NUMREGS_def)
qed

theorem wclean_writer_leaves_witness:
  "\<exists>log log'. tests_log = Inr (Some log) \<and> wclean_BLKW 4 7 log (replicate 12 0) = Inr log'
    \<and> reg_block log' 2 = [2, 3, 7, 0, 0, 0, 0, 0, 0, 0, 0, 0]"
proof -
  obtain log where log: "tests_log = Inr (Some log)" "log_inv log" "num_reg log = NUMREGS" "log_block_size log = 12"
    using tests_log_ok by (auto simp: NUMBLK_def)
  have "\<exists>log'. wclean_BLKW 4 7 log (replicate 12 0) = Inr log' \<and> log_inv log'
    \<and> reg_block log' 2 = [of_nat 2, of_nat (unat (4 :: u32) - 1), ucast (7 :: u32)] @ drop 3 (replicate 12 0)"
    by (rule wclean_writer_leaves) (simp_all add: log)
  moreover have "[of_nat 2, of_nat (unat (4 :: u32) - 1), ucast (7 :: u32)] @ drop 3 (replicate 12 0) =
      ([2, 3, 7, 0, 0, 0, 0, 0, 0, 0, 0, 0] :: byte list)" by code_simp
  ultimately have "\<exists>log'. wclean_BLKW 4 7 log (replicate 12 0) = Inr log'
    \<and> reg_block log' 2 = [2, 3, 7, 0, 0, 0, 0, 0, 0, 0, 0, 0]" by metis
  then show ?thesis using log(1) by blast
qed

end
