(* ===== verification/Cache_Layer.thy ===== *)
theory Cache_Layer
  imports Disk_Interface
begin

text \<open>
  The block cache, \<open>src/sofs/cache.c\<close>, and the disk of the builds with \<open>USE_CACHE\<close>.

  The cache has \<open>CACHE_SIZE\<close> nodes, allocated once by \<open>cache_init\<close>; a pointer to a node is the
  number under which it was allocated. They are linked into two queues, of clean and of dirty
  nodes. The hash table that finds the node of a block comes from a library, uthash. Here it is
  the list of its elements with the key that each had when it was added; adding an element
  twice or deleting one that is not in the table is a misuse of the library.

  The cache stores the pointers that its callers pass. A pointer to a block is a number under
  which \<open>ca_bufs\<close> has the memory as long as it is valid. \<open>junk\<close> is what the memory of a
  new node holds.

  Each operation holds the lock \<open>MUTEX\<close> from its beginning to its end on every path, so the
  model leaves it out.
\<close>

section \<open>Data\<close>

definition CACHE_SIZE :: nat where
  "CACHE_SIZE = 2000"

definition DIRTY_BLOCK :: int where
  "DIRTY_BLOCK = 0"

definition CLEAN_BLOCK :: int where
  "CLEAN_BLOCK = 1"

record content =
  ct_block_no :: u32
  ct_cache_no :: nat
  ct_block :: nat
  ct_type :: int
  ct_next :: "nat option"
  ct_prev :: "nat option"

text \<open>The globals of the cache, the memory of the nodes and that of the callers.\<close>

record 'd cache =
  ca_disk :: 'd
  ca_nodes :: "nat \<Rightarrow> content option"
  ca_map :: "(u32 \<times> nat) list"
  ca_hit :: int
  ca_miss :: int
  ca_flush :: int
  dirty_head :: "nat option"
  dirty_tail :: "nat option"
  clean_head :: "nat option"
  clean_tail :: "nat option"
  ca_bufs :: "nat \<Rightarrow> byte list option"
  ca_next_buf :: nat

definition load_node :: "'d cache \<Rightarrow> nat \<Rightarrow> content c" where
  "load_node c a =
     (if a < CACHE_SIZE then (case ca_nodes c a of None \<Rightarrow> Inl WildPointer | Some x \<Rightarrow> Inr x)
      else Inl WildPointer)"

definition set_node :: "'d cache \<Rightarrow> nat \<Rightarrow> content \<Rightarrow> 'd cache" where
  "set_node c a x = c\<lparr>ca_nodes := (ca_nodes c)(a \<mapsto> x)\<rparr>"

section \<open>The queues\<close>

definition clean_blocks_empty :: "'d cache \<Rightarrow> bool" where
  "clean_blocks_empty c = (clean_head c = None)"

definition clean_blocks_put :: "'d cache \<Rightarrow> nat \<Rightarrow> 'd cache c" where
  "clean_blocks_put c s =
     c_bind (load_node c s) (\<lambda>x.
     let c1 = set_node c s (x\<lparr>ct_type := CLEAN_BLOCK\<rparr>) in
     if clean_head c = None then Inr (c1\<lparr>clean_head := Some s, clean_tail := Some s\<rparr>)
     else
       c_bind (deref (clean_tail c)) (\<lambda>t.
       c_bind (load_node c1 t) (\<lambda>y.
       Inr ((set_node c1 t (y\<lparr>ct_next := Some s\<rparr>))\<lparr>clean_tail := Some s\<rparr>))))"

definition clean_blocks_get :: "'d cache \<Rightarrow> (nat \<times> 'd cache) c" where
  "clean_blocks_get c =
     c_bind (deref (clean_head c)) (\<lambda>t.
     c_bind (load_node c t) (\<lambda>x. Inr (t, c\<lparr>clean_head := ct_next x\<rparr>)))"

definition dirty_blocks_empty :: "'d cache \<Rightarrow> bool" where
  "dirty_blocks_empty c = (dirty_head c = None)"

definition dirty_blocks_put :: "'d cache \<Rightarrow> nat \<Rightarrow> 'd cache c" where
  "dirty_blocks_put c s =
     c_bind (load_node c s) (\<lambda>x.
     let c1 = set_node c s (x\<lparr>ct_type := DIRTY_BLOCK\<rparr>) in
     if dirty_head c = None then Inr (c1\<lparr>dirty_head := Some s, dirty_tail := Some s\<rparr>)
     else
       c_bind (deref (dirty_tail c)) (\<lambda>t.
       c_bind (load_node c1 t) (\<lambda>y.
       Inr ((set_node c1 t (y\<lparr>ct_next := Some s\<rparr>))\<lparr>dirty_tail := Some s\<rparr>))))"

definition dirty_blocks_get :: "'d cache \<Rightarrow> (nat \<times> 'd cache) c" where
  "dirty_blocks_get c =
     c_bind (deref (dirty_head c)) (\<lambda>s.
     c_bind (load_node c s) (\<lambda>x. Inr (s, c\<lparr>dirty_head := ct_next x\<rparr>)))"

text \<open>The node at a pointer that may be null.\<close>

definition node_at :: "'d cache \<Rightarrow> nat option \<Rightarrow> content c" where
  "node_at c p = c_bind (deref p) (load_node c)"

definition blocks_remove :: "'d cache \<Rightarrow> nat \<Rightarrow> 'd cache c" where
  "blocks_remove c s =
     c_bind (load_node c s) (\<lambda>x.
     c_bind (node_at c (dirty_head c)) (\<lambda>dh.
     if ct_block_no x = ct_block_no dh then Inr (c\<lparr>dirty_head := ct_next dh\<rparr>)
     else
     c_bind (node_at c (clean_head c)) (\<lambda>ch.
     if ct_block_no x = ct_block_no ch then Inr (c\<lparr>clean_head := ct_next ch\<rparr>)
     else
     c_bind (node_at c (dirty_tail c)) (\<lambda>dt.
     if ct_block_no x = ct_block_no dt then Inr (c\<lparr>dirty_tail := ct_prev dt\<rparr>)
     else
     c_bind (node_at c (clean_tail c)) (\<lambda>ct.
     if ct_block_no x = ct_block_no ct then Inr (c\<lparr>clean_tail := ct_prev ct\<rparr>)
     else
     c_bind (deref (ct_prev x)) (\<lambda>prev.
     c_bind (load_node c prev) (\<lambda>y.
     let c1 = set_node c prev (y\<lparr>ct_next := ct_next x\<rparr>) in
     c_bind (deref (ct_next x)) (\<lambda>next.
     c_bind (load_node c1 next) (\<lambda>z.
     Inr (set_node c1 next (z\<lparr>ct_prev := ct_prev x\<rparr>)))))))))))"

section \<open>The hash table\<close>

definition add_block :: "'d cache \<Rightarrow> nat \<Rightarrow> 'd cache c" where
  "add_block c s =
     c_bind (load_node c s) (\<lambda>x.
     if s \<in> snd ` set (ca_map c) then Inl LibraryMisuse
     else Inr (c\<lparr>ca_map := (ct_block_no x, s) # ca_map c\<rparr>))"

definition find_cache_no :: "'d cache \<Rightarrow> u32 \<Rightarrow> nat option" where
  "find_cache_no c block_no =
     map_option snd (find (\<lambda>(k, s). k = block_no
       \<and> (case load_node c s of Inl _ \<Rightarrow> False | Inr x \<Rightarrow> ct_block_no x = block_no)) (ca_map c))"

definition delete_block :: "'d cache \<Rightarrow> nat \<Rightarrow> 'd cache c" where
  "delete_block c s =
     (if s \<in> snd ` set (ca_map c)
      then Inr (c\<lparr>ca_map := filter (\<lambda>(k, t). t \<noteq> s) (ca_map c)\<rparr>)
      else Inl LibraryMisuse)"

section \<open>Initialisation\<close>

fun init_loop :: "(nat \<Rightarrow> content) \<Rightarrow> nat list \<Rightarrow> 'd cache \<Rightarrow> 'd cache c" where
  "init_loop junk [] c = Inr c"
| "init_loop junk (i # is) c =
     c_bind (clean_blocks_put (set_node c i ((junk i)\<lparr>ct_cache_no := i, ct_type := CLEAN_BLOCK\<rparr>)) i)
       (init_loop junk is)"

text \<open>The globals at the start of the program, and \<open>cache_init\<close>.\<close>

definition cache_globals :: "'d \<Rightarrow> 'd cache" where
  "cache_globals allocator =
     \<lparr>ca_disk = allocator, ca_nodes = (\<lambda>_. None), ca_map = [], ca_hit = 0, ca_miss = 0, ca_flush = 0,
      dirty_head = None, dirty_tail = None, clean_head = None, clean_tail = None,
      ca_bufs = (\<lambda>_. None), ca_next_buf = 0\<rparr>"

definition cache_init :: "(nat \<Rightarrow> content) \<Rightarrow> 'd cache \<Rightarrow> 'd \<Rightarrow> 'd cache c" where
  "cache_init junk c allocator =
     init_loop junk [0..<CACHE_SIZE]
       (c\<lparr>clean_head := None, clean_tail := None, dirty_head := None, dirty_tail := None,
          ca_hit := 0, ca_miss := 0, ca_flush := 0, ca_disk := allocator\<rparr>)"

text \<open>The loop of \<open>cache_free\<close>; every turn frees a node.\<close>

definition free_node :: "'d cache \<Rightarrow> nat \<Rightarrow> 'd cache" where
  "free_node c s = c\<lparr>ca_nodes := (ca_nodes c)(s := None)\<rparr>"

definition live_nodes :: "'d cache \<Rightarrow> nat set" where
  "live_nodes c = {a. a < CACHE_SIZE \<and> ca_nodes c a \<noteq> None}"

lemma free_node_decreases:
  assumes "clean_blocks_get c = Inr (s, c')"
  shows "card (live_nodes (free_node c' s)) < card (live_nodes c)"
proof -
  have "s \<in> live_nodes c" and "live_nodes (free_node c' s) = live_nodes c - {s}"
    using assms
    by (auto simp: clean_blocks_get_def c_bind_eq_Inr load_node_def live_nodes_def free_node_def
        split: if_splits option.splits)
  moreover have "finite (live_nodes c)"
    by (rule finite_subset [of _ "{..<CACHE_SIZE}"]) (auto simp: live_nodes_def)
  ultimately show ?thesis by (metis card_Diff1_less)
qed

function cache_free :: "'d cache \<Rightarrow> 'd cache c" where
  "cache_free c =
     (if clean_blocks_empty c then Inr c
      else c_bind (clean_blocks_get c) (\<lambda>(s, c'). cache_free (free_node c' s)))"
  by pat_completeness auto
termination
  by (relation "measure (\<lambda>c. card (live_nodes c))") (auto intro: free_node_decreases)

declare cache_free.simps [simp del]

section \<open>Reading and writing\<close>

definition buf_at :: "'d cache \<Rightarrow> nat \<Rightarrow> byte list c" where
  "buf_at c p = (case ca_bufs c p of None \<Rightarrow> Inl WildPointer | Some b \<Rightarrow> Inr b)"

text \<open>\<open>BLOCK_READ(disk, block_no, p)\<close> and \<open>BLOCK_WRITE(disk, block_no, p)\<close>.\<close>

definition fetch :: "'d disk_ops \<Rightarrow> 'd cache \<Rightarrow> u32 \<Rightarrow> nat \<Rightarrow> 'd cache c" where
  "fetch D c block_no p =
     c_bind (buf_at c p) (\<lambda>b.
     c_bind (DISK_READ D (ca_disk c) block_no b) (\<lambda>(rc, b', d).
     Inr (c\<lparr>ca_disk := d, ca_bufs := (ca_bufs c)(p \<mapsto> b')\<rparr>)))"

definition write_back :: "'d disk_ops \<Rightarrow> 'd cache \<Rightarrow> nat \<Rightarrow> 'd cache c" where
  "write_back D c s =
     c_bind (load_node c s) (\<lambda>x.
     c_bind (buf_at c (ct_block x)) (\<lambda>b.
     c_bind (DISK_WRITE D (ca_disk c) (ct_block_no x) b) (\<lambda>(rc, d).
     c_bind (c_int (ca_flush c + 1)) (\<lambda>n.
     Inr (c\<lparr>ca_disk := d, ca_flush := n\<rparr>)))))"

definition cache_read :: "'d disk_ops \<Rightarrow> 'd cache \<Rightarrow> u32 \<Rightarrow> nat \<Rightarrow> (int \<times> 'd cache) c" where
  "cache_read D c block_no block =
     (case find_cache_no c block_no of
        None \<Rightarrow>
          c_bind
            (if clean_blocks_empty c then
               c_bind (dirty_blocks_get c) (\<lambda>(s, c1).
               c_bind (delete_block c1 s) (\<lambda>c2.
               c_bind (write_back D c2 s) (\<lambda>c3. Inr (s, c3))))
             else clean_blocks_get c)
            (\<lambda>(s, c4).
          c_bind (fetch D c4 block_no block) (\<lambda>c5.
          c_bind (load_node c5 s) (\<lambda>x.
          c_bind (add_block (set_node c5 s (x\<lparr>ct_block_no := block_no, ct_block := block,
            ct_type := CLEAN_BLOCK\<rparr>)) s) (\<lambda>c6.
          c_bind (clean_blocks_put c6 s) (\<lambda>c7.
          c_bind (c_int (ca_miss c7 + 1)) (\<lambda>n.
          Inr (0, c7\<lparr>ca_miss := n\<rparr>)))))))
      | Some s \<Rightarrow>
          c_bind (blocks_remove c s) (\<lambda>c1.
          c_bind (load_node c1 s) (\<lambda>x.
          c_bind (if ct_type x = CLEAN_BLOCK then clean_blocks_put c1 s else dirty_blocks_put c1 s) (\<lambda>c2.
          c_bind (c_int (ca_hit c2 + 1)) (\<lambda>n.
          Inr (0, c2\<lparr>ca_hit := n\<rparr>))))))"

definition cache_write :: "'d disk_ops \<Rightarrow> 'd cache \<Rightarrow> u32 \<Rightarrow> nat \<Rightarrow> (int \<times> 'd cache) c" where
  "cache_write D c block_no block =
     (case find_cache_no c block_no of
        None \<Rightarrow>
          c_bind
            (if clean_blocks_empty c then
               c_bind (dirty_blocks_get c) (\<lambda>(s, c1).
               c_bind (delete_block c1 s) (\<lambda>c2.
               c_bind (blocks_remove c2 s) (\<lambda>c3.
               c_bind (write_back D c3 s) (\<lambda>c4. Inr (s, c4)))))
             else
               c_bind (clean_blocks_get c) (\<lambda>(s, c1).
               c_bind (blocks_remove c1 s) (\<lambda>c2.
               c_bind (delete_block c2 s) (\<lambda>c3. Inr (s, c3)))))
            (\<lambda>(s, c4).
          c_bind (load_node c4 s) (\<lambda>y.
          c_bind (fetch D c4 block_no (ct_block y)) (\<lambda>c5.
          c_bind (load_node c5 s) (\<lambda>x.
          c_bind (add_block (set_node c5 s (x\<lparr>ct_block_no := block_no, ct_block := block,
            ct_type := DIRTY_BLOCK\<rparr>)) s) (\<lambda>c6.
          c_bind (dirty_blocks_put c6 s) (\<lambda>c7.
          c_bind (c_int (ca_miss c7 + 1)) (\<lambda>n.
          Inr (0, c7\<lparr>ca_miss := n\<rparr>))))))))
      | Some s \<Rightarrow>
          c_bind (blocks_remove c s) (\<lambda>c1.
          c_bind (load_node c1 s) (\<lambda>x.
          c_bind (dirty_blocks_put (set_node c1 s (x\<lparr>ct_block := block, ct_type := DIRTY_BLOCK\<rparr>)) s) (\<lambda>c2.
          c_bind (c_int (ca_hit c2 + 1)) (\<lambda>n.
          Inr (0, c2\<lparr>ca_hit := n\<rparr>))))))"

text \<open>One turn of \<open>cache_flush\<close>. The loop ends because every turn takes an element out of the hash
  table.\<close>

definition flush_one :: "'d disk_ops \<Rightarrow> 'd cache \<Rightarrow> 'd cache c" where
  "flush_one D c =
     c_bind (dirty_blocks_get c) (\<lambda>(s, c1).
     c_bind (delete_block c1 s) (\<lambda>c2.
     c_bind (blocks_remove c2 s) (\<lambda>c3.
     c_bind (write_back D c3 s) (\<lambda>c4.
     c_bind (load_node c4 s) (\<lambda>x.
     clean_blocks_put (set_node c4 s (x\<lparr>ct_type := CLEAN_BLOCK\<rparr>)) s)))))"

lemma set_node_map [simp]: "ca_map (set_node c s x) = ca_map c"
  by (simp add: set_node_def)

lemma flush_one_decreases:
  assumes "flush_one D c = Inr c'"
  shows "length (ca_map c') < length (ca_map c)"
proof -
  obtain s c1 c2 c3 c4 x where 1: "dirty_blocks_get c = Inr (s, c1)" and 2: "delete_block c1 s = Inr c2"
    and 3: "blocks_remove c2 s = Inr c3" and 4: "write_back D c3 s = Inr c4"
    and 5: "clean_blocks_put (set_node c4 s (x\<lparr>ct_type := CLEAN_BLOCK\<rparr>)) s = Inr c'"
    using assms by (auto simp: flush_one_def c_bind_eq_Inr)
  have "ca_map c1 = ca_map c" using 1 by (auto simp: dirty_blocks_get_def c_bind_eq_Inr)
  moreover have "length (ca_map c2) < length (ca_map c1)"
    using 2 by (auto simp: delete_block_def intro!: length_filter_less split: if_splits)
  moreover have "ca_map c3 = ca_map c2" using 3 by (auto simp: blocks_remove_def c_bind_eq_Inr Let_def split: if_splits)
  moreover have "ca_map c4 = ca_map c3" using 4 by (auto simp: write_back_def c_bind_eq_Inr)
  moreover have "ca_map c' = ca_map c4"
    using 5 by (auto simp: clean_blocks_put_def c_bind_eq_Inr Let_def split: if_splits)
  ultimately show ?thesis by simp
qed

function cache_flush :: "'d disk_ops \<Rightarrow> 'd cache \<Rightarrow> 'd cache c" where
  "cache_flush D c =
     (if dirty_blocks_empty c then Inr c else c_bind (flush_one D c) (cache_flush D))"
  by pat_completeness auto
termination
  by (relation "measure (\<lambda>(D, c). length (ca_map c))") (auto intro: flush_one_decreases)

declare cache_flush.simps [simp del]

text \<open>\<open>cache_dump_stats\<close>. A loop whose condition holds never ends, because its body changes only a
  counter, which is not initialised and would overflow at last.\<close>

definition dump_loop :: "'d cache \<Rightarrow> nat option \<Rightarrow> nat option \<Rightarrow> unit c" where
  "dump_loop c head tail =
     c_bind (node_at c head) (\<lambda>t.
     c_bind (node_at c tail) (\<lambda>l.
     if ct_cache_no t \<noteq> ct_cache_no l then Inl Hangs else Inr ()))"

definition cache_dump_stats :: "'d cache \<Rightarrow> unit c" where
  "cache_dump_stats c =
     c_bind (dump_loop c (clean_head c) (clean_tail c)) (\<lambda>_.
     dump_loop c (dirty_head c) (dirty_tail c))"

section \<open>The cached disk\<close>

text \<open>\<open>DISK_READ\<close> and \<open>DISK_WRITE\<close> with \<open>USE_CACHE\<close>. The caller's block is valid during the call.\<close>

definition lend :: "'d cache \<Rightarrow> byte list \<Rightarrow> nat \<times> 'd cache" where
  "lend c b = (ca_next_buf c,
     c\<lparr>ca_bufs := (ca_bufs c)(ca_next_buf c \<mapsto> b), ca_next_buf := ca_next_buf c + 1\<rparr>)"

definition give_back :: "'d cache \<Rightarrow> nat \<Rightarrow> 'd cache" where
  "give_back c p = c\<lparr>ca_bufs := (ca_bufs c)(p := None)\<rparr>"

definition cache_disk :: "'d disk_ops \<Rightarrow> 'd cache disk_ops" where
  "cache_disk D =
     \<lparr>DISK_READ = (\<lambda>c no block.
        let (p, c1) = lend c block in
        c_bind (cache_read D c1 no p) (\<lambda>(rc, c2).
        c_bind (buf_at c2 p) (\<lambda>block'. Inr (rc, block', give_back c2 p)))),
      DISK_WRITE = (\<lambda>c no block.
        let (p, c1) = lend c block in
        c_bind (cache_write D c1 no p) (\<lambda>(rc, c2). Inr (rc, give_back c2 p))),
      DISK_BLOCKS = (\<lambda>c. DISK_BLOCKS D (ca_disk c))\<rparr>"

text \<open>\<open>DISK_INIT\<close> and \<open>cache_init\<close>, as \<open>fs_new\<close> calls them.\<close>

definition cache_disk_init :: "(nat \<Rightarrow> content) \<Rightarrow> 'd option c \<Rightarrow> 'd cache option c" where
  "cache_disk_init junk disk_init =
     c_bind disk_init (\<lambda>dp. case dp of None \<Rightarrow> Inr None
       | Some d \<Rightarrow> c_bind (cache_init junk (cache_globals d) d) (\<lambda>c. Inr (Some c)))"

section \<open>Caches without dirty blocks\<close>

text \<open>The clean nodes form a ring. Its head follows its tail; the pointer from the tail is the only one
  that may not be set.\<close>

definition succ_node :: "nat \<Rightarrow> nat" where
  "succ_node i = (if Suc i = CACHE_SIZE then 0 else Suc i)"

definition ring :: "'d cache \<Rightarrow> bool" where
  "ring c = (dirty_head c = None \<and>
     (\<exists>t < CACHE_SIZE. clean_tail c = Some t \<and> clean_head c = Some (succ_node t) \<and>
        (\<forall>i < CACHE_SIZE. \<exists>x. ca_nodes c i = Some x \<and> ct_cache_no x = i \<and> (i \<noteq> t \<longrightarrow> ct_next x = Some (succ_node i)))))"

lemma succ_node_less: "i < CACHE_SIZE \<Longrightarrow> succ_node i < CACHE_SIZE"
  by (simp add: succ_node_def)

lemma succ_node_neq: "succ_node i \<noteq> i"
  by (simp add: succ_node_def CACHE_SIZE_def)

lemma init_loop_ring:
  assumes "n \<le> CACHE_SIZE" and "0 < n" and "clean_head c = Some 0" and "clean_tail c = Some (n - 1)"
    and "dirty_head c = None"
    and "\<forall>i < n. \<exists>x. ca_nodes c i = Some x \<and> ct_cache_no x = i \<and> (i \<noteq> n - 1 \<longrightarrow> ct_next x = Some (Suc i))"
  shows "\<exists>c'. init_loop junk [n..<CACHE_SIZE] c = Inr c' \<and> ring c' \<and> ca_disk c' = ca_disk c \<and> ca_map c' = ca_map c
    \<and> clean_head c' = Some 0 \<and> ca_miss c' = ca_miss c"
  using assms
proof (induction "CACHE_SIZE - n" arbitrary: n c)
  case 0
  then have "n = CACHE_SIZE" by simp
  have "\<exists>x. ca_nodes c i = Some x \<and> ct_cache_no x = i \<and> (i \<noteq> n - 1 \<longrightarrow> ct_next x = Some (succ_node i))" if "i < CACHE_SIZE" for i
    using 0(7) that \<open>n = CACHE_SIZE\<close> by (cases "i = n - 1") (fastforce simp: succ_node_def)+
  then have "ring c" using 0(3-6) \<open>n = CACHE_SIZE\<close> unfolding ring_def
    by (intro conjI exI [of _ "n - 1"]) (auto simp: succ_node_def)
  with \<open>n = CACHE_SIZE\<close> 0(4) show ?case by simp
next
  case (Suc k)
  let ?y = "(junk n)\<lparr>ct_cache_no := n, ct_type := CLEAN_BLOCK\<rparr>"
  obtain x where x: "ca_nodes c (n - 1) = Some x" "ct_cache_no x = n - 1"
    using Suc.prems(2,6) by (meson diff_less zero_less_one)
  let ?c = "c\<lparr>ca_nodes := (ca_nodes c)(n \<mapsto> ?y, n - 1 \<mapsto> x\<lparr>ct_next := Some n\<rparr>), clean_tail := Some n\<rparr>"
  have n: "n < CACHE_SIZE" using Suc(2) by simp
  have "clean_blocks_put (set_node c n ?y) n = Inr ?c"
    using Suc.prems(2-5) n x
    by (auto simp: clean_blocks_put_def set_node_def load_node_def deref_def Let_def fun_upd_twist)
  moreover have "\<exists>c'. init_loop junk [Suc n..<CACHE_SIZE] ?c = Inr c' \<and> ring c' \<and> ca_disk c' = ca_disk ?c
      \<and> ca_map c' = ca_map ?c \<and> clean_head c' = Some 0 \<and> ca_miss c' = ca_miss ?c"
  proof (rule Suc.hyps(1))
    show "\<forall>i < Suc n. \<exists>x. ca_nodes ?c i = Some x \<and> ct_cache_no x = i \<and> (i \<noteq> Suc n - 1 \<longrightarrow> ct_next x = Some (Suc i))"
    proof (intro allI impI)
      fix i assume "i < Suc n"
      then consider "i = n" | "i = n - 1" "i < n" | "i < n - 1" by linarith
      then show "\<exists>x. ca_nodes ?c i = Some x \<and> ct_cache_no x = i \<and> (i \<noteq> Suc n - 1 \<longrightarrow> ct_next x = Some (Suc i))"
      proof cases
        case 3
        then have "i < n" "i \<noteq> n - 1" by auto
        then obtain z where "ca_nodes c i = Some z" "ct_cache_no z = i" "ct_next z = Some (Suc i)" using Suc.prems(6) by blast
        then show ?thesis using 3 \<open>i < n\<close> by auto
      qed (use Suc.prems(2) x in auto)
    qed
  qed (use Suc.hyps(2) Suc.prems n in auto)
  ultimately show ?case using n by (simp add: upt_conv_Cons)
qed

lemma cache_init_ring:
  "\<exists>c'. cache_init junk c d = Inr c' \<and> ring c' \<and> ca_disk c' = d \<and> ca_map c' = ca_map c
    \<and> clean_head c' = Some 0 \<and> ca_miss c' = 0"
proof -
  let ?y = "(junk 0)\<lparr>ct_cache_no := 0, ct_type := CLEAN_BLOCK\<rparr>"
  let ?c0 = "c\<lparr>clean_head := None, clean_tail := None, dirty_head := None, dirty_tail := None,
    ca_hit := 0, ca_miss := 0, ca_flush := 0, ca_disk := d\<rparr>"
  let ?c1 = "(set_node ?c0 0 ?y)\<lparr>clean_head := Some 0, clean_tail := Some 0\<rparr>"
  have "clean_blocks_put (set_node ?c0 0 ?y) 0 = Inr ?c1"
    by (simp add: clean_blocks_put_def load_node_def set_node_def CACHE_SIZE_def)
  then have "cache_init junk c d = init_loop junk [1..<CACHE_SIZE] ?c1"
    by (simp add: cache_init_def upt_conv_Cons [of 0] CACHE_SIZE_def del: upt_Suc)
  moreover have "\<exists>c'. init_loop junk [1..<CACHE_SIZE] ?c1 = Inr c' \<and> ring c' \<and> ca_disk c' = ca_disk ?c1
      \<and> ca_map c' = ca_map ?c1 \<and> clean_head c' = Some 0 \<and> ca_miss c' = ca_miss ?c1"
    by (rule init_loop_ring) (simp_all add: CACHE_SIZE_def set_node_def)
  ultimately show ?thesis by (simp add: set_node_def)
qed

lemma ring_remove:
  assumes "ring c" and "load_node c s = Inr x"
  shows "blocks_remove c s = Inl NullDeref"
  using assms by (simp add: ring_def blocks_remove_def node_at_def deref_def)

lemma find_loads: "find_cache_no c b = Some s \<Longrightarrow> \<exists>x. load_node c s = Inr x \<and> ct_block_no x = b"
  by (cases "load_node c s") (auto simp: find_cache_no_def find_Some_iff)

lemma ring_get:
  assumes "ring c"
  obtains h c1 x where "clean_blocks_get c = Inr (h, c1)" and "load_node c1 h = Inr x" and "dirty_head c1 = None"
proof -
  obtain t where t: "t < CACHE_SIZE" "clean_head c = Some (succ_node t)" "dirty_head c = None"
    and n: "\<forall>i < CACHE_SIZE. \<exists>x. ca_nodes c i = Some x \<and> ct_cache_no x = i \<and> (i \<noteq> t \<longrightarrow> ct_next x = Some (succ_node i))"
    using assms by (auto simp: ring_def)
  obtain x where "ca_nodes c (succ_node t) = Some x" using n succ_node_less [OF t(1)] by blast
  then show ?thesis using t succ_node_less [OF t(1)]
    by (intro that [of "succ_node t" "c\<lparr>clean_head := ct_next x\<rparr>" x])
      (auto simp: clean_blocks_get_def load_node_def deref_def)
qed

lemma ring_not_empty: "ring c \<Longrightarrow> \<not> clean_blocks_empty c"
  by (auto simp: ring_def clean_blocks_empty_def)

lemma cache_write_faults:
  assumes "ring c"
  shows "cache_write D c b p = Inl NullDeref"
proof (cases "find_cache_no c b")
  case None
  obtain h c1 x where g: "clean_blocks_get c = Inr (h, c1)" "load_node c1 h = Inr x" "dirty_head c1 = None"
    using ring_get [OF assms] .
  then have "blocks_remove c1 h = Inl NullDeref" by (simp add: blocks_remove_def node_at_def deref_def)
  then show ?thesis using None g ring_not_empty [OF assms] by (simp add: cache_write_def)
next
  case (Some s)
  then show ?thesis using ring_remove [OF assms] find_loads [OF Some] by (auto simp: cache_write_def)
qed

lemma cache_read_hit_faults:
  assumes "ring c" and "find_cache_no c b \<noteq> None"
  shows "cache_read D c b p = Inl NullDeref"
proof -
  obtain s x where "find_cache_no c b = Some s" "load_node c s = Inr x"
    using assms(2) find_loads by fastforce
  then show ?thesis using ring_remove [OF assms(1)] by (simp add: cache_read_def)
qed

lemma cache_dump_hangs:
  assumes "ring c"
  shows "cache_dump_stats c = Inl Hangs"
proof -
  obtain t where t: "t < CACHE_SIZE" "clean_tail c = Some t" "clean_head c = Some (succ_node t)"
    and n: "\<forall>i < CACHE_SIZE. \<exists>x. ca_nodes c i = Some x \<and> ct_cache_no x = i"
    using assms by (auto simp: ring_def) blast
  obtain x y where "ca_nodes c t = Some x" "ct_cache_no x = t" "ca_nodes c (succ_node t) = Some y"
    "ct_cache_no y = succ_node t"
    using n t(1) succ_node_less [OF t(1)] by metis
  then show ?thesis using t succ_node_less [OF t(1)] succ_node_neq [of t]
    by (simp add: cache_dump_stats_def dump_loop_def node_at_def deref_def load_node_def)
qed

lemma cache_flush_idle: "ring c \<Longrightarrow> cache_flush D c = Inr c"
  by (subst cache_flush.simps) (simp add: ring_def dirty_blocks_empty_def)

lemma cache_read_miss:
  assumes "ring c" and "cache_read D c b p = Inr (rc, c')"
  shows "ring c'" and "rc = 0" and "find_cache_no c b = None" and "find_cache_no c' b \<noteq> None"
    and "\<exists>b0 r b'. ca_bufs c p = Some b0 \<and> DISK_READ D (ca_disk c) b b0 = Inr (r, b', ca_disk c')
      \<and> ca_bufs c' = (ca_bufs c)(p \<mapsto> b')"
proof -
  have none: "find_cache_no c b = None" using cache_read_hit_faults [OF assms(1)] assms(2) by fastforce
  obtain t where t: "t < CACHE_SIZE" "clean_tail c = Some t" "clean_head c = Some (succ_node t)" "dirty_head c = None"
    and n: "\<forall>i < CACHE_SIZE. \<exists>x. ca_nodes c i = Some x \<and> ct_cache_no x = i \<and> (i \<noteq> t \<longrightarrow> ct_next x = Some (succ_node i))"
    using assms(1) by (auto simp: ring_def)
  let ?h = "succ_node t"
  have h: "?h < CACHE_SIZE" "?h \<noteq> t" using succ_node_less [OF t(1)] succ_node_neq by auto
  obtain x where x: "ca_nodes c ?h = Some x" "ct_cache_no x = ?h" "ct_next x = Some (succ_node ?h)"
    using n h by blast
  obtain y where y: "ca_nodes c t = Some y" "ct_cache_no y = t" using n t(1) by blast
  let ?x = "x\<lparr>ct_block_no := b, ct_block := p, ct_type := CLEAN_BLOCK\<rparr>"
  let ?c1 = "c\<lparr>clean_head := Some (succ_node ?h)\<rparr>"
  have get: "clean_blocks_get c = Inr (?h, ?c1)" using t(3) x h(1)
    by (simp add: clean_blocks_get_def deref_def load_node_def)
  obtain c5 c6 c7 where f: "fetch D ?c1 b p = Inr c5"
    and a: "add_block (set_node c5 ?h ?x) ?h = Inr c6" and pt: "clean_blocks_put c6 ?h = Inr c7"
    and c': "c' = c7\<lparr>ca_miss := ca_miss c7 + 1\<rparr>" and rc: "rc = 0"
  proof -
    obtain c5 x' c6 c7 n where r: "fetch D ?c1 b p = Inr c5" "load_node c5 ?h = Inr x'"
      "add_block (set_node c5 ?h (x'\<lparr>ct_block_no := b, ct_block := p, ct_type := CLEAN_BLOCK\<rparr>)) ?h = Inr c6"
      "clean_blocks_put c6 ?h = Inr c7" "c_int (ca_miss c7 + 1) = Inr n" "c' = c7\<lparr>ca_miss := n\<rparr>" "rc = 0"
      using assms(2) none get ring_not_empty [OF assms(1)] by (auto simp: cache_read_def c_bind_eq_Inr)
    have "ca_nodes c5 = ca_nodes c" using r(1) by (auto simp: fetch_def c_bind_eq_Inr)
    then have "x' = x" using r(2) x h(1) by (simp add: load_node_def)
    then show ?thesis using that r by (auto simp: c_int_def split: if_splits)
  qed
  obtain b0 r b' d where d: "ca_bufs c p = Some b0" "DISK_READ D (ca_disk c) b b0 = Inr (r, b', d)"
    and c5: "c5 = ?c1\<lparr>ca_disk := d, ca_bufs := (ca_bufs c)(p \<mapsto> b')\<rparr>"
    using f by (auto simp: fetch_def buf_at_def c_bind_eq_Inr split: option.splits)
  have c6: "c6 = (set_node c5 ?h ?x)\<lparr>ca_map := (b, ?h) # ca_map c5\<rparr>"
    using a h(1) by (auto simp: add_block_def load_node_def set_node_def split: if_splits)
  have c7: "c7 = c6\<lparr>ca_nodes := (ca_nodes c)(?h \<mapsto> ?x, t \<mapsto> y\<lparr>ct_next := Some ?h\<rparr>), clean_tail := Some ?h\<rparr>"
    using pt t h x y
    by (auto simp: c6 c5 clean_blocks_put_def load_node_def set_node_def deref_def Let_def)
  show "rc = 0" by (rule rc)
  show "find_cache_no c b = None" by (rule none)
  have sel: "ca_nodes c' = (ca_nodes c)(?h \<mapsto> ?x, t \<mapsto> y\<lparr>ct_next := Some ?h\<rparr>)" "clean_tail c' = Some ?h"
    "clean_head c' = Some (succ_node ?h)" "dirty_head c' = None" "ca_map c' = (b, ?h) # ca_map c"
    "ca_disk c' = d" "ca_bufs c' = (ca_bufs c)(p \<mapsto> b')"
    using t(4) by (simp_all add: c' c7 c6 c5 set_node_def)
  show "\<exists>b0 r b'. ca_bufs c p = Some b0 \<and> DISK_READ D (ca_disk c) b b0 = Inr (r, b', ca_disk c')
      \<and> ca_bufs c' = (ca_bufs c)(p \<mapsto> b')"
    using d sel(6,7) by blast
  show "find_cache_no c' b \<noteq> None"
    using h by (simp add: find_cache_no_def sel load_node_def)
  have "\<exists>z. ca_nodes c' i = Some z \<and> ct_cache_no z = i \<and> (i \<noteq> ?h \<longrightarrow> ct_next z = Some (succ_node i))" if "i < CACHE_SIZE" for i
    using n that h(2) x(2) y(2) by (auto simp: sel)
  then show "ring c'" using h(1) by (auto simp: ring_def sel)
qed

text \<open>A block that is not in the cache is read into the next node, unless that node was used before or
  the counter is full.\<close>

lemma find_none: "b \<notin> fst ` set (ca_map c) \<Longrightarrow> find_cache_no c b = None"
  by (force simp: find_cache_no_def find_None_iff)

lemma cache_read_runs:
  assumes "ring c" and head: "clean_head c = Some h" and new: "b \<notin> fst ` set (ca_map c)"
    and unused: "h \<notin> snd ` set (ca_map c)" and miss: "0 \<le> ca_miss c" "ca_miss c < 2 ^ 31 - 1"
    and buf: "ca_bufs c p = Some b0" and rd: "DISK_READ D (ca_disk c) b b0 = Inr (r, b', d)"
  shows "\<exists>c'. cache_read D c b p = Inr (0, c') \<and> ring c' \<and> clean_head c' = Some (succ_node h)
    \<and> ca_map c' = (b, h) # ca_map c \<and> ca_miss c' = ca_miss c + 1 \<and> ca_disk c' = d
    \<and> ca_bufs c' = (ca_bufs c)(p \<mapsto> b') \<and> ca_next_buf c' = ca_next_buf c"
proof -
  obtain t where t: "t < CACHE_SIZE" "clean_tail c = Some t" "h = succ_node t"
    and n: "\<forall>i < CACHE_SIZE. \<exists>x. ca_nodes c i = Some x \<and> ct_cache_no x = i \<and> (i \<noteq> t \<longrightarrow> ct_next x = Some (succ_node i))"
    using assms(1) head by (auto simp: ring_def)
  have h: "h < CACHE_SIZE" "h \<noteq> t" using succ_node_less [OF t(1)] succ_node_neq t(3) by auto
  obtain x where x: "ca_nodes c h = Some x" "ct_next x = Some (succ_node h)" using n h by blast
  obtain y where y: "ca_nodes c t = Some y" using n t(1) by blast
  let ?x = "x\<lparr>ct_block_no := b, ct_block := p, ct_type := CLEAN_BLOCK\<rparr>"
  let ?c = "c\<lparr>clean_head := Some (succ_node h), ca_disk := d, ca_bufs := (ca_bufs c)(p \<mapsto> b'),
    ca_map := (b, h) # ca_map c, ca_nodes := (ca_nodes c)(h \<mapsto> ?x, t \<mapsto> y\<lparr>ct_next := Some h\<rparr>),
    clean_tail := Some h, ca_miss := ca_miss c + 1\<rparr>"
  have run: "cache_read D c b p = Inr (0, ?c)"
    using find_none [OF new] ring_not_empty [OF assms(1)] head h t(1,2) x y buf rd unused miss
    by (simp add: cache_read_def clean_blocks_get_def deref_def load_node_def fetch_def buf_at_def
        add_block_def set_node_def clean_blocks_put_def Let_def c_int_def)
  then show ?thesis using cache_read_miss(1) [OF assms(1) run] by (intro exI [of _ ?c]) simp
qed

section \<open>Programs on the cache\<close>

text \<open>A step is a read, a write, a flush, or a change of the callers' memory.\<close>

inductive cache_step :: "'d disk_ops \<Rightarrow> 'd cache \<Rightarrow> 'd cache \<Rightarrow> bool" for D where
  read: "cache_read D c b p = Inr (rc, c') \<Longrightarrow> cache_step D c c'"
| wrote: "cache_write D c b p = Inr (rc, c') \<Longrightarrow> cache_step D c c'"
| flushed: "cache_flush D c = Inr c' \<Longrightarrow> cache_step D c c'"
| memory: "cache_step D c (c\<lparr>ca_bufs := m, ca_next_buf := k\<rparr>)"

lemma ring_bufs [simp]: "ring (c\<lparr>ca_bufs := m, ca_next_buf := k\<rparr>) = ring c"
  "ring (c\<lparr>ca_bufs := m\<rparr>) = ring c"
  by (simp_all add: ring_def)

interpretation cached: transition_system
    "\<lambda>c. \<exists>junk d. cache_init junk (cache_globals d) d = Inr c" "cache_step D" ring for D
proof
  fix c :: "'a cache"
  assume "\<exists>junk d. cache_init junk (cache_globals d) d = Inr c"
  then obtain junk d where "cache_init junk (cache_globals d) d = Inr c" by blast
  with cache_init_ring [of junk "cache_globals d" d] show "ring c" by auto
next
  fix c c' :: "'a cache"
  assume "cache_step D c c'" and "ring c"
  then show "ring c'"
    by cases (auto dest: cache_read_miss(1) simp: cache_write_faults cache_flush_idle)
qed

text \<open>C40: The cache works once for each block at most. In every state that a freshly initialised cache
  reaches, by reads, writes and flushes that return, every write dereferences a null pointer, and so
  does a read of a block that is in the cache. A read that returns copies the block of the disk into
  the caller's memory, and no later read of the same block right after it returns. The reason is that
  \<open>blocks_remove\<close> looks at the first dirty node without testing that there is one. A flush does nothing,
  and \<open>cache_dump_stats\<close> never ends.\<close>

theorem cache_works_once:
  assumes "reach (\<lambda>c. \<exists>junk d. cache_init junk (cache_globals d) d = Inr c) (cache_step D) c"
  shows "cache_write D c b p = Inl NullDeref
    \<and> (find_cache_no c b \<noteq> None \<longrightarrow> cache_read D c b p = Inl NullDeref)
    \<and> (\<forall>rc c'. cache_read D c b p = Inr (rc, c') \<longrightarrow> rc = 0
        \<and> (\<exists>b0 r b'. ca_bufs c p = Some b0 \<and> DISK_READ D (ca_disk c) b b0 = Inr (r, b', ca_disk c')
            \<and> ca_bufs c' = (ca_bufs c)(p \<mapsto> b'))
        \<and> (\<forall>q. cache_read D c' b q = Inl NullDeref))
    \<and> cache_flush D c = Inr c \<and> cache_dump_stats c = Inl Hangs"
proof -
  have r: "ring c" by (rule cached.reach_inv [OF assms])
  have "rc = 0 \<and> (\<exists>b0 r b'. ca_bufs c p = Some b0 \<and> DISK_READ D (ca_disk c) b b0 = Inr (r, b', ca_disk c')
            \<and> ca_bufs c' = (ca_bufs c)(p \<mapsto> b')) \<and> (\<forall>q. cache_read D c' b q = Inl NullDeref)"
    if run: "cache_read D c b p = Inr (rc, c')" for rc c'
    using cache_read_miss [OF r run] cache_read_hit_faults [of c' b] by blast
  then show ?thesis
    using cache_write_faults [OF r] cache_read_hit_faults [OF r] cache_flush_idle [OF r] cache_dump_hangs [OF r]
    by blast
qed

definition junk_node :: content where
  "junk_node = \<lparr>ct_block_no = 0, ct_cache_no = 0, ct_block = 0, ct_type = 0, ct_next = None, ct_prev = None\<rparr>"

definition one_block :: blocks_t where
  "one_block = \<lparr>bks_block_size = 4, bks_num_blocks = 1, bks_blocks = [0, 0, 0, 0]\<rparr>"

theorem cache_works_once_witness:
  "\<exists>c. cache_init (\<lambda>_. junk_node) (cache_globals one_block) one_block = Inr c
    \<and> cache_write block_disk c 0 0 = Inl NullDeref"
proof -
  obtain c where c: "cache_init (\<lambda>_. junk_node) (cache_globals one_block) one_block = Inr c"
    using cache_init_ring [of "\<lambda>_. junk_node" "cache_globals one_block" one_block] by blast
  have "reach (\<lambda>c. \<exists>junk d. cache_init junk (cache_globals d) d = Inr c) (cache_step block_disk) c"
    by (rule reach_init) (rule exI, rule exI, rule c)
  then have "cache_write block_disk c 0 0 = Inl NullDeref" by (rule cache_works_once [THEN conjunct1])
  with c show ?thesis by blast
qed

end
