(* ===== verification/Cache_Boot.thy ===== *)
theory Cache_Boot
  imports Sofs_Fuse Cache_Layer
begin

text \<open>
  The file system of \<open>fs.c\<close> on the cached disk, as in the builds with \<open>USE_CACHE\<close>: the file system
  reads its metadata through the cache and then cannot write them.
\<close>

section \<open>Reads and writes through the cache\<close>

lemma cache_disk_read:
  assumes "ring c" and "DISK_READ (cache_disk D) c n buf = Inr (rc, buf', c')"
  shows "ring c'"
  using assms(2) cache_read_miss(1) [of "snd (lend c buf)"] assms(1)
  by (auto simp: cache_disk_def lend_def give_back_def c_bind_eq_Inr)

lemma cache_disk_write:
  assumes "ring c"
  shows "DISK_WRITE (cache_disk D) c n buf = Inl NullDeref"
  using cache_write_faults [of "snd (lend c buf)"] assms by (simp add: cache_disk_def lend_def)

text \<open>A cache that holds the blocks below \<open>k\<close>, each in the node of its number.\<close>

definition filled :: "nat \<Rightarrow> 'd cache \<Rightarrow> bool" where
  "filled k c = (ring c \<and> clean_head c = Some k \<and> ca_miss c = int k
     \<and> ca_map c = rev (map (\<lambda>i. (of_nat i, i)) [0..<k]))"

lemma cache_init_filled:
  "\<exists>c. cache_init junk (cache_globals d) d = Inr c \<and> filled 0 c \<and> ca_disk c = d"
  using cache_init_ring [of junk "cache_globals d" d] by (auto simp: filled_def cache_globals_def)

lemma succ_small: "k < 10 \<Longrightarrow> succ_node k = Suc k"
  by (simp add: succ_node_def CACHE_SIZE_def)

lemma cached_read_next:
  assumes "filled k c" and k: "k < 10" and rd: "DISK_READ D (ca_disk c) (of_nat k) buf = Inr (rc, buf', d)"
  shows "\<exists>c'. DISK_READ (cache_disk D) c (of_nat k) buf = Inr (0, buf', c') \<and> filled (Suc k) c' \<and> ca_disk c' = d"
proof -
  let ?l = "snd (lend c buf)" and ?p = "fst (lend c buf)"
  note f = assms(1) [unfolded filled_def]
  have l: "ring ?l" "clean_head ?l = Some k" "ca_miss ?l = int k" "ca_disk ?l = ca_disk c"
    "ca_map ?l = rev (map (\<lambda>i. (of_nat i, i)) [0..<k])" "ca_bufs ?l ?p = Some buf"
    using f by (simp_all add: lend_def)
  have "(of_nat k :: u32) \<noteq> of_nat i" if "i < k" for i
    proof -
    have "unat (of_nat k :: u32) = k" "unat (of_nat i :: u32) = i"
      using that k by (simp_all add: unat_of_nat_u32)
    with that show ?thesis by (metis less_irrefl)
  qed
  then have new: "of_nat k \<notin> fst ` set (ca_map ?l)" "k \<notin> snd ` set (ca_map ?l)" unfolding l(5) by fastforce+
  obtain c' where "cache_read D ?l (of_nat k) ?p = Inr (0, c')" "ring c'" "clean_head c' = Some (Suc k)"
    "ca_map c' = (of_nat k, k) # ca_map ?l" "ca_miss c' = int (Suc k)" "ca_disk c' = d"
    "ca_bufs c' = (ca_bufs ?l)(?p \<mapsto> buf')"
    using cache_read_runs [OF l(1,2) new _ _ l(6), of D rc buf' d] l k rd succ_small [OF k] by auto
  then show ?thesis
    by (intro exI [of _ "give_back c' ?p"])
      (simp add: cache_disk_def lend_def buf_at_def give_back_def filled_def f)
qed

section \<open>Mounting\<close>

context disk
begin

lemma cached_read:
  assumes "filled k c" and "k < 10" and "dv_ok V (ca_disk c)" and "10 \<le> dv_cap V (ca_disk c)"
    and "length buf = 512"
  shows "\<exists>c'. DISK_READ (cache_disk D) c (of_nat k) buf = Inr (0, dv_block V (ca_disk c) k, c')
    \<and> filled (Suc k) c' \<and> ca_disk c' = ca_disk c"
proof -
  have k: "unat (of_nat k :: u32) = k" using assms(2) by (intro unat_of_nat_u32) simp
  have "DISK_READ D (ca_disk c) (of_nat k) buf = Inr (0, dv_block V (ca_disk c) k, ca_disk c)"
    using disk_read [of "ca_disk c" "of_nat k" buf] assms(2-5) unfolding k by (simp add: BLOCK_SIZE_def)
  from cached_read_next [OF assms(1,2) this] show ?thesis by simp
qed

lemma cached_load_itab:
  assumes "i \<le> 8" and "filled (i + 2) c" and "dv_ok V (ca_disk c)" and "10 \<le> dv_cap V (ca_disk c)"
    and "length tab = 4096"
  shows "\<exists>tab' c'. load_itab (cache_disk D) [i..<8] c tab = Inr (tab', c') \<and> filled 10 c'"
  using assms
proof (induction "8 - i" arbitrary: i c tab)
  case 0
  then show ?case by simp
next
  case (Suc n)
  then have i: "i < 8" by simp
  let ?old = "take 512 (drop (i * 512) tab)" and ?blk = "dv_block V (ca_disk c) (i + 2)"
  have len: "length ?blk = 512"
    using disk_block_length [of "ca_disk c" "i + 2"] Suc.prems(3,4) i by (simp add: BLOCK_SIZE_def)
  obtain c1 where c1: "DISK_READ (cache_disk D) c (of_nat (i + 2)) ?old = Inr (0, ?blk, c1)"
    "filled (Suc i + 2) c1" "ca_disk c1 = ca_disk c"
    using cached_read [of "i + 2" c ?old] Suc.prems i by auto
  obtain tab1 where w: "mem_write tab (i * 512) ?blk = Inr tab1"
    using len i Suc.prems(5) by (simp add: mem_write_def)
  have "\<exists>tab' c'. load_itab (cache_disk D) [Suc i..<8] c1 tab1 = Inr (tab', c') \<and> filled 10 c'"
    by (rule Suc.hyps(1)) (use Suc.hyps(2) Suc.prems i c1 length_mem_write [OF w] in auto)
  then obtain tab' c' where "load_itab (cache_disk D) [Suc i..<8] c1 tab1 = Inr (tab', c')" "filled 10 c'"
    by blast
  then show ?case using c1(1) w i Suc.prems(5)
    by (simp add: upt_conv_Cons [OF i] mem_read_ok BLOCK_SIZE_def)
qed

lemma cached_fs_new:
  assumes d: "dv_ok V d" "10 \<le> dv_cap V d" and mem: "mem_ok mem"
  shows "\<exists>fs. fs_new (cache_disk D) (cache_disk_init junk (Inr (Some d))) mem n = Inr fs
    \<and> filled 10 (fs_blocks fs) \<and> length (blk_bmap fs) = 512 \<and> length (inode_bmap fs) = 512
    \<and> length (inode_tab fs) = ITAB_SIZE"
proof -
  obtain c where c: "cache_init junk (cache_globals d) d = Inr c" "filled 0 c" "ca_disk c = d"
    using cache_init_filled [of junk d] by blast
  have len: "length (dv_block V d k) = 512" if "k < 10" for k
    using disk_block_length [of d k] d that by (simp add: BLOCK_SIZE_def)
  obtain c1 where c1: "DISK_READ (cache_disk D) c 0 (blk_bmap mem) = Inr (0, dv_block V d 0, c1)"
    "filled 1 c1" "ca_disk c1 = d"
    using cached_read [of 0 c "blk_bmap mem"] c d mem by (auto simp: mem_ok_def BLOCK_SIZE_def)
  obtain c2 where c2: "DISK_READ (cache_disk D) c1 1 (inode_bmap mem) = Inr (0, dv_block V d 1, c2)"
    "filled (0 + 2) c2" "ca_disk c2 = d"
    using cached_read [of 1 c1 "inode_bmap mem"] c1 d mem
    by (auto simp: mem_ok_def BLOCK_SIZE_def numeral_2_eq_2)
  have "length (itab_bytes (inode_tab mem)) = 4096"
    using length_itab_bytes [of "inode_tab mem"] mem by (simp add: mem_ok_def ITAB_SIZE_def BLOCK_SIZE_def ITAB_NUM_BLKS_def)
  then obtain tab c3 where c3: "load_itab (cache_disk D) [0..<8] c2 (itab_bytes (inode_tab mem)) = Inr (tab, c3)"
    "filled 10 c3"
    using cached_load_itab [of 0 c2 "itab_bytes (inode_tab mem)"] c2 d by auto
  let ?fs = "mem\<lparr>fs_blocks := c3, inode_bmap := dv_block V d 1, blk_bmap := dv_block V d 0,
    inode_tab := of_itab_bytes tab\<rparr>"
  have init: "cache_disk_init junk (Inr (Some d)) = Inr (Some c)" by (simp add: cache_disk_init_def c(1))
  have load: "fsi_load_fsdata (cache_disk D) (mem\<lparr>fs_blocks := c\<rparr>) = Inr ?fs"
    unfolding fsi_load_fsdata_def ITAB_NUM_BLKS_def using c1(1) c2(1) c3(1)
    by (simp del: upt_rec_numeral)
  have "fs_new (cache_disk D) (cache_disk_init junk (Inr (Some d))) mem n = Inr ?fs"
    unfolding fs_new_def init using load by (simp add: deref_def)
  moreover have "length (of_itab_bytes tab) = ITAB_SIZE" by (simp add: of_itab_bytes_def)
  ultimately show ?thesis using c3(2) len by (intro exI [of _ ?fs]) simp
qed

lemma cached_mount_faults:
  assumes "dv_ok V d" "10 \<le> dv_cap V d" and "mem_ok mem"
  shows "sofs_init (cache_disk D) (cache_disk_init junk (Inr (Some d))) mem on = Inl NullDeref"
proof -
  obtain fs where fs: "fs_new (cache_disk D) (cache_disk_init junk (Inr (Some d))) mem NUM_BLOCKS = Inr fs"
    and c: "filled 10 (fs_blocks fs)" and len: "length (blk_bmap fs) = 512" "length (inode_bmap fs) = 512"
    "length (inode_tab fs) = ITAB_SIZE"
    using cached_fs_new [OF assms] by blast
  let ?meta = "[0, 1] @ map (\<lambda>i. i + 2) [0..<ITAB_NUM_BLKS]"
  have "\<forall>n \<in> set ?meta. n < 8 * length (blk_bmap fs)" by (auto simp: len ITAB_NUM_BLKS_def)
  then obtain bb where bb: "bmap_set_all (blk_bmap fs) ?meta = Inr bb" using bmap_set_all_ok by blast
  obtain ib where ib: "bmap_set_all (inode_bmap fs) [0, 1] = Inr ib"
    using bmap_set_all_ok [of "[0, 1]" "inode_bmap fs"] len by auto
  have "ring (fs_blocks fs)" using c by (simp add: filled_def)
  then have "DISK_WRITE (cache_disk D) (fs_blocks fs) 0 bb = Inl NullDeref" by (rule cache_disk_write)
  then have "fs_format (cache_disk D) (Some fs) = Inl NullDeref"
    using bb ib len by (simp add: fs_format_def fsi_store_fsdata_def c_nth_ok ITAB_SIZE_def)
  then show ?thesis by (simp add: sofs_init_def fs)
qed

end

text \<open>C39: The build with \<open>USE_CACHE\<close> cannot mount the file system. Whatever the new memory of the
  file system and of the nodes holds, \<open>sofs_init\<close> reads the metadata of the new disk through the cache
  and then dereferences a null pointer when it writes them, in \<open>blocks_remove\<close>.\<close>

theorem cached_build_never_mounts:
  assumes "mem_ok mem"
  shows "sofs_init (cache_disk block_disk) (cache_disk_init junk block_disk_init) mem delay_on = Inl NullDeref"
proof -
  obtain d where d: "block_disk_init = Inr (Some d)" "blocks_wf d" "bks_num_blocks d = NUM_BLOCKS"
    "bks_block_size d = of_nat BLOCK_SIZE"
    using block_new_wf [of NUM_BLOCKS "of_nat BLOCK_SIZE"]
    by (auto simp: block_disk_init_def NUM_BLOCKS_def BLOCK_SIZE_def)
  then have "dv_ok block_view d" "10 \<le> dv_cap block_view d"
    by (simp_all add: block_view_def NUM_BLOCKS_def BLOCK_SIZE_def)
  from bd.cached_mount_faults [OF this assms] show ?thesis by (simp add: d(1))
qed

definition junk_mem :: "'d \<Rightarrow> 'd fs_t" where
  "junk_mem d = \<lparr>fs_blocks = d, inode_bmap = replicate 512 7, blk_bmap = replicate 512 7,
     inode_tab = replicate 64 \<lparr>itype = 0, isize = 0, iblocks = replicate 10 0, ireserved = replicate 4 0\<rparr>\<rparr>"

theorem cached_build_never_mounts_witness:
  "sofs_init (cache_disk block_disk) (cache_disk_init (\<lambda>_. junk_node) block_disk_init)
     (junk_mem (cache_globals one_block)) id = Inl NullDeref"
  by (rule cached_build_never_mounts)
    (simp add: junk_mem_def mem_ok_def BLOCK_SIZE_def ITAB_SIZE_def inode_wf_def INODE_NUM_BLKS_def
      list_all_length)

end
