(* ===== verification/Sthread_Monitors.thy ===== *)
theory Sthread_Monitors
  imports Threads_Correct
begin

text \<open>
  Monitors of \<open>src/sthread_lib/sthread_user.c\<close> against an abstract monitor: the owner, the threads
  that wait to enter, and the threads that wait for a signal. A signal does not hand the monitor
  over; the signalled thread waits to enter behind those that already do, and gets the monitor
  when the ones before it have left.
\<close>

section \<open>The abstract monitor\<close>

record monitor =
  mn_owner :: "thread_ptr option"
  mn_entry :: "thread_ptr list"
  mn_cond :: "thread_ptr list"

definition first :: "'a list \<Rightarrow> 'a option" where
  "first xs = (case xs of [] \<Rightarrow> None | x # _ \<Rightarrow> Some x)"

text \<open>Leaving gives the monitor to the first thread that waits to enter.\<close>

definition mn_leave :: "monitor \<Rightarrow> monitor" where
  "mn_leave m = m\<lparr>mn_owner := first (mn_entry m), mn_entry := drop 1 (mn_entry m)\<rparr>"

definition mn_wait :: "thread_ptr \<Rightarrow> monitor \<Rightarrow> monitor" where
  "mn_wait t m = mn_leave (m\<lparr>mn_cond := mn_cond m @ [t]\<rparr>)"

definition mn_signal :: "monitor \<Rightarrow> monitor" where
  "mn_signal m = m\<lparr>mn_entry := mn_entry m @ take 1 (mn_cond m), mn_cond := drop 1 (mn_cond m)\<rparr>"

definition mn_signalall :: "monitor \<Rightarrow> monitor" where
  "mn_signalall m = m\<lparr>mn_entry := mn_entry m @ mn_cond m, mn_cond := []\<rparr>"

definition monitor_state :: "sched \<Rightarrow> nat \<Rightarrow> monitor option" where
  "monitor_state s i =
     (case get_obj (mons s) i of Inl _ \<Rightarrow> None | Inr mon \<Rightarrow>
       (case get_obj (mutexes s) (mon_mutex mon) of Inl _ \<Rightarrow> None | Inr m \<Rightarrow>
          Some \<lparr>mn_owner = m_thr m, mn_entry = m_queue m, mn_cond = mon_queue mon\<rparr>))"

lemma get_obj_eq_Inr: "(get_obj xs i = Inr x) = (i < length xs \<and> xs ! i = Some x)"
  by (auto simp: get_obj_def split: option.splits)

lemma monitor_state_Some:
  "monitor_state s i = Some a \<longleftrightarrow> (\<exists>mon m. i < length (mons s) \<and> mons s ! i = Some mon
     \<and> mon_mutex mon < length (mutexes s) \<and> mutexes s ! mon_mutex mon = Some m
     \<and> a = \<lparr>mn_owner = m_thr m, mn_entry = m_queue m, mn_cond = mon_queue mon\<rparr>)"
  by (auto simp: monitor_state_def get_obj_def split: option.splits)

lemma monitor_state_same: "same_objs s s' \<Longrightarrow> monitor_state s' i = monitor_state s i"
  by (simp add: monitor_state_def same_objs_def split: sum.split)

section \<open>The operations\<close>

lemma unlock_monitor:
  assumes ok: "objs_ok s" and st: "monitor_state s i = Some a" and own: "mn_owner a = Some (active_thr s)"
    and mon: "mons s ! i = Some mon" and run: "sthread_user_mutex_unlock s (mon_mutex mon) = Inr s'"
  shows "monitor_state s' i = Some (mn_leave a)" and "exe_thr_list s' = exe_thr_list s @ take 1 (mn_entry a)"
    and "active_thr s' = active_thr s" and "stack s' = stack s"
proof -
  obtain m where m: "i < length (mons s)" "mon_mutex mon < length (mutexes s)"
    "mutexes s ! mon_mutex mon = Some m"
    and a: "a = \<lparr>mn_owner = m_thr m, mn_entry = m_queue m, mn_cond = mon_queue mon\<rparr>"
    using st mon by (auto simp: monitor_state_Some)
  have l: "m_l m = 0" using objs_okD(1) [OF ok m(2,3)] .
  have "monitor_state s' i = Some (mn_leave a) \<and> exe_thr_list s' = exe_thr_list s @ take 1 (mn_entry a)
    \<and> active_thr s' = active_thr s \<and> stack s' = stack s"
  proof (cases "m_queue m")
    case Nil
    then have "s' = put_mutex s (mon_mutex mon) (m\<lparr>m_thr := None, m_l := 0\<rparr>)"
      using run m l own a
      by (auto simp: sthread_user_mutex_unlock_def c_bind_eq_Inr sched_runs atomic_clear_def)
    then show ?thesis using m mon Nil
      by (auto simp: a monitor_state_Some put_mutex_def mn_leave_def first_def)
  next
    case (Cons t ts)
    let ?p = "put_mutex s (mon_mutex mon) (m\<lparr>m_thr := Some t, m_queue := ts, m_l := 0\<rparr>)"
    obtain x where "s' = (put_thr ?p t (x\<lparr>state := 0\<rparr>))\<lparr>exe_thr_list := exe_thr_list ?p @ [t]\<rparr>"
      using run m l own a Cons
      by (auto simp: sthread_user_mutex_unlock_def c_bind_eq_Inr sched_runs atomic_clear_def)
    then show ?thesis using m mon Cons
      by (auto simp: a monitor_state_Some put_mutex_def put_thr_def mn_leave_def first_def)
  qed
  then show "monitor_state s' i = Some (mn_leave a)" "exe_thr_list s' = exe_thr_list s @ take 1 (mn_entry a)"
    "active_thr s' = active_thr s" "stack s' = stack s" by auto
qed

lemma signals_refine:
  assumes ok: "objs_ok s" and st: "monitor_state s i = Some a" and own: "mn_owner a = Some (active_thr s)"
  shows "\<exists>s'. sthread_user_monitor_signal s i = Inr s' \<and> monitor_state s' i = Some (mn_signal a)
      \<and> exe_thr_list s' = exe_thr_list s \<and> active_thr s' = active_thr s"
    and "\<exists>s'. sthread_user_monitor_signalall s i = Inr s' \<and> monitor_state s' i = Some (mn_signalall a)
      \<and> exe_thr_list s' = exe_thr_list s \<and> active_thr s' = active_thr s"
proof -
  obtain mon m where m: "i < length (mons s)" "mons s ! i = Some mon" "mon_mutex mon < length (mutexes s)"
    "mutexes s ! mon_mutex mon = Some m"
    and a: "a = \<lparr>mn_owner = m_thr m, mn_entry = m_queue m, mn_cond = mon_queue mon\<rparr>"
    using st by (auto simp: monitor_state_Some)
  have l: "m_l m = 0" using objs_okD(1) [OF ok m(3,4)] .
  have g: "get_obj (mons s) i = Inr mon" "get_obj (mutexes s) (mon_mutex mon) = Inr m"
    using m by (simp_all add: get_obj_def)
  have all: "signal_loop ts q = q @ ts" for ts q :: "thread_ptr list" by (induction ts arbitrary: q) auto
  show "\<exists>s'. sthread_user_monitor_signal s i = Inr s' \<and> monitor_state s' i = Some (mn_signal a)
      \<and> exe_thr_list s' = exe_thr_list s \<and> active_thr s' = active_thr s"
    using m g l own
    by (cases "mon_queue mon")
      (auto simp: sthread_user_monitor_signal_def atomic_clear_def a monitor_state_Some put_mutex_def
        put_mon_def mn_signal_def)
  show "\<exists>s'. sthread_user_monitor_signalall s i = Inr s' \<and> monitor_state s' i = Some (mn_signalall a)
      \<and> exe_thr_list s' = exe_thr_list s \<and> active_thr s' = active_thr s"
    using m g l own
    by (auto simp: sthread_user_monitor_signalall_def atomic_clear_def a monitor_state_Some put_mutex_def
        put_mon_def mn_signalall_def all)
qed

lemma wait_refines:
  assumes ok: "objs_ok s" and st: "monitor_state s i = Some a" and own: "mn_owner a = Some (active_thr s)"
    and run: "sthread_user_monitor_wait s i = Inr s'"
  shows "monitor_state s' i = Some (mn_wait (active_thr s) a)"
    and "active_thr s' # exe_thr_list s' = exe_thr_list s @ take 1 (mn_entry a)"
proof -
  obtain mon m where m: "i < length (mons s)" "mons s ! i = Some mon" "mon_mutex mon < length (mutexes s)"
    "mutexes s ! mon_mutex mon = Some m"
    and a: "a = \<lparr>mn_owner = m_thr m, mn_entry = m_queue m, mn_cond = mon_queue mon\<rparr>"
    using st by (auto simp: monitor_state_Some)
  let ?mon = "mon\<lparr>mon_queue := mon_queue mon @ [active_thr s]\<rparr>"
  let ?s = "put_mon s i ?mon" and ?a = "a\<lparr>mn_cond := mn_cond a @ [active_thr s]\<rparr>"
  have g: "get_obj (mons s) i = Inr mon" "get_obj (mutexes s) (mon_mutex mon) = Inr m"
    using m by (simp_all add: get_obj_def)
  obtain s1 s2 where 1: "sthread_user_mutex_unlock ?s (mon_mutex mon) = Inr s1"
    and 2: "next_active (s1\<lparr>spl := HIGH\<rparr>) = Inr s2"
    and 3: "sthread_switch (push_frame Splx_low s2) (active_thr s) (active_thr s2) = Inr s'"
    using run own a by (auto simp: sthread_user_monitor_wait_def g c_bind_eq_Inr split: if_splits)
  have st': "monitor_state ?s i = Some ?a" using m by (auto simp: a monitor_state_Some put_mon_def)
  have own': "mn_owner ?a = Some (active_thr ?s)" using own by (simp add: put_mon_def)
  have mon': "mons ?s ! i = Some ?mon" using m(1) by (simp add: put_mon_def)
  note un = unlock_monitor [OF put_ok(4) [OF ok] st' own' mon', of s1]
  have s1: "monitor_state s1 i = Some (mn_leave ?a)" "exe_thr_list s1 = exe_thr_list s @ take 1 (mn_entry a)"
    using un 1 by (simp_all add: put_mon_def)
  have "same_objs s1 s'" using next_active_objs [OF 2] sthread_switch_objs [OF 3]
    by (simp add: same_objs_def push_frame_def)
  then show "monitor_state s' i = Some (mn_wait (active_thr s) a)"
    using s1(1) monitor_state_same by (simp add: mn_wait_def)
  show "active_thr s' # exe_thr_list s' = exe_thr_list s @ take 1 (mn_entry a)"
    using s1(2) 2 3 by (auto simp: next_active_runs sthread_switch_runs push_frame_def split: if_splits)
qed

section \<open>The property\<close>

text \<open>C32: The monitors refine the abstract monitor, in every state of every program. A thread in the
  monitor that waits goes behind the threads that wait for a signal and leaves the monitor; the next
  executable thread goes on. A signal moves the thread that has waited longest, \<open>signalall\<close> moves all
  of them in their order, behind the threads that wait to enter. A thread that leaves gives the
  monitor to the first of these and makes it executable. Signals never fail.\<close>

theorem monitors_refine:
  assumes "reach started (sthread_step C) s" and "monitor_state s i = Some a"
    and "mn_owner a = Some (active_thr s)"
  shows "(\<exists>s'. sthread_user_monitor_signal s i = Inr s' \<and> monitor_state s' i = Some (mn_signal a)
        \<and> exe_thr_list s' = exe_thr_list s \<and> active_thr s' = active_thr s)
    \<and> (\<exists>s'. sthread_user_monitor_signalall s i = Inr s' \<and> monitor_state s' i = Some (mn_signalall a)
        \<and> exe_thr_list s' = exe_thr_list s \<and> active_thr s' = active_thr s)
    \<and> (\<forall>s'. sthread_user_monitor_wait s i = Inr s' \<longrightarrow> monitor_state s' i = Some (mn_wait (active_thr s) a)
        \<and> active_thr s' # exe_thr_list s' = exe_thr_list s @ take 1 (mn_entry a))
    \<and> (\<forall>s'. sthread_user_monitor_exit s i = Inr s' \<longrightarrow> monitor_state s' i = Some (mn_leave a)
        \<and> exe_thr_list s' = exe_thr_list s @ take 1 (mn_entry a) \<and> active_thr s' = active_thr s)"
proof (intro conjI allI impI)
  note ok = any_objs [OF assms(1)]
  show "\<exists>s'. sthread_user_monitor_signal s i = Inr s' \<and> monitor_state s' i = Some (mn_signal a)
        \<and> exe_thr_list s' = exe_thr_list s \<and> active_thr s' = active_thr s"
    by (rule signals_refine(1) [OF ok assms(2,3)])
  show "\<exists>s'. sthread_user_monitor_signalall s i = Inr s' \<and> monitor_state s' i = Some (mn_signalall a)
        \<and> exe_thr_list s' = exe_thr_list s \<and> active_thr s' = active_thr s"
    by (rule signals_refine(2) [OF ok assms(2,3)])
  fix s' assume "sthread_user_monitor_wait s i = Inr s'"
  from wait_refines [OF ok assms(2,3) this]
  show "monitor_state s' i = Some (mn_wait (active_thr s) a)"
    "active_thr s' # exe_thr_list s' = exe_thr_list s @ take 1 (mn_entry a)" by auto
next
  note ok = any_objs [OF assms(1)]
  obtain mon where mon: "get_obj (mons s) i = Inr mon" "mons s ! i = Some mon"
    using assms(2) by (auto simp: monitor_state_Some get_obj_def)
  fix s' assume "sthread_user_monitor_exit s i = Inr s'"
  then have "sthread_user_mutex_unlock s (mon_mutex mon) = Inr s'"
    by (simp add: sthread_user_monitor_exit_def mon(1))
  from unlock_monitor [OF ok assms(2,3) mon(2) this]
  show "monitor_state s' i = Some (mn_leave a)" "exe_thr_list s' = exe_thr_list s @ take 1 (mn_entry a)"
    "active_thr s' = active_thr s" by auto
qed

text \<open>The first thread waits in the monitor, the second one enters and signals.\<close>

definition demo_monitor :: "action list" where
  "demo_monitor = [spawn, Do Monitor_init, Do (Monitor_enter 0), Do (Monitor_wait 0), Go, Do (Monitor_enter 0)]"

theorem monitors_refine_witness:
  "\<exists>s s'. perform_all demo_monitor main_thread = Some s \<and> active_thr s = 2
     \<and> sthread_user_monitor_signal s 0 = Inr s'
     \<and> monitor_state s' 0 = Some \<lparr>mn_owner = Some 2, mn_entry = [1], mn_cond = []\<rparr>"
proof -
  let ?a = "\<lparr>mn_owner = Some 2, mn_entry = [], mn_cond = [1]\<rparr>"
  have "map_option (\<lambda>s. (active_thr s, monitor_state s 0)) (perform_all demo_monitor main_thread) = Some (2, Some ?a)"
    by code_simp
  then obtain s where s: "perform_all demo_monitor main_thread = Some s" "active_thr s = 2"
    "monitor_state s 0 = Some ?a" by auto
  have "list_all (allowed (\<lambda>_. True)) demo_monitor" by (simp add: demo_monitor_def)
  then have r: "reach started (sthread_step (Collect (\<lambda>_. True))) s" using demo_reach s(1) by blast
  have "mn_owner ?a = Some (active_thr s)" using s(2) by simp
  from monitors_refine [OF r s(3) this] obtain s' where
    "sthread_user_monitor_signal s 0 = Inr s'" "monitor_state s' 0 = Some (mn_signal ?a)" by blast
  with s(1,2) show ?thesis by (simp add: mn_signal_def)
qed

end
