(* ===== verification/Sthread_Pthread.thy ===== *)
theory Sthread_Pthread
  imports Sthread_Objects
begin

text \<open>
  The other back end of the thread library, \<open>src/sthread_lib/sthread_pthread.c\<close>, which the builds of
  the Makefile choose (\<open>USE_PTHREADS\<close>): each operation calls the library of POSIX threads on an
  object inside a structure that \<open>malloc\<close> returned.

  The library is a parameter, a record with one function for each call that the source makes. Such
  a function takes the state of the library, of type \<open>'w\<close>, and returns the value of the call
  and the new state; that a call blocks is not visible to its caller. The address of an object is
  that of the structure it is in. The call of \<open>pthread_exit\<close> does not return, so its result is
  only a state.

  The structures that exist are in \<open>pt_kinds\<close>, by address. The program does not keep them; the model does, so that
  a call on a pointer that does not point to a structure of the right kind is an access to other memory. The names of the operations are those of
  \<open>src/sthread_lib/sthread.c\<close>; \<open>do_call\<close> of \<open>Sthread_Sync\<close> runs the same calls on the other
  back end. The messages that are printed are not modelled.
\<close>

section \<open>Data\<close>

datatype pt_kind = Pt_thread | Pt_mutex | Pt_sem | Pt_rwlock | Pt_mon

record 'w posix =
  pthread_create :: "'w \<Rightarrow> nat \<Rightarrow> void_ptr \<Rightarrow> void_ptr \<Rightarrow> int \<times> 'w"
  pthread_exit :: "'w \<Rightarrow> void_ptr \<Rightarrow> 'w"
  sched_yield :: "'w \<Rightarrow> int \<times> 'w"
  nanosleep :: "'w \<Rightarrow> int \<Rightarrow> int \<Rightarrow> int \<times> 'w"
  pthread_join :: "'w \<Rightarrow> nat \<Rightarrow> nat option \<Rightarrow> int \<times> 'w"
  pthread_mutex_init :: "'w \<Rightarrow> nat \<Rightarrow> int \<times> 'w"
  pthread_mutex_destroy :: "'w \<Rightarrow> nat \<Rightarrow> int \<times> 'w"
  pthread_mutex_lock :: "'w \<Rightarrow> nat \<Rightarrow> int \<times> 'w"
  pthread_mutex_unlock :: "'w \<Rightarrow> nat \<Rightarrow> int \<times> 'w"
  sem_init :: "'w \<Rightarrow> nat \<Rightarrow> u32 \<Rightarrow> int \<times> 'w"
  sem_wait :: "'w \<Rightarrow> nat \<Rightarrow> int \<times> 'w"
  sem_post :: "'w \<Rightarrow> nat \<Rightarrow> int \<times> 'w"
  sem_destroy :: "'w \<Rightarrow> nat \<Rightarrow> int \<times> 'w"
  pthread_rwlock_init :: "'w \<Rightarrow> nat \<Rightarrow> int \<times> 'w"
  pthread_rwlock_destroy :: "'w \<Rightarrow> nat \<Rightarrow> int \<times> 'w"
  pthread_rwlock_rdlock :: "'w \<Rightarrow> nat \<Rightarrow> int \<times> 'w"
  pthread_rwlock_wrlock :: "'w \<Rightarrow> nat \<Rightarrow> int \<times> 'w"
  pthread_rwlock_unlock :: "'w \<Rightarrow> nat \<Rightarrow> int \<times> 'w"
  pthread_cond_init :: "'w \<Rightarrow> nat \<Rightarrow> int \<times> 'w"
  pthread_cond_destroy :: "'w \<Rightarrow> nat \<Rightarrow> int \<times> 'w"
  pthread_cond_wait :: "'w \<Rightarrow> nat \<Rightarrow> nat \<Rightarrow> int \<times> 'w"
  pthread_cond_signal :: "'w \<Rightarrow> nat \<Rightarrow> int \<times> 'w"
  pthread_cond_broadcast :: "'w \<Rightarrow> nat \<Rightarrow> int \<times> 'w"

record 'w pt_state =
  pt_world :: 'w
  pt_kinds :: "nat \<Rightarrow> pt_kind option"
  pt_next :: nat
  pt_result :: int

text \<open>The remainder of C goes with its division.\<close>

definition c_mod :: "int \<Rightarrow> int \<Rightarrow> int" where
  "c_mod a b = a - b * c_div a b"

section \<open>Calls of the library\<close>

text \<open>A new structure.\<close>

definition pt_malloc :: "pt_kind \<Rightarrow> 'w pt_state \<Rightarrow> nat \<times> 'w pt_state" where
  "pt_malloc k st =
     (pt_next st, st\<lparr>pt_kinds := (pt_kinds st)(pt_next st \<mapsto> k), pt_next := pt_next st + 1\<rparr>)"

definition pt_release :: "nat \<Rightarrow> 'w pt_state \<Rightarrow> 'w pt_state" where
  "pt_release a st = st\<lparr>pt_kinds := (pt_kinds st)(a := None)\<rparr>"

text \<open>The structure that a pointer points to.\<close>

definition pt_at :: "'w pt_state \<Rightarrow> nat \<Rightarrow> pt_kind \<Rightarrow> unit c" where
  "pt_at st a k = (if pt_kinds st a = Some k then Inr () else Inl WildPointer)"

text \<open>A call whose result is ignored, and one that aborts the program unless it is 0.\<close>

definition pt_ignore :: "('w \<Rightarrow> int \<times> 'w) \<Rightarrow> 'w pt_state \<Rightarrow> 'w pt_state" where
  "pt_ignore f st = st\<lparr>pt_world := snd (f (pt_world st))\<rparr>"

definition pt_must :: "('w \<Rightarrow> int \<times> 'w) \<Rightarrow> 'w pt_state \<Rightarrow> 'w pt_state c" where
  "pt_must f st =
     (case f (pt_world st) of (err, w) \<Rightarrow> if err \<noteq> 0 then Inl AbortCall else Inr (st\<lparr>pt_world := w\<rparr>))"

definition pt_on :: "pt_kind \<Rightarrow> ('w \<Rightarrow> nat \<Rightarrow> int \<times> 'w) \<Rightarrow> 'w pt_state \<Rightarrow> nat \<Rightarrow> 'w pt_state c" where
  "pt_on k f st a = c_bind (pt_at st a k) (\<lambda>_. pt_must (\<lambda>w. f w a) st)"

section \<open>Threads\<close>

definition sthread_pthread_init :: "'w pt_state \<Rightarrow> 'w pt_state" where
  "sthread_pthread_init st = st"

definition sthread_pthread_create ::
    "'w posix \<Rightarrow> 'w pt_state \<Rightarrow> void_ptr \<Rightarrow> void_ptr \<Rightarrow> nat \<times> 'w pt_state" where
  "sthread_pthread_create P st start_routine arg =
     (let (sth, st1) = pt_malloc Pt_thread st in
      (sth, pt_ignore (\<lambda>w. pthread_create P w sth start_routine arg) st1))"

definition sthread_pthread_exit :: "'w posix \<Rightarrow> 'w pt_state \<Rightarrow> void_ptr \<Rightarrow> 'w pt_state" where
  "sthread_pthread_exit P st ret = st\<lparr>pt_world := pthread_exit P (pt_world st) ret\<rparr>"

definition sthread_pthread_yield :: "'w posix \<Rightarrow> 'w pt_state \<Rightarrow> 'w pt_state" where
  "sthread_pthread_yield P st = pt_ignore (sched_yield P) st"

text \<open>\<open>mutex\<close> and \<open>conditionvar\<close> are local variables, at an address of the stack.\<close>

definition sthread_pthread_sleep :: "'w posix \<Rightarrow> nat \<Rightarrow> 'w pt_state \<Rightarrow> int \<Rightarrow> 'w pt_state" where
  "sthread_pthread_sleep P loc st timevalue =
     (case pthread_mutex_init P (pt_world st) loc of (e1, w1) \<Rightarrow>
      if e1 \<noteq> 0 then st\<lparr>pt_world := w1, pt_result := -1\<rparr>
      else (case pthread_cond_init P w1 loc of (e2, w2) \<Rightarrow>
        if e2 \<noteq> 0 then st\<lparr>pt_world := w2, pt_result := -1\<rparr>
        else
          let tv_sec = c_div timevalue 1000000;
              tv_nsec = c_mod timevalue 1000000 * 1000 in
          (case nanosleep P w2 tv_sec tv_nsec of (r, w3) \<Rightarrow> st\<lparr>pt_world := w3, pt_result := r\<rparr>)))"

definition sthread_pthread_join :: "'w posix \<Rightarrow> 'w pt_state \<Rightarrow> nat \<Rightarrow> nat option \<Rightarrow> 'w pt_state c" where
  "sthread_pthread_join P st thread value_ptr =
     c_bind (pt_at st thread Pt_thread) (\<lambda>_.
     Inr ((pt_ignore (\<lambda>w. pthread_join P w thread value_ptr) st)\<lparr>pt_result := 0\<rparr>))"

section \<open>Mutexes and semaphores\<close>

definition sthread_pthread_mutex_init :: "'w posix \<Rightarrow> 'w pt_state \<Rightarrow> nat \<times> 'w pt_state" where
  "sthread_pthread_mutex_init P st =
     (let (lock, st1) = pt_malloc Pt_mutex st in (lock, pt_ignore (\<lambda>w. pthread_mutex_init P w lock) st1))"

definition sthread_pthread_mutex_free :: "'w posix \<Rightarrow> 'w pt_state \<Rightarrow> nat \<Rightarrow> 'w pt_state c" where
  "sthread_pthread_mutex_free P st lock =
     c_bind (pt_on Pt_mutex (pthread_mutex_destroy P) st lock) (\<lambda>st1. Inr (pt_release lock st1))"

definition sthread_pthread_mutex_lock :: "'w posix \<Rightarrow> 'w pt_state \<Rightarrow> nat \<Rightarrow> 'w pt_state c" where
  "sthread_pthread_mutex_lock P = pt_on Pt_mutex (pthread_mutex_lock P)"

definition sthread_pthread_mutex_unlock :: "'w posix \<Rightarrow> 'w pt_state \<Rightarrow> nat \<Rightarrow> 'w pt_state c" where
  "sthread_pthread_mutex_unlock P = pt_on Pt_mutex (pthread_mutex_unlock P)"

definition sthread_pthread_sem_init :: "'w posix \<Rightarrow> 'w pt_state \<Rightarrow> u32 \<Rightarrow> nat \<times> 'w pt_state" where
  "sthread_pthread_sem_init P st initial_count =
     (let (s, st1) = pt_malloc Pt_sem st in (s, pt_ignore (\<lambda>w. sem_init P w s initial_count) st1))"

definition sthread_pthread_sem_wait :: "'w posix \<Rightarrow> 'w pt_state \<Rightarrow> nat \<Rightarrow> 'w pt_state c" where
  "sthread_pthread_sem_wait P = pt_on Pt_sem (sem_wait P)"

definition sthread_pthread_sem_post :: "'w posix \<Rightarrow> 'w pt_state \<Rightarrow> nat \<Rightarrow> 'w pt_state c" where
  "sthread_pthread_sem_post P = pt_on Pt_sem (sem_post P)"

definition sthread_pthread_sem_destroy :: "'w posix \<Rightarrow> 'w pt_state \<Rightarrow> nat \<Rightarrow> 'w pt_state c" where
  "sthread_pthread_sem_destroy P st s =
     c_bind (pt_on Pt_sem (sem_destroy P) st s) (\<lambda>st1. Inr (pt_release s st1))"

section \<open>Readers/writer locks\<close>

definition sthread_pthread_rwlock_init :: "'w posix \<Rightarrow> 'w pt_state \<Rightarrow> nat \<times> 'w pt_state" where
  "sthread_pthread_rwlock_init P st =
     (let (rwlock, st1) = pt_malloc Pt_rwlock st in
      (rwlock, pt_ignore (\<lambda>w. pthread_rwlock_init P w rwlock) st1))"

definition sthread_pthread_rwlock_destroy :: "'w posix \<Rightarrow> 'w pt_state \<Rightarrow> nat \<Rightarrow> 'w pt_state c" where
  "sthread_pthread_rwlock_destroy P st rwlock =
     c_bind (pt_on Pt_rwlock (pthread_rwlock_destroy P) st rwlock) (\<lambda>st1. Inr (pt_release rwlock st1))"

definition sthread_pthread_rwlock_rdlock :: "'w posix \<Rightarrow> 'w pt_state \<Rightarrow> nat \<Rightarrow> 'w pt_state c" where
  "sthread_pthread_rwlock_rdlock P = pt_on Pt_rwlock (pthread_rwlock_rdlock P)"

definition sthread_pthread_rwlock_wrlock :: "'w posix \<Rightarrow> 'w pt_state \<Rightarrow> nat \<Rightarrow> 'w pt_state c" where
  "sthread_pthread_rwlock_wrlock P = pt_on Pt_rwlock (pthread_rwlock_wrlock P)"

definition sthread_pthread_rwlock_unlock :: "'w posix \<Rightarrow> 'w pt_state \<Rightarrow> nat \<Rightarrow> 'w pt_state c" where
  "sthread_pthread_rwlock_unlock P = pt_on Pt_rwlock (pthread_rwlock_unlock P)"

section \<open>Monitors\<close>

definition sthread_pthread_monitor_init :: "'w posix \<Rightarrow> 'w pt_state \<Rightarrow> nat \<times> 'w pt_state" where
  "sthread_pthread_monitor_init P st =
     (let (monitor, st1) = pt_malloc Pt_mon st;
          st2 = pt_ignore (\<lambda>w. pthread_mutex_init P w monitor) st1 in
      (monitor, pt_ignore (\<lambda>w. pthread_cond_init P w monitor) st2))"

definition sthread_pthread_monitor_free :: "'w posix \<Rightarrow> 'w pt_state \<Rightarrow> nat \<Rightarrow> 'w pt_state c" where
  "sthread_pthread_monitor_free P st mon =
     c_bind (pt_on Pt_mon (pthread_mutex_destroy P) st mon) (\<lambda>st1.
     c_bind (pt_on Pt_mon (pthread_cond_destroy P) st1 mon) (\<lambda>st2. Inr (pt_release mon st2)))"

definition sthread_pthread_monitor_enter :: "'w posix \<Rightarrow> 'w pt_state \<Rightarrow> nat \<Rightarrow> 'w pt_state c" where
  "sthread_pthread_monitor_enter P = pt_on Pt_mon (pthread_mutex_lock P)"

definition sthread_pthread_monitor_exit :: "'w posix \<Rightarrow> 'w pt_state \<Rightarrow> nat \<Rightarrow> 'w pt_state c" where
  "sthread_pthread_monitor_exit P = pt_on Pt_mon (pthread_mutex_unlock P)"

definition sthread_pthread_monitor_wait :: "'w posix \<Rightarrow> 'w pt_state \<Rightarrow> nat \<Rightarrow> 'w pt_state c" where
  "sthread_pthread_monitor_wait P = pt_on Pt_mon (\<lambda>w a. pthread_cond_wait P w a a)"

definition sthread_pthread_monitor_signal :: "'w posix \<Rightarrow> 'w pt_state \<Rightarrow> nat \<Rightarrow> 'w pt_state c" where
  "sthread_pthread_monitor_signal P = pt_on Pt_mon (pthread_cond_signal P)"

definition sthread_pthread_monitor_signalall :: "'w posix \<Rightarrow> 'w pt_state \<Rightarrow> nat \<Rightarrow> 'w pt_state c" where
  "sthread_pthread_monitor_signalall P = pt_on Pt_mon (pthread_cond_broadcast P)"

section \<open>The public operations\<close>

text \<open>\<open>sthread.c\<close> with \<open>USE_PTHREADS\<close>. Returning from a thread and \<open>sthread_nice\<close> are not operations of
  \<open>sthread.c\<close>. \<open>loc\<close> is an address of the stack.\<close>

definition pt_returns :: "nat \<times> 'w pt_state \<Rightarrow> 'w pt_state" where
  "pt_returns = (\<lambda>(a, st). st\<lparr>pt_result := int a\<rparr>)"

fun do_pthread_call :: "'w posix \<Rightarrow> nat \<Rightarrow> sthread_call \<Rightarrow> 'w pt_state \<Rightarrow> 'w pt_state c" where
  "do_pthread_call P loc (Thread_create mem f arg client priority nice0) st =
     Inr (pt_returns (sthread_pthread_create P st f arg))"
| "do_pthread_call P loc (Exit ret) st = Inr (sthread_pthread_exit P st ret)"
| "do_pthread_call P loc Yield st = Inr (sthread_pthread_yield P st)"
| "do_pthread_call P loc (Sleep time) st = Inr (sthread_pthread_sleep P loc st time)"
| "do_pthread_call P loc (Join t p) st = sthread_pthread_join P st t p"
| "do_pthread_call P loc Mutex_init st = Inr (pt_returns (sthread_pthread_mutex_init P st))"
| "do_pthread_call P loc (Mutex_free a) st = sthread_pthread_mutex_free P st a"
| "do_pthread_call P loc (Mutex_lock a) st = sthread_pthread_mutex_lock P st a"
| "do_pthread_call P loc (Mutex_unlock a) st = sthread_pthread_mutex_unlock P st a"
| "do_pthread_call P loc (Sem_init n) st = Inr (pt_returns (sthread_pthread_sem_init P st n))"
| "do_pthread_call P loc (Sem_wait a) st = sthread_pthread_sem_wait P st a"
| "do_pthread_call P loc (Sem_post a) st = sthread_pthread_sem_post P st a"
| "do_pthread_call P loc (Sem_destroy a) st = sthread_pthread_sem_destroy P st a"
| "do_pthread_call P loc Rwlock_init st = Inr (pt_returns (sthread_pthread_rwlock_init P st))"
| "do_pthread_call P loc (Rwlock_destroy a) st = sthread_pthread_rwlock_destroy P st a"
| "do_pthread_call P loc (Rwlock_rdlock a) st = sthread_pthread_rwlock_rdlock P st a"
| "do_pthread_call P loc (Rwlock_wrlock a) st = sthread_pthread_rwlock_wrlock P st a"
| "do_pthread_call P loc (Rwlock_unlock a) st = sthread_pthread_rwlock_unlock P st a"
| "do_pthread_call P loc Monitor_init st = Inr (pt_returns (sthread_pthread_monitor_init P st))"
| "do_pthread_call P loc (Monitor_free a) st = sthread_pthread_monitor_free P st a"
| "do_pthread_call P loc (Monitor_enter a) st = sthread_pthread_monitor_enter P st a"
| "do_pthread_call P loc (Monitor_exit a) st = sthread_pthread_monitor_exit P st a"
| "do_pthread_call P loc (Monitor_wait a) st = sthread_pthread_monitor_wait P st a"
| "do_pthread_call P loc (Monitor_signal a) st = sthread_pthread_monitor_signal P st a"
| "do_pthread_call P loc (Monitor_signalall a) st = sthread_pthread_monitor_signalall P st a"
| "do_pthread_call P loc c st = Inr st"

section \<open>Types of the objects\<close>

text \<open>The object that a call is about, and what the call does to the objects that exist.\<close>

fun call_object :: "sthread_call \<Rightarrow> (nat \<times> pt_kind) option" where
  "call_object (Join t p) = Some (t, Pt_thread)"
| "call_object (Mutex_free a) = Some (a, Pt_mutex)"
| "call_object (Mutex_lock a) = Some (a, Pt_mutex)"
| "call_object (Mutex_unlock a) = Some (a, Pt_mutex)"
| "call_object (Sem_wait a) = Some (a, Pt_sem)"
| "call_object (Sem_post a) = Some (a, Pt_sem)"
| "call_object (Sem_destroy a) = Some (a, Pt_sem)"
| "call_object (Rwlock_destroy a) = Some (a, Pt_rwlock)"
| "call_object (Rwlock_rdlock a) = Some (a, Pt_rwlock)"
| "call_object (Rwlock_wrlock a) = Some (a, Pt_rwlock)"
| "call_object (Rwlock_unlock a) = Some (a, Pt_rwlock)"
| "call_object (Monitor_free a) = Some (a, Pt_mon)"
| "call_object (Monitor_enter a) = Some (a, Pt_mon)"
| "call_object (Monitor_exit a) = Some (a, Pt_mon)"
| "call_object (Monitor_wait a) = Some (a, Pt_mon)"
| "call_object (Monitor_signal a) = Some (a, Pt_mon)"
| "call_object (Monitor_signalall a) = Some (a, Pt_mon)"
| "call_object c = None"

definition well_typed :: "(nat \<Rightarrow> pt_kind option) \<Rightarrow> sthread_call \<Rightarrow> bool" where
  "well_typed ks c = (case call_object c of None \<Rightarrow> True | Some (a, k) \<Rightarrow> ks a = Some k)"

fun kinds_after :: "sthread_call \<Rightarrow> nat \<Rightarrow> (nat \<Rightarrow> pt_kind option) \<Rightarrow> (nat \<Rightarrow> pt_kind option)" where
  "kinds_after (Thread_create mem f arg client priority nice0) n ks = ks(n \<mapsto> Pt_thread)"
| "kinds_after Mutex_init n ks = ks(n \<mapsto> Pt_mutex)"
| "kinds_after (Sem_init v) n ks = ks(n \<mapsto> Pt_sem)"
| "kinds_after Rwlock_init n ks = ks(n \<mapsto> Pt_rwlock)"
| "kinds_after Monitor_init n ks = ks(n \<mapsto> Pt_mon)"
| "kinds_after (Mutex_free a) n ks = ks(a := None)"
| "kinds_after (Sem_destroy a) n ks = ks(a := None)"
| "kinds_after (Rwlock_destroy a) n ks = ks(a := None)"
| "kinds_after (Monitor_free a) n ks = ks(a := None)"
| "kinds_after c n ks = ks"

named_theorems pt_defs

declare pt_on_def [pt_defs] pt_at_def [pt_defs] pt_must_def [pt_defs] pt_release_def [pt_defs]
  pt_ignore_def [pt_defs] pt_malloc_def [pt_defs] pt_returns_def [pt_defs] well_typed_def [pt_defs]
  sthread_pthread_create_def [pt_defs] sthread_pthread_exit_def [pt_defs] sthread_pthread_yield_def [pt_defs]
  sthread_pthread_sleep_def [pt_defs] sthread_pthread_join_def [pt_defs] sthread_pthread_mutex_init_def [pt_defs]
  sthread_pthread_mutex_free_def [pt_defs] sthread_pthread_mutex_lock_def [pt_defs]
  sthread_pthread_mutex_unlock_def [pt_defs] sthread_pthread_sem_init_def [pt_defs]
  sthread_pthread_sem_wait_def [pt_defs] sthread_pthread_sem_post_def [pt_defs]
  sthread_pthread_sem_destroy_def [pt_defs] sthread_pthread_rwlock_init_def [pt_defs]
  sthread_pthread_rwlock_destroy_def [pt_defs] sthread_pthread_rwlock_rdlock_def [pt_defs]
  sthread_pthread_rwlock_wrlock_def [pt_defs] sthread_pthread_rwlock_unlock_def [pt_defs]
  sthread_pthread_monitor_init_def [pt_defs] sthread_pthread_monitor_free_def [pt_defs]
  sthread_pthread_monitor_enter_def [pt_defs] sthread_pthread_monitor_exit_def [pt_defs]
  sthread_pthread_monitor_wait_def [pt_defs] sthread_pthread_monitor_signal_def [pt_defs]
  sthread_pthread_monitor_signalall_def [pt_defs]

lemma pt_wild: "(do_pthread_call P loc c st = Inl WildPointer) = (\<not> well_typed (pt_kinds st) c)"
  by (cases c) (auto simp: pt_defs c_bind_def Let_def split: prod.splits if_splits sum.splits)

lemma pt_abort: "do_pthread_call P loc c st = Inl e \<Longrightarrow> e = WildPointer \<or> e = AbortCall"
  by (cases c) (auto simp: pt_defs c_bind_def Let_def split: prod.splits if_splits sum.splits)

lemma pt_kinds_after:
  "do_pthread_call P loc c st = Inr st' \<Longrightarrow> pt_kinds st' = kinds_after c (pt_next st) (pt_kinds st)
     \<and> pt_next st \<le> pt_next st'"
  by (cases c) (auto simp: pt_defs c_bind_def Let_def split: prod.splits if_splits sum.splits)

text \<open>Programs: a step is one of the calls \<open>C\<close> by any of the threads.\<close>

definition pt_started :: "'w pt_state \<Rightarrow> bool" where
  "pt_started st \<longleftrightarrow> pt_kinds st = Map.empty"

inductive pt_step :: "'w posix \<Rightarrow> sthread_call set \<Rightarrow> 'w pt_state \<Rightarrow> 'w pt_state \<Rightarrow> bool" for P C where
  "c \<in> C \<Longrightarrow> do_pthread_call P loc c st = Inr st' \<Longrightarrow> pt_step P C st st'"

lemma kinds_after_bound:
  assumes "\<forall>a. ks a \<noteq> None \<longrightarrow> a < n" and "kinds_after c n ks a \<noteq> None"
  shows "a < n \<or> a = n \<and> call_object c = None \<and> kinds_after c n ks n \<noteq> None \<and> ks n = None"
  using assms by (cases c) (auto split: if_splits)

lemma pt_next_grows:
  "do_pthread_call P loc c st = Inr st' \<Longrightarrow> kinds_after c (pt_next st) (pt_kinds st) (pt_next st) \<noteq> None
     \<Longrightarrow> pt_kinds st (pt_next st) = None \<Longrightarrow> pt_next st < pt_next st'"
  by (cases c) (auto simp: pt_defs Let_def split: if_splits)

interpretation posix: transition_system pt_started "pt_step P C"
    "\<lambda>st. \<forall>a. pt_kinds st a \<noteq> None \<longrightarrow> a < pt_next st" for P C
proof
  fix st :: "'a pt_state"
  assume "pt_started st"
  then show "\<forall>a. pt_kinds st a \<noteq> None \<longrightarrow> a < pt_next st" by (simp add: pt_started_def)
next
  fix st st' :: "'a pt_state"
  assume "pt_step P C st st'" and inv: "\<forall>a. pt_kinds st a \<noteq> None \<longrightarrow> a < pt_next st"
  then obtain loc c where run: "do_pthread_call P loc c st = Inr st'" by cases
  show "\<forall>a. pt_kinds st' a \<noteq> None \<longrightarrow> a < pt_next st'"
  proof (intro allI impI)
    fix a assume "pt_kinds st' a \<noteq> None"
    with kinds_after_bound [OF inv] pt_kinds_after [OF run] pt_next_grows [OF run]
    show "a < pt_next st'" by fastforce
  qed
qed

text \<open>The objects of the POSIX back end are typed: a call on an object of the kind that it expects returns, or
  aborts the program; a call on any other pointer is an access to memory that is not such an object.\<close>

lemma pthread_objects_typed:
  assumes "reach pt_started (pt_step P C) st"
  shows "(do_pthread_call P loc c st = Inl WildPointer \<longleftrightarrow> \<not> well_typed (pt_kinds st) c)
    \<and> (\<forall>e. do_pthread_call P loc c st = Inl e \<longrightarrow> e = WildPointer \<or> e = AbortCall)
    \<and> (\<forall>st'. do_pthread_call P loc c st = Inr st' \<longrightarrow>
        pt_kinds st' = kinds_after c (pt_next st) (pt_kinds st))
    \<and> pt_kinds st (pt_next st) = None"
  using pt_wild pt_abort pt_kinds_after posix.reach_inv [OF assms] by (blast intro: classical)

text \<open>A library whose mutexes know whether they are locked.\<close>

definition demo_posix :: "nat set posix" where
  "demo_posix =
     (let ok = (\<lambda>w a. (0, w)) in
      \<lparr>pthread_create = (\<lambda>w a f x. (0, w)), pthread_exit = (\<lambda>w r. w), sched_yield = (\<lambda>w. (0, w)),
       nanosleep = (\<lambda>w s n. (if 0 \<le> n \<and> n < 10 ^ 9 \<and> 0 \<le> s then 0 else -1, w)), pthread_join = (\<lambda>w a p. (0, w)),
       pthread_mutex_init = ok, pthread_mutex_destroy = (\<lambda>w a. (if a \<in> w then 16 else 0, w)),
       pthread_mutex_lock = (\<lambda>w a. (if a \<in> w then 35 else 0, insert a w)),
       pthread_mutex_unlock = (\<lambda>w a. (if a \<in> w then 0 else 1, w - {a})),
       sem_init = (\<lambda>w a n. (0, w)), sem_wait = ok, sem_post = ok, sem_destroy = ok,
       pthread_rwlock_init = ok, pthread_rwlock_destroy = ok, pthread_rwlock_rdlock = ok,
       pthread_rwlock_wrlock = ok, pthread_rwlock_unlock = ok, pthread_cond_init = ok,
       pthread_cond_destroy = ok, pthread_cond_wait = (\<lambda>w a b. (0, w)), pthread_cond_signal = ok,
       pthread_cond_broadcast = ok\<rparr>)"

section \<open>Sleeping in both back ends\<close>

lemma c_div_pos: "0 \<le> a \<Longrightarrow> 0 < b \<Longrightarrow> c_div a b = a div b"
  by (cases "a = 0") (simp_all add: c_div_def sgn_if)

lemma switch_to_next_wake:
  assumes "switch_to_next s f = Inr s'"
  shows "map_option wake_time (threads s' t) = map_option wake_time (threads s t)"
proof -
  obtain s1 s2 where "next_active s = Inr s1" "upd_thr s1 (active_thr s1) (\<lambda>x. x\<lparr>state := 0\<rparr>) = Inr s2"
    "sthread_switch (push_frame f s2) (active_thr s) (active_thr s2) = Inr s'"
    using assms by (auto simp: switch_to_next_def Let_def c_bind_eq_Inr)
  then show ?thesis by (auto simp: sched_runs push_frame_def split: if_splits)
qed

lemma exit_program_Inr: "exit_program s \<noteq> Inr s'"
  by (auto simp: exit_program_def c_bind_eq_Inr)

lemma sleep_sets_wake_time:
  assumes "sthread_user_sleep s time = Inr s'" and "0 \<le> time"
  shows "if time < CLOCK_TICK then s' = s\<lparr>spl := LOW, result := 0\<rparr>
    else map_option wake_time (threads s' (active_thr s)) = Some (Clock s + time div CLOCK_TICK)"
proof (cases "time < CLOCK_TICK")
  case True
  then show ?thesis using assms by (simp add: sthread_user_sleep_def c_div_pos CLOCK_TICK_def Let_def)
next
  case False
  have n: "c_div time CLOCK_TICK = time div CLOCK_TICK" "time div CLOCK_TICK \<noteq> 0"
    using False assms(2) by (auto simp: c_div_pos CLOCK_TICK_def div_eq_0_iff)
  obtain w s1 where w: "c_int (Clock s + time div CLOCK_TICK) = Inr w"
    and s1: "upd_thr (s\<lparr>spl := HIGH\<rparr>) (active_thr s) (\<lambda>x. x\<lparr>wake_time := w, state := 0\<rparr>) = Inr s1"
    and run: "switch_to_next (s1\<lparr>sleep_thr_list := sleep_thr_list s1 @ [active_thr s1]\<rparr>) Slept = Inr s'"
    using assms(1) n by (auto simp: sthread_user_sleep_def Let_def c_bind_eq_Inr exit_program_Inr split: if_splits)
  have "w = Clock s + time div CLOCK_TICK" using w by (simp add: c_int_def split: if_splits)
  moreover have "map_option wake_time (threads s1 (active_thr s)) = Some w" using s1 by (auto simp: sched_runs)
  ultimately show ?thesis using switch_to_next_wake [OF run, of "active_thr s"] False by simp
qed

text \<open>Both back ends take the time to sleep in microseconds. On POSIX threads, \<open>nanosleep\<close> is called
  with a valid time, exactly as many nanoseconds. At user level, a thread that sleeps for less than a
  clock tick of 10000 microseconds goes on at once, and any other gets a time to wake up that is as
  many ticks ahead as fit into the time.\<close>

lemma sleep_in_microseconds:
  assumes "0 \<le> time" and "time < 2 ^ 31"
    and "pthread_mutex_init P (pt_world st) loc = (0, w1)" and "pthread_cond_init P w1 loc = (0, w2)"
  shows "(\<exists>tv_sec tv_nsec. sthread_pthread_sleep P loc st time =
          st\<lparr>pt_world := snd (nanosleep P w2 tv_sec tv_nsec), pt_result := fst (nanosleep P w2 tv_sec tv_nsec)\<rparr>
        \<and> 0 \<le> tv_sec \<and> 0 \<le> tv_nsec \<and> tv_nsec < 10 ^ 9 \<and> 10 ^ 9 * tv_sec + tv_nsec = 1000 * time)
    \<and> (\<forall>s s'. sthread_user_sleep s time = Inr s' \<longrightarrow>
        (if time < CLOCK_TICK then s' = s\<lparr>spl := LOW, result := 0\<rparr>
         else map_option wake_time (threads s' (active_thr s)) = Some (Clock s + time div CLOCK_TICK)))"
proof (intro conjI allI impI)
  let ?s = "c_div time 1000000" and ?n = "c_mod time 1000000 * 1000"
  have d: "?s = time div 1000000" "c_mod time 1000000 = time mod 1000000"
    using assms(1) by (simp_all add: c_div_pos c_mod_def minus_mult_div_eq_mod)
  have "time mod 1000000 < 1000000" by simp
  then have "0 \<le> ?s" "0 \<le> ?n" "?n < 10 ^ 9" using assms(1) unfolding d by (simp_all add: pos_imp_zdiv_nonneg_iff)
  moreover have "10 ^ 9 * ?s + ?n = 1000 * time"
  proof -
    have gen: "10 ^ 9 * a + b * 1000 = 1000 * (1000000 * a + b)" for a b :: int by simp
    have "10 ^ 9 * ?s + ?n = 1000 * (1000000 * (time div 1000000) + time mod 1000000)" unfolding d gen ..
    also have "\<dots> = 1000 * time" by (simp only: mult_div_mod_eq)
    finally show ?thesis .
  qed
  moreover have "sthread_pthread_sleep P loc st time =
      st\<lparr>pt_world := snd (nanosleep P w2 ?s ?n), pt_result := fst (nanosleep P w2 ?s ?n)\<rparr>"
    using assms(3,4) by (simp add: sthread_pthread_sleep_def Let_def split: prod.split)
  ultimately show "\<exists>tv_sec tv_nsec. sthread_pthread_sleep P loc st time =
          st\<lparr>pt_world := snd (nanosleep P w2 tv_sec tv_nsec), pt_result := fst (nanosleep P w2 tv_sec tv_nsec)\<rparr>
        \<and> 0 \<le> tv_sec \<and> 0 \<le> tv_nsec \<and> tv_nsec < 10 ^ 9 \<and> 10 ^ 9 * tv_sec + tv_nsec = 1000 * time"
    by blast
next
  fix s s' assume "sthread_user_sleep s time = Inr s'"
  from sleep_sets_wake_time [OF this assms(1)]
  show "if time < CLOCK_TICK then s' = s\<lparr>spl := LOW, result := 0\<rparr>
     else map_option wake_time (threads s' (active_thr s)) = Some (Clock s + time div CLOCK_TICK)" .
qed

lemma sleep_in_microseconds_witness:
  "pt_result (sthread_pthread_sleep demo_posix 9 \<lparr>pt_world = {}, pt_kinds = Map.empty, pt_next = 0, pt_result = 7\<rparr>
     2500000) = 0"
proof -
  let ?st = "\<lparr>pt_world = {}, pt_kinds = Map.empty, pt_next = 0, pt_result = 7\<rparr>"
  have "pthread_mutex_init demo_posix (pt_world ?st) 9 = (0, {})" "pthread_cond_init demo_posix {} 9 = (0, {})"
    by (simp_all add: demo_posix_def Let_def)
  from sleep_in_microseconds [OF _ _ this, of 2500000] obtain sec nsec where
    "sthread_pthread_sleep demo_posix 9 ?st 2500000 =
      ?st\<lparr>pt_world := snd (nanosleep demo_posix {} sec nsec), pt_result := fst (nanosleep demo_posix {} sec nsec)\<rparr>"
    "0 \<le> sec" "0 \<le> nsec" "nsec < 10 ^ 9" by auto
  then show ?thesis by (simp add: demo_posix_def Let_def)
qed

end
