(* ===== verification/Sthread_Slices.thy ===== *)
theory Sthread_Slices
  imports Sthread_Pthread Sthread_Demo
begin

text \<open>
  Time slices, \<open>src/sthread_lib/sthread_time_slice.c\<close>: a timer raises a signal every clock tick, \<open>splx\<close>
  lets the signal through or not, and its handler runs the dispatcher of the scheduler if it has
  interrupted the program's own code.

  What the handler of the signal is belongs to the system; \<open>alarm\<close> is its setting. The addresses that
  bound the program's code and the code of the switch are given by the linker, here \<open>regions\<close>; \<open>eip\<close>
  is where the signal has interrupted the program. \<open>interruptHandler\<close> works on a state of type \<open>'s\<close> and on the
  setting, which it may change by calling \<open>splx\<close>. The mask of signals and the printing of the statistics
  are not modelled.

  The functions of \<open>Sthread_User\<close> and \<open>Sthread_Sync\<close> leave the argument of the last \<open>splx\<close> in the field
  \<open>spl\<close>. \<open>under_splx\<close> runs them on the setting as well, and \<open>timed_step\<close> is the program
  together with the timer.
\<close>

section \<open>The code\<close>

datatype disposition = Sig_default | Sig_ign | Sig_tick

record signals =
  inited :: int
  alarm :: disposition

record 's slices =
  good_interrupts :: int
  dropped_interrupts :: int
  interruptHandler :: "(signals \<times> 's \<Rightarrow> (signals \<times> 's) c) option"
  signals :: signals
  quit_stats :: bool
  it_sec :: int
  it_usec :: int

definition slices_globals :: "'s slices" where
  "slices_globals = \<lparr>good_interrupts = 0, dropped_interrupts = 0, interruptHandler = None,
     signals = \<lparr>inited = 0, alarm = Sig_default\<rparr>, quit_stats = False, it_sec = 0, it_usec = 0\<rparr>"

record regions =
  proc_start :: int
  proc_end :: int
  Xsthread_switch :: int
  Xsthread_switch_end :: int

definition sthread_init_stats :: "'s slices \<Rightarrow> 's slices" where
  "sthread_init_stats t = t\<lparr>quit_stats := True\<rparr>"

definition sthread_clock_init :: "(signals \<times> 's \<Rightarrow> (signals \<times> 's) c) \<Rightarrow> int \<Rightarrow> 's slices \<Rightarrow> 's slices" where
  "sthread_clock_init func period t =
     (sthread_init_stats (t\<lparr>interruptHandler := Some func\<rparr>))
       \<lparr>it_sec := c_div period 1000000, it_usec := c_mod period 1000000\<rparr>"

text \<open>The level of the interrupts before, and the new setting.\<close>

definition splx :: "int \<Rightarrow> signals \<Rightarrow> int \<times> signals" where
  "splx splval sig =
     (if inited sig = 0 then (0, sig)
      else (if alarm sig = Sig_ign then HIGH else LOW,
            sig\<lparr>alarm := (if splval = HIGH then Sig_ign else Sig_tick)\<rparr>))"

definition sthread_time_slices_init :: "(signals \<times> 's \<Rightarrow> (signals \<times> 's) c) \<Rightarrow> int \<Rightarrow> 's slices \<Rightarrow> 's slices" where
  "sthread_time_slices_init func period t =
     (let t1 = sthread_clock_init func period t in
      t1\<lparr>signals := snd (splx LOW ((signals t1)\<lparr>inited := 1\<rparr>))\<rparr>)"

definition clock_tick :: "regions \<Rightarrow> int \<Rightarrow> 's slices \<Rightarrow> 's \<Rightarrow> ('s slices \<times> 's) c" where
  "clock_tick R eip t s =
     (if eip \<ge> proc_start R \<and> eip < proc_end R
         \<and> \<not> (eip \<ge> Xsthread_switch R \<and> eip < Xsthread_switch_end R)
      then
        c_bind (c_int (good_interrupts t + 1)) (\<lambda>n.
        c_bind (deref (interruptHandler t)) (\<lambda>h.
        c_bind (h (signals t, s)) (\<lambda>(sig, s'). Inr (t\<lparr>good_interrupts := n, signals := sig\<rparr>, s'))))
      else c_bind (c_int (dropped_interrupts t + 1)) (\<lambda>n. Inr (t\<lparr>dropped_interrupts := n\<rparr>, s)))"

text \<open>The timer goes off. With the default setting the signal ends the program.\<close>

definition deliver :: "regions \<Rightarrow> int \<Rightarrow> 's slices \<Rightarrow> 's \<Rightarrow> ('s slices \<times> 's) c" where
  "deliver R eip t s =
     (case alarm (signals t) of
        Sig_ign \<Rightarrow> Inr (t, s)
      | Sig_tick \<Rightarrow> clock_tick R eip t s
      | Sig_default \<Rightarrow> Inl (ExitCall 142))"

section \<open>The scheduler under the timer\<close>

text \<open>An operation of the scheduler with the setting of the signal: it ends as the last \<open>splx\<close> left it.\<close>

definition under_splx :: "(sched \<Rightarrow> sched c) \<Rightarrow> signals \<times> sched \<Rightarrow> (signals \<times> sched) c" where
  "under_splx f = (\<lambda>(sig, s). c_bind (f s) (\<lambda>s'. Inr (snd (splx (spl s') sig), s')))"

definition timed_start :: "sched slices \<times> sched \<Rightarrow> bool" where
  "timed_start = (\<lambda>(t, s). \<exists>t0 mem.
     t = sthread_time_slices_init (under_splx sthread_user_dispatcher) CLOCK_TICK t0 \<and> s = sthread_user_init mem)"

inductive timed_step :: "regions \<Rightarrow> sthread_call set \<Rightarrow> sched slices \<times> sched \<Rightarrow> sched slices \<times> sched \<Rightarrow> bool"
  for R C where
  timer: "deliver R eip t s = Inr (t', s') \<Longrightarrow> timed_step R C (t, s) (t', s')"
| timed_call: "stack s = [] \<Longrightarrow> c \<in> C \<Longrightarrow> under_splx (do_call c) (signals t, s) = Inr (sig, s') \<Longrightarrow>
    timed_step R C (t, s) (t\<lparr>signals := sig\<rparr>, s')"
| timed_resume: "stack s = f # fs \<Longrightarrow> under_splx (run_frame f) (signals t, s\<lparr>stack := fs\<rparr>) = Inr (sig, s') \<Longrightarrow>
    timed_step R C (t, s) (t\<lparr>signals := sig\<rparr>, s')"

inductive_cases timed_stepE: "timed_step R C (t, s) y"

text \<open>The setting agrees with the field \<open>spl\<close> of the scheduler.\<close>

definition sliced :: "sched slices \<Rightarrow> sched \<Rightarrow> bool" where
  "sliced t s \<longleftrightarrow> inited (signals t) \<noteq> 0 \<and> interruptHandler t = Some (under_splx sthread_user_dispatcher)
     \<and> (spl s = HIGH \<and> alarm (signals t) = Sig_ign \<or> spl s = LOW \<and> alarm (signals t) = Sig_tick)"

section \<open>The operations set the level to high or low\<close>

definition spl_moves :: "sched \<Rightarrow> sched \<Rightarrow> bool" where
  "spl_moves s s' \<longleftrightarrow> spl s' \<in> {spl s, HIGH, LOW}"

named_theorems spl_facts \<open>the level after the parts of an operation\<close>

lemma sthread_switch_spl [spl_facts]: "sthread_switch s old new = Inr s' \<Longrightarrow> spl s' = spl s"
  by (auto simp: sthread_switch_runs split: if_splits)

lemma next_active_spl [spl_facts]: "next_active s = Inr s' \<Longrightarrow> spl s' = spl s"
  by (auto simp: next_active_runs)

lemma upd_thr_spl [spl_facts]: "upd_thr s t f = Inr s' \<Longrightarrow> spl s' = spl s"
  by (auto simp: upd_thr_runs)

lemma push_frame_spl [simp]: "spl (push_frame f s) = spl s"
  by (simp add: push_frame_def)

lemma put_obj_spl [simp]:
  "spl (put_mutex s i m) = spl s" "spl (put_sem s i x) = spl s" "spl (put_rwlock s i r) = spl s"
  "spl (put_mon s i y) = spl s"
  by (simp_all add: put_mutex_def put_sem_def put_rwlock_def put_mon_def)

lemma switch_to_next_spl [spl_facts]: "switch_to_next s f = Inr s' \<Longrightarrow> spl s' = spl s"
  by (auto simp: switch_to_next_def Let_def c_bind_eq_Inr dest!: spl_facts)

lemma free_all_spl [spl_facts]: "free_all l s = Inr s' \<Longrightarrow> spl s' = spl s"
  by (drule free_all_runs) simp

lemma exit_loop_spl [spl_facts]: "exit_loop ret l tmp z s = Inr (z', s') \<Longrightarrow> spl s' = spl s"
  by (induction l arbitrary: tmp z s) (fastforce simp: c_bind_eq_Inr Let_def put_thr_def split: if_splits)+

lemma wake_loop_spl [spl_facts]: "wake_loop l tmp s = Inr s' \<Longrightarrow> spl s' = spl s"
  by (induction l arbitrary: tmp s) (fastforce simp: c_bind_eq_Inr Let_def put_thr_def split: if_splits)+

lemma tick_loop_spl [spl_facts]: "tick_loop f l n s = Inr (n', s') \<Longrightarrow> spl s' = spl s"
  by (induction l arbitrary: n s) (fastforce simp: c_bind_eq_Inr dest: spl_facts)+

lemma sthread_user_yield_spl [spl_facts]: "sthread_user_yield s = Inr s' \<Longrightarrow> spl s' = HIGH"
  by (auto simp: sthread_user_yield_def c_bind_eq_Inr dest!: spl_facts)

lemma wake_sleepers_spl [spl_facts]: "wake_sleepers s = Inr s' \<Longrightarrow> spl s' = spl s"
  by (auto simp: wake_sleepers_def dest: spl_facts)

lemma tick_loop_then_spl:
  assumes "c_bind (tick_loop f l n s) (\<lambda>(n', s'). g n' s') = Inr y"
  obtains n' s' where "spl s' = spl s" and "g n' s' = Inr y"
  using assms by (auto simp: c_bind_eq_Inr dest: tick_loop_spl)

lemma dispatcher_spl: "sthread_user_dispatcher s = Inr s' \<Longrightarrow> spl_moves s s'"
  unfolding sthread_user_dispatcher_def Let_def
  by (elim c_bindE tick_loop_then_spl) (auto simp: spl_moves_def put_thr_def split: if_splits dest!: spl_facts)

lemma sthread_user_exit_spl: "sthread_user_exit s ret = Inr s' \<Longrightarrow> spl_moves s s'"
  by (auto simp: sthread_user_exit_def Let_def c_bind_eq_Inr spl_moves_def exit_program_not_returns
      dest!: spl_facts split: if_splits)

lemma sthread_user_sleep_spl: "sthread_user_sleep s time = Inr s' \<Longrightarrow> spl_moves s s'"
  by (erule sthread_user_sleep_runs) (auto simp: spl_moves_def put_thr_def dest!: spl_facts)

lemma sthread_user_join_spl: "sthread_user_join s t p = Inr s' \<Longrightarrow> spl_moves s s'"
  by (erule sthread_user_join_runs) (auto simp: spl_moves_def put_thr_def dest!: spl_facts)

lemma sthread_nice_spl: "sthread_nice s n = Inr s' \<Longrightarrow> spl_moves s s'"
  by (auto simp: sthread_nice_def c_bind_eq_Inr spl_moves_def dest!: spl_facts split: if_splits)

lemma mutex_spl:
  "sthread_user_mutex_lock s i = Inr s' \<Longrightarrow> spl_moves s s'"
  "sthread_user_mutex_unlock s i = Inr s' \<Longrightarrow> spl s' = spl s"
  "sthread_user_mutex_free s i = Inr s' \<Longrightarrow> spl s' = spl s"
  by (auto simp: sthread_user_mutex_lock_def sthread_user_mutex_unlock_def sthread_user_mutex_free_def Let_def
      c_bind_eq_Inr neq_Nil_conv spl_moves_def dest!: spl_facts split: if_splits option.splits list.splits)

lemma sem_spl:
  "sthread_user_sem_wait s i = Inr s' \<Longrightarrow> spl_moves s s'"
  "sthread_user_sem_post s i = Inr s' \<Longrightarrow> spl s' = spl s"
  "sthread_user_sem_destroy s i = Inr s' \<Longrightarrow> spl s' = spl s"
  by (auto simp: sthread_user_sem_wait_def sthread_user_sem_post_def sthread_user_sem_destroy_def Let_def
      c_bind_eq_Inr neq_Nil_conv spl_moves_def dest!: spl_facts split: if_splits list.splits)

lemma rwlock_enter_spl: "rwlock_enter f s i = Inr s' \<Longrightarrow> spl_moves s s'"
  by (auto simp: rwlock_enter_def c_bind_eq_Inr dest!: mutex_spl(1)) (simp add: spl_moves_def)

lemma rwlock_block_spl: "rwlock_block s i r q = Inr s' \<Longrightarrow> spl_moves s s'"
  by (auto simp: rwlock_block_def c_bind_eq_Inr dest!: mutex_spl(2) sem_spl(1)) (simp add: spl_moves_def)

lemma rw_parts_spl:
  "rd_wait s i = Inr s' \<Longrightarrow> spl_moves s s'" "wr_wait s i = Inr s' \<Longrightarrow> spl_moves s s'"
  "rd_test s i = Inr s' \<Longrightarrow> spl s' = spl s" "rd_count s i = Inr s' \<Longrightarrow> spl s' = spl s"
  "wr_test s i = Inr s' \<Longrightarrow> spl s' = spl s" "wr_take s i = Inr s' \<Longrightarrow> spl s' = spl s"
  "rw_release s i = Inr s' \<Longrightarrow> spl s' = spl s" "rw_written s i = Inr s' \<Longrightarrow> spl s' = spl s"
  "rw_loop s i k = Inr s' \<Longrightarrow> spl s' = spl s" "rw_read s i = Inr s' \<Longrightarrow> spl s' = spl s"
  "rw_pass s i = Inr s' \<Longrightarrow> spl s' = spl s" "rw_unlock s i = Inr s' \<Longrightarrow> spl s' = spl s"
  by (auto simp: rw_parts c_bind_eq_Inr dest!: rwlock_block_spl mutex_spl(2) sem_spl(2) split: if_splits)
    (simp_all add: spl_moves_def)

lemma rwlock_destroy_spl: "sthread_user_rwlock_destroy s i = Inr s' \<Longrightarrow> spl s' = spl s"
  by (auto simp: sthread_user_rwlock_destroy_def c_bind_eq_Inr dest!: mutex_spl(3) sem_spl(3))

lemma monitor_spl:
  "sthread_user_monitor_free s i = Inr s' \<Longrightarrow> spl_moves s s'"
  "sthread_user_monitor_enter s i = Inr s' \<Longrightarrow> spl_moves s s'"
  "sthread_user_monitor_exit s i = Inr s' \<Longrightarrow> spl_moves s s'"
  "sthread_user_monitor_wait s i = Inr s' \<Longrightarrow> spl_moves s s'"
  "sthread_user_monitor_signal s i = Inr s' \<Longrightarrow> spl_moves s s'"
  "sthread_user_monitor_signalall s i = Inr s' \<Longrightarrow> spl_moves s s'"
  by (auto simp: sthread_user_monitor_free_def sthread_user_monitor_enter_def sthread_user_monitor_exit_def
      sthread_user_monitor_wait_def sthread_user_monitor_signal_def sthread_user_monitor_signalall_def
      c_bind_eq_Inr neq_Nil_conv dest!: mutex_spl spl_facts split: if_splits list.splits) (simp_all add: spl_moves_def)

lemma inits_spl:
  "spl (snd (sthread_user_mutex_init s)) = spl s" "spl (snd (sthread_user_sem_init s n)) = spl s"
  "spl (snd (sthread_user_rwlock_init s)) = spl s" "spl (snd (sthread_user_monitor_init s)) = spl s"
  by (simp_all add: sthread_user_mutex_init_def sthread_user_sem_init_def sthread_user_rwlock_init_def
      sthread_user_monitor_init_def split_beta Let_def)

lemma returns_spl [simp]: "spl (returns x) = spl (snd x)"
  by (simp add: returns_def split_beta)

lemma same_spl_moves: "spl s' = spl s \<Longrightarrow> spl_moves s s'"
  by (simp add: spl_moves_def)

lemma do_call_spl:
  assumes "do_call c s = Inr s'"
  shows "spl_moves s s'"
proof (cases c)
  case (Thread_create mem f arg client priority nice0)
  then show ?thesis using assms
    by (auto simp: sthread_user_create_def Let_def c_bind_eq_Inr spl_moves_def)
next
  case Return
  then show ?thesis using assms sthread_user_exit_spl [of "push_frame No_return s" NULL s']
    by (simp add: sthread_aux_end_def spl_moves_def)
next
  case Yield
  then show ?thesis using assms sthread_user_yield_spl [of s s'] by (simp add: spl_moves_def)
qed (use assms in \<open>auto simp: sthread_user_rwlock_rdlock_def sthread_user_rwlock_wrlock_def sthread_user_rwlock_unlock_def
    inits_spl intro: same_spl_moves sthread_user_exit_spl sthread_user_sleep_spl sthread_user_join_spl sthread_nice_spl
    mutex_spl sem_spl rwlock_enter_spl rwlock_destroy_spl monitor_spl\<close>)

lemma run_frame_spl:
  assumes "run_frame f s = Inr s'"
  shows "spl_moves s s'"
proof (cases f)
  case (After_join t p)
  then show ?thesis using assms by (auto simp: c_bind_eq_Inr store_ret_def spl_moves_def)
next
  case Wake_sleepers
  then show ?thesis using assms wake_sleepers_spl [of s s'] by (simp add: spl_moves_def)
qed (use assms in \<open>auto simp: spl_moves_def [of s] dest: rw_parts_spl rwlock_enter_spl\<close>)

section \<open>The program and the timer\<close>

lemma under_splx_eq_Inr:
  "under_splx f (sig, s) = Inr (sig', s') \<longleftrightarrow> f s = Inr s' \<and> sig' = snd (splx (spl s') sig)"
  by (auto simp: under_splx_def c_bind_eq_Inr)

lemma sliced_splx:
  assumes "sliced t s" and "spl_moves s s'"
  shows "sliced (t\<lparr>signals := snd (splx (spl s') (signals t))\<rparr>) s'"
  using assms by (auto simp: sliced_def splx_def spl_moves_def HIGH_def LOW_def)

lemma sliced_init: "timed_start (t, s) \<Longrightarrow> sliced t s"
  by (auto simp: timed_start_def sliced_def sthread_time_slices_init_def splx_def sthread_clock_init_def
      sthread_init_stats_def sthread_user_init_def HIGH_def LOW_def Let_def)

lemma deliver_off: "sliced t s \<Longrightarrow> spl s = HIGH \<Longrightarrow> deliver R eip t s = Inr (t, s)"
  by (auto simp: sliced_def deliver_def HIGH_def LOW_def)

lemma deliver_on:
  assumes "sliced t s" and "spl s = LOW"
  shows "deliver R eip t s =
     (if proc_start R \<le> eip \<and> eip < proc_end R \<and> \<not> (Xsthread_switch R \<le> eip \<and> eip < Xsthread_switch_end R)
      then c_bind (c_int (good_interrupts t + 1)) (\<lambda>n. c_bind (sthread_user_dispatcher s) (\<lambda>s'.
        Inr (t\<lparr>good_interrupts := n, signals := snd (splx (spl s') (signals t))\<rparr>, s')))
      else c_bind (c_int (dropped_interrupts t + 1)) (\<lambda>n. Inr (t\<lparr>dropped_interrupts := n\<rparr>, s)))"
  using assms
  by (auto simp: sliced_def deliver_def clock_tick_def deref_def under_splx_def c_bind_assoc HIGH_def LOW_def)

lemma timed_step_sim:
  assumes "timed_step R C (t, s) (t', s')" and "sliced t s"
  shows "sliced t' s' \<and> (s' = s \<or> sthread_step C s s')"
proof -
  consider (timer) eip where "deliver R eip t s = Inr (t', s')"
    | (call) c where "stack s = []" "c \<in> C" "do_call c s = Inr s'" "t' = t\<lparr>signals := snd (splx (spl s') (signals t))\<rparr>"
    | (resume) f fs where "stack s = f # fs" "run_frame f (s\<lparr>stack := fs\<rparr>) = Inr s'"
        "t' = t\<lparr>signals := snd (splx (spl s') (signals t))\<rparr>"
    using assms(1) by (rule timed_stepE) (auto simp: under_splx_eq_Inr)
  then show ?thesis
  proof cases
    case timer
    show ?thesis
    proof (cases "spl s = HIGH")
      case True
      then show ?thesis using timer deliver_off [OF assms(2) True] assms(2) by simp
    next
      case False
      then have l: "spl s = LOW" using assms(2) by (auto simp: sliced_def)
      show ?thesis
      proof (cases "proc_start R \<le> eip \<and> eip < proc_end R \<and> \<not> (Xsthread_switch R \<le> eip \<and> eip < Xsthread_switch_end R)")
        case True
        then obtain n where d: "sthread_user_dispatcher s = Inr s'"
          and t': "t' = t\<lparr>good_interrupts := n, signals := snd (splx (spl s') (signals t))\<rparr>"
          using timer deliver_on [OF assms(2) l, of R eip] by (auto simp: c_bind_eq_Inr)
        from sliced_splx [OF assms(2) dispatcher_spl [OF d]] have "sliced t' s'"
          by (simp add: sliced_def t')
        then show ?thesis using sthread_step.tick [OF l d] by blast
      next
        case False
        then have "s' = s" "\<exists>n. t' = t\<lparr>dropped_interrupts := n\<rparr>"
          using timer deliver_on [OF assms(2) l, of R eip] by (auto simp: c_bind_eq_Inr)
        then show ?thesis using assms(2) by (auto simp: sliced_def)
      qed
    qed
  next
    case call
    from sliced_splx [OF assms(2) do_call_spl [OF call(3)]] sthread_step.call [OF call(1-3)]
    show ?thesis by (simp add: call(4))
  next
    case resume
    have "spl_moves s s'" using run_frame_spl [OF resume(2)] by (simp add: spl_moves_def)
    from sliced_splx [OF assms(2) this] sthread_step.resume [OF resume(1,2)]
    show ?thesis by (simp add: resume(3))
  qed
qed

interpretation timed: transition_system timed_start "timed_step R C"
  "\<lambda>(t, s). sliced t s \<and> reach started (sthread_step C) s" for R C
proof
  fix x assume "timed_start x"
  moreover obtain t s where x: "x = (t, s)" by (cases x)
  ultimately have "sliced t s" "started s" using sliced_init by (auto simp: timed_start_def)
  then show "case x of (t, s) \<Rightarrow> sliced t s \<and> reach started (sthread_step C) s" using x by (simp add: reach_init)
next
  fix x y assume st: "timed_step R C x y" and inv: "case x of (t, s) \<Rightarrow> sliced t s \<and> reach started (sthread_step C) s"
  obtain t s t' s' where xy: "x = (t, s)" "y = (t', s')" by (cases x; cases y)
  from timed_step_sim [of R C t s t' s'] st inv show "case y of (t, s) \<Rightarrow> sliced t s \<and> reach started (sthread_step C) s"
    unfolding xy by (auto intro: reach_step)
qed

text \<open>C33: The time slices are the clock ticks of the scheduler model. In every state that a program reaches
  under the timer, the setting of the signal agrees with the field \<open>spl\<close> of the scheduler, and the scheduler is
  in a state that its model reaches. A signal of the timer has no effect while the interrupts are
  off. While they are on, a signal in the code of the program, but not in that of the switch, counts as good
  and does exactly what the dispatcher does, whose calls of \<open>splx\<close> change the setting; a fault of the
  dispatcher is one of the handler. Any other signal is counted as dropped and changes nothing else.\<close>

theorem slices_are_ticks:
  assumes "reach timed_start (timed_step R C) (t, s)"
    and "good_interrupts t < 2 ^ 31 - 1" and "dropped_interrupts t < 2 ^ 31 - 1"
    and "0 \<le> good_interrupts t" and "0 \<le> dropped_interrupts t"
  shows "(spl s = HIGH \<and> alarm (signals t) = Sig_ign \<or> spl s = LOW \<and> alarm (signals t) = Sig_tick)
    \<and> reach started (sthread_step C) s
    \<and> deliver R eip t s =
       (if spl s = HIGH then Inr (t, s)
        else if proc_start R \<le> eip \<and> eip < proc_end R
          \<and> \<not> (Xsthread_switch R \<le> eip \<and> eip < Xsthread_switch_end R)
        then c_bind (sthread_user_dispatcher s) (\<lambda>s'. Inr (t\<lparr>good_interrupts := good_interrupts t + 1,
          signals := (signals t)\<lparr>alarm := (if spl s' = HIGH then Sig_ign else Sig_tick)\<rparr>\<rparr>, s'))
        else Inr (t\<lparr>dropped_interrupts := dropped_interrupts t + 1\<rparr>, s))"
proof -
  have inv: "sliced t s" "reach started (sthread_step C) s" using timed.reach_inv [OF assms(1)] by auto
  have n: "c_int (good_interrupts t + 1) = Inr (good_interrupts t + 1)"
    "c_int (dropped_interrupts t + 1) = Inr (dropped_interrupts t + 1)"
    using assms(2-5) by (simp_all add: c_int_def)
  have sp: "snd (splx v (signals t)) = (signals t)\<lparr>alarm := (if v = HIGH then Sig_ign else Sig_tick)\<rparr>" for v
    using inv(1) by (simp add: splx_def sliced_def)
  show ?thesis
  proof (cases "spl s = HIGH")
    case True
    then show ?thesis using deliver_off [OF inv(1)] inv by (auto simp: sliced_def)
  next
    case False
    then have l: "spl s = LOW" using inv(1) by (auto simp: sliced_def)
    show ?thesis using deliver_on [OF inv(1) l, of R eip] inv l unfolding n c_bind_Inr sp
      by (auto simp: sliced_def HIGH_def LOW_def)
  qed
qed

definition demo_regions :: regions where
  "demo_regions = \<lparr>proc_start = 100, proc_end = 200, Xsthread_switch = 150, Xsthread_switch_end = 160\<rparr>"

definition demo_slices :: "sched slices" where
  "demo_slices = sthread_time_slices_init (under_splx sthread_user_dispatcher) CLOCK_TICK slices_globals"

text \<open>At the start a signal in the code of the program is a tick, one in the switch is dropped.\<close>

theorem slices_are_ticks_witness:
  "\<exists>t' s'. deliver demo_regions 120 demo_slices main_thread = Inr (t', s')
     \<and> sthread_user_dispatcher main_thread = Inr s' \<and> Clock s' = 2 \<and> good_interrupts t' = 1
     \<and> deliver demo_regions 155 demo_slices main_thread = Inr (demo_slices\<lparr>dropped_interrupts := 1\<rparr>, main_thread)"
proof -
  have "timed_start (demo_slices, main_thread)"
    unfolding timed_start_def demo_slices_def main_thread_def by blast
  then have r: "reach timed_start (timed_step demo_regions {}) (demo_slices, main_thread)" by (rule reach_init)
  have d: "good_interrupts demo_slices = 0" "dropped_interrupts demo_slices = 0"
    by (simp_all add: demo_slices_def sthread_time_slices_init_def sthread_clock_init_def sthread_init_stats_def
        slices_globals_def Let_def)
  have l: "spl main_thread = LOW" by (simp add: main_thread_def sthread_user_init_def)
  have "case sthread_user_dispatcher main_thread of Inl e \<Rightarrow> False | Inr s' \<Rightarrow> Clock s' = 2" by code_simp
  then obtain s' where s': "sthread_user_dispatcher main_thread = Inr s'" "Clock s' = 2" by (auto split: sum.splits)
  show ?thesis
    using slices_are_ticks [OF r, of 120] slices_are_ticks [OF r, of 155] d l s'
    by (simp add: demo_regions_def HIGH_def LOW_def)
qed

end
