(* ===== verification/Sthread_Lists.thy ===== *)
theory Sthread_Lists
  imports Threads_Correct
begin

text \<open>
  The lists of the scheduler on the queues of \<open>src/sthread_lib/queue.c\<close>. Three loops of
  \<open>sthread_user.c\<close> empty a list into another one and a new queue that replaces it: the dispatcher wakes
  sleeping threads, \<open>exit\<close> releases the threads that join the one that exits, \<open>join\<close> looks for a zombie. Here
  they run on a heap of queues, with the pointers of the scheduler to them, and do to these and to the
  threads what the functions of \<open>Sthread_User\<close> do to HOL lists.
\<close>

section \<open>The loops on the heap\<close>

record list_ptrs =
  exe_q :: addr
  dead_q :: addr
  sleep_q :: addr
  join_q :: addr
  zombie_q :: addr

text \<open>What each loop does with a thread before it is inserted into one of the two queues.\<close>

definition wake_turn :: "sched \<Rightarrow> thread_ptr \<Rightarrow> (bool \<times> thread_ptr \<times> sched) c" where
  "wake_turn s t =
     c_bind (get_thr s t) (\<lambda>x.
     if wake_time x = Clock s then Inr (True, t, put_thr s t (x\<lparr>wake_time := 0, state := 0\<rparr>))
     else Inr (False, t, s))"

definition exit_turn :: "void_ptr \<Rightarrow> bool \<times> sched \<Rightarrow> thread_ptr \<Rightarrow> (bool \<times> thread_ptr \<times> bool \<times> sched) c" where
  "exit_turn ret = (\<lambda>(is_zombie, s) t.
     c_bind (get_thr s t) (\<lambda>x.
     c_bind (get_thr s (active_thr s)) (\<lambda>a.
     if join_tid x = tid a then Inr (True, t, False, put_thr s t (x\<lparr>join_ret := ret\<rparr>))
     else Inr (False, t, is_zombie, s))))"

definition zombie_turn ::
    "thread_ptr \<Rightarrow> nat option \<Rightarrow> bool \<times> sched \<Rightarrow> thread_ptr \<Rightarrow> (bool \<times> thread_ptr \<times> bool \<times> sched) c" where
  "zombie_turn thread value_ptr = (\<lambda>(found, s) z.
     c_bind (get_thr s z) (\<lambda>zthread.
     c_bind (get_thr s thread) (\<lambda>x.
     if tid x = tid zthread then
       c_bind (store_ret s value_ptr (join_ret x)) (\<lambda>s1. Inr (True, thread, True, s1))
     else Inr (False, thread, found, s))))"

text \<open>The loop from \<open>create_queue\<close> to \<open>delete_queue\<close>; the new queue is returned.\<close>

definition heap_loop ::
    "('s \<Rightarrow> thread_ptr \<Rightarrow> (bool \<times> thread_ptr \<times> 's) c) \<Rightarrow> addr \<Rightarrow> addr \<Rightarrow> nat \<Rightarrow> queue_heap \<Rightarrow> 's \<Rightarrow>
     (addr \<times> queue_heap \<times> 's) c" where
  "heap_loop turn src dst n h s =
     (let (tmp_queue, h1) = create_queue h in
      c_bind (drain queue_is_empty queue_remove queue_insert turn src dst tmp_queue n h1 s) (\<lambda>(h2, s').
      c_bind (delete_queue h2 src) (\<lambda>(freed, h3). Inr (tmp_queue, h3, s'))))"

definition heap_wake :: "list_ptrs \<Rightarrow> nat \<Rightarrow> queue_heap \<Rightarrow> sched \<Rightarrow> (unit \<times> list_ptrs \<times> queue_heap \<times> sched) c" where
  "heap_wake a n h s =
     c_bind (heap_loop wake_turn (sleep_q a) (exe_q a) n h s) (\<lambda>(tmp_queue, h', s').
     Inr ((), a\<lparr>sleep_q := tmp_queue\<rparr>, h', s'))"

definition heap_exit ::
    "list_ptrs \<Rightarrow> void_ptr \<Rightarrow> nat \<Rightarrow> queue_heap \<Rightarrow> sched \<Rightarrow> (bool \<times> list_ptrs \<times> queue_heap \<times> sched) c" where
  "heap_exit a ret n h s =
     c_bind (heap_loop (exit_turn ret) (join_q a) (exe_q a) n h (True, s)) (\<lambda>(tmp_queue, h', is_zombie, s').
     Inr (is_zombie, a\<lparr>join_q := tmp_queue\<rparr>, h', s'))"

definition heap_zombies ::
    "list_ptrs \<Rightarrow> thread_ptr \<Rightarrow> nat option \<Rightarrow> nat \<Rightarrow> queue_heap \<Rightarrow> sched \<Rightarrow>
     (bool \<times> list_ptrs \<times> queue_heap \<times> sched) c" where
  "heap_zombies a thread value_ptr n h s =
     c_bind (heap_loop (zombie_turn thread value_ptr) (zombie_q a) (dead_q a) n h (False, s))
       (\<lambda>(tmp_queue, h', found, s'). Inr (found, a\<lparr>zombie_q := tmp_queue\<rparr>, h', s'))"

section \<open>The loops on lists\<close>

text \<open>The fields that are no lists.\<close>

definition off_lists :: "sched \<Rightarrow> sched" where
  "off_lists s = s\<lparr>exe_thr_list := [], dead_thr_list := [], sleep_thr_list := [], join_thr_list := [],
     zombie_thr_list := []\<rparr>"

lemma sift_commute:
  assumes "\<And>s t. turn (g s) t = c_bind (turn s t) (\<lambda>(b, u, s'). Inr (b, u, g s'))"
  shows "sift turn ts (g s) = c_bind (sift turn ts s) (\<lambda>(ys, ns, s'). Inr (ys, ns, g s'))"
proof (induction ts arbitrary: s)
  case (Cons t ts)
  show ?case
  proof (cases "turn s t")
    case (Inr r)
    then obtain b u s1 where "turn s t = Inr (b, u, s1)" by (cases r) auto
    then show ?thesis by (cases "sift turn ts s1") (auto simp: assms Cons.IH)
  qed (simp add: assms)
qed simp

lemma sift_keeps:
  assumes "\<And>s t b u s'. turn s t = Inr (b, u, s') \<Longrightarrow> P s \<Longrightarrow> P s'"
  shows "sift turn ts s = Inr (ys, ns, s') \<Longrightarrow> P s \<Longrightarrow> P s'"
proof (induction ts arbitrary: s ys ns)
  case (Cons t ts)
  then show ?case using assms by (fastforce simp: c_bind_eq_Inr split: if_splits)
qed simp

lemmas loop_turns = wake_turn_def exit_turn_def zombie_turn_def store_ret_def get_thr_def put_thr_def

lemma wake_loop_sift:
  "wake_loop ts tmp s = c_bind (sift wake_turn ts s) (\<lambda>(ys, ns, s').
     Inr (s'\<lparr>exe_thr_list := exe_thr_list s @ ys, sleep_thr_list := tmp @ ns\<rparr>))"
proof (induction ts arbitrary: tmp s)
  case (Cons t ts)
  have c: "sift wake_turn ts (s\<lparr>exe_thr_list := e\<rparr>) =
      c_bind (sift wake_turn ts s) (\<lambda>(ys, ns, s'). Inr (ys, ns, s'\<lparr>exe_thr_list := e\<rparr>))" for s e
    by (rule sift_commute) (simp add: loop_turns split: option.split)
  show ?case
  proof (cases "get_thr s t")
    case (Inr x)
    then show ?thesis by (cases "wake_time x = Clock s") (simp_all add: Cons.IH c wake_turn_def [of s t] c_bind_assoc split_beta Let_def)
  qed (simp add: wake_turn_def)
qed simp

lemma exit_loop_sift:
  "exit_loop ret ts tmp z s = c_bind (sift (exit_turn ret) ts (z, s)) (\<lambda>(ys, ns, z', s').
     Inr (z', s'\<lparr>exe_thr_list := exe_thr_list s @ ys, join_thr_list := tmp @ ns\<rparr>))"
proof (induction ts arbitrary: tmp z s)
  case (Cons t ts)
  have c: "sift (exit_turn ret) ts (z, s\<lparr>exe_thr_list := e\<rparr>) =
      c_bind (sift (exit_turn ret) ts (z, s)) (\<lambda>(ys, ns, zs). Inr (ys, ns, apsnd (\<lambda>s'. s'\<lparr>exe_thr_list := e\<rparr>) zs))" for z s e
    by (rule sift_commute [where g = "apsnd (\<lambda>s'. s'\<lparr>exe_thr_list := e\<rparr>)" and s = "(z, s)", simplified])
      (auto simp: loop_turns split: option.split)
  have turn: "exit_turn ret (z, s) t = c_bind (get_thr s t) (\<lambda>x. c_bind (get_thr s (active_thr s)) (\<lambda>a.
      if join_tid x = tid a then Inr (True, t, False, put_thr s t (x\<lparr>join_ret := ret\<rparr>)) else Inr (False, t, z, s)))"
    by (simp add: exit_turn_def)
  show ?case
  proof (cases "get_thr s t")
    case (Inr x)
    show ?thesis
    proof (cases "get_thr s (active_thr s)")
      case (Inr a)
      with \<open>get_thr s t = Inr x\<close> show ?thesis
        by (cases "join_tid x = tid a") (simp_all add: Cons.IH c turn c_bind_assoc split_beta Let_def)
    qed (simp add: Inr turn)
  qed (simp add: turn)
qed simp

lemma zombie_loop_sift:
  "zombie_loop thread value_ptr ts tmp found s =
     c_bind (sift (zombie_turn thread value_ptr) ts (found, s)) (\<lambda>(ys, ns, found', s').
     Inr (found', s'\<lparr>dead_thr_list := dead_thr_list s @ ys, zombie_thr_list := tmp @ ns\<rparr>))"
proof (induction ts arbitrary: tmp found s)
  case (Cons t ts)
  let ?turn = "zombie_turn thread value_ptr"
  have c: "sift ?turn ts (z, s\<lparr>dead_thr_list := e\<rparr>) =
      c_bind (sift ?turn ts (z, s)) (\<lambda>(ys, ns, zs). Inr (ys, ns, apsnd (\<lambda>s'. s'\<lparr>dead_thr_list := e\<rparr>) zs))" for z s e
    by (rule sift_commute [where g = "apsnd (\<lambda>s'. s'\<lparr>dead_thr_list := e\<rparr>)" and s = "(z, s)", simplified])
      (auto simp: loop_turns deref_def split: option.split)
  have turn: "?turn (found, s) t = c_bind (get_thr s t) (\<lambda>zt. c_bind (get_thr s thread) (\<lambda>x.
      if tid x = tid zt then c_bind (store_ret s value_ptr (join_ret x)) (\<lambda>s1. Inr (True, thread, True, s1))
      else Inr (False, thread, found, s)))"
    by (simp add: zombie_turn_def)
  show ?case
  proof (cases "get_thr s t")
    case (Inr zt)
    show ?thesis
    proof (cases "get_thr s thread")
      case (Inr x)
      show ?thesis
      proof (cases "store_ret s value_ptr (join_ret x)")
        case (Inl e)
        with \<open>get_thr s t = Inr zt\<close> \<open>get_thr s thread = Inr x\<close> show ?thesis
          by (simp add: Cons.IH c turn c_bind_assoc split_beta)
      next
        case (Inr s1)
        then have "dead_thr_list s1 = dead_thr_list s" by (auto simp: store_ret_def c_bind_eq_Inr)
        with \<open>get_thr s t = Inr zt\<close> \<open>get_thr s thread = Inr x\<close> Inr show ?thesis
          by (simp add: Cons.IH c turn c_bind_assoc split_beta)
      qed
    qed (simp add: Inr turn)
  qed (simp add: turn)
qed simp

section \<open>The refinement\<close>

definition on_queues :: "list_ptrs \<Rightarrow> (addr \<Rightarrow> thread_ptr list option) \<Rightarrow> sched \<Rightarrow> bool" where
  "on_queues a M s \<longleftrightarrow> distinct [exe_q a, dead_q a, sleep_q a, join_q a, zombie_q a]
     \<and> M (exe_q a) = Some (exe_thr_list s) \<and> M (dead_q a) = Some (dead_thr_list s)
     \<and> M (sleep_q a) = Some (sleep_thr_list s) \<and> M (join_q a) = Some (join_thr_list s)
     \<and> M (zombie_q a) = Some (zombie_thr_list s)"

text \<open>Both results are the same fault, or the same value with states that agree: the heap holds the lists of
  the model, all other fields are equal, and the other queues on the heap are as they were.\<close>

definition same_outcome ::
    "list_ptrs \<Rightarrow> (addr \<Rightarrow> thread_ptr list option) \<Rightarrow> ('x \<times> sched) c \<Rightarrow>
     ('x \<times> list_ptrs \<times> queue_heap \<times> sched) c \<Rightarrow> bool" where
  "same_outcome a M m r \<longleftrightarrow> (case (m, r) of
     (Inl e, Inl e') \<Rightarrow> e = e'
   | (Inr (x, s'), Inr (x', a', h', s'')) \<Rightarrow> x = x' \<and> off_lists s'' = off_lists s'
       \<and> (\<exists>M'. heap_rep h' M' \<and> on_queues a' M' s'
           \<and> (\<forall>q ts. M q = Some ts \<longrightarrow> q \<notin> {exe_q a, dead_q a, sleep_q a, join_q a, zombie_q a} \<longrightarrow> M' q = Some ts))
   | _ \<Rightarrow> False)"

lemma heap_loop_rep:
  assumes "heap_rep h M" and "M src = Some ts" and "M dst = Some ds" and "src \<noteq> dst" and "length ts < n"
  shows "case sift turn ts s of
      Inl e \<Rightarrow> heap_loop turn src dst n h s = Inl e
    | Inr (ys, ns, s') \<Rightarrow> \<exists>tmp h'. heap_loop turn src dst n h s = Inr (tmp, h', s') \<and> tmp \<notin> dom M
        \<and> heap_rep h' ((M(dst \<mapsto> ds @ ys, tmp \<mapsto> ns))(src := None))"
proof -
  let ?tmp = "fst (create_queue h)" and ?h1 = "snd (create_queue h)"
  have new: "?tmp \<notin> dom M" and r1: "heap_rep ?h1 (M(?tmp \<mapsto> []))"
    by (rule qh.create_fresh [OF assms(1)], rule qh.create_rep [OF assms(1)])
  then have ne: "?tmp \<noteq> src" "?tmp \<noteq> dst" using assms(2,3) by auto
  let ?M = "M(?tmp \<mapsto> [])"
  have M: "?M src = Some ts" "?M dst = Some ds" "?M ?tmp = Some []" using assms(2,3) ne by auto
  note d = qh.drain_rep [OF r1 M assms(4) ne(1) [symmetric] ne(2) [symmetric] assms(5), of turn s]
  show ?thesis
  proof (cases "sift turn ts s")
    case (Inl e)
    then show ?thesis using d by (simp add: heap_loop_def split_beta)
  next
    case (Inr r)
    then obtain ys ns s' where r: "sift turn ts s = Inr (ys, ns, s')" by (cases r) auto
    let ?M2 = "?M(src \<mapsto> [], dst \<mapsto> ds @ ys, ?tmp \<mapsto> [] @ ns)"
    obtain h2 where h2: "drain queue_is_empty queue_remove queue_insert turn src dst ?tmp n ?h1 s = Inr (h2, s')"
      "heap_rep h2 ?M2" using d r by auto
    have "?M2 src = Some []" using ne assms(4) by simp
    from delete_queue_rep [OF h2(2) this] obtain fr h3
      where h3: "delete_queue h2 src = Inr (fr, h3)" "heap_rep h3 (?M2(src := None))" by blast
    have "?M2(src := None) = (M(dst \<mapsto> ds @ ys, ?tmp \<mapsto> ns))(src := None)"
      using ne assms(4) by (auto simp: fun_eq_iff)
    then show ?thesis using new r h2(1) h3 by (auto simp: heap_loop_def split_beta)
  qed
qed

text \<open>The lists that a turn does not touch.\<close>

definition same_lists :: "sched \<Rightarrow> sched \<Rightarrow> bool" where
  "same_lists s s' \<longleftrightarrow> exe_thr_list s' = exe_thr_list s \<and> dead_thr_list s' = dead_thr_list s
     \<and> sleep_thr_list s' = sleep_thr_list s \<and> join_thr_list s' = join_thr_list s \<and> zombie_thr_list s' = zombie_thr_list s"

lemma sift_same_lists:
  "sift wake_turn ts s = Inr (ys, ns, s') \<Longrightarrow> same_lists s s'"
  "sift (exit_turn ret) ts (z, s) = Inr (ys, ns, z', s') \<Longrightarrow> same_lists s s'"
  "sift (zombie_turn thread value_ptr) ts (z, s) = Inr (ys, ns, z', s') \<Longrightarrow> same_lists s s'"
proof -
  show "sift wake_turn ts s = Inr (ys, ns, s') \<Longrightarrow> same_lists s s'"
    by (rule sift_keeps [where P = "same_lists s"])
      (auto simp: loop_turns same_lists_def c_bind_eq_Inr split: if_splits option.splits)
  show "sift (exit_turn ret) ts (z, s) = Inr (ys, ns, z', s') \<Longrightarrow> same_lists s s'"
    by (rule sift_keeps [where P = "\<lambda>x. same_lists s (snd x)" and s = "(z, s)" and s' = "(z', s')", simplified])
      (auto simp: loop_turns same_lists_def c_bind_eq_Inr split: if_splits option.splits)
  show "sift (zombie_turn thread value_ptr) ts (z, s) = Inr (ys, ns, z', s') \<Longrightarrow> same_lists s s'"
    by (rule sift_keeps [where P = "\<lambda>x. same_lists s (snd x)" and s = "(z, s)" and s' = "(z', s')", simplified])
      (auto simp: loop_turns same_lists_def c_bind_eq_Inr split: if_splits option.splits)
qed

lemma on_queues_fresh:
  assumes "on_queues a M s" and "tmp \<notin> dom M"
  shows "tmp \<notin> {exe_q a, dead_q a, sleep_q a, join_q a, zombie_q a}"
  using assms by (auto simp: on_queues_def)

lemma heap_wake_same:
  assumes "heap_rep h M" and q: "on_queues a M s" and "length (sleep_thr_list s) < n"
  shows "same_outcome a M (c_bind (wake_sleepers s) (\<lambda>s'. Inr ((), s'))) (heap_wake a n h s)"
proof -
  have "M (sleep_q a) = Some (sleep_thr_list s)" "M (exe_q a) = Some (exe_thr_list s)" "sleep_q a \<noteq> exe_q a"
    using q by (auto simp: on_queues_def)
  note l = heap_loop_rep [OF assms(1) this assms(3), of wake_turn s]
  show ?thesis
  proof (cases "sift wake_turn (sleep_thr_list s) s")
    case (Inl e)
    then show ?thesis using l by (simp add: wake_sleepers_def wake_loop_sift heap_wake_def same_outcome_def)
  next
    case (Inr r)
    then obtain ys ns s' where r: "sift wake_turn (sleep_thr_list s) s = Inr (ys, ns, s')" by (cases r) auto
    then obtain tmp h' where h: "heap_loop wake_turn (sleep_q a) (exe_q a) n h s = Inr (tmp, h', s')" "tmp \<notin> dom M"
      "heap_rep h' ((M(exe_q a \<mapsto> exe_thr_list s @ ys, tmp \<mapsto> ns))(sleep_q a := None))" using l by auto
    have f: "tmp \<notin> {exe_q a, dead_q a, sleep_q a, join_q a, zombie_q a}" "M tmp = None"
      using on_queues_fresh [OF q h(2)] h(2) by auto
    show ?thesis
      using h(1,3) r f q sift_same_lists(1) [OF r]
      by (auto simp: wake_sleepers_def wake_loop_sift heap_wake_def same_outcome_def on_queues_def same_lists_def
          off_lists_def intro!: exI [of _ "(M(exe_q a \<mapsto> exe_thr_list s @ ys, tmp \<mapsto> ns))(sleep_q a := None)"])
  qed
qed

lemma heap_exit_same:
  assumes "heap_rep h M" and q: "on_queues a M s" and "length (join_thr_list s) < n"
  shows "same_outcome a M (exit_loop ret (join_thr_list s) [] True s) (heap_exit a ret n h s)"
proof -
  have "M (join_q a) = Some (join_thr_list s)" "M (exe_q a) = Some (exe_thr_list s)" "join_q a \<noteq> exe_q a"
    using q by (auto simp: on_queues_def)
  note l = heap_loop_rep [OF assms(1) this assms(3), of "exit_turn ret" "(True, s)"]
  show ?thesis
  proof (cases "sift (exit_turn ret) (join_thr_list s) (True, s)")
    case (Inl e)
    then show ?thesis using l by (simp add: exit_loop_sift heap_exit_def same_outcome_def)
  next
    case (Inr r)
    then obtain ys ns z s' where r: "sift (exit_turn ret) (join_thr_list s) (True, s) = Inr (ys, ns, z, s')" by (cases r) auto
    then obtain tmp h' where h: "heap_loop (exit_turn ret) (join_q a) (exe_q a) n h (True, s) = Inr (tmp, h', z, s')"
      "tmp \<notin> dom M" "heap_rep h' ((M(exe_q a \<mapsto> exe_thr_list s @ ys, tmp \<mapsto> ns))(join_q a := None))" using l by auto
    have f: "tmp \<notin> {exe_q a, dead_q a, sleep_q a, join_q a, zombie_q a}" "M tmp = None"
      using on_queues_fresh [OF q h(2)] h(2) by auto
    show ?thesis
      using h(1,3) r f q sift_same_lists(2) [OF r]
      by (auto simp: exit_loop_sift heap_exit_def same_outcome_def on_queues_def same_lists_def
          off_lists_def intro!: exI [of _ "(M(exe_q a \<mapsto> exe_thr_list s @ ys, tmp \<mapsto> ns))(join_q a := None)"])
  qed
qed

lemma heap_zombies_same:
  assumes "heap_rep h M" and q: "on_queues a M s" and "length (zombie_thr_list s) < n"
  shows "same_outcome a M (zombie_loop thread value_ptr (zombie_thr_list s) [] False s)
    (heap_zombies a thread value_ptr n h s)"
proof -
  let ?turn = "zombie_turn thread value_ptr"
  have "M (zombie_q a) = Some (zombie_thr_list s)" "M (dead_q a) = Some (dead_thr_list s)" "zombie_q a \<noteq> dead_q a"
    using q by (auto simp: on_queues_def)
  note l = heap_loop_rep [OF assms(1) this assms(3), of ?turn "(False, s)"]
  show ?thesis
  proof (cases "sift ?turn (zombie_thr_list s) (False, s)")
    case (Inl e)
    then show ?thesis using l by (simp add: zombie_loop_sift heap_zombies_def same_outcome_def)
  next
    case (Inr r)
    then obtain ys ns z s' where r: "sift ?turn (zombie_thr_list s) (False, s) = Inr (ys, ns, z, s')" by (cases r) auto
    then obtain tmp h' where h: "heap_loop ?turn (zombie_q a) (dead_q a) n h (False, s) = Inr (tmp, h', z, s')"
      "tmp \<notin> dom M" "heap_rep h' ((M(dead_q a \<mapsto> dead_thr_list s @ ys, tmp \<mapsto> ns))(zombie_q a := None))" using l by auto
    have f: "tmp \<notin> {exe_q a, dead_q a, sleep_q a, join_q a, zombie_q a}" "M tmp = None"
      using on_queues_fresh [OF q h(2)] h(2) by auto
    show ?thesis
      using h(1,3) r f q sift_same_lists(3) [OF r]
      by (auto simp: zombie_loop_sift heap_zombies_def same_outcome_def on_queues_def same_lists_def
          off_lists_def intro!: exI [of _ "(M(dead_q a \<mapsto> dead_thr_list s @ ys, tmp \<mapsto> ns))(zombie_q a := None)"])
  qed
qed

text \<open>C30: The lists of the scheduler are refined by the queues of \<open>queue.c\<close>, in every state, also when a thread
  is in several lists. When five queues on a heap hold the lists, then the last loop of the
  dispatcher, the loop of \<open>exit\<close> over the threads that join and the loop of \<open>join\<close> over the
  zombies, run on the heap, end in the same fault as on lists or in the same state: the threads have the same fields,
  the queues, with a new one for the list that was gone through, hold the new lists, and no
  other queue is touched.\<close>

theorem thread_lists_on_queues:
  assumes "heap_rep h M" and "on_queues a M s"
    and "length (sleep_thr_list s) < n" and "length (join_thr_list s) < n" and "length (zombie_thr_list s) < n"
  shows "same_outcome a M (c_bind (wake_sleepers s) (\<lambda>s'. Inr ((), s'))) (heap_wake a n h s)
    \<and> same_outcome a M (exit_loop ret (join_thr_list s) [] True s) (heap_exit a ret n h s)
    \<and> same_outcome a M (zombie_loop thread value_ptr (zombie_thr_list s) [] False s)
        (heap_zombies a thread value_ptr n h s)"
  using heap_wake_same heap_exit_same heap_zombies_same assms by blast

section \<open>An example\<close>

definition no_queues :: queue_heap where
  "no_queues = \<lparr>elems = (\<lambda>_. None), queues = (\<lambda>_. None), empty_element_ptr = None, next_addr = 0\<rparr>"

definition five_queues :: queue_heap where
  "five_queues = ((\<lambda>h. snd (create_queue h)) ^^ 5) no_queues"

definition demo_ptrs :: list_ptrs where
  "demo_ptrs = \<lparr>exe_q = 0, dead_q = 1, sleep_q = 2, join_q = 3, zombie_q = 4\<rparr>"

lemma five_queues_rep: "heap_rep five_queues [0 \<mapsto> [], 1 \<mapsto> [], 2 \<mapsto> [], 3 \<mapsto> [], 4 \<mapsto> []]"
proof -
  have fst_create: "fst (create_queue h) = next_addr h" and next_create: "next_addr (snd (create_queue h)) = Suc (next_addr h)" for h
    by (simp_all add: create_queue_def Let_def)
  have "heap_rep no_queues Map.empty" by (auto simp: heap_rep_def no_queues_def)
  note qh.create_rep [OF this] and n0 = fst_create [of no_queues]
  note qh.create_rep [OF this(1)]
  note qh.create_rep [OF this]
  note qh.create_rep [OF this]
  note qh.create_rep [OF this]
  then show ?thesis
    by (simp add: five_queues_def eval_nat_numeral fst_create next_create) (simp add: no_queues_def eval_nat_numeral)
qed

text \<open>The first thread sleeps for one tick: the loop on the heap wakes it at the next one.\<close>

theorem thread_lists_on_queues_witness:
  "\<exists>s h a' h' s' M. perform_all demo_sleep main_thread = Some s \<and> sleep_thr_list s = [1]
     \<and> heap_wake demo_ptrs 2 h (s\<lparr>Clock := 2\<rparr>) = Inr ((), a', h', s') \<and> wake s' 1 = Some 0
     \<and> heap_rep h' M \<and> M (exe_q a') = Some [1] \<and> M (sleep_q a') = Some []"
proof -
  obtain s where s: "perform_all demo_sleep main_thread = Some s" "exe_thr_list s = []" "sleep_thr_list s = [1]"
    "wake s 1 = Some 2"
    using demo_sleep_run by auto
  have "map_option (\<lambda>s. (dead_thr_list s, join_thr_list s, zombie_thr_list s)) (perform_all demo_sleep main_thread) =
      Some ([], [], [])" by code_simp
  then have l: "dead_thr_list s = []" "join_thr_list s = []" "zombie_thr_list s = []" using s(1) by auto
  let ?M0 = "[0 \<mapsto> [], 1 \<mapsto> [], 2 \<mapsto> [], 3 \<mapsto> [], 4 \<mapsto> []] :: addr \<Rightarrow> thread_ptr list option"
  obtain h where h: "heap_rep h (?M0(2 \<mapsto> [1]))"
    using qh.insert_rep [OF five_queues_rep, of 2 "[]" 1] by auto
  let ?M = "?M0(2 \<mapsto> [1])" and ?s = "s\<lparr>Clock := 2\<rparr>"
  have q: "on_queues demo_ptrs ?M ?s" using s l by (simp add: on_queues_def demo_ptrs_def)
  obtain x where x: "threads s 1 = Some x" "wake_time x = 2" using s(4) by (auto simp: wake_def)
  have w: "wake_sleepers ?s = Inr ((put_thr ?s 1 (x\<lparr>wake_time := 0, state := 0\<rparr>))
      \<lparr>exe_thr_list := [1], sleep_thr_list := []\<rparr>)"
    using s x by (simp add: wake_sleepers_def get_thr_def Let_def put_thr_def)
  have "same_outcome demo_ptrs ?M (c_bind (wake_sleepers ?s) (\<lambda>s'. Inr ((), s'))) (heap_wake demo_ptrs 2 h ?s)"
    using thread_lists_on_queues [OF h q, of 2] s l by simp
  then obtain a' h' s' M' where "heap_wake demo_ptrs 2 h ?s = Inr ((), a', h', s')" "heap_rep h' M'"
    "M' (exe_q a') = Some [1]" "M' (sleep_q a') = Some []"
    and off: "off_lists s' = off_lists (put_thr ?s 1 (x\<lparr>wake_time := 0, state := 0\<rparr>))"
    unfolding w same_outcome_def
    by (auto simp: on_queues_def off_lists_def split: sum.splits)
  moreover have "threads (off_lists s') 1 = Some (x\<lparr>wake_time := 0, state := 0\<rparr>)" unfolding off
    by (simp add: off_lists_def put_thr_def)
  then have "wake s' 1 = Some 0" by (simp add: off_lists_def wake_def)
  ultimately show ?thesis using s by blast
qed

end
