(* ===== verification/Sthread_Context.thy ===== *)
theory Sthread_Context
  imports C_Prelude
begin

text \<open>
  Contexts of user-level threads on the machine, \<open>src/sthread_lib/sthread_ctx.c\<close> and the routine in
  assembly of \<open>src/sthread_lib/sthread_switch_i386.h\<close>, the processor of \<open>src/include/config.h\<close>.

  The memory is a function from 32-bit addresses to bytes, a context is a pointer to two fields in
  it: \<open>stackbase\<close>, then \<open>sp\<close>. The registers are a function; the program counter is only given a value
  by \<open>ret\<close>. Allocated blocks are a list of addresses and sizes. What \<open>malloc\<close> returns are arguments of
  the operations, 0 if it fails; memory that it returns keeps its contents. Messages are not
  modelled.

  A suspended thread is its continuation: the registers and the program counter with which it goes
  on. The abstract machine of the second part holds them in a map, and a switch of contexts goes on
  with one of them; the code keeps them on the stacks.
\<close>

section \<open>The machine\<close>

datatype reg = EAX | ECX | EDX | EBX | ESP | EBP | ESI | EDI

record machine =
  gpr :: "reg \<Rightarrow> u32"
  eip :: u32
  ram :: "u32 \<Rightarrow> byte"
  mblocks :: "(u32 \<times> nat) list"

definition load32 :: "(u32 \<Rightarrow> byte) \<Rightarrow> u32 \<Rightarrow> u32" where
  "load32 m a = of_le32 [m a, m (a + 1), m (a + 2), m (a + 3)]"

definition store32 :: "(u32 \<Rightarrow> byte) \<Rightarrow> u32 \<Rightarrow> u32 \<Rightarrow> u32 \<Rightarrow> byte" where
  "store32 m a v = m(a := le32 v ! 0, a + 1 := le32 v ! 1, a + 2 := le32 v ! 2, a + 3 := le32 v ! 3)"

text \<open>The instructions of the routine. \<open>pusha\<close> pushes the stack pointer as it was before, \<open>popa\<close> skips it.\<close>

datatype instr = Pusha | Popa | Movl reg reg | Movl_store reg reg | Ret

definition push :: "u32 \<Rightarrow> machine \<Rightarrow> machine" where
  "push v s = s\<lparr>gpr := (gpr s)(ESP := gpr s ESP - 4), ram := store32 (ram s) (gpr s ESP - 4) v\<rparr>"

definition pop :: "reg \<Rightarrow> machine \<Rightarrow> machine" where
  "pop r s = s\<lparr>gpr := ((gpr s)(ESP := gpr s ESP + 4))(r := load32 (ram s) (gpr s ESP))\<rparr>"

definition pop_skip :: "machine \<Rightarrow> machine" where
  "pop_skip s = s\<lparr>gpr := (gpr s)(ESP := gpr s ESP + 4)\<rparr>"

definition pusha_order :: "reg list" where
  "pusha_order = [EAX, ECX, EDX, EBX, ESP, EBP, ESI, EDI]"

fun exec1 :: "instr \<Rightarrow> machine \<Rightarrow> machine" where
  "exec1 Pusha s = fold (\<lambda>r. push (gpr s r)) pusha_order s"
| "exec1 Popa s = fold (\<lambda>r. if r = ESP then pop_skip else pop r) (rev pusha_order) s"
| "exec1 (Movl src dst) s = s\<lparr>gpr := (gpr s)(dst := gpr s src)\<rparr>"
| "exec1 (Movl_store src dst) s = s\<lparr>ram := store32 (ram s) (gpr s dst) (gpr s src)\<rparr>"
| "exec1 Ret s = s\<lparr>gpr := (gpr s)(ESP := gpr s ESP + 4), eip := load32 (ram s) (gpr s ESP)\<rparr>"

definition switch_code :: "instr list" where
  "switch_code = [Pusha, Movl_store ESP EAX, Movl EDX ESP, Popa, Ret]"

section \<open>The operations on contexts\<close>

definition sizeof_ctx :: nat where
  "sizeof_ctx = 8"

definition sthread_stack_size :: nat where
  "sthread_stack_size = 64 * 1024"

definition CPU_SWITCH_REGISTERS :: u32 where
  "CPU_SWITCH_REGISTERS = 8"

definition stackbase :: "(u32 \<Rightarrow> byte) \<Rightarrow> u32 \<Rightarrow> u32" where
  "stackbase m ctx = load32 m ctx"

definition ctx_sp :: "(u32 \<Rightarrow> byte) \<Rightarrow> u32 \<Rightarrow> u32" where
  "ctx_sp m ctx = load32 m (ctx + 4)"

definition set_stackbase :: "u32 \<Rightarrow> u32 \<Rightarrow> (u32 \<Rightarrow> byte) \<Rightarrow> u32 \<Rightarrow> byte" where
  "set_stackbase ctx v m = store32 m ctx v"

definition set_sp :: "u32 \<Rightarrow> u32 \<Rightarrow> (u32 \<Rightarrow> byte) \<Rightarrow> u32 \<Rightarrow> byte" where
  "set_sp ctx v m = store32 m (ctx + 4) v"

definition mem_zero :: "u32 \<Rightarrow> nat \<Rightarrow> (u32 \<Rightarrow> byte) \<Rightarrow> u32 \<Rightarrow> byte" where
  "mem_zero a n m = (\<lambda>x. if unat (x - a) < n then 0 else m x)"

definition c_free :: "u32 \<Rightarrow> machine \<Rightarrow> machine c" where
  "c_free p s =
     (if p = 0 then Inr s
      else if p \<in> fst ` set (mblocks s) then Inr (s\<lparr>mblocks := filter (\<lambda>b. fst b \<noteq> p) (mblocks s)\<rparr>)
      else Inl LibraryMisuse)"

definition sthread_init_stack :: "u32 \<Rightarrow> u32 \<Rightarrow> (u32 \<Rightarrow> byte) \<Rightarrow> u32 \<Rightarrow> byte" where
  "sthread_init_stack ctx func m =
     (let m1 = mem_zero (stackbase m ctx) sthread_stack_size m;
          m2 = set_sp ctx (ctx_sp m1 ctx - 4) m1;
          m3 = store32 m2 (ctx_sp m2 ctx) func
      in set_sp ctx (ctx_sp m3 ctx - CPU_SWITCH_REGISTERS * 4) m3)"

text \<open>\<open>p\<close> and \<open>b\<close> are what the two calls of \<open>malloc\<close> return.\<close>

definition sthread_new_ctx :: "u32 \<Rightarrow> u32 \<Rightarrow> u32 \<Rightarrow> machine \<Rightarrow> (u32 \<times> machine) c" where
  "sthread_new_ctx p b func s =
     (if p = 0 then Inr (0, s)
      else
        let s1 = s\<lparr>mblocks := (p, sizeof_ctx) # mblocks s\<rparr>;
            m1 = set_stackbase p b (ram s1) in
        if stackbase m1 p = 0 then c_bind (c_free p (s1\<lparr>ram := m1\<rparr>)) (\<lambda>s2. Inr (0, s2))
        else
          let s2 = s1\<lparr>mblocks := (b, sthread_stack_size) # mblocks s1\<rparr>;
              m2 = set_sp p (stackbase m1 p + of_nat sthread_stack_size - 16) m1
          in Inr (p, s2\<lparr>ram := sthread_init_stack p func m2\<rparr>))"

definition sthread_new_blank_ctx :: "u32 \<Rightarrow> machine \<Rightarrow> (u32 \<times> machine) c" where
  "sthread_new_blank_ctx p s =
     (if p = 0 then Inl NullDeref
      else Inr (p, s\<lparr>mblocks := (p, sizeof_ctx) # mblocks s,
                      ram := set_stackbase p 0 (set_sp p 0xbeefcafe (ram s))\<rparr>))"

definition sthread_free_ctx :: "u32 \<Rightarrow> machine \<Rightarrow> machine c" where
  "sthread_free_ctx ctx s =
     (if ctx = 0 then Inl NullDeref
      else
        c_bind (if stackbase (ram s) ctx \<noteq> 0 then c_free (stackbase (ram s) ctx) s else Inr s) (\<lambda>s1.
        c_free ctx (s1\<lparr>ram := set_sp ctx 0xdeaddead (set_stackbase ctx 0xdeaddead (ram s1))\<rparr>)))"

text \<open>The call of the routine passes its arguments in \<open>EAX\<close> and \<open>EDX\<close> and pushes the address \<open>ret\<close>
  behind the call.\<close>

definition ctx_switch :: "u32 \<Rightarrow> u32 \<Rightarrow> u32 \<Rightarrow> machine \<Rightarrow> machine c" where
  "ctx_switch old new ret s =
     (if old \<noteq> new then
        if old = 0 \<or> new = 0 then Inl NullDeref
        else Inr (fold exec1 switch_code
          (push ret (s\<lparr>gpr := (gpr s)(EAX := old + 4, EDX := ctx_sp (ram s) new)\<rparr>)))
      else Inr (s\<lparr>eip := ret\<rparr>))"

section \<open>Regions of the memory\<close>

definition rgn :: "u32 \<Rightarrow> nat \<Rightarrow> u32 set" where
  "rgn a n = {x. unat (x - a) < n}"

definition same_on :: "u32 set \<Rightarrow> (u32 \<Rightarrow> byte) \<Rightarrow> (u32 \<Rightarrow> byte) \<Rightarrow> bool" where
  "same_on A m m' \<longleftrightarrow> (\<forall>x \<in> A. m' x = m x)"

lemma rgn_sub:
  assumes "unat d + k \<le> n"
  shows "rgn (a + d) k \<subseteq> rgn a n"
proof
  fix x assume "x \<in> rgn (a + d) k"
  then have "unat (x - (a + d)) < k" by (simp add: rgn_def)
  moreover have "x - a = (x - (a + d)) + d" by simp
  then have "unat (x - a) \<le> unat (x - (a + d)) + unat d"
    by (metis mod_less_eq_dividend unat_word_ariths(1))
  ultimately show "x \<in> rgn a n" using assms by (simp add: rgn_def)
qed

lemma load32_same: "same_on (rgn a 4) m m' \<Longrightarrow> load32 m' a = load32 m a"
  by (simp add: load32_def same_on_def rgn_def)

lemma store32_outside: "same_on (- rgn a 4) m (store32 m a v)"
  by (auto simp: same_on_def store32_def rgn_def)

lemma load32_store32 [simp]: "load32 (store32 m a v) a = v"
proof -
  have "[le32 v ! 0, le32 v ! 1, le32 v ! 2, le32 v ! 3] = le32 v"
    by (simp add: le32_def numeral_eq_Suc)
  then show ?thesis by (simp add: load32_def store32_def)
qed

lemma load32_store32_other:
  assumes "4 \<le> unat (b - a)" and "4 \<le> unat (a - b)"
  shows "load32 (store32 m a v) b = load32 m b"
proof (rule load32_same)
  have "x \<in> rgn b 4 \<Longrightarrow> x \<notin> rgn a 4" for x
    using assms by (auto simp: rgn_def; unat_arith; auto)
  then show "same_on (rgn b 4) m (store32 m a v)"
    using store32_outside [of a m v] by (auto simp: same_on_def)
qed

section \<open>What a switch does\<close>

text \<open>The continuation that a saved stack pointer stands for.\<close>

type_synonym cont = "(reg \<Rightarrow> u32) \<times> u32"

definition cont_at :: "(u32 \<Rightarrow> byte) \<Rightarrow> u32 \<Rightarrow> cont" where
  "cont_at m a =
     ((\<lambda>r. case r of EDI \<Rightarrow> load32 m a | ESI \<Rightarrow> load32 m (a + 4) | EBP \<Rightarrow> load32 m (a + 8)
        | ESP \<Rightarrow> a + 36 | EBX \<Rightarrow> load32 m (a + 16) | EDX \<Rightarrow> load32 m (a + 20)
        | ECX \<Rightarrow> load32 m (a + 24) | EAX \<Rightarrow> load32 m (a + 28)),
      load32 m (a + 32))"

definition save_frame :: "(reg \<Rightarrow> u32) \<Rightarrow> u32 \<Rightarrow> (u32 \<Rightarrow> byte) \<Rightarrow> u32 \<Rightarrow> byte" where
  "save_frame g ret m =
     (let e = g ESP;
          m1 = store32 m (e - 4) ret;
          m2 = store32 m1 (e - 8) (g EAX);
          m3 = store32 m2 (e - 12) (g ECX);
          m4 = store32 m3 (e - 16) (g EDX);
          m5 = store32 m4 (e - 20) (g EBX);
          m6 = store32 m5 (e - 24) (e - 4);
          m7 = store32 m6 (e - 28) (g EBP);
          m8 = store32 m7 (e - 32) (g ESI)
      in store32 m8 (e - 36) (g EDI))"

lemma exec_save:
  "exec1 Pusha (push ret s) =
     s\<lparr>gpr := (gpr s)(ESP := gpr s ESP - 36), ram := save_frame (gpr s) ret (ram s)\<rparr>"
  by (simp add: push_def pusha_order_def save_frame_def Let_def)

lemma exec_restore:
  "exec1 Ret (exec1 Popa s) = s\<lparr>gpr := fst (cont_at (ram s) (gpr s ESP)), eip := snd (cont_at (ram s) (gpr s ESP))\<rparr>"
proof -
  let ?k = "cont_at (ram s) (gpr s ESP)"
  have "fst ?k = gpr (exec1 Ret (exec1 Popa s))"
    by (rule ext) (simp add: cont_at_def pop_def pop_skip_def pusha_order_def add.assoc split: reg.split)
  moreover have "snd ?k = eip (exec1 Ret (exec1 Popa s))"
    by (simp add: cont_at_def pop_def pop_skip_def pusha_order_def add.assoc)
  moreover have "exec1 Ret (exec1 Popa s)
      = s\<lparr>gpr := gpr (exec1 Ret (exec1 Popa s)), eip := eip (exec1 Ret (exec1 Popa s))\<rparr>"
    by (simp add: pop_def pop_skip_def pusha_order_def)
  ultimately show ?thesis by simp
qed

lemma cont_save [simp]: "cont_at (save_frame g ret m) (g ESP - 36) = (g, ret)"
proof -
  have e: "g ESP - 36 + k = g ESP - (36 - k)" for k by simp
  note at = e [of 4] e [of 8] e [of 16] e [of 20] e [of 24] e [of 28] e [of 32] e [of 36]
  have "fst (cont_at (save_frame g ret m) (g ESP - 36)) r = g r" for r
    by (cases r) (simp_all add: cont_at_def save_frame_def Let_def load32_store32_other at)
  moreover have "snd (cont_at (save_frame g ret m) (g ESP - 36)) = ret"
    by (simp add: cont_at_def save_frame_def Let_def load32_store32_other at)
  ultimately show ?thesis by (simp add: prod_eq_iff fun_eq_iff)
qed

lemma save_frame_outside: "same_on (- rgn (g ESP - 36) 36) m (save_frame g ret m)"
proof -
  have "x \<notin> rgn (g ESP - k) 4" if "x \<notin> rgn (g ESP - 36) 36" "unat (36 - k) + 4 \<le> 36" for x k
    using that rgn_sub [of "36 - k" 4 36 "g ESP - 36"] by auto
  then show ?thesis
    using store32_outside by (simp add: same_on_def save_frame_def Let_def)
qed

lemma same_on_mono: "same_on B m m' \<Longrightarrow> A \<subseteq> B \<Longrightarrow> same_on A m m'"
  by (auto simp: same_on_def)

lemma same_on_trans: "same_on A m m' \<Longrightarrow> same_on A m' m'' \<Longrightarrow> same_on A m m''"
  by (auto simp: same_on_def)

lemma cont_at_same:
  assumes "same_on (rgn a 36) m m'"
  shows "cont_at m' a = cont_at m a"
proof -
  have "load32 m' (a + d) = load32 m (a + d)" if "unat d + 4 \<le> 36" for d
    using load32_same same_on_mono [OF assms rgn_sub [OF that]] by blast
  from this [of 0] this show ?thesis by (simp add: cont_at_def fun_eq_iff split: reg.split)
qed

lemma load32_store32_sep: "rgn a 4 \<inter> rgn b 4 = {} \<Longrightarrow> load32 (store32 m a v) b = load32 m b"
  by (rule load32_same, rule same_on_mono [OF store32_outside]) blast

lemma ctx_field [simp]: "rgn c 4 \<subseteq> rgn c 8" "rgn (c + 4) 4 \<subseteq> rgn c 8"
  using rgn_sub [of 0 4 8 c] rgn_sub [of 4 4 8 c] by simp_all

lemma set_sp_outside: "same_on (- rgn c 8) m (set_sp c v m)"
  unfolding set_sp_def by (rule same_on_mono [OF store32_outside]) (use ctx_field in blast)

lemma set_stackbase_outside: "same_on (- rgn c 8) m (set_stackbase c v m)"
  unfolding set_stackbase_def by (rule same_on_mono [OF store32_outside]) (use ctx_field in blast)

lemma ctx_sp_set [simp]: "ctx_sp (set_sp c v m) c = v"
  by (simp add: ctx_sp_def set_sp_def)

lemma stackbase_set [simp]: "stackbase (set_stackbase c v m) c = v"
  by (simp add: stackbase_def set_stackbase_def)

lemma stackbase_set_sp [simp]: "stackbase (set_sp c v m) c = stackbase m c"
  by (simp add: stackbase_def set_sp_def load32_store32_other)

lemma ctx_same:
  assumes "same_on (rgn c 8) m m'"
  shows "stackbase m' c = stackbase m c" and "ctx_sp m' c = ctx_sp m c"
  using load32_same [OF same_on_mono [OF assms ctx_field(1)]] load32_same [OF same_on_mono [OF assms ctx_field(2)]]
  by (simp_all add: stackbase_def ctx_sp_def)

text \<open>The switch in one equation: a frame on the stack, its address in the old context, and on with the
  continuation that the new context refers to.\<close>

definition call_regs :: "u32 \<Rightarrow> u32 \<Rightarrow> machine \<Rightarrow> reg \<Rightarrow> u32" where
  "call_regs old new s = (gpr s)(EAX := old + 4, EDX := ctx_sp (ram s) new)"

definition switched_ram :: "u32 \<Rightarrow> u32 \<Rightarrow> u32 \<Rightarrow> machine \<Rightarrow> u32 \<Rightarrow> byte" where
  "switched_ram old new ret s = set_sp old (gpr s ESP - 36) (save_frame (call_regs old new s) ret (ram s))"

lemma ctx_switch_eq:
  assumes "old \<noteq> new" and "old \<noteq> 0" and "new \<noteq> 0"
  shows "ctx_switch old new ret s =
    (let m = switched_ram old new ret s; k = cont_at m (ctx_sp (ram s) new)
     in Inr (s\<lparr>gpr := fst k, eip := snd k, ram := m\<rparr>))"
proof -
  let ?s = "s\<lparr>gpr := call_regs old new s\<rparr>"
  have "fold exec1 switch_code (push ret ?s)
      = exec1 Ret (exec1 Popa (exec1 (Movl EDX ESP) (exec1 (Movl_store ESP EAX) (exec1 Pusha (push ret ?s)))))"
    by (simp add: switch_code_def)
  also have "\<dots> = (let m = switched_ram old new ret s; k = cont_at m (ctx_sp (ram s) new)
     in s\<lparr>gpr := fst k, eip := snd k, ram := m\<rparr>)"
    unfolding exec_save exec_restore
    by (simp add: Let_def switched_ram_def set_sp_def call_regs_def)
  finally show ?thesis using assms by (simp add: ctx_switch_def call_regs_def Let_def)
qed

section \<open>What a new context is\<close>

definition start_regs :: "u32 \<Rightarrow> reg \<Rightarrow> u32" where
  "start_regs b r = (if r = ESP then b + of_nat sthread_stack_size - 16 else 0)"

lemma load32_zeroed: "unat d + 4 \<le> n \<Longrightarrow> load32 (mem_zero b n m) (b + d) = 0"
proof -
  assume d: "unat d + 4 \<le> n"
  have "mem_zero b n m x = 0" if "x \<in> rgn (b + d) 4" for x
    using that rgn_sub [OF d] by (auto simp: mem_zero_def rgn_def)
  then have "load32 (mem_zero b n m) (b + d) = of_le32 [0, 0, 0, 0]"
    by (simp add: load32_def rgn_def)
  then show ?thesis by (simp add: of_le32_def)
qed

lemma mem_zero_outside: "same_on (- rgn b n) m (mem_zero b n m)"
  by (simp add: same_on_def mem_zero_def rgn_def)

lemma init_stack:
  fixes m :: "u32 \<Rightarrow> byte" and p func :: u32
  defines "b \<equiv> stackbase m p"
  defines "m' \<equiv> sthread_init_stack p func (set_sp p (b + of_nat sthread_stack_size - 16) m)"
  assumes sep: "rgn p 8 \<inter> rgn b sthread_stack_size = {}"
  shows "stackbase m' p = b" "ctx_sp m' p = b + 65484"
    "cont_at m' (b + 65484) = (start_regs b, func)"
    "load32 m' (b + 65520) = 0"
    "same_on (- (rgn p 8 \<union> rgn b sthread_stack_size)) m m'"
proof -
  define m2 where "m2 = set_sp p (b + of_nat sthread_stack_size - 16) m"
  define m3 where "m3 = mem_zero b sthread_stack_size m2"
  define m4 where "m4 = set_sp p (b + 65516) m3"
  define m5 where "m5 = store32 m4 (b + 65516) func"
  have in_stack: "rgn (b + d) 4 \<subseteq> rgn b sthread_stack_size" if "unat d + 4 \<le> 65536" for d
    using rgn_sub [of d 4 65536] that by (simp add: sthread_stack_size_def)
  have b2: "stackbase m2 p = b" by (simp add: m2_def b_def)
  have s2: "ctx_sp m2 p = b + 65520" by (simp add: m2_def sthread_stack_size_def)
  have k3: "same_on (rgn p 8) m2 m3"
    unfolding m3_def by (rule same_on_mono [OF mem_zero_outside]) (use sep in blast)
  have b4: "stackbase m4 p = b" "ctx_sp m4 p = b + 65516" using ctx_same [OF k3] b2 by (simp_all add: m4_def)
  have k5: "same_on (rgn p 8) m4 m5"
    unfolding m5_def by (rule same_on_mono [OF store32_outside]) (use sep in_stack [of 65516] in auto)
  have "ctx_sp m3 p = b + 65520" using ctx_same [OF k3] s2 by simp
  moreover have "ctx_sp m5 p = b + 65516" using ctx_same [OF k5] b4 by simp
  ultimately have sps: "ctx_sp m3 p - 4 = b + 65516" "ctx_sp m5 p - CPU_SWITCH_REGISTERS * 4 = b + 65484"
    by (simp_all add: CPU_SWITCH_REGISTERS_def)
  have m': "m' = set_sp p (b + 65484) m5"
    unfolding m'_def sthread_init_stack_def Let_def m2_def [symmetric] b2 m3_def [symmetric] sps(1)
      m4_def [symmetric] b4(2) m5_def [symmetric] sps(2) ..
  show "stackbase m' p = b" "ctx_sp m' p = b + 65484"
    using b4 ctx_same [OF k5] by (simp_all add: m')
  have zero: "load32 m' (b + d) = 0" if "unat d + 4 \<le> 65536" "4 \<le> unat (d - 65516)" "4 \<le> unat (65516 - d)" for d
  proof -
    have "same_on (rgn (b + d) 4) m5 m'"
      unfolding m' by (rule same_on_mono [OF set_sp_outside]) (use sep in_stack that(1) in blast)
    moreover have "load32 m5 (b + d) = load32 m4 (b + d)"
      unfolding m5_def by (rule load32_store32_other) (use that in simp_all)
    moreover have "same_on (rgn (b + d) 4) m3 m4"
      unfolding m4_def by (rule same_on_mono [OF set_sp_outside]) (use sep in_stack that(1) in blast)
    moreover have "load32 m3 (b + d) = 0"
      unfolding m3_def by (rule load32_zeroed) (use that(1) in \<open>simp add: sthread_stack_size_def\<close>)
    ultimately show ?thesis by (simp add: load32_same)
  qed
  have "same_on (rgn (b + 65516) 4) m5 m'"
    unfolding m' by (rule same_on_mono [OF set_sp_outside]) (use sep in_stack [of 65516] in auto)
  then have f: "load32 m' (b + 65516) = func" by (simp add: load32_same m5_def)
  show "load32 m' (b + 65520) = 0" by (rule zero) simp_all
  have "fst (cont_at m' (b + 65484)) r = start_regs b r" for r
    by (cases r) (simp_all add: cont_at_def start_regs_def sthread_stack_size_def add.assoc zero zero [of 65484])
  then show "cont_at m' (b + 65484) = (start_regs b, func)"
    using f by (simp add: prod_eq_iff fun_eq_iff cont_at_def add.assoc)
  show "same_on (- (rgn p 8 \<union> rgn b sthread_stack_size)) m m'"
  proof -
    let ?O = "- (rgn p 8 \<union> rgn b sthread_stack_size)"
    have "same_on ?O m m2" unfolding m2_def by (rule same_on_mono [OF set_sp_outside]) blast
    moreover have "same_on ?O m2 m3" unfolding m3_def by (rule same_on_mono [OF mem_zero_outside]) blast
    moreover have "same_on ?O m3 m4" unfolding m4_def by (rule same_on_mono [OF set_sp_outside]) blast
    moreover have "same_on ?O m4 m5"
      unfolding m5_def by (rule same_on_mono [OF store32_outside]) (use in_stack [of 65516] in auto)
    moreover have "same_on ?O m5 m'" unfolding m' by (rule same_on_mono [OF set_sp_outside]) blast
    ultimately show ?thesis by (blast intro: same_on_trans)
  qed
qed

lemma new_ctx_ok:
  assumes "p \<noteq> 0" and "b \<noteq> 0" and sep: "rgn p 8 \<inter> rgn b sthread_stack_size = {}"
  obtains s' where "sthread_new_ctx p b func s = Inr (p, s')"
    and "gpr s' = gpr s" and "mblocks s' = (b, sthread_stack_size) # (p, sizeof_ctx) # mblocks s"
    and "stackbase (ram s') p = b" and "ctx_sp (ram s') p = b + 65484"
    and "cont_at (ram s') (b + 65484) = (start_regs b, func)" and "load32 (ram s') (b + 65520) = 0"
    and "same_on (- (rgn p 8 \<union> rgn b sthread_stack_size)) (ram s) (ram s')"
proof -
  let ?m = "set_stackbase p b (ram s)"
  let ?m' = "sthread_init_stack p func (set_sp p (b + of_nat sthread_stack_size - 16) ?m)"
  have b: "stackbase ?m p = b" by simp
  note i = init_stack [of p ?m func, unfolded b, OF sep]
  have "same_on (- (rgn p 8 \<union> rgn b sthread_stack_size)) (ram s) ?m'"
    using same_on_trans [OF same_on_mono [OF set_stackbase_outside] i(5)] by blast
  then show ?thesis using that [of "s\<lparr>mblocks := (b, sthread_stack_size) # (p, sizeof_ctx) # mblocks s, ram := ?m'\<rparr>"]
      assms(1,2) i(1-4) by (simp add: sthread_new_ctx_def Let_def)
qed

end
