(* ===== verification/Sthread_Coroutines.thy ===== *)
theory Sthread_Coroutines
  imports Sthread_Context
begin

text \<open>
  What the contexts are for. The specification is a machine with continuations in a map: creating a
  context adds one, a switch goes on with one and leaves that of the running thread. The steps of
  \<open>ctx_step\<close> are those of the code, together with the changes of the map; the theorem says that the
  code goes on with what the map holds.

  A thread runs code of its own between the operations. It may change all registers, its own stack,
  memory that belongs to no context, and allocate and free other blocks, but it leaves the contexts and
  the stacks of the suspended threads alone. \<open>M\<close> is the stack of the process, on which the first
  thread runs. Of \<open>malloc\<close> it is assumed that a new block overlaps neither other blocks nor \<open>M\<close>.
\<close>

section \<open>The steps\<close>

record coroutines =
  mach :: machine
  now :: u32
  waiting :: "u32 \<Rightarrow> cont option"

definition contexts :: "coroutines \<Rightarrow> u32 set" where
  "contexts W = insert (now W) (dom (waiting W))"

definition stack_area :: "u32 set \<Rightarrow> (u32 \<Rightarrow> byte) \<Rightarrow> u32 \<Rightarrow> u32 set" where
  "stack_area M m c = (if stackbase m c = 0 then M else rgn (stackbase m c) sthread_stack_size)"

definition free_block :: "u32 set \<Rightarrow> (u32 \<times> nat) list \<Rightarrow> u32 \<times> nat \<Rightarrow> bool" where
  "free_block M bs x \<longleftrightarrow> fst x \<noteq> 0 \<and> rgn (fst x) (snd x) \<inter> M = {}
     \<and> (\<forall>y \<in> set bs. fst x \<noteq> fst y \<and> rgn (fst x) (snd x) \<inter> rgn (fst y) (snd y) = {})"

fun heap_ok :: "u32 set \<Rightarrow> (u32 \<times> nat) list \<Rightarrow> bool" where
  "heap_ok M [] = True"
| "heap_ok M (x # bs) = (free_block M bs x \<and> heap_ok M bs)"

text \<open>The blocks that the contexts own.\<close>

definition own_blocks :: "coroutines \<Rightarrow> (u32 \<times> nat) set" where
  "own_blocks W = {(c, sizeof_ctx) |c. c \<in> contexts W}
     \<union> {(stackbase (ram (mach W)) c, sthread_stack_size) |c. c \<in> contexts W \<and> stackbase (ram (mach W)) c \<noteq> 0}"

text \<open>Room for the return address and the registers below the stack pointer.\<close>

definition has_room :: "u32 set \<Rightarrow> coroutines \<Rightarrow> bool" where
  "has_room M W \<longleftrightarrow> rgn (gpr (mach W) ESP - 36) 36 \<subseteq> stack_area M (ram (mach W)) (now W)"

inductive ctx_step :: "u32 set \<Rightarrow> coroutines \<Rightarrow> coroutines \<Rightarrow> bool" for M where
  runs: "\<lbrakk>\<And>c. c \<in> contexts W \<Longrightarrow> same_on (rgn c sizeof_ctx) (ram (mach W)) (ram s');
     \<And>c. c \<in> dom (waiting W) \<Longrightarrow> same_on (stack_area M (ram (mach W)) c) (ram (mach W)) (ram s');
     heap_ok M (mblocks s'); own_blocks W \<subseteq> set (mblocks s')\<rbrakk>
    \<Longrightarrow> ctx_step M W (W\<lparr>mach := s'\<rparr>)"
| creates: "\<lbrakk>free_block M (mblocks (mach W)) (p, sizeof_ctx);
     free_block M ((p, sizeof_ctx) # mblocks (mach W)) (b, sthread_stack_size);
     sthread_new_ctx p b func (mach W) = Inr (c, s')\<rbrakk>
    \<Longrightarrow> ctx_step M W (W\<lparr>mach := s', waiting := (waiting W)(c \<mapsto> (start_regs b, func))\<rparr>)"
| create_fails: "\<lbrakk>p = 0 \<or> free_block M (mblocks (mach W)) (p, sizeof_ctx) \<and> b = 0;
     sthread_new_ctx p b func (mach W) = Inr (c, s')\<rbrakk>
    \<Longrightarrow> ctx_step M W (W\<lparr>mach := s'\<rparr>)"
| switches: "\<lbrakk>c \<in> dom (waiting W); has_room M W; ctx_switch (now W) c ret (mach W) = Inr s'\<rbrakk>
    \<Longrightarrow> ctx_step M W (W\<lparr>mach := s', now := c,
          waiting := (waiting W)(c := None, now W \<mapsto> (call_regs (now W) c (mach W), ret))\<rparr>)"
| stays: "ctx_switch (now W) (now W) ret (mach W) = Inr s' \<Longrightarrow> ctx_step M W (W\<lparr>mach := s'\<rparr>)"
| frees: "\<lbrakk>c \<in> dom (waiting W); sthread_free_ctx c (mach W) = Inr s'\<rbrakk>
    \<Longrightarrow> ctx_step M W (W\<lparr>mach := s', waiting := (waiting W)(c := None)\<rparr>)"

definition ctx_start :: "u32 set \<Rightarrow> coroutines \<Rightarrow> bool" where
  "ctx_start M W \<longleftrightarrow> (\<exists>s p. heap_ok M (mblocks s) \<and> free_block M (mblocks s) (p, sizeof_ctx)
     \<and> sthread_new_blank_ctx p s = Inr (now W, mach W) \<and> waiting W = Map.empty)"

section \<open>The invariant\<close>

text \<open>A suspended context refers to its continuation, in a frame on its stack.\<close>

definition suspended :: "u32 set \<Rightarrow> (u32 \<Rightarrow> byte) \<Rightarrow> u32 \<Rightarrow> cont \<Rightarrow> bool" where
  "suspended M m c k \<longleftrightarrow> cont_at m (ctx_sp m c) = k \<and> rgn (ctx_sp m c) 36 \<subseteq> stack_area M m c"

definition ctx_inv :: "u32 set \<Rightarrow> coroutines \<Rightarrow> bool" where
  "ctx_inv M W \<longleftrightarrow> heap_ok M (mblocks (mach W)) \<and> own_blocks W \<subseteq> set (mblocks (mach W))
     \<and> now W \<notin> dom (waiting W) \<and> inj_on (stackbase (ram (mach W))) (contexts W)
     \<and> (\<forall>c k. waiting W c = Some k \<longrightarrow> suspended M (ram (mach W)) c k)"

lemma suspended_same:
  assumes "suspended M m c k" and "same_on (rgn c sizeof_ctx) m m'" and "same_on (stack_area M m c) m m'"
  shows "suspended M m' c k"
proof -
  have c: "stackbase m' c = stackbase m c" "ctx_sp m' c = ctx_sp m c"
    using ctx_same assms(2) by (simp_all add: sizeof_ctx_def)
  have "same_on (rgn (ctx_sp m c) 36) m m'"
    using assms(1,3) by (auto simp: suspended_def intro: same_on_mono)
  then have "cont_at m' (ctx_sp m c) = cont_at m (ctx_sp m c)" by (rule cont_at_same)
  moreover have "stack_area M m' c = stack_area M m c" using c(1) by (simp add: stack_area_def)
  ultimately show ?thesis using assms(1) c(2) by (simp add: suspended_def)
qed

lemma heap_ok_disjoint:
  assumes "heap_ok M bs" and "x \<in> set bs" and "y \<in> set bs" and "x \<noteq> y"
  shows "fst x \<noteq> fst y \<and> rgn (fst x) (snd x) \<inter> rgn (fst y) (snd y) = {}"
  using assms
proof (induction bs)
  case (Cons z bs)
  from Cons.prems consider "x = z" "y \<in> set bs" | "y = z" "x \<in> set bs" | "x \<in> set bs" "y \<in> set bs"
    by auto
  then show ?case
  proof cases
    case 2
    then have "fst z \<noteq> fst x \<and> rgn (fst z) (snd z) \<inter> rgn (fst x) (snd x) = {}"
      using Cons.prems(1) by (simp add: free_block_def)
    with 2(1) show ?thesis by auto
  qed (use Cons in \<open>auto simp: free_block_def\<close>)
qed simp

lemma heap_ok_block: "heap_ok M bs \<Longrightarrow> x \<in> set bs \<Longrightarrow> fst x \<noteq> 0 \<and> rgn (fst x) (snd x) \<inter> M = {}"
  by (induction bs) (auto simp: free_block_def)

lemma heap_ok_filter: "heap_ok M bs \<Longrightarrow> heap_ok M (filter P bs)"
  by (induction bs) (auto simp: free_block_def)

text \<open>Contexts and stacks are apart from each other.\<close>

lemma ctx_apart:
  assumes inv: "ctx_inv M W" and c: "c \<in> contexts W" and d: "d \<in> contexts W"
  shows "c \<noteq> 0" "rgn c sizeof_ctx \<inter> stack_area M (ram (mach W)) d = {}"
    "c \<noteq> d \<Longrightarrow> rgn c sizeof_ctx \<inter> rgn d sizeof_ctx = {}"
    "c \<noteq> d \<Longrightarrow> stack_area M (ram (mach W)) c \<inter> stack_area M (ram (mach W)) d = {}"
proof -
  let ?b = "stackbase (ram (mach W))" and ?bs = "mblocks (mach W)"
  have h: "heap_ok M ?bs" and inj: "inj_on ?b (contexts W)" using inv by (simp_all add: ctx_inv_def)
  have own: "(c, sizeof_ctx) \<in> set ?bs" "?b c \<noteq> 0 \<Longrightarrow> (?b c, sthread_stack_size) \<in> set ?bs"
    if "c \<in> contexts W" for c
    using inv that by (auto simp: ctx_inv_def own_blocks_def)
  show "c \<noteq> 0" using heap_ok_block [OF h own(1) [OF c]] by simp
  have size: "sizeof_ctx \<noteq> sthread_stack_size" by (simp add: sizeof_ctx_def sthread_stack_size_def)
  show "rgn c sizeof_ctx \<inter> stack_area M (ram (mach W)) d = {}"
  proof (cases "?b d = 0")
    case True
    then show ?thesis using heap_ok_block [OF h own(1) [OF c]] by (simp add: stack_area_def)
  next
    case False
    then show ?thesis using heap_ok_disjoint [OF h own(1) [OF c] own(2) [OF d False]] size
      by (simp add: stack_area_def)
  qed
  assume cd: "c \<noteq> d"
  show "rgn c sizeof_ctx \<inter> rgn d sizeof_ctx = {}"
    using heap_ok_disjoint [OF h own(1) [OF c] own(1) [OF d]] cd by simp
  have ne: "?b c \<noteq> ?b d" using inj c d cd by (auto simp: inj_on_def)
  have M: "rgn (?b x) sthread_stack_size \<inter> M = {}" if "x \<in> contexts W" "?b x \<noteq> 0" for x
    using heap_ok_block [OF h own(2) [OF that]] by simp
  show "stack_area M (ram (mach W)) c \<inter> stack_area M (ram (mach W)) d = {}"
  proof (cases "?b c = 0 \<or> ?b d = 0")
    case True
    then show ?thesis using M [OF c] M [OF d] ne by (auto simp: stack_area_def)
  next
    case False
    then show ?thesis using heap_ok_disjoint [OF h own(2) [OF c] own(2) [OF d]] ne by (simp add: stack_area_def)
  qed
qed

section \<open>Every step keeps it\<close>

lemma inv_mach:
  assumes inv: "ctx_inv M W"
    and base: "\<And>c. c \<in> contexts W \<Longrightarrow> stackbase (ram s') c = stackbase (ram (mach W)) c"
    and ctx: "\<And>c. c \<in> dom (waiting W) \<Longrightarrow> same_on (rgn c sizeof_ctx) (ram (mach W)) (ram s')"
    and area: "\<And>c. c \<in> dom (waiting W) \<Longrightarrow> same_on (stack_area M (ram (mach W)) c) (ram (mach W)) (ram s')"
    and heap: "heap_ok M (mblocks s')" "own_blocks W \<subseteq> set (mblocks s')"
  shows "ctx_inv M (W\<lparr>mach := s'\<rparr>)"
proof -
  have C: "contexts (W\<lparr>mach := s'\<rparr>) = contexts W" by (simp add: contexts_def)
  then have "own_blocks (W\<lparr>mach := s'\<rparr>) = own_blocks W"
    using base by (auto simp: own_blocks_def)
  moreover have "inj_on (stackbase (ram s')) (contexts W)"
    using inv inj_on_cong [of "contexts W" "stackbase (ram s')" "stackbase (ram (mach W))"] base
    by (simp add: ctx_inv_def)
  moreover have "suspended M (ram s') c k" if "waiting W c = Some k" for c k
  proof -
    have d: "c \<in> dom (waiting W)" using that by auto
    have "suspended M (ram (mach W)) c k" using inv that by (simp only: ctx_inv_def)
    from this ctx [OF d] area [OF d] show ?thesis by (rule suspended_same)
  qed
  ultimately show ?thesis using inv heap C by (simp add: ctx_inv_def)
qed

lemma inv_swap:
  assumes inv: "ctx_inv M W" and c: "c \<in> dom (waiting W)" and k: "suspended M (ram (mach W)) (now W) k"
  shows "ctx_inv M (W\<lparr>now := c, waiting := (waiting W)(c := None, now W \<mapsto> k)\<rparr>)"
proof -
  let ?W = "W\<lparr>now := c, waiting := (waiting W)(c := None, now W \<mapsto> k)\<rparr>"
  have "now W \<noteq> c" using inv c by (auto simp: ctx_inv_def)
  moreover have "contexts ?W = contexts W" using c by (auto simp: contexts_def)
  moreover from this have "own_blocks ?W = own_blocks W" by (simp add: own_blocks_def)
  ultimately show ?thesis using inv k by (auto simp: ctx_inv_def)
qed

lemma inv_remove:
  assumes inv: "ctx_inv M W"
  shows "ctx_inv M (W\<lparr>waiting := (waiting W)(c := None)\<rparr>)"
proof -
  let ?W = "W\<lparr>waiting := (waiting W)(c := None)\<rparr>"
  have C: "contexts ?W \<subseteq> contexts W" by (auto simp: contexts_def)
  then have "own_blocks ?W \<subseteq> own_blocks W" by (auto simp: own_blocks_def)
  then show ?thesis using inv C by (auto simp: ctx_inv_def intro: inj_on_subset)
qed

lemma inv_add:
  assumes inv: "ctx_inv M W" and c: "c \<notin> contexts W" and k: "suspended M (ram (mach W)) c k"
    and blocks: "(c, sizeof_ctx) \<in> set (mblocks (mach W))"
      "(stackbase (ram (mach W)) c, sthread_stack_size) \<in> set (mblocks (mach W))"
    and new: "\<And>d. d \<in> contexts W \<Longrightarrow> stackbase (ram (mach W)) d \<noteq> stackbase (ram (mach W)) c"
  shows "ctx_inv M (W\<lparr>waiting := (waiting W)(c \<mapsto> k)\<rparr>)"
proof -
  let ?W = "W\<lparr>waiting := (waiting W)(c \<mapsto> k)\<rparr>"
  have C: "contexts ?W = insert c (contexts W)" by (auto simp: contexts_def)
  then have "own_blocks ?W \<subseteq> own_blocks W \<union> {(c, sizeof_ctx), (stackbase (ram (mach W)) c, sthread_stack_size)}"
    by (auto simp: own_blocks_def)
  then have "own_blocks ?W \<subseteq> set (mblocks (mach W))" using inv blocks by (auto simp: ctx_inv_def)
  moreover have "inj_on (stackbase (ram (mach W))) (insert c (contexts W))"
  proof -
    have "stackbase (ram (mach W)) c \<notin> stackbase (ram (mach W)) ` contexts W" using new by force
    then show ?thesis using inv c by (simp add: ctx_inv_def)
  qed
  ultimately show ?thesis using inv k c C by (auto simp: ctx_inv_def contexts_def)
qed

text \<open>A block that \<open>malloc\<close> has just returned belongs to no context.\<close>

lemma new_block_apart:
  assumes inv: "ctx_inv M W" and p: "free_block M (mblocks (mach W)) (p, n)" and c: "c \<in> contexts W"
  shows "p \<noteq> c" "stackbase (ram (mach W)) c \<noteq> p" "rgn c sizeof_ctx \<inter> rgn p n = {}"
    "stack_area M (ram (mach W)) c \<inter> rgn p n = {}"
proof -
  let ?b = "stackbase (ram (mach W)) c"
  have own: "(c, sizeof_ctx) \<in> set (mblocks (mach W))" "?b \<noteq> 0 \<Longrightarrow> (?b, sthread_stack_size) \<in> set (mblocks (mach W))"
    using inv c by (auto simp: ctx_inv_def own_blocks_def)
  have new: "p \<noteq> fst y" "rgn (fst y) (snd y) \<inter> rgn p n = {}" if "y \<in> set (mblocks (mach W))" for y
    using p that by (auto simp: free_block_def)
  show "p \<noteq> c" "rgn c sizeof_ctx \<inter> rgn p n = {}" using new [OF own(1)] by simp_all
  have "p \<noteq> 0" "M \<inter> rgn p n = {}" using p by (auto simp: free_block_def)
  then show "?b \<noteq> p" "stack_area M (ram (mach W)) c \<inter> rgn p n = {}"
    using new [OF own(2)] by (cases "?b = 0"; force simp: stack_area_def)+
qed

lemma switch_ok:
  assumes inv: "ctx_inv M W" and k: "waiting W c = Some k" and room: "has_room M W"
  obtains s' where "ctx_switch (now W) c ret (mach W) = Inr s'" and "gpr s' = fst k" and "eip s' = snd k"
    and "ctx_inv M (W\<lparr>mach := s', now := c,
          waiting := (waiting W)(c := None, now W \<mapsto> (call_regs (now W) c (mach W), ret))\<rparr>)"
    and "\<And>f. has_room M (W\<lparr>mach := s', now := c, waiting := f\<rparr>)"
proof -
  let ?n = "now W" and ?s = "mach W" and ?r = "ram (mach W)"
  let ?g = "call_regs ?n c ?s" and ?a = "gpr ?s ESP - 36"
  let ?f = "save_frame ?g ret ?r" and ?m = "switched_ram ?n c ret ?s"
  have m: "?m = set_sp ?n ?a ?f" by (simp add: switched_ram_def)
  have g: "?g ESP = gpr ?s ESP" by (simp add: call_regs_def)
  have nC: "?n \<in> contexts W" by (simp add: contexts_def)
  have C: "d \<in> contexts W" "?n \<noteq> d" if "d \<in> dom (waiting W)" for d
    using that inv by (auto simp: contexts_def ctx_inv_def)
  have cW: "c \<in> dom (waiting W)" using k by auto
  have F: "rgn ?a 36 \<subseteq> stack_area M ?r ?n" using room by (simp add: has_room_def)
  have f: "same_on (- rgn ?a 36) ?r ?f" using save_frame_outside [of ?g] by (simp add: g)
  have out: "same_on A ?r ?m" if "A \<inter> rgn ?n sizeof_ctx = {}" "A \<inter> stack_area M ?r ?n = {}" for A
  proof -
    have "same_on A ?r ?f" by (rule same_on_mono [OF f]) (use that F in blast)
    moreover have "same_on A ?f ?m"
      unfolding m by (rule same_on_mono [OF set_sp_outside]) (use that in \<open>auto simp: sizeof_ctx_def\<close>)
    ultimately show ?thesis by (rule same_on_trans)
  qed
  have out_d: "same_on (rgn d sizeof_ctx) ?r ?m" "same_on (stack_area M ?r d) ?r ?m" if "d \<in> dom (waiting W)" for d
    using out ctx_apart [OF inv nC C(1) [OF that]] ctx_apart [OF inv C(1) [OF that] nC] C(2) [OF that] by blast+
  have fn: "same_on (rgn ?n 8) ?r ?f"
    by (rule same_on_mono [OF f]) (use ctx_apart(2) [OF inv nC nC] F in \<open>auto simp: sizeof_ctx_def\<close>)
  have base: "stackbase ?m d = stackbase ?r d" if "d \<in> contexts W" for d
  proof (cases "d = ?n")
    case True
    then show ?thesis using ctx_same(1) [OF fn] by (simp add: m)
  next
    case False
    with that have "d \<in> dom (waiting W)" by (simp add: contexts_def)
    from out_d(1) [OF this] show ?thesis using ctx_same(1) by (simp add: sizeof_ctx_def)
  qed
  define s' where "s' = ?s\<lparr>gpr := fst k, eip := snd k, ram := ?m\<rparr>"
  have sc: "suspended M ?r c k" using inv k by (simp only: ctx_inv_def)
  from suspended_same [OF this out_d [OF cW]] have "cont_at ?m (ctx_sp ?r c) = k"
    using ctx_same(2) out_d(1) [OF cW] by (simp add: suspended_def sizeof_ctx_def)
  then have run: "ctx_switch ?n c ret ?s = Inr s'"
    using ctx_switch_eq [of ?n c ret ?s] C(2) [OF cW] ctx_apart(1) [OF inv nC nC] ctx_apart(1) [OF inv C(1) [OF cW] nC]
    by (simp add: s'_def Let_def)
  have inv1: "ctx_inv M (W\<lparr>mach := s'\<rparr>)"
  proof (rule inv_mach [OF inv])
    show "heap_ok M (mblocks s')" "own_blocks W \<subseteq> set (mblocks s')" using inv by (simp_all add: s'_def ctx_inv_def)
  qed (use base out_d in \<open>simp_all add: s'_def\<close>)
  have "same_on (rgn ?a 36) ?f ?m"
    unfolding m by (rule same_on_mono [OF set_sp_outside])
      (use ctx_apart(2) [OF inv nC nC] F in \<open>auto simp: sizeof_ctx_def\<close>)
  then have "cont_at ?m ?a = (?g, ret)" using cont_at_same cont_save [of ?g ret ?r] by (simp add: g)
  moreover have "stack_area M ?m ?n = stack_area M ?r ?n" using base [OF nC] by (simp add: stack_area_def)
  ultimately have "suspended M (ram (mach (W\<lparr>mach := s'\<rparr>))) (now (W\<lparr>mach := s'\<rparr>)) (?g, ret)"
    using F by (simp add: suspended_def s'_def m)
  from inv_swap [OF inv1 _ this, of c] cW
  have "ctx_inv M (W\<lparr>mach := s', now := c, waiting := (waiting W)(c := None, ?n \<mapsto> (?g, ret))\<rparr>)" by simp
  moreover have "has_room M (W\<lparr>mach := s', now := c, waiting := f\<rparr>)" for f
    using sc base [OF C(1) [OF cW]] by (auto simp: has_room_def suspended_def cont_at_def s'_def stack_area_def)
  ultimately show ?thesis using that run by (simp add: s'_def)
qed

lemma create_ok:
  assumes inv: "ctx_inv M W" and p: "free_block M (mblocks (mach W)) (p, sizeof_ctx)"
    and b: "free_block M ((p, sizeof_ctx) # mblocks (mach W)) (b, sthread_stack_size)"
  obtains s' where "sthread_new_ctx p b func (mach W) = Inr (p, s')"
    and "load32 (ram s') (start_regs b ESP) = 0"
    and "gpr s' = gpr (mach W)" and "\<And>d. d \<in> contexts W \<Longrightarrow> stackbase (ram s') d = stackbase (ram (mach W)) d"
    and "ctx_inv M (W\<lparr>mach := s', waiting := (waiting W)(p \<mapsto> (start_regs b, func))\<rparr>)"
proof -
  let ?r = "ram (mach W)"
  have sep: "rgn p 8 \<inter> rgn b sthread_stack_size = {}" and p0: "p \<noteq> 0" "b \<noteq> 0"
    using p b by (auto simp: free_block_def sizeof_ctx_def)
  obtain s' where s': "sthread_new_ctx p b func (mach W) = Inr (p, s')"
    "gpr s' = gpr (mach W)" "mblocks s' = (b, sthread_stack_size) # (p, sizeof_ctx) # mblocks (mach W)" "stackbase (ram s') p = b"
    "ctx_sp (ram s') p = b + 65484" "cont_at (ram s') (b + 65484) = (start_regs b, func)"
    "load32 (ram s') (b + 65520) = 0" "same_on (- (rgn p 8 \<union> rgn b sthread_stack_size)) ?r (ram s')"
    by (rule new_ctx_ok [OF p0 sep])
  have b': "free_block M (mblocks (mach W)) (b, sthread_stack_size)" using b by (simp add: free_block_def)
  have same: "same_on (rgn d sizeof_ctx) ?r (ram s')" "same_on (stack_area M ?r d) ?r (ram s')" if "d \<in> contexts W" for d
    by (rule same_on_mono [OF s'(8)],
        use new_block_apart [OF inv p that] new_block_apart [OF inv b' that] in \<open>auto simp: sizeof_ctx_def\<close>)+
  have base: "stackbase (ram s') d = stackbase ?r d" if "d \<in> contexts W" for d
    using same(1) [OF that] ctx_same(1) by (simp add: sizeof_ctx_def)
  have inv1: "ctx_inv M (W\<lparr>mach := s'\<rparr>)"
  proof (rule inv_mach [OF inv])
    show "heap_ok M (mblocks s')" "own_blocks W \<subseteq> set (mblocks s')" using inv p b s'(3) by (auto simp: ctx_inv_def)
  qed (use base same in \<open>auto simp: contexts_def\<close>)
  have C: "contexts (W\<lparr>mach := s'\<rparr>) = contexts W" by (simp add: contexts_def)
  have "rgn (b + 65484) 36 \<subseteq> rgn b sthread_stack_size"
    using rgn_sub [of 65484 36 65536 b] by (simp add: sthread_stack_size_def)
  then have "suspended M (ram s') p (start_regs b, func)"
    using s'(4-6) p0 by (simp add: suspended_def stack_area_def)
  then have "ctx_inv M (W\<lparr>mach := s', waiting := (waiting W)(p \<mapsto> (start_regs b, func))\<rparr>)"
    using inv_add [OF inv1, of p "(start_regs b, func)"] new_block_apart(1) [OF inv p] new_block_apart(2) [OF inv b']
      s'(3,4) base C by (simp; blast)
  moreover have "start_regs b ESP = b + 65520" by (simp add: start_regs_def sthread_stack_size_def)
  ultimately show ?thesis using that s'(1,2,7) base by simp
qed

lemma create_fails_ok:
  assumes inv: "ctx_inv M W" and p: "p = 0 \<or> free_block M (mblocks (mach W)) (p, sizeof_ctx) \<and> b = 0"
    and run: "sthread_new_ctx p b func (mach W) = Inr (c, s')"
  shows "c = 0 \<and> ctx_inv M (W\<lparr>mach := s'\<rparr>)"
proof (cases "p = 0")
  case True
  then show ?thesis using inv run by (auto simp: sthread_new_ctx_def)
next
  case False
  let ?bs = "mblocks (mach W)"
  have fb: "free_block M ?bs (p, sizeof_ctx)" and b: "b = 0" using p False by auto
  then have "filter (\<lambda>x. fst x \<noteq> p) ?bs = ?bs" by (intro filter_True) (auto simp: free_block_def)
  then have s': "c = 0" "mblocks s' = ?bs" "ram s' = set_stackbase p 0 (ram (mach W))"
    using run False b by (auto simp: sthread_new_ctx_def Let_def c_free_def)
  have same: "same_on (rgn d sizeof_ctx) (ram (mach W)) (ram s')"
    "same_on (stack_area M (ram (mach W)) d) (ram (mach W)) (ram s')" if "d \<in> contexts W" for d
    unfolding s'(3)
    by (rule same_on_mono [OF set_stackbase_outside],
        use new_block_apart [OF inv fb that] in \<open>auto simp: sizeof_ctx_def\<close>)+
  have "ctx_inv M (W\<lparr>mach := s'\<rparr>)"
  proof (rule inv_mach [OF inv])
    show "stackbase (ram s') d = stackbase (ram (mach W)) d" if "d \<in> contexts W" for d
      using ctx_same(1) same(1) [OF that] by (simp add: sizeof_ctx_def)
    show "heap_ok M (mblocks s')" "own_blocks W \<subseteq> set (mblocks s')" using inv s'(2) by (auto simp: ctx_inv_def)
  qed (use same in \<open>auto simp: contexts_def\<close>)
  with s'(1) show ?thesis by simp
qed

lemma free_ok:
  assumes inv: "ctx_inv M W" and c: "c \<in> dom (waiting W)"
  obtains s' where "sthread_free_ctx c (mach W) = Inr s'"
    and "ctx_inv M (W\<lparr>mach := s', waiting := (waiting W)(c := None)\<rparr>)"
proof -
  let ?s = "mach W" and ?b = "\<lambda>d. stackbase (ram (mach W)) d"
  let ?W = "W\<lparr>waiting := (waiting W)(c := None)\<rparr>"
  have cC: "c \<in> contexts W" using c by (simp add: contexts_def)
  have h: "heap_ok M (mblocks ?s)" using inv by (simp add: ctx_inv_def)
  have own: "(d, sizeof_ctx) \<in> set (mblocks ?s)" "?b d \<noteq> 0 \<Longrightarrow> (?b d, sthread_stack_size) \<in> set (mblocks ?s)"
    if "d \<in> contexts W" for d
    using inv that by (auto simp: ctx_inv_def own_blocks_def)
  have size: "sizeof_ctx \<noteq> sthread_stack_size" by (simp add: sizeof_ctx_def sthread_stack_size_def)
  have apart: "d \<noteq> ?b e" if "d \<in> contexts W" "e \<in> contexts W" for d e
  proof (cases "?b e = 0")
    case True
    then show ?thesis using ctx_apart(1) [OF inv that(1) that(1)] by simp
  next
    case False
    then show ?thesis using heap_ok_disjoint [OF h own(1) [OF that(1)] own(2) [OF that(2) False]] size by auto
  qed
  define bs where "bs = filter (\<lambda>x. fst x \<noteq> c) (filter (\<lambda>x. ?b c \<noteq> 0 \<longrightarrow> fst x \<noteq> ?b c) (mblocks ?s))"
  define s' where "s' = ?s\<lparr>mblocks := bs, ram := set_sp c 0xdeaddead (set_stackbase c 0xdeaddead (ram ?s))\<rparr>"
  have "?b c \<in> fst ` set (mblocks ?s)" if "?b c \<noteq> 0" using own(2) [OF cC that] by force
  moreover have "c \<in> fst ` set (filter (\<lambda>x. ?b c \<noteq> 0 \<longrightarrow> fst x \<noteq> ?b c) (mblocks ?s))"
    using own(1) [OF cC] apart [OF cC cC] by force
  ultimately have run: "sthread_free_ctx c ?s = Inr s'"
    using ctx_apart(1) [OF inv cC cC] by (auto simp: sthread_free_ctx_def c_free_def s'_def bs_def)
  have inv1: "ctx_inv M ?W" using inv by (rule inv_remove)
  have dC: "d \<in> contexts W" "d \<noteq> c" if "d \<in> contexts ?W" for d
    using that inv c by (auto simp: contexts_def ctx_inv_def)
  have out: "same_on (- rgn c sizeof_ctx) (ram ?s) (ram s')"
    using same_on_trans [OF set_stackbase_outside set_sp_outside] by (simp add: s'_def sizeof_ctx_def)
  have same: "same_on (rgn d sizeof_ctx) (ram ?s) (ram s')" "same_on (stack_area M (ram ?s) d) (ram ?s) (ram s')"
    if "d \<in> contexts ?W" for d
    by (rule same_on_mono [OF out], use ctx_apart [OF inv cC dC(1) [OF that]] dC(2) [OF that] in blast)+
  have "ctx_inv M (?W\<lparr>mach := s'\<rparr>)"
  proof (rule inv_mach [OF inv1])
    show "stackbase (ram s') d = stackbase (ram (mach ?W)) d" if "d \<in> contexts ?W" for d
      using ctx_same(1) same(1) [OF that] by (simp add: sizeof_ctx_def)
    show "heap_ok M (mblocks s')" using h by (simp add: s'_def bs_def heap_ok_filter)
    show "own_blocks ?W \<subseteq> set (mblocks s')"
    proof
      fix x assume "x \<in> own_blocks ?W"
      then obtain d where d: "d \<in> contexts ?W" "x = (d, sizeof_ctx) \<or> x = (?b d, sthread_stack_size) \<and> ?b d \<noteq> 0"
        by (auto simp: own_blocks_def)
      have "?b d \<noteq> ?b c" using dC [OF d(1)] inv cC by (auto simp: ctx_inv_def inj_on_def)
      then show "x \<in> set (mblocks s')"
        using d(2) own [OF dC(1) [OF d(1)]] apart [OF dC(1) [OF d(1)] cC] apart [OF cC dC(1) [OF d(1)]] dC(2) [OF d(1)]
        by (auto simp: s'_def bs_def)
    qed
  qed (use same in \<open>auto simp: contexts_def\<close>)
  moreover have "?W\<lparr>mach := s'\<rparr> = W\<lparr>mach := s', waiting := (waiting W)(c := None)\<rparr>" by (cases W) simp
  ultimately show ?thesis using that run by simp
qed

lemma ctx_start_inv: "ctx_start M W \<Longrightarrow> ctx_inv M W"
proof -
  assume "ctx_start M W"
  then obtain s p where s: "heap_ok M (mblocks s)" "free_block M (mblocks s) (p, sizeof_ctx)"
      "sthread_new_blank_ctx p s = Inr (now W, mach W)" "waiting W = Map.empty"
    by (auto simp: ctx_start_def)
  then have "now W = p" "mach W = s\<lparr>mblocks := (p, sizeof_ctx) # mblocks s,
      ram := set_stackbase p 0 (set_sp p 0xbeefcafe (ram s))\<rparr>"
    by (auto simp: sthread_new_blank_ctx_def split: if_splits)
  then have m: "now W = p" "mblocks (mach W) = (p, sizeof_ctx) # mblocks s" "stackbase (ram (mach W)) p = 0"
    by simp_all
  have "contexts W = {p}" using m s(4) by (simp add: contexts_def)
  then show "ctx_inv M W" using s m by (auto simp: ctx_inv_def own_blocks_def)
qed

lemma ctx_step_inv: "ctx_step M W W' \<Longrightarrow> ctx_inv M W \<Longrightarrow> ctx_inv M W'"
proof (induction rule: ctx_step.induct)
  case (runs W s')
  have "c \<in> contexts W" if "c \<in> dom (waiting W)" for c using that by (simp add: contexts_def)
  with runs show ?case using ctx_same(1) by (intro inv_mach) (simp_all add: sizeof_ctx_def)
next
  case (creates W p b func c s')
  from create_ok [OF creates(4,1,2), of func] creates(3) show ?case by auto
next
  case (create_fails p W b func c s')
  from create_fails_ok [OF create_fails(3,1,2)] show ?case by simp
next
  case (switches c W ret s')
  from switches(1) obtain k where "waiting W c = Some k" by auto
  from switch_ok [OF switches(4) this switches(2), of ret] switches(3) show ?case by auto
next
  case (stays W ret s')
  then show ?case by (intro inv_mach) (auto simp: ctx_switch_def same_on_def ctx_inv_def)
next
  case (frees c W s')
  from free_ok [OF frees(3,1)] frees(2) show ?case by auto
qed

interpretation ctx: transition_system "ctx_start M" "ctx_step M" "ctx_inv M" for M
  by unfold_locales (fact ctx_start_inv, fact ctx_step_inv)

section \<open>A suspended thread goes on where it was\<close>

text \<open>C31: The contexts implement the abstract machine. In every state that the first thread reaches, the
  switch to a suspended context succeeds if the running thread has room for nine words on its stack,
  and it goes on with exactly the registers and the program counter of the context's continuation:
  where its own last switch was called, or, for a new context, at the start function, with the stack
  pointer 16 bytes below the end of the new stack. Freeing a suspended context succeeds, too: no block
  is freed twice.\<close>

theorem contexts_resume:
  assumes "reach (ctx_start M) (ctx_step M) W" and "waiting W c = Some k"
  shows "(has_room M W \<longrightarrow> (\<exists>s'. ctx_switch (now W) c ret (mach W) = Inr s' \<and> gpr s' = fst k \<and> eip s' = snd k))
    \<and> (\<exists>s'. sthread_free_ctx c (mach W) = Inr s')"
proof -
  from assms(1) have inv: "ctx_inv M W" by (rule ctx.reach_inv)
  have "c \<in> dom (waiting W)" using assms(2) by auto
  with switch_ok [OF inv assms(2), of ret] free_ok [OF inv] show ?thesis by metis
qed

text \<open>The first thread creates a context, switches to it and is switched back to.\<close>

definition main_stack :: "u32 set" where
  "main_stack = rgn 0xBF000000 65536"

definition demo_machine :: machine where
  "demo_machine = \<lparr>gpr = (\<lambda>r. if r = ESP then 0xBF00F000 else 7), eip = 0, ram = (\<lambda>a. 1), mblocks = []\<rparr>"

lemma rgn_disjoint: "n \<le> unat (b - a) \<Longrightarrow> k \<le> unat (a - b) \<Longrightarrow> rgn a n \<inter> rgn b k = {}"
  by (auto simp: rgn_def; unat_arith; auto)

theorem contexts_resume_witness:
  "\<exists>W k s'. reach (ctx_start main_stack) (ctx_step main_stack) W \<and> now W = 0x2000 \<and> waiting W 0x1000 = Some k
     \<and> ctx_switch 0x2000 0x1000 0x8049999 (mach W) = Inr s'
     \<and> eip s' = 0x8041234 \<and> gpr s' ESP = 0xBF00F000 \<and> gpr s' EBX = 7"
proof -
  let ?M = main_stack
  obtain s0 where s0: "sthread_new_blank_ctx 0x1000 demo_machine = Inr (0x1000, s0)" "gpr s0 = gpr demo_machine"
      "mblocks s0 = [(0x1000, sizeof_ctx)]" "stackbase (ram s0) 0x1000 = 0"
    by (simp add: sthread_new_blank_ctx_def demo_machine_def)
  define W0 where "W0 = \<lparr>mach = s0, now = 0x1000, waiting = Map.empty\<rparr>"
  have "ctx_start ?M W0"
    unfolding ctx_start_def using s0(1)
    by (intro exI [of _ demo_machine] exI [of _ "0x1000"])
      (simp add: W0_def demo_machine_def free_block_def main_stack_def sizeof_ctx_def rgn_disjoint)
  then have r0: "reach (ctx_start ?M) (ctx_step ?M) W0" by (rule reach_init)
  have fb: "free_block ?M (mblocks (mach W0)) (0x2000, sizeof_ctx)"
      "free_block ?M ((0x2000, sizeof_ctx) # mblocks (mach W0)) (0x3000, sthread_stack_size)"
    by (simp_all add: W0_def s0 free_block_def main_stack_def sizeof_ctx_def sthread_stack_size_def rgn_disjoint)
  obtain s1 where s1: "sthread_new_ctx 0x2000 0x3000 0x8048000 (mach W0) = Inr (0x2000, s1)" "gpr s1 = gpr s0"
      "stackbase (ram s1) 0x1000 = 0"
    using create_ok [OF ctx.reach_inv [OF r0] fb, of "0x8048000"] s0(4) by (auto simp: W0_def contexts_def)
  define W1 where "W1 = W0\<lparr>mach := s1, waiting := (waiting W0)(0x2000 \<mapsto> (start_regs 0x3000, 0x8048000))\<rparr>"
  have r1: "reach (ctx_start ?M) (ctx_step ?M) W1"
    unfolding W1_def by (rule reach_step [OF r0 ctx_step.creates [OF fb s1(1)]])
  have w1: "waiting W1 0x2000 = Some (start_regs 0x3000, 0x8048000)" "now W1 = 0x1000" "mach W1 = s1"
    by (simp_all add: W1_def W0_def)
  have room: "has_room ?M W1"
    using rgn_sub [of "0xEFDC" 36 65536 "0xBF000000"] s0(2) s1(2,3)
    by (simp add: has_room_def w1 stack_area_def main_stack_def demo_machine_def)
  obtain s2 where s2: "ctx_switch (now W1) 0x2000 0x8041234 (mach W1) = Inr s2"
      "\<And>f. has_room ?M (W1\<lparr>mach := s2, now := 0x2000, waiting := f\<rparr>)"
    using switch_ok [OF ctx.reach_inv [OF r1] w1(1) room, of "0x8041234"] by blast
  let ?W2 = "W1\<lparr>mach := s2, now := 0x2000,
      waiting := (waiting W1)(0x2000 := None, now W1 \<mapsto> (call_regs (now W1) 0x2000 (mach W1), 0x8041234))\<rparr>"
  have r2: "reach (ctx_start ?M) (ctx_step ?M) ?W2"
    using w1(1) by (intro reach_step [OF r1] ctx_step.switches room s2(1)) auto
  have "waiting ?W2 0x1000 = Some (call_regs 0x1000 0x2000 s1, 0x8041234)" by (simp add: w1)
  from contexts_resume [OF r2 this, of "0x8049999"] s2(2)
  obtain s' where "ctx_switch 0x2000 0x1000 0x8049999 (mach ?W2) = Inr s'"
      "gpr s' = call_regs 0x1000 0x2000 s1" "eip s' = 0x8041234"
    by auto
  with r2 s0(2) s1(2) show ?thesis
    by (intro exI [of _ ?W2] exI [of _ "(call_regs 0x1000 0x2000 s1, 0x8041234)"] exI [of _ s'])
      (simp add: w1 call_regs_def demo_machine_def)
qed

end
