(* ===== verification/Posix_Calls.thy ===== *)
theory Posix_Calls
  imports Sthread_Pthread
begin

text \<open>
  The conversation between \<open>src/sthread_lib/sthread_pthread.c\<close> and the library of POSIX threads. The library
  is any library, \<open>recording P\<close> is the library \<open>P\<close> that also writes down which of its functions
  is called on which object and what it returns. POSIX leaves undefined what happens when a mutex, a condition, a
  semaphore or a readers/writer lock is used that is not initialised, or initialised twice: \<open>replay\<close> finds
  such calls in a record.
\<close>

section \<open>Records of calls\<close>

datatype posix_fun =
    F_mutex_init | F_mutex_destroy | F_mutex_lock | F_mutex_unlock
  | F_sem_init | F_sem_destroy | F_sem_wait | F_sem_post
  | F_rwlock_init | F_rwlock_destroy | F_rwlock_rdlock | F_rwlock_wrlock | F_rwlock_unlock
  | F_cond_init | F_cond_destroy | F_cond_wait | F_cond_signal | F_cond_broadcast

text \<open>A function, the object it is called on, and its result.\<close>

type_synonym posix_event = "posix_fun \<times> nat \<times> int"

definition note_call :: "posix_fun \<Rightarrow> nat \<Rightarrow> posix_event list \<Rightarrow> int \<times> 'w \<Rightarrow> int \<times> 'w \<times> posix_event list" where
  "note_call F a es = (\<lambda>(r, w). (r, w, es @ [(F, a, r)]))"

definition recording :: "'w posix \<Rightarrow> ('w \<times> posix_event list) posix" where
  "recording P =
     \<lparr>pthread_create = (\<lambda>(w, es) a f x. case pthread_create P w a f x of (r, w') \<Rightarrow> (r, w', es)),
      pthread_exit = (\<lambda>(w, es) x. (pthread_exit P w x, es)),
      sched_yield = (\<lambda>(w, es). case sched_yield P w of (r, w') \<Rightarrow> (r, w', es)),
      nanosleep = (\<lambda>(w, es) x y. case nanosleep P w x y of (r, w') \<Rightarrow> (r, w', es)),
      pthread_join = (\<lambda>(w, es) a p. case pthread_join P w a p of (r, w') \<Rightarrow> (r, w', es)),
      pthread_mutex_init = (\<lambda>(w, es) a. note_call F_mutex_init a es (pthread_mutex_init P w a)),
      pthread_mutex_destroy = (\<lambda>(w, es) a. note_call F_mutex_destroy a es (pthread_mutex_destroy P w a)),
      pthread_mutex_lock = (\<lambda>(w, es) a. note_call F_mutex_lock a es (pthread_mutex_lock P w a)),
      pthread_mutex_unlock = (\<lambda>(w, es) a. note_call F_mutex_unlock a es (pthread_mutex_unlock P w a)),
      sem_init = (\<lambda>(w, es) a n. note_call F_sem_init a es (sem_init P w a n)),
      sem_wait = (\<lambda>(w, es) a. note_call F_sem_wait a es (sem_wait P w a)),
      sem_post = (\<lambda>(w, es) a. note_call F_sem_post a es (sem_post P w a)),
      sem_destroy = (\<lambda>(w, es) a. note_call F_sem_destroy a es (sem_destroy P w a)),
      pthread_rwlock_init = (\<lambda>(w, es) a. note_call F_rwlock_init a es (pthread_rwlock_init P w a)),
      pthread_rwlock_destroy = (\<lambda>(w, es) a. note_call F_rwlock_destroy a es (pthread_rwlock_destroy P w a)),
      pthread_rwlock_rdlock = (\<lambda>(w, es) a. note_call F_rwlock_rdlock a es (pthread_rwlock_rdlock P w a)),
      pthread_rwlock_wrlock = (\<lambda>(w, es) a. note_call F_rwlock_wrlock a es (pthread_rwlock_wrlock P w a)),
      pthread_rwlock_unlock = (\<lambda>(w, es) a. note_call F_rwlock_unlock a es (pthread_rwlock_unlock P w a)),
      pthread_cond_init = (\<lambda>(w, es) a. note_call F_cond_init a es (pthread_cond_init P w a)),
      pthread_cond_destroy = (\<lambda>(w, es) a. note_call F_cond_destroy a es (pthread_cond_destroy P w a)),
      pthread_cond_wait = (\<lambda>(w, es) a b. note_call F_cond_wait a es (pthread_cond_wait P w a b)),
      pthread_cond_signal = (\<lambda>(w, es) a. note_call F_cond_signal a es (pthread_cond_signal P w a)),
      pthread_cond_broadcast = (\<lambda>(w, es) a. note_call F_cond_broadcast a es (pthread_cond_broadcast P w a))\<rparr>"

section \<open>The discipline that POSIX asks for\<close>

datatype posix_class = Mutex | Sem | Rwlock | Cond

datatype posix_role = Init posix_class | Destroy posix_class | Use "posix_class set"

fun role :: "posix_fun \<Rightarrow> posix_role" where
  "role F_mutex_init = Init Mutex"
| "role F_mutex_destroy = Destroy Mutex"
| "role F_mutex_lock = Use {Mutex}"
| "role F_mutex_unlock = Use {Mutex}"
| "role F_sem_init = Init Sem"
| "role F_sem_destroy = Destroy Sem"
| "role F_sem_wait = Use {Sem}"
| "role F_sem_post = Use {Sem}"
| "role F_rwlock_init = Init Rwlock"
| "role F_rwlock_destroy = Destroy Rwlock"
| "role F_rwlock_rdlock = Use {Rwlock}"
| "role F_rwlock_wrlock = Use {Rwlock}"
| "role F_rwlock_unlock = Use {Rwlock}"
| "role F_cond_init = Init Cond"
| "role F_cond_destroy = Destroy Cond"
| "role F_cond_wait = Use {Cond, Mutex}"
| "role F_cond_signal = Use {Cond}"
| "role F_cond_broadcast = Use {Cond}"

text \<open>The objects that are initialised after a call, of those that were before; \<open>None\<close> if the call is undefined.\<close>

fun after_event :: "posix_event \<Rightarrow> (posix_class \<times> nat) set \<Rightarrow> (posix_class \<times> nat) set option" where
  "after_event (F, a, r) S =
     (case role F of
        Init k \<Rightarrow> if (k, a) \<in> S then None else Some (if r = 0 then insert (k, a) S else S)
      | Destroy k \<Rightarrow> if (k, a) \<notin> S then None else Some (if r = 0 then S - {(k, a)} else S)
      | Use ks \<Rightarrow> if \<forall>k \<in> ks. (k, a) \<in> S then Some S else None)"

fun replay :: "(posix_class \<times> nat) set \<Rightarrow> posix_event list \<Rightarrow> (posix_class \<times> nat) set option" where
  "replay S [] = Some S"
| "replay S (e # es) = (case after_event e S of None \<Rightarrow> None | Some S' \<Rightarrow> replay S' es)"

lemma replay_append: "replay S (es @ es') = (case replay S es of None \<Rightarrow> None | Some S' \<Rightarrow> replay S' es')"
  by (induction es arbitrary: S) (auto split: option.splits)

text \<open>The parts of the structures that exist.\<close>

definition pt_parts :: "(nat \<Rightarrow> pt_kind option) \<Rightarrow> (posix_class \<times> nat) set" where
  "pt_parts ks = {(k, a). case ks a of Some Pt_mutex \<Rightarrow> k = Mutex | Some Pt_sem \<Rightarrow> k = Sem
     | Some Pt_rwlock \<Rightarrow> k = Rwlock | Some Pt_mon \<Rightarrow> k \<in> {Mutex, Cond} | _ \<Rightarrow> False}"

text \<open>No initialisation has failed.\<close>

definition inits_succeed :: "posix_event list \<Rightarrow> bool" where
  "inits_succeed es \<longleftrightarrow> (\<forall>(F, a, r) \<in> set es. (\<exists>k. role F = Init k) \<longrightarrow> r = 0)"

lemma inits_succeed_append [simp]: "inits_succeed (es @ es') \<longleftrightarrow> inits_succeed es \<and> inits_succeed es'"
  by (simp add: inits_succeed_def ball_Un)

section \<open>What each operation asks the library for\<close>

text \<open>The functions that an operation on an existing object calls, in order, on this object.\<close>

fun asks :: "sthread_call \<Rightarrow> posix_fun list" where
  "asks (Mutex_free a) = [F_mutex_destroy]"
| "asks (Mutex_lock a) = [F_mutex_lock]"
| "asks (Mutex_unlock a) = [F_mutex_unlock]"
| "asks (Sem_wait a) = [F_sem_wait]"
| "asks (Sem_post a) = [F_sem_post]"
| "asks (Sem_destroy a) = [F_sem_destroy]"
| "asks (Rwlock_destroy a) = [F_rwlock_destroy]"
| "asks (Rwlock_rdlock a) = [F_rwlock_rdlock]"
| "asks (Rwlock_wrlock a) = [F_rwlock_wrlock]"
| "asks (Rwlock_unlock a) = [F_rwlock_unlock]"
| "asks (Monitor_free a) = [F_mutex_destroy, F_cond_destroy]"
| "asks (Monitor_enter a) = [F_mutex_lock]"
| "asks (Monitor_exit a) = [F_mutex_unlock]"
| "asks (Monitor_wait a) = [F_cond_wait]"
| "asks (Monitor_signal a) = [F_cond_signal]"
| "asks (Monitor_signalall a) = [F_cond_broadcast]"
| "asks c = []"

text \<open>The answer of the library to one of these.\<close>

fun answer :: "'w posix \<Rightarrow> posix_fun \<Rightarrow> nat \<Rightarrow> 'w \<Rightarrow> int \<times> 'w" where
  "answer P F_mutex_destroy a w = pthread_mutex_destroy P w a"
| "answer P F_mutex_lock a w = pthread_mutex_lock P w a"
| "answer P F_mutex_unlock a w = pthread_mutex_unlock P w a"
| "answer P F_sem_destroy a w = sem_destroy P w a"
| "answer P F_sem_wait a w = sem_wait P w a"
| "answer P F_sem_post a w = sem_post P w a"
| "answer P F_rwlock_destroy a w = pthread_rwlock_destroy P w a"
| "answer P F_rwlock_rdlock a w = pthread_rwlock_rdlock P w a"
| "answer P F_rwlock_wrlock a w = pthread_rwlock_wrlock P w a"
| "answer P F_rwlock_unlock a w = pthread_rwlock_unlock P w a"
| "answer P F_cond_destroy a w = pthread_cond_destroy P w a"
| "answer P F_cond_wait a w = pthread_cond_wait P w a a"
| "answer P F_cond_signal a w = pthread_cond_signal P w a"
| "answer P F_cond_broadcast a w = pthread_cond_broadcast P w a"
| "answer P F a w = (0, w)"

text \<open>Asking for some functions, until one reports an error.\<close>

fun converse :: "'w posix \<Rightarrow> nat \<Rightarrow> posix_fun list \<Rightarrow> 'w \<Rightarrow> 'w option" where
  "converse P a [] w = Some w"
| "converse P a (F # Fs) w = (case answer P F a w of (r, w') \<Rightarrow> if r \<noteq> 0 then None else converse P a Fs w')"

section \<open>The discipline is kept\<close>

lemma pt_parts_iff:
  "(k, a) \<in> pt_parts ks \<longleftrightarrow> (case ks a of Some Pt_mutex \<Rightarrow> k = Mutex | Some Pt_sem \<Rightarrow> k = Sem
     | Some Pt_rwlock \<Rightarrow> k = Rwlock | Some Pt_mon \<Rightarrow> k \<in> {Mutex, Cond} | _ \<Rightarrow> False)"
  by (simp add: pt_parts_def)

lemma pt_parts_new:
  assumes "ks n = None"
  shows "pt_parts (ks(n \<mapsto> Pt_thread)) = pt_parts ks"
    and "pt_parts (ks(n \<mapsto> Pt_mutex)) = insert (Mutex, n) (pt_parts ks)"
    and "pt_parts (ks(n \<mapsto> Pt_sem)) = insert (Sem, n) (pt_parts ks)"
    and "pt_parts (ks(n \<mapsto> Pt_rwlock)) = insert (Rwlock, n) (pt_parts ks)"
    and "pt_parts (ks(n \<mapsto> Pt_mon)) = insert (Cond, n) (insert (Mutex, n) (pt_parts ks))"
  using assms by (auto simp: pt_parts_def split: if_splits option.splits)

lemma pt_parts_gone: "(k, b) \<in> pt_parts (ks(a := None)) \<longleftrightarrow> b \<noteq> a \<and> (k, b) \<in> pt_parts ks"
  by (simp add: pt_parts_iff)

lemma pt_parts_free:
  "ks a = Some Pt_mutex \<Longrightarrow> pt_parts (ks(a := None)) = pt_parts ks - {(Mutex, a)}"
  "ks a = Some Pt_sem \<Longrightarrow> pt_parts (ks(a := None)) = pt_parts ks - {(Sem, a)}"
  "ks a = Some Pt_rwlock \<Longrightarrow> pt_parts (ks(a := None)) = pt_parts ks - {(Rwlock, a)}"
  "ks a = Some Pt_mon \<Longrightarrow> pt_parts (ks(a := None)) = pt_parts ks - {(Mutex, a)} - {(Cond, a)}"
  by (simp_all add: set_eq_iff pt_parts_gone) (auto simp: pt_parts_iff)

text \<open>A call that must succeed, and one whose result is ignored, on a library that is recorded.\<close>

lemma recorded_must:
  assumes "\<And>w es. f (w, es) a = note_call F a es (g w a)" and "pt_kinds st a = Some k"
  shows "pt_on k f st a = (case g (fst (pt_world st)) a of (r, w) \<Rightarrow>
    if r \<noteq> 0 then Inl AbortCall else Inr (st\<lparr>pt_world := (w, snd (pt_world st) @ [(F, a, 0)])\<rparr>))"
  using assms by (cases "pt_world st") (simp add: pt_on_def pt_at_def pt_must_def note_call_def split: prod.split)

lemma recorded_ignore:
  assumes "\<And>w es. f (w, es) = note_call F a es (g w)"
  shows "\<exists>r w. pt_ignore f st = st\<lparr>pt_world := (w, snd (pt_world st) @ [(F, a, r)])\<rparr>"
  using assms by (cases "pt_world st") (auto simp: pt_ignore_def note_call_def split: prod.split)

named_theorems pt_operations

declare sthread_pthread_mutex_free_def [pt_operations] sthread_pthread_mutex_lock_def [pt_operations]
  sthread_pthread_mutex_unlock_def [pt_operations] sthread_pthread_sem_wait_def [pt_operations]
  sthread_pthread_sem_post_def [pt_operations] sthread_pthread_sem_destroy_def [pt_operations]
  sthread_pthread_rwlock_destroy_def [pt_operations] sthread_pthread_rwlock_rdlock_def [pt_operations]
  sthread_pthread_rwlock_wrlock_def [pt_operations] sthread_pthread_rwlock_unlock_def [pt_operations]
  sthread_pthread_monitor_free_def [pt_operations] sthread_pthread_monitor_enter_def [pt_operations]
  sthread_pthread_monitor_exit_def [pt_operations] sthread_pthread_monitor_wait_def [pt_operations]
  sthread_pthread_monitor_signal_def [pt_operations] sthread_pthread_monitor_signalall_def [pt_operations]

text \<open>A call on an object that exists: the library is asked for what the operation needs, in order, until it reports
  an error.\<close>

lemma call_converses:
  assumes "call_object c = Some (a, k)" and "k \<noteq> Pt_thread" and "pt_kinds st a = Some k"
  shows "do_pthread_call (recording P) loc c st =
    (case converse P a (asks c) (fst (pt_world st)) of
       None \<Rightarrow> Inl AbortCall
     | Some w \<Rightarrow> Inr (st\<lparr>pt_world := (w, snd (pt_world st) @ map (\<lambda>F. (F, a, 0)) (asks c)),
         pt_kinds := kinds_after c (pt_next st) (pt_kinds st)\<rparr>))"
proof -
  obtain w es where w: "pt_world st = (w, es)" by (cases "pt_world st")
  show ?thesis
    using assms
    by (cases c)
      (simp_all add: w pt_operations pt_on_def pt_at_def pt_must_def pt_release_def recording_def note_call_def c_bind_def
        split: prod.split)
qed
text \<open>What a call adds to the record takes the parts that exist before it to those that exist after it.\<close>

lemma asks_replay:
  assumes "call_object c = Some (a, k)" and "k \<noteq> Pt_thread" and "ks a = Some k"
  shows "replay (pt_parts ks) (map (\<lambda>F. (F, a, 0)) (asks c)) = Some (pt_parts (kinds_after c n ks))"
  using assms by (cases c) (simp_all add: pt_parts_free pt_parts_iff)

definition adds :: "('w \<times> posix_event list) pt_state \<Rightarrow> ('w \<times> posix_event list) pt_state \<Rightarrow> bool" where
  "adds st st' \<longleftrightarrow> (\<exists>es. snd (pt_world st') = snd (pt_world st) @ es
    \<and> (inits_succeed es \<longrightarrow> replay (pt_parts (pt_kinds st)) es = Some (pt_parts (pt_kinds st'))))"

lemma call_on_object_adds:
  assumes "do_pthread_call (recording P) loc c st = Inr st'" and "call_object c = Some (a, k)" and "k \<noteq> Pt_thread"
  shows "adds st st'"
proof -
  have "pt_kinds st a = Some k"
    using assms pt_wild [of "recording P" loc c st] by (simp add: well_typed_def split: if_splits)
  from call_converses [OF assms(2,3) this, of P loc] asks_replay [where c = c and ks = "pt_kinds st", OF assms(2,3) this] assms(1)
  show ?thesis by (auto simp: adds_def split: option.splits)
qed

lemma call_on_thread_adds:
  assumes "do_pthread_call (recording P) loc c st = Inr st'" and "call_object c = Some (a, Pt_thread)"
  shows "adds st st'"
  using assms
  by (cases c) (auto simp: pt_defs c_bind_eq_Inr recording_def adds_def split: if_splits prod.splits)

lemma other_call_adds:
  assumes "do_pthread_call (recording P) loc c st = Inr st'" and "call_object c = None" and "\<forall>t. c \<noteq> Sleep t"
    and "pt_kinds st (pt_next st) = None"
  shows "adds st st'"
proof -
  obtain w es where w: "pt_world st = (w, es)" by (cases "pt_world st")
  show ?thesis
    using assms w
    by (cases c)
      (auto simp: pt_defs Let_def recording_def note_call_def adds_def inits_succeed_def pt_parts_new pt_parts_iff
        split: prod.splits)
qed

lemma call_adds:
  assumes "do_pthread_call (recording P) loc c st = Inr st'" and "\<forall>t. c \<noteq> Sleep t" and "pt_kinds st (pt_next st) = None"
  shows "adds st st'"
proof (cases "call_object c")
  case None
  from other_call_adds [OF assms(1) this assms(2,3)] show ?thesis .
next
  case (Some ak)
  then show ?thesis
    using call_on_object_adds [OF assms(1)] call_on_thread_adds [OF assms(1)] by (cases ak) blast
qed

section \<open>Programs\<close>

definition record_starts :: "('w \<times> posix_event list) pt_state \<Rightarrow> bool" where
  "record_starts st \<longleftrightarrow> pt_started st \<and> snd (pt_world st) = []"

definition in_order :: "('w \<times> posix_event list) pt_state \<Rightarrow> bool" where
  "in_order st \<longleftrightarrow> (\<forall>a. pt_kinds st a \<noteq> None \<longrightarrow> a < pt_next st)
    \<and> (inits_succeed (snd (pt_world st)) \<longrightarrow> replay {} (snd (pt_world st)) = Some (pt_parts (pt_kinds st)))"

abbreviation no_sleep :: "sthread_call set" where
  "no_sleep \<equiv> {c. \<forall>t. c \<noteq> Sleep t}"

interpretation recorded: transition_system record_starts "pt_step (recording P) no_sleep" in_order for P
proof
  fix st :: "('a \<times> posix_event list) pt_state"
  assume "record_starts st"
  then show "in_order st" by (auto simp: record_starts_def pt_started_def in_order_def pt_parts_def)
next
  fix st st' :: "('a \<times> posix_event list) pt_state"
  assume step: "pt_step (recording P) no_sleep st st'" and inv: "in_order st"
  then obtain loc c where run: "do_pthread_call (recording P) loc c st = Inr st'" and c: "\<forall>t. c \<noteq> Sleep t"
    by (auto elim: pt_step.cases)
  have bound: "\<forall>a. pt_kinds st a \<noteq> None \<longrightarrow> a < pt_next st" using inv by (simp add: in_order_def)
  have "adds st st'" by (rule call_adds [OF run c]) (use bound in blast)
  then show "in_order st'"
    using inv posix.step_inv [OF step bound]
    by (auto simp: in_order_def adds_def replay_append)
qed

text \<open>C34: (safety) The back end on POSIX threads uses the library as POSIX demands, and reports its errors. In every
  state that any program reaches which starts without objects and makes any calls except \<open>sthread_sleep\<close>,
  with any library none of whose initialisations has failed: no mutex, condition, semaphore or readers/writer lock was
  ever initialised twice, or used or destroyed when it was not initialised, and those that are initialised now
  are exactly the parts of the structures that exist. A call on an existing structure asks the library for the
  functions \<open>asks\<close>, in order, on that structure; the first error that is reported aborts the program, and without
  error the call returns, the structures change as \<open>kinds_after\<close> says, and nothing else was asked.\<close>

theorem posix_calls_disciplined:
  assumes "reach record_starts (pt_step (recording P) {c. \<forall>t. c \<noteq> Sleep t}) st"
    and "inits_succeed (snd (pt_world st))"
    and "call_object c = Some (a, k)" and "k \<noteq> Pt_thread" and "pt_kinds st a = Some k"
  shows "replay {} (snd (pt_world st)) = Some (pt_parts (pt_kinds st))
    \<and> do_pthread_call (recording P) loc c st =
        (case converse P a (asks c) (fst (pt_world st)) of
           None \<Rightarrow> Inl AbortCall
         | Some w \<Rightarrow> Inr (st\<lparr>pt_world := (w, snd (pt_world st) @ map (\<lambda>F. (F, a, 0)) (asks c)),
             pt_kinds := kinds_after c (pt_next st) (pt_kinds st)\<rparr>))"
  using recorded.reach_inv [OF assms(1)] assms(2) call_converses [OF assms(3-5), of P loc] by (simp add: in_order_def)

text \<open>A monitor and a mutex; the mutex is locked, so the call that frees it aborts; the monitor can be
  freed.\<close>

definition demo_start :: "(nat set \<times> posix_event list) pt_state" where
  "demo_start = \<lparr>pt_world = ({}, []), pt_kinds = Map.empty, pt_next = 0, pt_result = 0\<rparr>"

definition demo_objects :: "(nat set \<times> posix_event list) pt_state" where
  "demo_objects = \<lparr>pt_world = ({1}, [(F_mutex_init, 0, 0), (F_cond_init, 0, 0), (F_mutex_init, 1, 0), (F_mutex_lock, 1, 0)]),
     pt_kinds = [0 \<mapsto> Pt_mon, 1 \<mapsto> Pt_mutex], pt_next = 2, pt_result = 1\<rparr>"

lemma call_reaches:
  "reach record_starts (pt_step P C) st \<Longrightarrow> do_pthread_call P loc c st = Inr st' \<Longrightarrow> c \<in> C
     \<Longrightarrow> reach record_starts (pt_step P C) st'"
  by (blast intro: reach_step pt_step.intros)

lemma demo_objects_reached: "reach record_starts (pt_step (recording demo_posix) {c. \<forall>t. c \<noteq> Sleep t}) demo_objects"
proof -
  let ?s1 = "\<lparr>pt_world = ({}, [(F_mutex_init, 0, 0), (F_cond_init, 0, 0)]), pt_kinds = [0 \<mapsto> Pt_mon],
    pt_next = 1, pt_result = 0\<rparr>"
  let ?s2 = "\<lparr>pt_world = ({}, [(F_mutex_init, 0, 0), (F_cond_init, 0, 0), (F_mutex_init, 1, 0)]),
    pt_kinds = [0 \<mapsto> Pt_mon, 1 \<mapsto> Pt_mutex], pt_next = 2, pt_result = 1\<rparr>"
  let ?R = "reach record_starts (pt_step (recording demo_posix) {c. \<forall>t. c \<noteq> Sleep t})"
  note run = pt_defs recording_def note_call_def demo_posix_def Let_def c_bind_def
  have "?R demo_start" by (rule reach_init) (simp add: record_starts_def pt_started_def demo_start_def)
  moreover have "do_pthread_call (recording demo_posix) 0 Monitor_init demo_start = Inr ?s1"
    by (simp add: demo_start_def run)
  ultimately have "?R ?s1" by (rule call_reaches) simp
  moreover have "do_pthread_call (recording demo_posix) 0 Mutex_init ?s1 = Inr ?s2" by (simp add: run)
  ultimately have "?R ?s2" by (rule call_reaches) simp
  moreover have "do_pthread_call (recording demo_posix) 0 (Mutex_lock 1) ?s2 = Inr demo_objects"
    by (simp add: demo_objects_def run)
  ultimately show ?thesis by (rule call_reaches) simp
qed

lemma posix_calls_disciplined_witness:
  "do_pthread_call (recording demo_posix) 0 (Mutex_free 1) demo_objects = Inl AbortCall
   \<and> (\<exists>st. do_pthread_call (recording demo_posix) 0 (Monitor_free 0) demo_objects = Inr st
      \<and> drop 4 (snd (pt_world st)) = [(F_mutex_destroy, 0, 0), (F_cond_destroy, 0, 0)])"
  using posix_calls_disciplined [OF demo_objects_reached, of "Mutex_free 1" 1 Pt_mutex 0]
    posix_calls_disciplined [OF demo_objects_reached, of "Monitor_free 0" 0 Pt_mon 0]
  by (simp add: demo_objects_def inits_succeed_def demo_posix_def Let_def)

text \<open>What the conditions exclude. \<open>sthread_sleep\<close> never destroys the mutex and the condition on its stack,
  so two sleeps from the same place initialise them twice. A failed initialisation is not noticed, and the
  first lock uses a mutex that is not initialised.\<close>

lemma two_sleeps_initialise_twice:
  assumes "pt_world st = (w, [])" and "\<And>w a. fst (pthread_mutex_init P w a) = 0" and "\<And>w a. fst (pthread_cond_init P w a) = 0"
  shows "replay {} (snd (pt_world (sthread_pthread_sleep (recording P) loc
    (sthread_pthread_sleep (recording P) loc st t) t))) = None"
  using assms
  by (auto simp: sthread_pthread_sleep_def recording_def note_call_def Let_def split: prod.split)
    (metis fst_conv)+

lemma failed_init_not_noticed:
  assumes "pt_world st = (w, [])" and "fst (pthread_mutex_init P w (pt_next st)) \<noteq> 0"
    and "do_pthread_call (recording P) loc Mutex_init st = Inr st1"
    and "do_pthread_call (recording P) loc (Mutex_lock (pt_next st)) st1 = Inr st2"
  shows "replay {} (snd (pt_world st2)) = None"
  using assms
  by (auto simp: pt_defs recording_def note_call_def Let_def c_bind_def split: prod.splits if_splits)

end
