(* ===== verification/Log_Threads.thy ===== *)
theory Log_Threads
  imports Log_Store
begin

text \<open>
  The log between threads. \<open>src/logrw/logrw.c\<close> guards the log with a readers/writer lock, but
  \<open>logrw_write\<close> takes it for reading and \<open>logrw_read\<close> takes it for writing: reads are alone, writes
  exclude only reads.

  What a thread still has to do is a program: a tree of atomic actions on the log, calls on the lock, and
  the return. One action is the evaluation of one condition, the copy of one block, one assignment. The
  programs of \<open>logrw_write\<close> and \<open>logrw_read\<close>, run without a break, are the functions of \<open>Log_Store\<close>.
  A system of threads interleaves them; of the lock it uses that a holder for writing is alone, as it is
  documented for the locks of the system and shown for those of \<open>sthread_user.c\<close> (\<open>Threads_Correct\<close>).
\<close>

section \<open>Programs\<close>

datatype prog =
    Return int "byte list"
  | Act "logrw_struct \<Rightarrow> fault + logrw_struct \<times> prog"
  | Lock lock_call prog

primrec run_prog :: "prog \<Rightarrow> logrw_struct \<Rightarrow> (int \<times> byte list \<times> logrw_struct \<times> lock_call list) c" where
  "run_prog (Return rc buf) = (\<lambda>log. Inr (rc, buf, log, []))"
| "run_prog (Act f) = (\<lambda>log. c_bind (map_sum id (map_prod id run_prog) (f log)) (\<lambda>(log', k). k log'))"
| "run_prog (Lock l p) = (\<lambda>log. c_bind (run_prog p log) (\<lambda>(rc, buf, log', calls). Inr (rc, buf, log', l # calls)))"

lemma run_Act: "run_prog (Act f) log = c_bind (f log) (\<lambda>(log', p). run_prog p log')"
  by (cases "f log") auto

lemmas run_simps = run_prog.simps(1,3) run_Act

declare run_prog.simps(2) [simp del]

definition test :: "(logrw_struct \<Rightarrow> 'a c) \<Rightarrow> ('a \<Rightarrow> prog) \<Rightarrow> prog" where
  "test f k = Act (\<lambda>log. c_bind (f log) (\<lambda>x. Inr (log, k x)))"

definition change :: "(logrw_struct \<Rightarrow> ('a \<times> logrw_struct) c) \<Rightarrow> ('a \<Rightarrow> prog) \<Rightarrow> prog" where
  "change f k = Act (\<lambda>log. c_bind (f log) (\<lambda>(x, log'). Inr (log', k x)))"

lemma run_test [simp]: "run_prog (test f k) log = c_bind (f log) (\<lambda>x. run_prog (k x) log)"
  by (simp add: test_def run_Act c_bind_assoc)

lemma run_change [simp]: "run_prog (change f k) log = c_bind (f log) (\<lambda>(x, log'). run_prog (k x) log')"
  by (cases "f log") (auto simp: change_def run_Act)

section \<open>Writing\<close>

definition assign :: "(logrw_struct \<Rightarrow> logrw_struct) \<Rightarrow> prog \<Rightarrow> prog" where
  "assign f p = change (\<lambda>log. Inr ((), f log)) (\<lambda>_. p)"

text \<open>\<open>block_write\<close> to the free block of either array, \<open>registo[i] = livre\<close> and \<open>livre += 1\<close>.\<close>

definition write_1 :: "byte list \<Rightarrow> logrw_struct \<Rightarrow> (int \<times> logrw_struct) c" where
  "write_1 block log =
     c_bind (deref (array_1 log)) (\<lambda>a1.
     c_bind (block_write a1 (livre log) block) (\<lambda>(rc, a1'). Inr (rc, log\<lparr>array_1 := Some a1'\<rparr>)))"

definition write_2 :: "byte list \<Rightarrow> logrw_struct \<Rightarrow> (int \<times> logrw_struct) c" where
  "write_2 block log =
     c_bind (deref (array_1 log)) (\<lambda>a1.
     c_bind (deref (array_2 log)) (\<lambda>a2.
     c_bind (block_write a2 (livre log - block_num_blocks a1) block) (\<lambda>(rc, a2').
       Inr (rc, log\<lparr>array_2 := Some a2'\<rparr>))))"

definition set_reg :: "nat \<Rightarrow> prog \<Rightarrow> prog" where
  "set_reg i p = change (\<lambda>log. c_bind (c_upd (registo log) i (livre log)) (\<lambda>regs. Inr ((), log\<lparr>registo := regs\<rparr>)))
     (\<lambda>_. p)"

definition next_free :: "prog \<Rightarrow> prog" where
  "next_free = assign (\<lambda>log. log\<lparr>livre := livre log + 1\<rparr>)"

definition append_prog :: "(byte list \<Rightarrow> logrw_struct \<Rightarrow> (int \<times> logrw_struct) c) \<Rightarrow> u32 \<Rightarrow> byte list \<Rightarrow> prog" where
  "append_prog write register_no block =
     change (write block) (\<lambda>rc.
     if rc = 0 then set_reg (unat register_no) (next_free (Lock Unlock (Return 0 [])))
     else Lock Unlock (Return (-1) []))"

fun flip_1_2_prog :: "nat list \<Rightarrow> byte list \<Rightarrow> prog \<Rightarrow> prog" where
  "flip_1_2_prog [] block_aux p = p"
| "flip_1_2_prog (i # is) block_aux p =
     test (\<lambda>log. c_bind (deref (array_1 log)) (\<lambda>a1. c_bind (c_nth (registo log) i) (\<lambda>r. block_read a1 r block_aux)))
       (\<lambda>(rc, aux). if rc = -1 then flip_1_2_prog is aux p
         else change (write_2 aux) (\<lambda>rc'.
           if rc' = 0 then set_reg i (next_free (flip_1_2_prog is aux p)) else flip_1_2_prog is aux p))"

fun flip_2_1_prog :: "nat list \<Rightarrow> byte list \<Rightarrow> prog \<Rightarrow> prog" where
  "flip_2_1_prog [] block_aux p = p"
| "flip_2_1_prog (i # is) block_aux p =
     test (\<lambda>log. c_bind (deref (array_1 log)) (\<lambda>a1. c_bind (deref (array_2 log)) (\<lambda>a2.
         c_bind (c_nth (registo log) i) (\<lambda>r. block_read a2 (r - block_num_blocks a1) block_aux))))
       (\<lambda>(rc, aux). if rc = -1 then flip_2_1_prog is aux p
         else change (write_1 aux) (\<lambda>rc'.
           if rc' = 0 then set_reg i (next_free (flip_2_1_prog is aux p)) else flip_2_1_prog is aux p))"

definition livre_is :: "(u32 \<Rightarrow> u32 \<Rightarrow> bool) \<Rightarrow> logrw_struct \<Rightarrow> bool c" where
  "livre_is cmp log = c_bind (deref (array_1 log)) (\<lambda>a1. Inr (cmp (livre log) (block_num_blocks a1)))"

definition registers :: "logrw_struct \<Rightarrow> nat list c" where
  "registers log = Inr [0..<nat (logrw_num_registers log)]"

text \<open>The part behind the lock. \<open>block_aux\<close> is freed before the last two tests; if both fail it is freed
  again.\<close>

definition write_body :: "u32 \<Rightarrow> byte list \<Rightarrow> byte list \<Rightarrow> prog" where
  "write_body register_no block block_aux =
     test (livre_is (\<lambda>l n. l = n)) (\<lambda>full_1.
     if full_1 then
       assign (\<lambda>log. log\<lparr>array_activo := 1\<rparr>) (test registers (\<lambda>is.
       flip_1_2_prog is block_aux (append_prog write_2 register_no block)))
     else test (livre_is (\<lambda>l n. l = 2 * n)) (\<lambda>full_2.
     if full_2 then
       assign (\<lambda>log. log\<lparr>array_activo := 0\<rparr>) (assign (\<lambda>log. log\<lparr>livre := 0\<rparr>) (test registers (\<lambda>is.
       flip_2_1_prog is block_aux (append_prog write_1 register_no block))))
     else test (livre_is (\<lambda>l n. l < n)) (\<lambda>in_1.
     if in_1 then append_prog write_1 register_no block
     else test (livre_is (\<lambda>l n. l > n)) (\<lambda>in_2.
     if in_2 then append_prog write_2 register_no block
     else Act (\<lambda>log. Inl WildPointer)))))"

definition write_prog :: "u32 \<Rightarrow> byte list \<Rightarrow> prog" where
  "write_prog register_no block =
     test (\<lambda>log. c_bind (deref (array_1 log)) (\<lambda>a1. Inr (fresh_bytes (unat (block_size a1))))) (\<lambda>block_aux.
     Lock RdLock (write_body register_no block block_aux))"

section \<open>Reading\<close>

definition read_body :: "u32 \<Rightarrow> byte list \<Rightarrow> prog" where
  "read_body register_no block =
     test (\<lambda>log. c_nth (registo log) (unat register_no)) (\<lambda>indice.
     test (\<lambda>log. c_bind (deref (array_1 log)) (\<lambda>a1.
         if indice < block_num_blocks a1 then block_read a1 indice block
         else c_bind (deref (array_2 log)) (\<lambda>a2. block_read a2 (indice - block_num_blocks a2) block)))
       (\<lambda>(rc, block'). if rc = 0 then Lock Unlock (Return 0 block') else Lock Unlock (Return (-1) block')))"

definition read_prog :: "u32 \<Rightarrow> byte list \<Rightarrow> prog" where
  "read_prog register_no block = Lock WrLock (read_body register_no block)"

section \<open>Alone, the programs are the functions\<close>

lemma run_flip_1_2: "run_prog (flip_1_2_prog is aux p) log = c_bind (flip_1_2 is log aux) (run_prog p)"
proof (induction "is" arbitrary: aux log)
  case (Cons i "is")
  then show ?case
    by (auto simp: c_bind_def write_2_def set_reg_def next_free_def assign_def deref_def c_nth_def c_upd_def
        split: sum.splits option.splits if_splits)
qed simp

lemma run_flip_2_1: "run_prog (flip_2_1_prog is aux p) log = c_bind (flip_2_1 is log aux) (run_prog p)"
proof (induction "is" arbitrary: aux log)
  case (Cons i "is")
  then show ?case
    by (auto simp: c_bind_def write_1_def set_reg_def next_free_def assign_def deref_def c_nth_def c_upd_def
        split: sum.splits option.splits if_splits)
qed simp

definition written :: "(int \<times> logrw_struct \<times> lock_call list) c \<Rightarrow> (int \<times> byte list \<times> logrw_struct \<times> lock_call list) c" where
  "written m = c_bind m (\<lambda>(rc, log', calls). Inr (rc, [], log', tl calls))"

lemma run_put_1: "run_prog (append_prog write_1 r b) log = written (put_1 log r b)"
  by (auto simp: append_prog_def write_1_def put_1_def written_def set_reg_def next_free_def assign_def c_bind_def
      split: sum.splits)

lemma run_put_2: "run_prog (append_prog write_2 r b) log = written (put_2 log r b)"
  by (auto simp: append_prog_def write_2_def put_2_def written_def set_reg_def next_free_def assign_def c_bind_def
      split: sum.splits)

lemma written_bind: "c_bind m (\<lambda>x. written (f x)) = written (c_bind m f)"
  by (cases m) (simp_all add: written_def)

lemma put_calls:
  "put_1 log r b = Inr (rc, log', calls) \<Longrightarrow> calls = [RdLock, Unlock]"
  "put_2 log r b = Inr (rc, log', calls) \<Longrightarrow> calls = [RdLock, Unlock]"
  by (auto simp: put_1_def put_2_def c_bind_eq_Inr split: if_splits)

lemma logrw_write_calls: "logrw_write log r b = Inr (rc, log', calls) \<Longrightarrow> calls = [RdLock, Unlock]"
  by (auto simp: logrw_write_def Let_def c_bind_eq_Inr split: if_splits dest: put_calls)

lemma run_write_body:
  assumes "array_1 log = Some a1" and "aux = fresh_bytes (unat (block_size a1))"
  shows "run_prog (write_body r b aux) log = written (logrw_write log r b)"
proof -
  have put: "run_prog (append_prog write_1 r b) = (\<lambda>log. written (put_1 log r b))"
    "run_prog (append_prog write_2 r b) = (\<lambda>log. written (put_2 log r b))"
    by (rule ext, simp add: run_put_1 run_put_2)+
  have "logrw_num_registers (log\<lparr>array_activo := v\<rparr>) = logrw_num_registers log"
    "logrw_num_registers (log\<lparr>array_activo := v, livre := w\<rparr>) = logrw_num_registers log" for v w
    by (simp_all add: logrw_num_registers_def)
  then show ?thesis using assms
    by (auto simp: write_body_def logrw_write_def livre_is_def registers_def assign_def run_flip_1_2 run_flip_2_1
        put written_bind Let_def run_Act)
qed

lemma run_write_prog:
  "run_prog (write_prog r b) log = c_bind (logrw_write log r b) (\<lambda>(rc, log', calls). Inr (rc, [], log', calls))"
proof (cases "array_1 log")
  case None
  then show ?thesis by (simp add: write_prog_def logrw_write_def deref_def)
next
  case (Some a1)
  with run_write_body [OF Some refl, of r b] logrw_write_calls [of log r b] show ?thesis
    by (cases "logrw_write log r b") (auto simp: write_prog_def written_def)
qed

lemma run_read_prog:
  "run_prog (read_prog r buf) log = c_bind (logrw_read log r buf) (\<lambda>(rc, buf', calls). Inr (rc, buf', log, calls))"
  by (auto simp: read_prog_def read_body_def logrw_read_def c_bind_def split: sum.splits)

section \<open>Threads\<close>

datatype log_op = WriteOp u32 "byte list" | ReadOp u32 "byte list"

fun is_write :: "log_op \<Rightarrow> bool" where
  "is_write (WriteOp r b) = True"
| "is_write (ReadOp r b) = False"

fun prog_of :: "log_op \<Rightarrow> prog" where
  "prog_of (WriteOp r b) = write_prog r b"
| "prog_of (ReadOp r b) = read_prog r b"

text \<open>\<open>history\<close> has the operations that have released the lock, with what they return, in this order.\<close>

record log_sys =
  shared :: logrw_struct
  rd_holders :: "nat list"
  wr_holder :: "nat option"
  running :: "nat \<Rightarrow> (log_op \<times> prog) option"
  history :: "(log_op \<times> int \<times> byte list) list"

definition log_start :: "logrw_struct \<Rightarrow> log_sys" where
  "log_start log = \<lparr>shared = log, rd_holders = [], wr_holder = None, running = Map.empty, history = []\<rparr>"

text \<open>With \<open>one_writer\<close> the program itself takes care that no two threads write at once, as the tests with
  one writing thread do.\<close>

definition may_begin :: "bool \<Rightarrow> log_sys \<Rightarrow> log_op \<Rightarrow> bool" where
  "may_begin one_writer S op \<longleftrightarrow>
     (one_writer \<and> is_write op \<longrightarrow> (\<forall>t op' p. running S t = Some (op', p) \<longrightarrow> \<not> is_write op'))"

definition op_ok :: "logrw_struct \<Rightarrow> log_op \<Rightarrow> bool" where
  "op_ok log op = (case op of
       WriteOp r b \<Rightarrow> unat r < unat (num_reg log) \<and> length b = log_block_size log
     | ReadOp r b \<Rightarrow> unat r < unat (num_reg log) \<and> length b = log_block_size log)"

text \<open>One step of a thread that is inside an operation.\<close>

fun advance :: "nat \<Rightarrow> log_sys \<Rightarrow> log_sys c option" where
  "advance t S = (case running S t of
      None \<Rightarrow> None
    | Some (op, Return rc buf) \<Rightarrow> Some (Inr (S\<lparr>running := (running S)(t := None)\<rparr>))
    | Some (op, Act f) \<Rightarrow> Some (c_bind (f (shared S)) (\<lambda>(log', p).
        Inr (S\<lparr>shared := log', running := (running S)(t \<mapsto> (op, p))\<rparr>)))
    | Some (op, Lock RdLock p) \<Rightarrow>
        if wr_holder S = None
        then Some (Inr (S\<lparr>rd_holders := t # rd_holders S, running := (running S)(t \<mapsto> (op, p))\<rparr>)) else None
    | Some (op, Lock WrLock p) \<Rightarrow>
        if wr_holder S = None \<and> rd_holders S = []
        then Some (Inr (S\<lparr>wr_holder := Some t, running := (running S)(t \<mapsto> (op, p))\<rparr>)) else None
    | Some (op, Lock Unlock p) \<Rightarrow>
        Some (Inr (S\<lparr>rd_holders := removeAll t (rd_holders S),
          wr_holder := (if wr_holder S = Some t then None else wr_holder S),
          running := (running S)(t \<mapsto> (op, p)),
          history := history S @ (case p of Return rc buf \<Rightarrow> [(op, rc, buf)] | _ \<Rightarrow> [])\<rparr>)))"

declare advance.simps [simp del]

inductive log_step :: "bool \<Rightarrow> log_sys \<Rightarrow> log_sys \<Rightarrow> bool" for one_writer where
  begins: "running S t = None \<Longrightarrow> op_ok (shared S) op \<Longrightarrow> may_begin one_writer S op \<Longrightarrow>
     log_step one_writer S (S\<lparr>running := (running S)(t \<mapsto> (op, prog_of op))\<rparr>)"
| advances: "advance t S = Some (Inr S') \<Longrightarrow> log_step one_writer S S'"

section \<open>The serial specification\<close>

fun op_result :: "logrw_struct \<Rightarrow> log_op \<Rightarrow> (int \<times> byte list \<times> logrw_struct) c" where
  "op_result log (WriteOp r b) = c_bind (logrw_write log r b) (\<lambda>(rc, log', calls). Inr (rc, [], log'))"
| "op_result log (ReadOp r buf) = c_bind (logrw_read log r buf) (\<lambda>(rc, buf', calls). Inr (rc, buf', log))"

fun serial :: "logrw_struct \<Rightarrow> (log_op \<times> int \<times> byte list) list \<Rightarrow> logrw_struct option" where
  "serial log [] = Some log"
| "serial log ((op, rc, buf) # h) = (case op_result log op of
       Inl e \<Rightarrow> None
     | Inr (rc', buf', log') \<Rightarrow> if rc' = rc \<and> buf' = buf then serial log' h else None)"

lemma serial_append: "serial log (h @ h') = (case serial log h of None \<Rightarrow> None | Some log' \<Rightarrow> serial log' h')"
  by (induction log h rule: serial.induct) (auto split: sum.splits)

section \<open>Shapes of programs\<close>

text \<open>No action changes the shape of the log, and a thread returns right after it has unlocked.\<close>

definition log_shape :: "logrw_struct \<Rightarrow> u32 \<times> (u32 \<times> u32) option" where
  "log_shape log = (num_reg log, map_option (\<lambda>a. (bks_num_blocks a, bks_block_size a)) (array_1 log))"

inductive body_ok :: "prog \<Rightarrow> bool" where
  body_unlock: "body_ok (Lock Unlock (Return rc buf))"
| body_act: "(\<And>log log' p. f log = Inr (log', p) \<Longrightarrow> log_shape log' = log_shape log \<and> body_ok p) \<Longrightarrow> body_ok (Act f)"

inductive_cases body_okE: "body_ok p"

lemma body_test [intro!]: "(\<And>log x. f log = Inr x \<Longrightarrow> body_ok (k x)) \<Longrightarrow> body_ok (test f k)"
  unfolding test_def by (rule body_act) (auto simp: c_bind_eq_Inr)

lemma body_change [intro]:
  "(\<And>log x log'. f log = Inr (x, log') \<Longrightarrow> log_shape log' = log_shape log \<and> body_ok (k x)) \<Longrightarrow> body_ok (change f k)"
  unfolding change_def by (rule body_act) (auto simp: c_bind_eq_Inr)

lemma body_assign [intro!]: "(\<And>log. log_shape (f log) = log_shape log) \<Longrightarrow> body_ok p \<Longrightarrow> body_ok (assign f p)"
  unfolding assign_def by (rule body_change) auto

lemma body_set_reg [intro!]: "body_ok p \<Longrightarrow> body_ok (set_reg i p)"
  unfolding set_reg_def by (rule body_change) (auto simp: c_bind_eq_Inr log_shape_def)

lemma body_next_free [intro!]: "body_ok p \<Longrightarrow> body_ok (next_free p)"
  unfolding next_free_def by (rule body_assign) (simp_all add: log_shape_def)

lemma block_write_sizes:
  "block_write a k b = Inr (rc, a') \<Longrightarrow> bks_num_blocks a' = bks_num_blocks a \<and> bks_block_size a' = bks_block_size a"
  by (auto simp: block_write_def c_bind_eq_Inr split: if_splits)

lemma write_shape:
  "write_1 b log = Inr (rc, log') \<Longrightarrow> log_shape log' = log_shape log"
  "write_2 b log = Inr (rc, log') \<Longrightarrow> log_shape log' = log_shape log"
  by (auto simp: write_1_def write_2_def c_bind_eq_Inr deref_def log_shape_def split: option.splits
      dest: block_write_sizes)

lemma body_append: "body_ok (append_prog write_1 r b)" "body_ok (append_prog write_2 r b)"
  unfolding append_prog_def by (auto dest: write_shape intro!: body_unlock)

lemma body_copy:
  assumes "body_ok p" and "w = write_1 aux \<or> w = write_2 aux"
  shows "body_ok (change w (\<lambda>rc. if rc = 0 then set_reg i (next_free p) else p))"
  using assms by (intro body_change conjI) (auto dest: write_shape)

lemma body_flips:
  assumes "body_ok p"
  shows "body_ok (flip_1_2_prog is aux p)" "body_ok (flip_2_1_prog is aux p)"
  using assms by (induction "is" arbitrary: aux) (auto intro!: body_copy)

lemma body_write: "body_ok (write_body r b aux)"
  unfolding write_body_def by (auto simp: log_shape_def intro!: body_append body_flips body_act)

lemma body_read: "body_ok (read_body r buf)"
  unfolding read_body_def by (auto intro!: body_unlock)

end
