(* ===== verification/Log_Serial.thy ===== *)
theory Log_Serial
  imports Log_Threads
begin

text \<open>
  Serialisability of the log between threads. While a program lets one thread at a time write, any
  interleaving of its operations is equivalent to doing them one after the other, in the order in which
  they release the lock. With two writers at once it is not: they lose updates and free memory twice.
\<close>

section \<open>What a program leaves alone\<close>

lemma run_body_shape: "body_ok p \<Longrightarrow> run_prog p log = Inr (rc, buf, log', calls) \<Longrightarrow> log_shape log' = log_shape log"
proof (induction arbitrary: log rule: body_ok.induct)
  case (body_act f)
  from body_act.prems obtain log1 p where "f log = Inr (log1, p)" "run_prog p log1 = Inr (rc, buf, log', calls)"
    by (auto simp: run_Act c_bind_eq_Inr)
  with body_act.IH show ?case by metis
qed simp

fun lock_of :: "log_op \<Rightarrow> lock_call" where
  "lock_of (WriteOp r b) = RdLock"
| "lock_of (ReadOp r b) = WrLock"

lemma run_prog_of:
  assumes "run_prog (prog_of op) log = Inr (rc, buf, log', calls)"
  shows "op_result log op = Inr (rc, buf, log') \<and> calls = [lock_of op, Unlock]"
proof -
  have "logrw_read log r b = Inr (c, b', cs) \<Longrightarrow> cs = [WrLock, Unlock]" for r b c b' cs
    by (auto simp: logrw_read_def c_bind_eq_Inr split: if_splits)
  with assms logrw_write_calls show ?thesis
    by (cases op) (auto simp: run_write_prog run_read_prog c_bind_eq_Inr)
qed

lemma op_result_ok:
  assumes inv: "log_inv log" and ok: "op_ok log op"
  obtains buf log' where "run_prog (prog_of op) log = Inr (0, buf, log', [lock_of op, Unlock])"
    and "log_inv log'" and "log_shape log' = log_shape log"
proof (cases op)
  case (WriteOp r b)
  with ok have r: "unat r < unat (num_reg log)" "log_block_size log \<le> length b" by (simp_all add: op_ok_def)
  from logrw_write_ok [OF inv r] obtain log' where log': "logrw_write log r b = Inr (0, log', [RdLock, Unlock])"
      "appended log (unat r) (take (log_block_size log) b) log'" by blast
  from inv obtain a1 where a1: "array_1 log = Some a1" by (auto simp: log_inv_def log_arrays_def)
  have "run_prog (write_body r b (fresh_bytes (unat (block_size a1)))) log = Inr (0, [], log', [Unlock])"
    using run_write_body [OF a1 refl, of r b] log'(1) by (simp add: written_def)
  from run_body_shape [OF body_write this] have "log_shape log' = log_shape log" .
  with that [of "[]" log'] log' WriteOp show ?thesis by (simp add: run_write_prog appended_def)
next
  case (ReadOp r b)
  with ok have r: "unat r < unat (num_reg log)" "log_block_size log \<le> length b" by (simp_all add: op_ok_def)
  from logrw_read_ok [OF inv r] that [of _ log] ReadOp inv show ?thesis by (simp add: run_read_prog)
qed

lemma op_ok_shape: "log_shape log' = log_shape log \<Longrightarrow> op_ok log' op = op_ok log op"
  by (cases op) (auto simp: op_ok_def log_shape_def log_block_size_def split: option.splits)

section \<open>The invariant\<close>

text \<open>A thread outside the lock has finished, has not begun, or is about to take the lock; a thread inside
  will give the result of its operation on \<open>base\<close>, the log when it took the lock.\<close>

definition outside :: "logrw_struct \<Rightarrow> log_op \<Rightarrow> prog \<Rightarrow> bool" where
  "outside log0 op p \<longleftrightarrow> (\<exists>rc buf. p = Return rc buf) \<or> p = prog_of op
     \<or> (\<exists>body. p = Lock (lock_of op) body \<and> body_ok body
          \<and> (\<forall>log. log_shape log = log_shape log0 \<longrightarrow> run_prog p log = run_prog (prog_of op) log))"

definition inside :: "logrw_struct \<Rightarrow> log_sys \<Rightarrow> log_op \<Rightarrow> prog \<Rightarrow> bool" where
  "inside base S op p \<longleftrightarrow> body_ok p
     \<and> (\<exists>buf fin. run_prog p (shared S) = Inr (0, buf, fin, [Unlock]) \<and> op_result base op = Inr (0, buf, fin)
          \<and> log_inv fin)"

definition holder :: "log_sys \<Rightarrow> nat \<Rightarrow> bool" where
  "holder S t \<longleftrightarrow> t \<in> set (rd_holders S) \<or> wr_holder S = Some t"

definition lock_free :: "log_sys \<Rightarrow> bool" where
  "lock_free S \<longleftrightarrow> rd_holders S = [] \<and> wr_holder S = None"

definition base_inv :: "logrw_struct \<Rightarrow> log_sys \<Rightarrow> logrw_struct \<Rightarrow> bool" where
  "base_inv log0 S base \<longleftrightarrow> serial log0 (history S) = Some base \<and> log_inv base \<and> log_shape base = log_shape log0
     \<and> log_shape (shared S) = log_shape log0 \<and> (\<forall>h \<in> set (history S). fst (snd h) = 0)
     \<and> (lock_free S \<longrightarrow> shared S = base)"

definition threads_inv :: "logrw_struct \<Rightarrow> log_sys \<Rightarrow> logrw_struct \<Rightarrow> bool" where
  "threads_inv log0 S base \<longleftrightarrow>
     (\<forall>t op p. running S t = Some (op, p) \<longrightarrow> op_ok log0 op
        \<and> (if holder S t then inside base S op p else outside log0 op p))
     \<and> (\<forall>t t' op p op' p'. running S t = Some (op, p) \<and> running S t' = Some (op', p') \<and> is_write op \<and> is_write op'
          \<longrightarrow> t = t')"

text \<open>At most one thread holds the lock, the one that writes or one that reads.\<close>

definition locks_inv :: "log_sys \<Rightarrow> bool" where
  "locks_inv S \<longleftrightarrow> lock_free S
     \<or> (\<exists>t op p. running S t = Some (op, p) \<and> (if is_write op then rd_holders S = [t] \<and> wr_holder S = None
          else rd_holders S = [] \<and> wr_holder S = Some t))"

definition sys_inv :: "logrw_struct \<Rightarrow> log_sys \<Rightarrow> bool" where
  "sys_inv log0 S \<longleftrightarrow> (\<exists>base. base_inv log0 S base \<and> threads_inv log0 S base) \<and> locks_inv S"

lemma body_not: "\<not> body_ok (Return rc buf)" "\<not> body_ok (Lock RdLock p)" "\<not> body_ok (Lock WrLock p)"
  by (auto elim: body_okE)

lemma outside_not_unlock: "\<not> outside log0 op (Lock Unlock p)"
  by (cases op) (auto simp: outside_def write_prog_def test_def read_prog_def)

lemma write_is_rd: "lock_of op = RdLock \<longleftrightarrow> is_write op" "lock_of op = WrLock \<longleftrightarrow> \<not> is_write op"
  by (cases op; simp)+

lemma outside_prog_of: "outside log0 op (prog_of op)"
  by (simp add: outside_def)

text \<open>The allocation before the lock.\<close>

lemma outside_act:
  assumes "outside log0 op (Act f)" and "log_shape log = log_shape log0" and "log_inv log0"
  obtains p where "f log = Inr (log, p)" and "outside log0 op p"
proof -
  from assms(1) obtain r b where op: "op = WriteOp r b" and f: "Act f = write_prog r b"
    by (cases op) (auto simp: outside_def read_prog_def)
  from assms(3) obtain a0 where "array_1 log0 = Some a0" by (auto simp: log_inv_def log_arrays_def)
  then obtain a1 where a1: "array_1 log = Some a1" using assms(2) by (auto simp: log_shape_def)
  let ?aux = "fresh_bytes (unat (block_size a1))" and ?body = "write_body r b (fresh_bytes (unat (block_size a1)))"
  have "run_prog (Lock RdLock ?body) log' = run_prog (write_prog r b) log'" if sh: "log_shape log' = log_shape log0" for log'
  proof -
    from sh assms(2) have "log_shape log' = log_shape log" by simp
    with a1 obtain a2 where "array_1 log' = Some a2" "block_size a2 = block_size a1"
      by (cases "array_1 log'") (auto simp: log_shape_def block_size_def)
    then show ?thesis by (simp add: write_prog_def)
  qed
  then have "outside log0 op (Lock RdLock ?body)" by (simp add: outside_def op body_write)
  moreover have "f log = Inr (log, Lock RdLock ?body)"
    using f a1 by (simp add: write_prog_def test_def)
  ultimately show ?thesis by (rule that [rotated])
qed

text \<open>Taking the lock.\<close>

lemma outside_lock:
  assumes "outside log0 op (Lock l p)" and "log_shape base = log_shape log0" and "log_inv base"
    and "op_ok log0 op" and "shared S = base"
  shows "l = lock_of op \<and> inside base S op p"
proof -
  have ok: "op_ok base op" using assms(2,4) op_ok_shape by blast
  obtain buf fin where r: "run_prog (prog_of op) base = Inr (0, buf, fin, [lock_of op, Unlock])" "log_inv fin"
    by (rule op_result_ok [OF assms(3) ok])
  have "l = lock_of op \<and> body_ok p \<and> run_prog (Lock l p) base = run_prog (prog_of op) base"
    using assms(1,2) by (cases op) (auto simp: outside_def write_prog_def test_def read_prog_def body_read)
  with r run_prog_of [OF r(1)] assms(5) show ?thesis
    by (auto simp: inside_def c_bind_eq_Inr)
qed

section \<open>Steps\<close>

lemma sys_invE:
  assumes "sys_inv log0 S"
  obtains base where "base_inv log0 S base" and "threads_inv log0 S base" and "locks_inv S"
  using assms by (auto simp: sys_inv_def)

lemma holder_upd [simp]: "holder (S\<lparr>shared := l, running := r\<rparr>) = holder S" "holder (S\<lparr>shared := l\<rparr>) = holder S"
  "holder (S\<lparr>running := r\<rparr>) = holder S"
  by (simp_all add: holder_def fun_eq_iff)

text \<open>A change of one thread that neither takes nor releases the lock.\<close>

lemma threads_inv_upd:
  assumes thr: "threads_inv log0 S base" and t: "running S t = Some (op, p)"
    and S': "S' = S\<lparr>shared := log', running := (running S)(t := x)\<rparr>"
    and x: "case x of None \<Rightarrow> True | Some (op', p') \<Rightarrow> op' = op \<and> (if holder S t then inside base S' op p' else outside log0 op p')"
    and others: "\<And>t'. holder S t' \<Longrightarrow> t' \<noteq> t \<Longrightarrow> log' = shared S"
  shows "threads_inv log0 S' base"
proof -
  have "op_ok log0 op' \<and> (if holder S' t' then inside base S' op' p' else outside log0 op' p')"
    if "running S' t' = Some (op', p')" for t' op' p'
  proof (cases "t' = t")
    case True
    with that x have x': "x = Some (op, p')" "op' = op" by (auto simp: S')
    moreover have "op_ok log0 op" using thr t unfolding threads_inv_def by blast
    ultimately show ?thesis using x True by (cases "holder S t") (simp_all add: S')
  next
    case False
    with that have r: "running S t' = Some (op', p')" by (simp add: S')
    with thr have "op_ok log0 op' \<and> (if holder S t' then inside base S op' p' else outside log0 op' p')"
      unfolding threads_inv_def by blast
    with others [OF _ False] show ?thesis by (auto simp: inside_def S' split: if_splits)
  qed
  moreover have "t1 = t2" if "running S' t1 = Some (op1, p1)" "running S' t2 = Some (op2, p2)" "is_write op1" "is_write op2"
    for t1 t2 op1 p1 op2 p2
  proof -
    have "\<exists>q. running S t' = Some (op', q)" if "running S' t' = Some (op', p')" for t' op' p'
      using that x t by (cases "t' = t") (auto simp: S')
    with that obtain q1 q2 where "running S t1 = Some (op1, q1)" "running S t2 = Some (op2, q2)" by metis
    with thr that(3,4) show ?thesis unfolding threads_inv_def by blast
  qed
  ultimately show ?thesis unfolding threads_inv_def by blast
qed

lemma locks_inv_upd:
  assumes "locks_inv S" and "rd_holders S' = rd_holders S" and "wr_holder S' = wr_holder S"
    and "\<And>t op p. running S t = Some (op, p) \<Longrightarrow> holder S t \<Longrightarrow> \<exists>q. running S' t = Some (op, q)"
  shows "locks_inv S'"
proof (cases "lock_free S")
  case False
  with assms(1) obtain t op p where t: "running S t = Some (op, p)"
    and l: "if is_write op then rd_holders S = [t] \<and> wr_holder S = None else rd_holders S = [] \<and> wr_holder S = Some t"
    unfolding locks_inv_def by blast
  then have "holder S t" by (auto simp: holder_def split: if_splits)
  with assms(4) [OF t] l assms(2,3) show ?thesis unfolding locks_inv_def by metis
qed (use assms(2,3) in \<open>simp add: locks_inv_def lock_free_def\<close>)

lemma only_holder:
  assumes "locks_inv S" and "holder S t" and "holder S t'"
  shows "t = t'"
  using assms by (auto simp: locks_inv_def lock_free_def holder_def split: if_splits)

lemma lock_free_holder: "lock_free S \<longleftrightarrow> (\<forall>t. \<not> holder S t)"
  by (cases "rd_holders S"; cases "wr_holder S") (auto simp: lock_free_def holder_def)

text \<open>Every step of a thread succeeds or waits for the lock, and keeps the invariant.\<close>

lemma act_ok:
  assumes base: "base_inv log0 S base" and thr: "threads_inv log0 S base" and locks: "locks_inv S"
    and t: "running S t = Some (op, Act f)" and inv0: "log_inv log0"
  obtains log' p where "f (shared S) = Inr (log', p)"
    and "sys_inv log0 (S\<lparr>shared := log', running := (running S)(t \<mapsto> (op, p))\<rparr>)"
proof -
  have x: "if holder S t then inside base S op (Act f) else outside log0 op (Act f)"
    using thr t unfolding threads_inv_def by blast
  have "\<exists>log' p. f (shared S) = Inr (log', p) \<and> log_shape log' = log_shape (shared S)
      \<and> (holder S t \<longrightarrow> inside base (S\<lparr>shared := log', running := (running S)(t \<mapsto> (op, p))\<rparr>) op p)
      \<and> (\<not> holder S t \<longrightarrow> outside log0 op p \<and> log' = shared S)"
  proof (cases "holder S t")
    case True
    with x obtain buf fin where i: "body_ok (Act f)" "run_prog (Act f) (shared S) = Inr (0, buf, fin, [Unlock])"
        "op_result base op = Inr (0, buf, fin)" "log_inv fin" by (auto simp: inside_def)
    then obtain log' p where f: "f (shared S) = Inr (log', p)" "run_prog p log' = Inr (0, buf, fin, [Unlock])"
      by (auto simp: run_Act c_bind_eq_Inr)
    from i(1) f(1) have "log_shape log' = log_shape (shared S) \<and> body_ok p" by (auto elim: body_okE)
    with True f i(3,4) show ?thesis by (auto simp: inside_def)
  next
    case False
    with x have "outside log0 op (Act f)" by simp
    moreover have "log_shape (shared S) = log_shape log0" using base by (simp add: base_inv_def)
    ultimately obtain p where "f (shared S) = Inr (shared S, p)" "outside log0 op p" using inv0 by (rule outside_act)
    with False show ?thesis by auto
  qed
  then obtain log' p where f: "f (shared S) = Inr (log', p)" "log_shape log' = log_shape (shared S)"
    and hin: "holder S t \<Longrightarrow> inside base (S\<lparr>shared := log', running := (running S)(t \<mapsto> (op, p))\<rparr>) op p"
    and hout: "\<not> holder S t \<Longrightarrow> outside log0 op p \<and> log' = shared S" by blast
  let ?S = "S\<lparr>shared := log', running := (running S)(t \<mapsto> (op, p))\<rparr>"
  have "threads_inv log0 ?S base"
  proof (rule threads_inv_upd [OF thr t refl])
    show "log' = shared S" if "holder S t'" "t' \<noteq> t" for t'
      using hout only_holder [OF locks that(1)] that(2) by blast
  qed (use hin hout in simp)
  moreover have "base_inv log0 ?S base"
    using base f(2) hout lock_free_holder [of S] by (auto simp: base_inv_def lock_free_def)
  moreover have "locks_inv ?S"
    by (rule locks_inv_upd [OF locks]) (use t in auto)
  ultimately show ?thesis using that [OF f(1)] by (auto simp: sys_inv_def)
qed

lemma return_ok:
  assumes inv: "sys_inv log0 S" and t: "running S t = Some (op, Return rc buf)"
  shows "sys_inv log0 (S\<lparr>running := (running S)(t := None)\<rparr>)"
proof -
  from inv obtain base where base: "base_inv log0 S base" and thr: "threads_inv log0 S base" and locks: "locks_inv S"
    by (rule sys_invE)
  let ?S = "S\<lparr>running := (running S)(t := None)\<rparr>"
  have "\<not> holder S t" using thr t body_not(1) unfolding threads_inv_def inside_def by metis
  then have "locks_inv ?S" by (intro locks_inv_upd [OF locks]) auto
  moreover have "threads_inv log0 ?S base" by (rule threads_inv_upd [OF thr t, where log' = "shared S" and x = None]) simp_all
  moreover have "base_inv log0 ?S base" using base by (simp add: base_inv_def lock_free_def)
  ultimately show ?thesis by (auto simp: sys_inv_def)
qed

text \<open>Taking the lock. A thread that wants it for reading finds nobody: it is the only one that writes.\<close>

lemma lock_ok:
  assumes inv: "sys_inv log0 S" and t: "running S t = Some (op, Lock l p)" and l: "l \<noteq> Unlock"
    and free: "wr_holder S = None" "l = WrLock \<Longrightarrow> rd_holders S = []"
    and S': "S' = S\<lparr>rd_holders := (if l = RdLock then t # rd_holders S else rd_holders S),
      wr_holder := (if l = WrLock then Some t else wr_holder S), running := (running S)(t \<mapsto> (op, p))\<rparr>"
  shows "sys_inv log0 S'"
proof -
  from inv obtain base where base: "base_inv log0 S base" and thr: "threads_inv log0 S base" and locks: "locks_inv S"
    by (rule sys_invE)
  have body: "\<not> body_ok (Lock l p)" using l body_not(2,3) by (cases l) auto
  have x: "op_ok log0 op" "if holder S t then inside base S op (Lock l p) else outside log0 op (Lock l p)"
    using thr t unfolding threads_inv_def by blast+
  then have out: "\<not> holder S t" "outside log0 op (Lock l p)" using body by (auto simp: inside_def split: if_splits)
  have lop: "l = lock_of op" using out(2) by (cases op) (auto simp: outside_def write_prog_def test_def read_prog_def)
  have lf: "lock_free S"
  proof (rule ccontr)
    assume "\<not> lock_free S"
    with locks free(1) obtain t' op' p' where t': "running S t' = Some (op', p')" "is_write op'" "rd_holders S = [t']"
      unfolding locks_inv_def by (metis option.distinct(1))
    with free(2) l have "l = RdLock" by (cases l) auto
    with lop have "is_write op" by (metis write_is_rd(1))
    with thr t t'(1,2) have "t' = t" unfolding threads_inv_def by blast
    with t'(3) out(1) show False by (simp add: holder_def)
  qed
  then have sh: "shared S = base" "rd_holders S = []" using base by (simp_all add: base_inv_def lock_free_def)
  have i: "inside base S op p" using outside_lock [OF out(2) _ _ x(1) sh(1)] base by (simp add: base_inv_def)
  have hold: "holder S' t' \<longleftrightarrow> t' = t" for t'
    using l sh(2) free(1) by (cases l) (auto simp: S' holder_def)
  have nh: "\<not> holder S t'" for t' using lf lock_free_holder by blast
  have i': "inside base S' op p" using i by (simp add: inside_def S')
  have "op_ok log0 op' \<and> (if holder S' t' then inside base S' op' p' else outside log0 op' p')"
    if "running S' t' = Some (op', p')" for t' op' p'
  proof (cases "t' = t")
    case True
    with that have "op' = op" "p' = p" by (simp_all add: S')
    with i' x(1) hold True show ?thesis by simp
  next
    case False
    with that have "running S t' = Some (op', p')" by (simp add: S')
    with thr nh False show ?thesis unfolding threads_inv_def by (metis hold)
  qed
  moreover have "t1 = t2" if "running S' t1 = Some (op1, p1)" "running S' t2 = Some (op2, p2)" "is_write op1" "is_write op2"
    for t1 t2 op1 p1 op2 p2
  proof -
    have "\<exists>q. running S t' = Some (op', q)" if "running S' t' = Some (op', p')" for t' op' p'
      using that t by (cases "t' = t") (auto simp: S')
    with that obtain q1 q2 where "running S t1 = Some (op1, q1)" "running S t2 = Some (op2, q2)" by metis
    with thr that(3,4) show ?thesis unfolding threads_inv_def by blast
  qed
  ultimately have "threads_inv log0 S' base" unfolding threads_inv_def by blast
  moreover have "base_inv log0 S' base" using base hold [of t] sh(1) by (auto simp: base_inv_def S')
  moreover have "locks_inv S'"
    unfolding locks_inv_def using l lop sh(2) free(1) write_is_rd [of op]
    by (intro disjI2 exI [of _ t] exI [of _ op] exI [of _ p]) (auto simp: S')
  ultimately show ?thesis by (auto simp: sys_inv_def)
qed

text \<open>Releasing the lock is the point at which the operation takes its place in the history.\<close>

lemma unlock_ok:
  assumes inv: "sys_inv log0 S" and t: "running S t = Some (op, Lock Unlock p)"
    and S': "S' = S\<lparr>rd_holders := removeAll t (rd_holders S),
      wr_holder := (if wr_holder S = Some t then None else wr_holder S), running := (running S)(t \<mapsto> (op, p)),
      history := history S @ (case p of Return rc buf \<Rightarrow> [(op, rc, buf)] | _ \<Rightarrow> [])\<rparr>"
  shows "sys_inv log0 S'"
proof -
  from inv obtain base where base: "base_inv log0 S base" and thr: "threads_inv log0 S base" and locks: "locks_inv S"
    by (rule sys_invE)
  have x: "op_ok log0 op" "if holder S t then inside base S op (Lock Unlock p) else outside log0 op (Lock Unlock p)"
    using thr t unfolding threads_inv_def by blast+
  then have h: "holder S t" and i: "inside base S op (Lock Unlock p)"
    using outside_not_unlock by (auto split: if_splits)
  from i obtain rc buf where p: "p = Return rc buf" by (auto simp: inside_def elim: body_okE)
  with i have r: "rc = 0" "op_result base op = Inr (0, buf, shared S)" "log_inv (shared S)"
    by (auto simp: inside_def)
  have nh: "\<not> holder S t'" if "t' \<noteq> t" for t' using only_holder [OF locks h] that by blast
  have lf: "lock_free S'"
    using locks h by (auto simp: locks_inv_def lock_free_def holder_def S' split: if_splits)
  have ser: "serial log0 (history S') = Some (shared S)"
    using base r by (simp add: base_inv_def S' p serial_append)
  have "base_inv log0 S' (shared S)"
    using base r ser by (auto simp: base_inv_def S' p)
  moreover have "threads_inv log0 S' (shared S)"
  proof -
    have "op_ok log0 op' \<and> outside log0 op' p'" if "running S' t' = Some (op', p')" for t' op' p'
    proof (cases "t' = t")
      case True
      with that x(1) show ?thesis by (auto simp: S' p outside_def)
    next
      case False
      with that have "running S t' = Some (op', p')" by (simp add: S')
      with thr nh [OF False] show ?thesis unfolding threads_inv_def by metis
    qed
    moreover have "t1 = t2" if "running S' t1 = Some (op1, p1)" "running S' t2 = Some (op2, p2)" "is_write op1" "is_write op2"
      for t1 t2 op1 p1 op2 p2
    proof -
      have "\<exists>q. running S t' = Some (op', q)" if "running S' t' = Some (op', p')" for t' op' p'
        using that t by (cases "t' = t") (auto simp: S')
      with that obtain q1 q2 where "running S t1 = Some (op1, q1)" "running S t2 = Some (op2, q2)" by metis
      with thr that(3,4) show ?thesis unfolding threads_inv_def by blast
    qed
    moreover have "\<not> holder S' t'" for t' using lf lock_free_holder by blast
    ultimately show ?thesis unfolding threads_inv_def by metis
  qed
  ultimately show ?thesis using lf by (auto simp: sys_inv_def locks_inv_def)
qed

lemma advance_ok:
  assumes inv: "sys_inv log0 S" and inv0: "log_inv log0"
  shows "case advance t S of None \<Rightarrow> True | Some (Inl e) \<Rightarrow> False | Some (Inr S') \<Rightarrow> sys_inv log0 S'"
proof (cases "running S t")
  case None
  then show ?thesis by (simp add: advance.simps)
next
  case (Some x)
  obtain op p where x: "x = (op, p)" by (cases x)
  with Some have t: "running S t = Some (op, p)" by simp
  show ?thesis
  proof (cases p)
    case (Return rc buf)
    with t return_ok [OF inv] show ?thesis by (simp add: advance.simps)
  next
    case (Act f)
    obtain base where b: "base_inv log0 S base" "threads_inv log0 S base" "locks_inv S" by (rule sys_invE [OF inv])
    obtain log' q where "f (shared S) = Inr (log', q)"
      "sys_inv log0 (S\<lparr>shared := log', running := (running S)(t \<mapsto> (op, q))\<rparr>)"
      using act_ok [OF b _ inv0] t Act by blast
    with t Act show ?thesis by (simp add: advance.simps)
  next
    case (Lock l q)
    with t have t': "running S t = Some (op, Lock l q)" by simp
    show ?thesis
    proof (cases l)
      case RdLock
      let ?S = "S\<lparr>rd_holders := t # rd_holders S, running := (running S)(t \<mapsto> (op, q))\<rparr>"
      have "sys_inv log0 ?S" if "wr_holder S = None"
        by (rule lock_ok [OF inv t']) (use RdLock that in \<open>simp_all\<close>)
      with RdLock t' show ?thesis by (simp add: advance.simps)
    next
      case WrLock
      let ?S = "S\<lparr>wr_holder := Some t, running := (running S)(t \<mapsto> (op, q))\<rparr>"
      have "sys_inv log0 ?S" if "wr_holder S = None" "rd_holders S = []"
        by (rule lock_ok [OF inv t']) (use WrLock that in \<open>simp_all\<close>)
      with WrLock t' show ?thesis by (simp add: advance.simps)
    next
      case Unlock
      with unlock_ok [OF inv _ refl] t' show ?thesis by (simp add: advance.simps)
    qed
  qed
qed

lemma begin_ok:
  assumes inv: "sys_inv log0 S" and t: "running S t = None" and ok: "op_ok (shared S) op" and may: "may_begin True S op"
  shows "sys_inv log0 (S\<lparr>running := (running S)(t \<mapsto> (op, prog_of op))\<rparr>)"
proof -
  from inv obtain base where base: "base_inv log0 S base" and thr: "threads_inv log0 S base" and locks: "locks_inv S"
    by (rule sys_invE)
  let ?S = "S\<lparr>running := (running S)(t \<mapsto> (op, prog_of op))\<rparr>"
  have op: "op_ok log0 op" using ok base op_ok_shape [of "shared S" log0 op] by (simp add: base_inv_def)
  have "\<not> holder S t" using locks t by (auto simp: locks_inv_def lock_free_def holder_def split: if_splits)
  moreover have "inside base ?S op' p' = inside base S op' p'" for op' p' by (simp add: inside_def)
  ultimately have "threads_inv log0 ?S base"
    using thr op may outside_prog_of [of log0 op] unfolding threads_inv_def may_begin_def
    by (auto split: if_splits) blast+
  moreover have "locks_inv ?S" by (rule locks_inv_upd [OF locks]) (use t in auto)
  moreover have "base_inv log0 ?S base" using base by (simp add: base_inv_def lock_free_def)
  ultimately show ?thesis by (auto simp: sys_inv_def)
qed

lemma log_start_inv: "log_inv log0 \<Longrightarrow> sys_inv log0 (log_start log0)"
  by (auto simp: sys_inv_def base_inv_def threads_inv_def locks_inv_def lock_free_def log_start_def)

interpretation one_writer: transition_system "\<lambda>S. log_inv log0 \<and> S = log_start log0" "log_step True"
    "\<lambda>S. log_inv log0 \<and> sys_inv log0 S" for log0
proof
  show "log_inv log0 \<and> sys_inv log0 S" if "log_inv log0 \<and> S = log_start log0" for S
    using that log_start_inv by blast
  show "log_inv log0 \<and> sys_inv log0 S'" if "log_step True S S'" "log_inv log0 \<and> sys_inv log0 S" for S S'
    using that
  proof (induction rule: log_step.induct)
    case (advances t S S')
    with advance_ok [of log0 S t] show ?case by simp
  qed (simp add: begin_ok)
qed

text \<open>No deadlock: a thread that holds the lock can go on, and when nobody holds it every thread can.\<close>

lemma some_advance:
  assumes inv: "sys_inv log0 S" and inv0: "log_inv log0" and t: "running S t = Some x"
  shows "\<exists>t S'. advance t S = Some (Inr S')"
proof -
  from inv obtain base where base: "base_inv log0 S base" and thr: "threads_inv log0 S base" and locks: "locks_inv S"
    by (rule sys_invE)
  have "\<exists>t. advance t S \<noteq> None"
  proof (cases "lock_free S")
    case True
    then have "advance t S \<noteq> None"
      using t by (cases x) (auto simp: advance.simps lock_free_def split: prog.split lock_call.split)
    then show ?thesis by blast
  next
    case False
    with locks obtain t' op p where t': "running S t' = Some (op, p)"
      and l: "if is_write op then rd_holders S = [t'] \<and> wr_holder S = None else rd_holders S = [] \<and> wr_holder S = Some t'"
      unfolding locks_inv_def by blast
    then have "holder S t'" by (auto simp: holder_def split: if_splits)
    with thr t' have "body_ok p" unfolding threads_inv_def inside_def by metis
    with t' have "advance t' S \<noteq> None" by (auto simp: advance.simps elim: body_okE)
    then show ?thesis by blast
  qed
  then obtain t r where "advance t S = Some r" by auto
  with advance_ok [OF inv inv0, of t] show ?thesis by (cases r) auto
qed

section \<open>Properties\<close>

text \<open>C11: While one thread at a time writes, any number of threads that read and write the log get what
  they would get one after the other: whatever the interleaving, the operations that have released the
  lock, done in this order on the first log, return the same results, and lead to the log as it is when
  nobody holds the lock. All of them return 0, no step faults, and as long as a thread is inside an
  operation some thread can go on.\<close>

theorem log_serialisable:
  assumes "log_inv log0" and "reach (\<lambda>S. S = log_start log0) (log_step True) S"
  shows "(\<exists>log. serial log0 (history S) = Some log \<and> (lock_free S \<longrightarrow> shared S = log))
    \<and> (\<forall>(op, rc, buf) \<in> set (history S). rc = 0)
    \<and> (\<forall>t e. advance t S \<noteq> Some (Inl e))
    \<and> (running S \<noteq> Map.empty \<longrightarrow> (\<exists>t S'. advance t S = Some (Inr S')))"
proof -
  have "reach (\<lambda>S. log_inv log0 \<and> S = log_start log0) (log_step True) S"
    using assms by simp
  then have inv: "sys_inv log0 S" by (blast dest: one_writer.reach_inv)
  then obtain base where base: "base_inv log0 S base" by (rule sys_invE)
  have "advance t S \<noteq> Some (Inl e)" for t e using advance_ok [OF inv assms(1), of t] by auto
  moreover have "\<exists>t S'. advance t S = Some (Inr S')" if "running S \<noteq> Map.empty"
  proof -
    from that obtain t where "running S t \<noteq> None" by (metis ext)
    then obtain x where "running S t = Some x" by blast
    with some_advance [OF inv assms(1)] show ?thesis by blast
  qed
  ultimately show ?thesis using base by (auto simp: base_inv_def)
qed

section \<open>Schedules\<close>

text \<open>A schedule: a thread begins an operation, or makes some steps.\<close>

datatype event = Begin nat log_op | Steps nat nat

fun steps :: "nat \<Rightarrow> nat \<Rightarrow> log_sys \<Rightarrow> log_sys option" where
  "steps t 0 S = Some S"
| "steps t (Suc n) S = (case advance t S of Some (Inr S') \<Rightarrow> steps t n S' | _ \<Rightarrow> None)"

fun schedule :: "bool \<Rightarrow> event list \<Rightarrow> log_sys \<Rightarrow> log_sys option" where
  "schedule w [] S = Some S"
| "schedule w (Begin t op # es) S =
     (if running S t = None \<and> op_ok (shared S) op \<and> (w \<longrightarrow> \<not> is_write op)
      then schedule w es (S\<lparr>running := (running S)(t \<mapsto> (op, prog_of op))\<rparr>) else None)"
| "schedule w (Steps t n # es) S = (case steps t n S of None \<Rightarrow> None | Some S' \<Rightarrow> schedule w es S')"

lemma steps_reach:
  "reach init (log_step w) S \<Longrightarrow> steps t n S = Some S' \<Longrightarrow> reach init (log_step w) S'"
proof (induction t n S rule: steps.induct)
  case (2 t n S)
  from 2(3) obtain S1 where S1: "advance t S = Some (Inr S1)" "steps t n S1 = Some S'"
    by (auto split: option.splits sum.splits)
  have "log_step w S S1" using S1(1) by (rule log_step.advances)
  with 2(2) have "reach init (log_step w) S1" by (rule reach_step)
  with 2(1) S1 show ?case by blast
qed simp

lemma schedule_reach:
  "reach init (log_step w) S \<Longrightarrow> schedule w es S = Some S' \<Longrightarrow> reach init (log_step w) S'"
proof (induction w es S rule: schedule.induct)
  case (2 w t op es S)
  let ?S = "S\<lparr>running := (running S)(t \<mapsto> (op, prog_of op))\<rparr>"
  from 2(3) have c: "running S t = None" "op_ok (shared S) op" "w \<longrightarrow> \<not> is_write op" "schedule w es ?S = Some S'"
    by (simp_all split: if_splits)
  then have "log_step w S ?S" by (intro log_step.begins) (auto simp: may_begin_def)
  with 2(2) have "reach init (log_step w) ?S" by (rule reach_step)
  with 2(1) c show ?case by blast
next
  case (3 w t n es S)
  then show ?case using steps_reach by (auto split: option.splits)
qed simp

text \<open>One thread writes, two read.\<close>

definition one_writer_demo :: "log_sys option" where
  "one_writer_demo = schedule True
     [Begin 1 (ReadOp 0 [9, 9, 9, 9]), Steps 0 1, Begin 2 (ReadOp 1 [9, 9, 9, 9]), Steps 1 2, Steps 1 3, Steps 0 9, Steps 2 5]
     ((log_start small_log)\<lparr>running := [0 \<mapsto> (WriteOp 0 [1, 2, 3, 4], prog_of (WriteOp 0 [1, 2, 3, 4]))]\<rparr>)"

theorem log_serialisable_witness:
  "\<exists>S log. one_writer_demo = Some S
    \<and> history S = [(ReadOp 0 [9, 9, 9, 9], 0, [0, 0, 0, 0]), (WriteOp 0 [1, 2, 3, 4], 0, []),
         (ReadOp 1 [9, 9, 9, 9], 0, [1, 2, 3, 4])]
    \<and> serial small_log (history S) = Some log"
proof -
  let ?op = "WriteOp 0 [1, 2, 3, 4]"
  let ?S0 = "(log_start small_log)\<lparr>running := [0 \<mapsto> (?op, prog_of ?op)]\<rparr>"
  have "case one_writer_demo of None \<Rightarrow> False | Some S \<Rightarrow>
      history S = [(ReadOp 0 [9, 9, 9, 9], 0, [0, 0, 0, 0]), (WriteOp 0 [1, 2, 3, 4], 0, []),
         (ReadOp 1 [9, 9, 9, 9], 0, [1, 2, 3, 4])]"
    by code_simp
  then obtain S where S: "one_writer_demo = Some S"
    "history S = [(ReadOp 0 [9, 9, 9, 9], 0, [0, 0, 0, 0]), (WriteOp 0 [1, 2, 3, 4], 0, []),
         (ReadOp 1 [9, 9, 9, 9], 0, [1, 2, 3, 4])]"
    by (auto split: option.splits)
  let ?init = "\<lambda>S. S = log_start small_log"
  have "log_step True (log_start small_log) ((log_start small_log)\<lparr>running := (running (log_start small_log))(0 \<mapsto> (?op, prog_of ?op))\<rparr>)"
    by (rule log_step.begins) (simp_all add: log_start_def op_ok_def small_log_inv may_begin_def)
  then have "reach ?init (log_step True) ?S0"
    by (intro reach_step [OF reach_init [of ?init "log_start small_log"]]) (simp_all add: log_start_def)
  then have "reach ?init (log_step True) S"
    using S(1) unfolding one_writer_demo_def by (rule schedule_reach)
  from log_serialisable [OF small_log_inv(1) this] S show ?thesis by blast
qed

section \<open>Two writers\<close>

definition lost_update :: "log_sys option" where
  "lost_update = schedule False
     [Begin 0 (WriteOp 0 [1, 1, 1, 1]), Begin 1 (WriteOp 1 [2, 2, 2, 2]), Steps 0 6, Steps 1 6,
      Steps 0 1, Steps 1 1, Steps 0 1, Steps 1 1, Steps 0 1, Steps 1 1] (log_start small_log)"

definition double_free :: "log_sys option" where
  "double_free = schedule False
     [Begin 0 (WriteOp 0 [1, 1, 1, 1]), Steps 0 10, Begin 0 (WriteOp 0 [1, 1, 1, 1]), Steps 0 10,
      Begin 0 (WriteOp 0 [1, 1, 1, 1]), Begin 1 (WriteOp 1 [2, 2, 2, 2]), Steps 0 4, Steps 1 8, Steps 0 2]
     (log_start small_log)"

text \<open>C12: Two threads that write at once interfere, because both hold the lock for reading. They may write
  to the same block: both calls return 0, but one register then has the data of the other, which no
  order of the two writes gives. And when one of them takes the last free block of an array between the
  tests of the other, none of the four tests holds, and \<open>block_aux\<close> is freed a second time.\<close>

theorem writers_interfere:
  "(\<exists>S. reach (\<lambda>S. S = log_start small_log) (log_step False) S \<and> lock_free S
      \<and> history S = [(WriteOp 0 [1, 1, 1, 1], 0, []), (WriteOp 1 [2, 2, 2, 2], 0, [])]
      \<and> logrw_read (shared S) 0 [0, 0, 0, 0] = Inr (0, [2, 2, 2, 2], [WrLock, Unlock]))
   \<and> (\<exists>log. serial small_log [(WriteOp 0 [1, 1, 1, 1], 0, []), (WriteOp 1 [2, 2, 2, 2], 0, [])] = Some log
      \<and> logrw_read log 0 [0, 0, 0, 0] = Inr (0, [1, 1, 1, 1], [WrLock, Unlock]))
   \<and> (\<exists>log. serial small_log [(WriteOp 1 [2, 2, 2, 2], 0, []), (WriteOp 0 [1, 1, 1, 1], 0, [])] = Some log
      \<and> logrw_read log 0 [0, 0, 0, 0] = Inr (0, [1, 1, 1, 1], [WrLock, Unlock]))
   \<and> (\<exists>S. reach (\<lambda>S. S = log_start small_log) (log_step False) S \<and> advance 0 S = Some (Inl WildPointer))"
proof (intro conjI)
  let ?init = "\<lambda>S. S = log_start small_log"
  have r0: "reach ?init (log_step False) (log_start small_log)" by (rule reach_init) simp
  have "case lost_update of None \<Rightarrow> False | Some S \<Rightarrow> rd_holders S = [] \<and> wr_holder S = None
      \<and> history S = [(WriteOp 0 [1, 1, 1, 1], 0, []), (WriteOp 1 [2, 2, 2, 2], 0, [])]
      \<and> logrw_read (shared S) 0 [0, 0, 0, 0] = Inr (0, [2, 2, 2, 2], [WrLock, Unlock])"
    by code_simp
  then obtain S where S: "lost_update = Some S" "rd_holders S = [] \<and> wr_holder S = None
      \<and> history S = [(WriteOp 0 [1, 1, 1, 1], 0, []), (WriteOp 1 [2, 2, 2, 2], 0, [])]
      \<and> logrw_read (shared S) 0 [0, 0, 0, 0] = Inr (0, [2, 2, 2, 2], [WrLock, Unlock])"
    by (auto split: option.splits)
  have "reach ?init (log_step False) S"
    by (rule schedule_reach [OF r0 S(1) [unfolded lost_update_def]])
  with S(2) show "\<exists>S. reach ?init (log_step False) S \<and> lock_free S
      \<and> history S = [(WriteOp 0 [1, 1, 1, 1], 0, []), (WriteOp 1 [2, 2, 2, 2], 0, [])]
      \<and> logrw_read (shared S) 0 [0, 0, 0, 0] = Inr (0, [2, 2, 2, 2], [WrLock, Unlock])"
    unfolding lock_free_def by blast
  have "case serial small_log [(WriteOp 0 [1, 1, 1, 1], 0, []), (WriteOp 1 [2, 2, 2, 2], 0, [])] of None \<Rightarrow> False
      | Some log \<Rightarrow> logrw_read log 0 [0, 0, 0, 0] = Inr (0, [1, 1, 1, 1], [WrLock, Unlock])"
    by code_simp
  then show "\<exists>log. serial small_log [(WriteOp 0 [1, 1, 1, 1], 0, []), (WriteOp 1 [2, 2, 2, 2], 0, [])] = Some log
      \<and> logrw_read log 0 [0, 0, 0, 0] = Inr (0, [1, 1, 1, 1], [WrLock, Unlock])"
    by (auto split: option.splits)
  have "case serial small_log [(WriteOp 1 [2, 2, 2, 2], 0, []), (WriteOp 0 [1, 1, 1, 1], 0, [])] of None \<Rightarrow> False
      | Some log \<Rightarrow> logrw_read log 0 [0, 0, 0, 0] = Inr (0, [1, 1, 1, 1], [WrLock, Unlock])"
    by code_simp
  then show "\<exists>log. serial small_log [(WriteOp 1 [2, 2, 2, 2], 0, []), (WriteOp 0 [1, 1, 1, 1], 0, [])] = Some log
      \<and> logrw_read log 0 [0, 0, 0, 0] = Inr (0, [1, 1, 1, 1], [WrLock, Unlock])"
    by (auto split: option.splits)
  have "case Option.bind double_free (advance 0) of Some (Inl WildPointer) \<Rightarrow> True | _ \<Rightarrow> False"
    by code_simp
  then have "Option.bind double_free (advance 0) = Some (Inl WildPointer)"
    by (simp split: option.splits sum.splits fault.splits)
  then obtain S where S: "double_free = Some S" "advance 0 S = Some (Inl WildPointer)"
    unfolding Option.bind_eq_Some_conv by blast
  have "reach ?init (log_step False) S"
    by (rule schedule_reach [OF r0 S(1) [unfolded double_free_def]])
  with S(2) show "\<exists>S. reach ?init (log_step False) S \<and> advance 0 S = Some (Inl WildPointer)" by blast
qed

end
