(* ===== verification/Spec2Isabelle.thy ===== *)
theory Spec2Isabelle
  imports Sofs_Delayed Fs_Threads Program_Dumps Log_Tests Cache_Boot Sthread_Monitors Sthread_Slices Sthread_Lists
    Sthread_Coroutines Posix_Calls Log_Serial
begin

text \<open>
  SOFS is a file system in user space. A FUSE front end (\<open>src/sofs/sofs.c\<close>) calls a file system on
  512-byte blocks (\<open>src/sofs/fs.c\<close>), which keeps its blocks on a virtual disk in memory: a plain
  array of blocks (\<open>src/logrw/block.c\<close>), or a log that writes to two block arrays in turn
  (\<open>src/logrw/logrw.c\<close>). The macros of \<open>src/include/fs.h\<close> choose between them, and the default
  build delays each access (\<open>src/logrw/io_delay.c\<close>). A block cache (\<open>src/sofs/cache.c\<close>) is a third
  choice. The threads come from \<open>src/sthread_lib\<close>: joining, sleeping, mutexes, semaphores,
  readers/writer locks and monitors, either on a scheduler for threads at user level or, with
  \<open>USE_PTHREADS\<close>, on the threads of the system.

  \<^bold>\<open>How the program is modelled.\<close> A C function is a HOL function on explicit states. Its result
  type is \<open>'a c\<close>: \<open>Inr\<close> with the result and the new state, or \<open>Inl\<close> with the reason why the run
  leaves the defined behaviour (a null or wild pointer, an access out of bounds, signed overflow, a
  loop without end) or ends the program. Machine integers have their widths, arrays are lists with
  checked indices, \<open>NULL\<close> is \<open>None\<close>, and memory that the source does not initialise is an argument
  of the model.

  \<^bold>\<open>Theories.\<close>
  \<^item> \<open>C_Prelude\<close>: outcomes, machine integers, checked arrays, reachable states, and the locale
    \<open>transition_system\<close> that lifts an invariant of the steps to the reachable states.
  \<^item> \<open>Block_Store\<close>: \<open>block.c\<close>. Blocks, reading, writing, and the image of a disk in a file.
  \<^item> \<open>Log_Store\<close>: \<open>logrw.c\<close>. The registers, the two arrays and the flip between them; the
    invariant \<open>log_inv\<close>, and a read after any sequence of writes.
    \<open>Log_Dump\<close>: what the dump functions of \<open>block.c\<close> and \<open>logrw.c\<close> print. \<open>Log_Threads\<close>: the
    same operations as programs of atomic actions that threads interleave, with the locks that
    \<open>logrw.c\<close> takes between them; \<open>Log_Serial\<close>: one writer and any readers have the effect of the
    operations one after the other, two writers interfere. \<open>Log_Tests\<close>: the threads of the two
    test programs that drive the log.
  \<^item> \<open>Disk_Interface\<close>: \<open>DISK_INIT\<close>, \<open>DISK_READ\<close>, \<open>DISK_WRITE\<close> of \<open>fs.h\<close> as the locale \<open>disk\<close>,
    interpreted by the plain disk and by the log.
  \<^item> \<open>Io_Delay\<close>: \<open>io_delay.c\<close> and the disk with delays. \<open>Fs_Sim\<close>: two disks that simulate each
    other give the same results and data of all file system calls (locale \<open>disk_sim\<close>).
  \<^item> \<open>Fs_Layout\<close>, \<open>Fs_Ops\<close>: \<open>fs.c\<close>, its data and its operations in the order of the source.
  \<^item> \<open>Fs_Spec\<close>: the abstract file system, a map from inode numbers to files (byte lists) and
    directories (lists of names and inode numbers), and the invariant \<open>fs_inv\<close> under which the
    concrete state represents one. \<open>Fs_Alloc\<close>, \<open>Fs_Room\<close>, \<open>Fs_Files\<close>, \<open>Fs_Dirs\<close>,
    \<open>Fs_Create\<close>, \<open>Fs_Mount\<close>: every operation refines an operation on the map, and none
    uses up more blocks than the map needs. \<open>Fs_Run\<close>: sequences of calls.
    \<open>Fs_Example\<close>: the states that the examples use.
  \<^item> \<open>Sofs_Fuse\<close>, \<open>Sofs_Session\<close>: the callbacks of \<open>sofs.c\<close> and the requests of FUSE as a
    transition system on which the file system invariant holds. \<open>Sofs_Default\<close>: a disk of the
    default size never fills up. \<open>Sofs_Delayed\<close>: the callbacks on the disk with delays, which
    is the default build, and the time that a request sleeps: once for each access, counted by a plain disk
    that records its accesses. \<open>Fs_Threads\<close>: two creations that
    overlap, as FUSE allows when it serves requests on several threads. \<open>Program_Dumps\<close>: what
    \<open>fs_dump\<close> and \<open>sthread_dump\<close> print.
  \<^item> \<open>Thread_Queue\<close>: \<open>queue.c\<close> on a heap, and the locale \<open>fifo_heap\<close> of queues that behave like
    lists. \<open>Sthread_User\<close>, \<open>Sthread_Sync\<close>: \<open>sthread_user.c\<close>, with the lists of the scheduler as
    HOL lists; a context switch exchanges stacks of frames, the rests of operations. The operations on
    readers/writer locks are also cut behind their tests and updates, where a time slice may end.
    \<open>Sthread_Sched\<close>: what each operation does to the lists; no thread is at two places.
    \<open>Sthread_Objects\<close>: the objects for synchronisation. \<open>Sthread_Demo\<close>: runs of programs.
    \<open>Threads_Correct\<close>: the properties of the threads, several of them of programs that use threads, sleeping,
    joining and semaphores only. \<open>Sthread_Lists\<close>: the loops of the scheduler over its lists, on the heap of
    queues. \<open>Sthread_Monitors\<close>: monitors against an
    abstract monitor. \<open>Sthread_Slices\<close>: \<open>sthread_time_slice.c\<close>, the timer behind the clock ticks, and a
    program that runs under it.
    \<open>Sthread_Context\<close>, \<open>Sthread_Coroutines\<close>: \<open>sthread_ctx.c\<close> with the assembly of
    \<open>sthread_switch_i386.h\<close>, on registers and memory; they justify that the model of the threads lets a
    switch go on with a saved stack of frames.
  \<^item> \<open>Sthread_Pthread\<close>: \<open>sthread_pthread.c\<close>, the back end that the usual builds choose, with the
    library of POSIX threads as a parameter. \<open>Posix_Calls\<close>: the calls that it makes, recorded, and the
    discipline that POSIX asks for.
  \<^item> \<open>Cache_Layer\<close>: \<open>cache.c\<close>, its nodes, its two queues and its operations, as a disk on top of
    another disk; the clean nodes form a ring as long as no write returns. \<open>Cache_Boot\<close>: the start
    of the build with the cache.

  \<^bold>\<open>What is shown.\<close> This theory states the properties of the file system on top of the disks: each
  operation refines its abstract counterpart; the reachable states of the file system and of the
  FUSE front end keep the invariant and no call faults in them; metadata survives a reload; the
  delays of the default build are invisible; and what happens on errors. The conditions on calls and requests
  (\<open>call_ok\<close>, \<open>request_ok\<close>) are stated with the properties. The other
  theories state the properties of their parts. Several
  of them describe defects of the program as it is: a full disk leaks blocks, the log build
  overruns a bitmap, a mutex does not block, a readers/writer lock admits a writer and a reader at once, a sleeping thread may be forgotten, the value of a
  thread that exits is lost, two creations at once get the same inode, two writers of the log
  lose a block, the test programs of the log write past their buffers.

  \<^bold>\<open>Termination.\<close> All functions are total. The loops of the program are recursions over lists of
  indices or threads, or, in \<open>delete_queue\<close>, over a heap that shrinks; \<open>cache_free\<close> frees a node in
  every turn and \<open>cache_flush\<close> takes one out of the hash table. \<open>count_down\<close> of the delay
  simulator counts a number down; \<open>drain\<close> is bounded by a number of turns, and the length of the
  queue is enough. There is no other fuel. A spin lock that is taken yields \<open>Hangs\<close>.

  \<^bold>\<open>Not modelled.\<close> The other prints (\<open>sthread_print_stats\<close>, messages) have no effect on results. Of
  \<open>fs.c\<close> only creations are interleaved, and the programs of \<open>Log_Threads\<close> do not use the cache.
  The \<open>main\<close> functions and the tests of the scheduler are left out.
  Signal masks and the PowerPC variants are left out; a stack that overflows is excluded by a hypothesis
  where a switch needs room on it. A time slice never ends inside an operation of the library but those on readers/writer locks, which the library does not
  exclude.
  The containers under \<open>src/uthash\<close> are third-party code.

  \<^bold>\<open>Bounds.\<close> The bitmap has 4096 bits, the default disk 16384 blocks. An inode refers to ten blocks,
  so files end at 5120 bytes, and 64 inodes need 640 blocks and 10 for the metadata. This is why the
  safety theorems hold for both small and large disks.
\<close>

section \<open>Files\<close>

text \<open>C1: On the simple disk, \<open>fs_write\<close> to an existing file, with room in the inode and on the
  disk, returns 0 and replaces the bytes of the file from the offset on (or appends, when the
  offset lies behind the end) by the buffer; no other file or directory changes, the invariant
  holds and the metadata on the disk is up to date.\<close>

theorem fs_write_refines:
  assumes "fs_inv block_view fs" and "fs_abs block_view fs (unat fl) = Some (FileNode old)"
    and "off = min (unat offset) (length old)" and "off + unat cnt \<le> 5120"
    and "unat cnt \<le> length buffer" and "length junk = BLOCK_SIZE"
    and "(off + unat cnt + 511) div 512 - (length old + 511) div 512
      \<le> card (free_blocks block_disk fs)"
  shows "\<exists>fs'. fs_write block_disk junk (Some fs) fl offset cnt (Some buffer) = Inr (0, Some fs')
    \<and> fs_inv block_view fs' \<and> synced block_view fs'
    \<and> fs_abs block_view fs' = (fs_abs block_view fs)
        (unat fl \<mapsto> FileNode (overwrite old off (take (unat cnt) buffer)))"
proof -
  note f = fs_abs_FileD [OF assms(2)]
  have "length junk = 512" "off = min (unat offset) (fsize fs (unat fl))"
    "(off + unat cnt + 511) div 512 - nblocks fs (unat fl) \<le> card (free_blocks block_disk fs)"
    using assms(3,6,7) f by (simp_all add: BLOCK_SIZE_def)
  from bd.fs_write_ok [OF assms(1) f(1,2) this(2) assms(4,5) this(1,3)] f(3) show ?thesis by auto
qed

theorem fs_write_refines_witness:
  "\<exists>fs'. fs_write block_disk (replicate 512 0) (Some demo_fs) 2 0 3 (Some [1, 2, 3]) =
      Inr (0, Some fs') \<and> fs_abs block_view fs' 2 = Some (FileNode [1, 2, 3])"
  using fs_write_refines [of demo_fs 2 "[]" 0 0 3 "[1, 2, 3]" "replicate 512 0"]
  by (auto simp: demo_fs_facts BLOCK_SIZE_def overwrite_def)

text \<open>The same on the build that keeps its blocks in the log.\<close>

lemma fs_write_refines_log:
  assumes "fs_inv log_view fs" and "fs_abs log_view fs (unat fl) = Some (FileNode old)"
    and "off = min (unat offset) (length old)" and "off + unat cnt \<le> 5120"
    and "unat cnt \<le> length buffer" and "length junk = BLOCK_SIZE"
    and "(off + unat cnt + 511) div 512 - (length old + 511) div 512
      \<le> card (free_blocks log_disk fs)"
  shows "\<exists>fs'. fs_write log_disk junk (Some fs) fl offset cnt (Some buffer) = Inr (0, Some fs')
    \<and> fs_inv log_view fs' \<and> synced log_view fs'
    \<and> fs_abs log_view fs' = (fs_abs log_view fs)
        (unat fl \<mapsto> FileNode (overwrite old off (take (unat cnt) buffer)))"
proof -
  note f = fs_abs_FileD [OF assms(2)]
  have "length junk = 512" "off = min (unat offset) (fsize fs (unat fl))"
    "(off + unat cnt + 511) div 512 - nblocks fs (unat fl) \<le> card (free_blocks log_disk fs)"
    using assms(3,6,7) f by (simp_all add: BLOCK_SIZE_def)
  from ld.fs_write_ok [OF assms(1) f(1,2) this(2) assms(4,5) this(1,3)] f(3) show ?thesis by auto
qed

lemma fs_write_refines_log_witness:
  "\<exists>fs'. fs_write log_disk (replicate 512 0) (Some (demo_on demo_log)) 2 7 3 (Some [1, 2, 3]) =
      Inr (0, Some fs') \<and> fs_abs log_view fs' 2 = Some (FileNode [1, 2, 3])"
  using fs_write_refines_log [of "demo_on demo_log" 2 "[]" 0 7 3 "[1, 2, 3]" "replicate 512 0"]
  by (auto simp: demo_log_facts BLOCK_SIZE_def overwrite_def)

text \<open>C4: \<open>fs_read\<close> of an existing file copies the bytes from the offset on, at most \<open>cnt\<close> and
  at most those that the file has, to the front of the buffer, reports their number and changes
  nothing; at or behind the end of the file it reads nothing.\<close>

theorem fs_read_returns:
  assumes "fs_inv block_view fs" and "fs_abs block_view fs (unat fl) = Some (FileNode bs)"
    and "n = min (unat cnt) (length bs - unat offset)" and "n \<le> length buffer"
    and "length junk = BLOCK_SIZE"
  shows "fs_read block_disk junk (Some fs) fl offset cnt (Some buffer) (Some nr) =
    Inr (0, Some fs, Some (take n (drop (unat offset) bs) @ drop n buffer), Some (int n))"
proof -
  note f = fs_abs_FileD [OF assms(2)]
  have "n = min (unat cnt) (fsize fs (unat fl) - unat offset)" "length junk = 512"
    using assms(3,5) f by (simp_all add: BLOCK_SIZE_def)
  from bd.fs_read_ok [OF assms(1) f(1,2) this(1) assms(4) this(2)] f(3) show ?thesis by simp
qed

theorem fs_read_returns_witness:
  "\<exists>fs. fs_read block_disk (replicate 512 0) (Some fs) 2 1 9 (Some [0, 0, 0]) (Some 5) =
    Inr (0, Some fs, Some [8, 9, 0], Some 2)"
proof -
  obtain fs where "fs_inv block_view fs" "fs_abs block_view fs 2 = Some (FileNode [7, 8, 9])"
    using demo_written by auto
  then have "fs_read block_disk (replicate 512 0) (Some fs) 2 1 9 (Some [0, 0, 0]) (Some 5) =
      Inr (0, Some fs, Some (take 2 (drop (unat (1 :: u32)) [7, 8, 9]) @ drop 2 [0, 0, 0]), Some (int 2))"
    by (intro fs_read_returns) (simp_all add: BLOCK_SIZE_def)
  then show ?thesis by (intro exI [of _ fs]) simp
qed

section \<open>Directories\<close>

text \<open>C2: \<open>fs_create\<close> in an existing directory that has no entry with the given name, with a free
  inode and, when the last page of the directory is full, a free block, returns 0 and a
  fresh inode number; the directory gets one more entry, with the name less its first character,
  and the inode is an empty file. Nothing else changes.\<close>

theorem fs_create_refines:
  assumes "fs_inv block_view fs" and "fs_abs block_view fs (unat dir) = Some (DirNode es)"
    and "0 < length nm" and "length nm < FS_MAX_FNAME_SZ" and "0 \<notin> set nm"
    and "map_of es nm = None" and "used_inodes fs \<noteq> {..<ITAB_SIZE}"
    and "length es mod 32 \<noteq> 0 \<or> free_blocks block_disk fs \<noteq> {}" and "length junk = BLOCK_SIZE"
  shows "\<exists>n fs'. fs_create block_disk junk (Some fs) dir (Some nm) (Some r) =
      Inr (0, Some fs', Some (of_nat n))
    \<and> n < ITAB_SIZE \<and> fs_abs block_view fs n = None \<and> fs_inv block_view fs' \<and> synced block_view fs'
    \<and> fs_abs block_view fs' = (fs_abs block_view fs)
        (unat dir \<mapsto> DirNode (es @ [(tl nm, of_nat n)]), n \<mapsto> FileNode [])"
proof -
  note d = fs_abs_DirD [OF assms(2)]
  have room: "fsize fs (unat dir) mod 512 = 0 \<Longrightarrow> free_blocks block_disk fs \<noteq> {}"
    using bd.dir_entries_mod [OF assms(1) d(1,2)] assms(8) d(4) by simp
  have "length nm < 14" "length junk = 512" "map_of (dentries (content block_view fs (unat dir))) nm = None"
    using assms(4,6,9) d(3) by (simp_all add: FS_MAX_FNAME_SZ_def BLOCK_SIZE_def)
  from bd.fs_create_ok [OF assms(1) d(1,2) assms(3) this(1) assms(5) this(3) assms(7) room this(2)]
  obtain n fs' where "fs_create block_disk junk (Some fs) dir (Some nm) (Some r) =
      Inr (0, Some fs', Some (of_nat n))" "n < ITAB_SIZE" "\<not> bmap_has (inode_bmap fs) n"
    "fs_inv block_view fs'" "synced block_view fs'"
    "fs_abs block_view fs' = (fs_abs block_view fs)(unat dir \<mapsto>
      DirNode (es @ [(tl nm, of_nat n)]), n \<mapsto> FileNode [])"
    using d(3) by blast
  then show ?thesis using fs_abs_fresh [of fs n block_view] by blast
qed

theorem fs_create_refines_witness:
  "\<exists>n fs'. fs_create block_disk (replicate 512 0) (Some demo_fs) 1 (Some [0x2F, 0x61]) (Some 0) =
      Inr (0, Some fs', Some (of_nat n)) \<and> n \<notin> {1, 2, 3}
    \<and> fs_abs block_view fs' = [1 \<mapsto> DirNode [([0x61], of_nat n)], 2 \<mapsto> FileNode [],
        3 \<mapsto> DirNode [], n \<mapsto> FileNode []]"
proof -
  obtain n fs' where "fs_create block_disk (replicate 512 0) (Some demo_fs) 1 (Some [0x2F, 0x61]) (Some 0) =
      Inr (0, Some fs', Some (of_nat n))" "fs_abs block_view demo_fs n = None"
    and "fs_abs block_view fs' = (fs_abs block_view demo_fs)
        (unat (1 :: u16) \<mapsto> DirNode ([] @ [(tl [0x2F, 0x61], of_nat n)]), n \<mapsto> FileNode [])"
    using fs_create_refines [of demo_fs 1 "[]" "[0x2F, 0x61]" "replicate 512 0" 0]
    by (auto simp: demo_fs_facts BLOCK_SIZE_def FS_MAX_FNAME_SZ_def)
  then show ?thesis
    by (intro exI [of _ n] exI [of _ fs'])
      (auto simp: demo_fs_facts(2) fun_eq_iff split: if_splits)
qed

text \<open>C3: \<open>fs_mkdir\<close> does the same for a new directory, which gets the whole name.\<close>

theorem fs_mkdir_refines:
  assumes "fs_inv block_view fs" and "fs_abs block_view fs (unat dir) = Some (DirNode es)"
    and "0 < length nm" and "length nm < FS_MAX_FNAME_SZ" and "0 \<notin> set nm"
    and "map_of es nm = None" and "used_inodes fs \<noteq> {..<ITAB_SIZE}"
    and "length es mod 32 \<noteq> 0 \<or> free_blocks block_disk fs \<noteq> {}" and "length junk = BLOCK_SIZE"
  shows "\<exists>n fs'. fs_mkdir block_disk junk (Some fs) dir (Some nm) (Some r) =
      Inr (0, Some fs', Some (of_nat n))
    \<and> n < ITAB_SIZE \<and> fs_abs block_view fs n = None \<and> fs_inv block_view fs' \<and> synced block_view fs'
    \<and> fs_abs block_view fs' = (fs_abs block_view fs)
        (unat dir \<mapsto> DirNode (es @ [(nm, of_nat n)]), n \<mapsto> DirNode [])"
proof -
  note d = fs_abs_DirD [OF assms(2)]
  have room: "fsize fs (unat dir) mod 512 = 0 \<Longrightarrow> free_blocks block_disk fs \<noteq> {}"
    using bd.dir_entries_mod [OF assms(1) d(1,2)] assms(8) d(4) by simp
  have "length nm < 14" "length junk = 512" "map_of (dentries (content block_view fs (unat dir))) nm = None"
    using assms(4,6,9) d(3) by (simp_all add: FS_MAX_FNAME_SZ_def BLOCK_SIZE_def)
  from bd.fs_mkdir_ok [OF assms(1) d(1,2) assms(3) this(1) assms(5) this(3) assms(7) room this(2)]
  obtain n fs' where "fs_mkdir block_disk junk (Some fs) dir (Some nm) (Some r) =
      Inr (0, Some fs', Some (of_nat n))" "n < ITAB_SIZE" "\<not> bmap_has (inode_bmap fs) n"
    "fs_inv block_view fs'" "synced block_view fs'"
    "fs_abs block_view fs' = (fs_abs block_view fs)(unat dir \<mapsto>
      DirNode (es @ [(nm, of_nat n)]), n \<mapsto> DirNode [])"
    using d(3) by blast
  then show ?thesis using fs_abs_fresh [of fs n block_view] by blast
qed

theorem fs_mkdir_refines_witness:
  "\<exists>n fs'. fs_mkdir block_disk (replicate 512 0) (Some demo_fs) 3 (Some [0x64]) (Some 0) =
      Inr (0, Some fs', Some (of_nat n))
    \<and> fs_abs block_view fs' 3 = Some (DirNode [([0x64], of_nat n)])"
proof -
  obtain n fs' where "fs_mkdir block_disk (replicate 512 0) (Some demo_fs) 3 (Some [0x64]) (Some 0) =
      Inr (0, Some fs', Some (of_nat n))" "fs_abs block_view demo_fs n = None"
    and "fs_abs block_view fs' = (fs_abs block_view demo_fs)
        (unat (3 :: u16) \<mapsto> DirNode ([] @ [([0x64], of_nat n)]), n \<mapsto> DirNode [])"
    using fs_mkdir_refines [of demo_fs 3 "[]" "[0x64]" "replicate 512 0" 0]
    by (auto simp: demo_fs_facts BLOCK_SIZE_def FS_MAX_FNAME_SZ_def)
  then show ?thesis
    by (intro exI [of _ n] exI [of _ fs']) (auto simp: demo_fs_facts(2) split: if_splits)
qed

text \<open>C21: \<open>fs_create\<close> looks for the string with its leading slash but stores the name without it:
  although the directory has an entry with the name, a second file of the same name is
  created. A later search still finds the first one.\<close>

theorem fs_create_duplicates:
  assumes "fs_inv block_view fs" and "fs_abs block_view fs (unat dir) = Some (DirNode es)"
    and "hd nm = SLASH" and "1 < length nm" and "length nm < FS_MAX_FNAME_SZ" and "0 \<notin> set nm"
    and "map_of es (tl nm) = Some j" and "map_of es nm = None"
    and "used_inodes fs \<noteq> {..<ITAB_SIZE}"
    and "length es mod 32 \<noteq> 0 \<or> free_blocks block_disk fs \<noteq> {}" and "length junk = BLOCK_SIZE"
  shows "\<exists>n fs' es'. fs_create block_disk junk (Some fs) dir (Some nm) (Some r) =
      Inr (0, Some fs', Some (of_nat n))
    \<and> fs_abs block_view fs' (unat dir) = Some (DirNode es')
    \<and> (tl nm, j) \<in> set es' \<and> (tl nm, of_nat n) \<in> set es' \<and> of_nat n \<noteq> j
    \<and> map_of es' (tl nm) = Some j"
proof -
  note d = fs_abs_DirD [OF assms(2)]
  have room: "fsize fs (unat dir) mod 512 = 0 \<Longrightarrow> free_blocks block_disk fs \<noteq> {}"
    using bd.dir_entries_mod [OF assms(1) d(1,2)] assms(10) d(4) by simp
  have nm: "0 < length nm" "length nm < 14" "length junk = 512"
    "map_of (dentries (content block_view fs (unat dir))) nm = None"
    using assms(4,5,8,11) d(3) by (auto simp: FS_MAX_FNAME_SZ_def BLOCK_SIZE_def)
  obtain n fs' where c: "fs_create block_disk junk (Some fs) dir (Some nm) (Some r) =
      Inr (0, Some fs', Some (of_nat n))" "n < ITAB_SIZE" "\<not> bmap_has (inode_bmap fs) n"
    "fs_abs block_view fs' = (fs_abs block_view fs)(unat dir \<mapsto>
      DirNode (es @ [(tl nm, of_nat n)]), n \<mapsto> FileNode [])"
    using bd.fs_create_ok [OF assms(1) d(1,2) nm(1,2) assms(6) nm(4) assms(9) room nm(3)] d(3) by blast
  have "live fs (unat j)"
    using bd.map_of_dentries_live [OF assms(1) d(1,2)] assms(7) d(3) by simp
  then have "of_nat n \<noteq> j" using c(2,3) unat_of_nat_u16 [of n] by (auto simp: live_def)
  moreover have "unat dir \<noteq> n" using d(1) c(3) by (auto simp: live_def)
  ultimately show ?thesis
    using c(1,4) assms(7) map_of_SomeD [OF assms(7)]
    by (intro exI [of _ n] exI [of _ fs'] exI [of _ "es @ [(tl nm, of_nat n)]"]) (simp add: map_add_def)
qed

theorem fs_create_duplicates_witness:
  "\<exists>fs fs' n j es'. fs_abs block_view fs 1 = Some (DirNode [([0x61], j)])
    \<and> fs_create block_disk (replicate 512 0) (Some fs) 1 (Some [0x2F, 0x61]) (Some 0) =
      Inr (0, Some fs', Some (of_nat n))
    \<and> fs_abs block_view fs' 1 = Some (DirNode es')
    \<and> ([0x61], j) \<in> set es' \<and> ([0x61], of_nat n) \<in> set es' \<and> of_nat n \<noteq> j"
proof -
  obtain fs j where fs: "fs_inv block_view fs" "fs_abs block_view fs 1 = Some (DirNode [([0x61], j)])"
    "used_inodes fs \<noteq> {..<ITAB_SIZE}"
    using demo_created by blast
  have dir: "fs_abs block_view fs (unat (1 :: u16)) = Some (DirNode [([0x61], j)])" using fs(2) by simp
  have "\<exists>n fs' es'. fs_create block_disk (replicate 512 0) (Some fs) 1 (Some [0x2F, 0x61]) (Some 0) =
      Inr (0, Some fs', Some (of_nat n))
    \<and> fs_abs block_view fs' (unat (1 :: u16)) = Some (DirNode es')
    \<and> (tl [0x2F, 0x61], j) \<in> set es' \<and> (tl [0x2F, 0x61], of_nat n) \<in> set es' \<and> of_nat n \<noteq> j
    \<and> map_of es' (tl [0x2F, 0x61]) = Some j"
    by (rule fs_create_duplicates [OF fs(1) dir _ _ _ _ _ _ fs(3)])
      (simp_all add: SLASH_def FS_MAX_FNAME_SZ_def BLOCK_SIZE_def)
  then obtain n fs' es' where "fs_create block_disk (replicate 512 0) (Some fs) 1 (Some [0x2F, 0x61])
      (Some 0) = Inr (0, Some fs', Some (of_nat n))" "fs_abs block_view fs' 1 = Some (DirNode es')"
    "([0x61], j) \<in> set es'" "([0x61], of_nat n) \<in> set es'" "of_nat n \<noteq> j" by auto
  with fs(2) show ?thesis by blast
qed

text \<open>C16: \<open>fs_lookup\<close> of an absolute path follows it through the directories. It returns 1 and the
  inode the path leads to, or 0 or -1 when the path leads nowhere.\<close>

theorem fs_lookup_walks:
  assumes "fs_inv block_view fs" and "0 \<notin> set path" and "path \<noteq> []" and "hd path = SLASH"
    and "length path < MAX_PATH_NAME_SIZE" and "length junk = BLOCK_SIZE"
    and "strtok_tokens [] path \<noteq> []"
  shows "\<exists>rc fid. fs_lookup block_disk junk (Some fs) (Some path) fid0 = Inr (rc, fid, Some fs)
    \<and> (case abs_walk (fs_abs block_view fs) 1 (strtok_tokens [] path) of
         Some j \<Rightarrow> rc = 1 \<and> unat fid = j | None \<Rightarrow> rc = 0 \<or> rc = -1)"
proof -
  have "length junk = 512" using assms(6) by (simp add: BLOCK_SIZE_def)
  from bd.fs_lookup_ok [OF assms(1-5) this, of fid0] assms(7) show ?thesis
    by (fastforce split: option.splits)
qed

theorem fs_lookup_walks_witness:
  "\<exists>fs rc fid j. fs_abs block_view fs 1 = Some (DirNode [([0x61], j)])
    \<and> fs_lookup block_disk (replicate 512 0) (Some fs) (Some [0x2F, 0x61]) 0 = Inr (rc, fid, Some fs)
    \<and> rc = 1 \<and> fid = j"
proof -
  obtain fs j where fs: "fs_inv block_view fs" "fs_abs block_view fs 1 = Some (DirNode [([0x61], j)])"
    using demo_created by blast
  have walk: "abs_walk (fs_abs block_view fs) 1 (strtok_tokens [] [0x2F, 0x61]) = Some (unat j)"
    using fs(2) by (simp add: SLASH_def)
  obtain rc fid where "fs_lookup block_disk (replicate 512 0) (Some fs) (Some [0x2F, 0x61]) 0 =
      Inr (rc, fid, Some fs)" "rc = 1" "unat fid = unat j"
    using fs_lookup_walks [OF fs(1), of "[0x2F, 0x61]" "replicate 512 0" 0] walk
    by (auto simp: SLASH_def MAX_PATH_NAME_SIZE_def BLOCK_SIZE_def)
  with fs(2) show ?thesis by (auto simp: word_unat_eq_iff)
qed

text \<open>C17: \<open>fs_readdir\<close> lists the entries of a directory in order, with the types of their inodes, as
  many as the caller allows, and reports their number.\<close>

theorem fs_readdir_lists:
  assumes "fs_inv block_view fs" and "fs_abs block_view fs (unat dir) = Some (DirNode es)"
    and "0 \<le> maxn" and "n = min (length es) (nat maxn)" and "n \<le> length entries"
    and "length junk = BLOCK_SIZE"
  shows "fs_readdir block_disk junk (Some fs) dir (Some entries) maxn (Some nr) =
    Inr (0, Some fs, Some (take n (map (\<lambda>(nm, j). (nm, itype (inode_tab fs ! unat j))) es)
      @ drop n entries), Some (int n))"
proof -
  note d = fs_abs_DirD [OF assms(2)]
  have l: "dir_listing block_view fs (unat dir) = map (\<lambda>(nm, j). (nm, itype (inode_tab fs ! unat j))) es"
    by (simp add: dir_listing_def d(3))
  then have "n = min (length (dir_listing block_view fs (unat dir))) (nat maxn)" "length junk = 512"
    using assms(4,6) by (simp_all add: BLOCK_SIZE_def)
  from bd.fs_readdir_ok [OF assms(1) d(1,2) assms(3) this(1) assms(5) this(2)] show ?thesis by (simp add: l)
qed

theorem fs_readdir_lists_witness:
  "\<exists>fs ty. fs_readdir block_disk (replicate 512 0) (Some fs) 1 (Some [([], 0), ([], 0)]) 2 (Some 0) =
    Inr (0, Some fs, Some [([0x61], ty), ([], 0)], Some 1)"
proof -
  obtain fs j where fs: "fs_inv block_view fs" "fs_abs block_view fs 1 = Some (DirNode [([0x61], j)])"
    using demo_created by blast
  then have "fs_abs block_view fs (unat (1 :: u16)) = Some (DirNode [([0x61], j)])" by simp
  from fs_readdir_lists [OF fs(1) this, of 2 1 "[([], 0), ([], 0)]" "replicate 512 0" 0]
  show ?thesis by (intro exI [of _ fs]) (simp add: BLOCK_SIZE_def)
qed

text \<open>When the name is taken, \<open>fs_create\<close> (searching for its whole argument) and \<open>fs_mkdir\<close> return
  -1 and the inode that has it, and change nothing.\<close>

lemma fs_create_exists:
  assumes "fs_inv block_view fs" and "fs_abs block_view fs (unat dir) = Some (DirNode es)"
    and "0 < length nm" and "length nm < FS_MAX_FNAME_SZ" and "0 \<notin> set nm"
    and "map_of es nm = Some j" and "length junk = BLOCK_SIZE"
  shows "fs_create block_disk junk (Some fs) dir (Some nm) (Some r) = Inr (-1, Some fs, Some j)
    \<and> fs_mkdir block_disk junk (Some fs) dir (Some nm) (Some r) = Inr (-1, Some fs, Some j)"
proof -
  note d = fs_abs_DirD [OF assms(2)]
  have "length nm < 14" "length junk = 512" "map_of (dentries (content block_view fs (unat dir))) nm = Some j"
    using assms(4,6,7) d(3) by (simp_all add: FS_MAX_FNAME_SZ_def BLOCK_SIZE_def)
  from bd.create_exists [OF assms(1) d(1,2) assms(3) this(1) assms(5) this(2,3)] show ?thesis by blast
qed

theorem fs_create_exists_witness:
  "\<exists>fs j. fs_mkdir block_disk (replicate 512 0) (Some fs) 1 (Some [0x61]) (Some 0) = Inr (-1, Some fs, Some j)"
proof -
  obtain fs j where fs: "fs_inv block_view fs" "fs_abs block_view fs 1 = Some (DirNode [([0x61], j)])"
    using demo_created by blast
  then have "fs_abs block_view fs (unat (1 :: u16)) = Some (DirNode [([0x61], j)])" by simp
  from fs_create_exists [OF fs(1) this, of "[0x61]" j "replicate 512 0" 0]
  show ?thesis by (auto simp: FS_MAX_FNAME_SZ_def BLOCK_SIZE_def)
qed

section \<open>Errors and limits of writing\<close>

text \<open>C20: When the blocks on the disk do not suffice, \<open>fs_write\<close> returns -1 and no file changes, but
  it is not atomic: all blocks that were free are reserved afterwards, and stay so.\<close>

theorem fs_write_no_room_leaks:
  assumes "fs_inv block_view fs" and "fs_abs block_view fs (unat fl) = Some (FileNode old)"
    and "off = min (unat offset) (length old)" and "off + unat cnt \<le> 5120"
    and "card (free_blocks block_disk fs)
      < (off + unat cnt + 511) div 512 - (length old + 511) div 512"
    and "unat (DISK_BLOCKS block_disk (fs_blocks fs)) \<le> BMAP_BITS"
  shows "\<exists>fs'. fs_write block_disk junk (Some fs) fl offset cnt (Some buffer) = Inr (-1, Some fs')
    \<and> fs_inv block_view fs' \<and> fs_abs block_view fs' = fs_abs block_view fs
    \<and> free_blocks block_disk fs' = {}"
proof -
  note f = fs_abs_FileD [OF assms(2)]
  have "off = min (unat offset) (fsize fs (unat fl))"
    "card (free_blocks block_disk fs) < (off + unat cnt + 511) div 512 - nblocks fs (unat fl)"
    using assms(3,5) f by simp_all
  from bd.fs_write_no_room [OF assms(1) f(1,2) this(1) assms(4) this(2) assms(6)] show ?thesis by blast
qed

theorem fs_write_no_room_leaks_witness:
  "\<exists>fs'. fs_write block_disk [] (Some (demo_on tiny_disk)) 2 0 1 (Some [5]) = Inr (-1, Some fs')
    \<and> fs_abs block_view fs' 2 = Some (FileNode [])"
  using fs_write_no_room_leaks [OF tiny_fs_facts(1), of 2 "[]" 0 0 1 "[]" "[5]"]
  by (auto simp: tiny_fs_facts BMAP_BITS_def BLOCK_SIZE_def)

text \<open>A write that would make a file larger than its ten blocks returns -1 and changes
  nothing.\<close>

lemma fs_write_too_large:
  assumes "fs_inv block_view fs" and "fs_abs block_view fs (unat fl) = Some (FileNode old)"
    and "off = min (unat offset) (length old)" and "5120 < off + unat cnt"
    and "off + unat cnt < 2 ^ 32"
  shows "fs_write block_disk junk (Some fs) fl offset cnt (Some buffer) = Inr (-1, Some fs)"
proof -
  note f = fs_abs_FileD [OF assms(2)]
  have "off = min (unat offset) (fsize fs (unat fl))" using assms(3) f by simp
  from bd.fs_write_too_big [OF assms(1) f(1,2) this assms(4,5)] show ?thesis .
qed

theorem fs_write_too_large_witness:
  "fs_write block_disk [] (Some demo_fs) 2 0 6000 (Some []) = Inr (-1, Some demo_fs)"
  by (rule fs_write_too_large [of _ _ "[]" 0]) (simp_all add: demo_fs_facts)

text \<open>C18: \<open>fs_truncate\<close> of a file empties it and frees exactly its blocks, in memory.\<close>

theorem fs_truncate_empties:
  assumes "fs_inv block_view fs" and "fs_abs block_view fs (unat fl) = Some (FileNode old)"
  shows "\<exists>fs'. fs_truncate (Some fs) fl = Inr (0, Some fs') \<and> fs_inv block_view fs'
    \<and> fs_abs block_view fs' = (fs_abs block_view fs)(unat fl \<mapsto> FileNode [])
    \<and> fs_blocks fs' = fs_blocks fs
    \<and> (\<forall>n. bmap_has (blk_bmap fs') n \<longleftrightarrow> bmap_has (blk_bmap fs) n
         \<and> (\<forall>k < (length old + 511) div 512. n \<noteq> fblk fs (unat fl) k))"
proof -
  note f = fs_abs_FileD [OF assms(2)]
  from fs_truncate_ok [OF assms(1) f(1,2)] f(5) show ?thesis by simp
qed

theorem fs_truncate_empties_witness:
  "\<exists>fs fs'. fs_abs block_view fs 2 = Some (FileNode [7, 8, 9])
    \<and> fs_truncate (Some fs) 2 = Inr (0, Some fs') \<and> fs_abs block_view fs' 2 = Some (FileNode [])"
proof -
  obtain fs where fs: "fs_inv block_view fs" "fs_abs block_view fs (unat (2 :: u16)) = Some (FileNode [7, 8, 9])"
    using demo_written by auto
  from fs_truncate_empties [OF this] fs(2) show ?thesis by auto
qed

text \<open>\<open>fs_get_attrs\<close> reports the type and the size of an inode, and the number of entries of a
  directory.\<close>

lemma fs_get_attrs_reports:
  assumes "fs_inv block_view fs" and "fs_abs block_view fs (unat i) = Some node"
  shows "fs_get_attrs fs i attrs = Inr (0, attrs\<lparr>at_inodeid := i,
    at_type := (case node of DirNode es \<Rightarrow> FS_DIR | FileNode bs \<Rightarrow> FS_FILE),
    at_size := (case node of DirNode es \<Rightarrow> of_nat (16 * length es) | FileNode bs \<Rightarrow> of_nat (length bs)),
    at_num_entries := (case node of DirNode es \<Rightarrow> int (length es) | FileNode bs \<Rightarrow> -1)\<rparr>)"
proof (cases node)
  case (FileNode bs)
  note f = fs_abs_FileD [OF assms(2) [unfolded FileNode]]
  from fs_get_attrs_ok [OF assms(1) f(1), of attrs] show ?thesis
    using assms(2) FileNode f(2,4) by simp
next
  case (DirNode es)
  note d = fs_abs_DirD [OF assms(2) [unfolded DirNode]]
  have "fsize fs (unat i) = 16 * length es"
    using bd.dir_size(1) [OF assms(1) d(1,2)] d(4) by auto
  with fs_get_attrs_ok [OF assms(1) d(1), of attrs] show ?thesis
    using assms(2) DirNode d(2) by simp
qed

theorem fs_get_attrs_reports_witness:
  "\<exists>fs :: blocks_t fs_t. fs_get_attrs fs 2 \<lparr>at_inodeid = 0, at_type = 0, at_size = 0, at_num_entries = 0\<rparr> =
    Inr (0, \<lparr>at_inodeid = 2, at_type = FS_FILE, at_size = 3, at_num_entries = -1\<rparr>)"
proof -
  obtain fs where fs: "fs_inv block_view fs" "fs_abs block_view fs (unat (2 :: u16)) = Some (FileNode [7, 8, 9])"
    using demo_written by auto
  from fs_get_attrs_reports [OF this,
      of "\<lparr>at_inodeid = 0, at_type = 0, at_size = 0, at_num_entries = 0\<rparr>"]
  show ?thesis by (intro exI [of _ fs]) simp
qed

section \<open>Starting and restarting\<close>

text \<open>C15: The metadata that an operation saved is what \<open>fs_new\<close> finds when it is given the disk:
  the file system comes back as it was.\<close>

theorem fs_reload:
  assumes "fs_inv block_view fs" and "synced block_view fs" and "mem_ok mem"
  shows "fs_new block_disk (Inr (Some (fs_blocks fs))) mem n = Inr fs"
  using fs_invD(1) [OF assms(1)] assms(2,3)
  by (intro bd.fs_new_ok) (auto simp: mem_ok_def fs_shape_def)

theorem fs_reload_witness:
  "\<exists>fs. fs_abs block_view fs 2 = Some (FileNode [7, 8, 9])
    \<and> fs_new block_disk (Inr (Some (fs_blocks fs))) demo_fs 0 = Inr fs"
proof -
  obtain fs where fs: "fs_inv block_view fs" "synced block_view fs"
    "fs_abs block_view fs 2 = Some (FileNode [7, 8, 9])"
    using demo_written by auto
  have "mem_ok demo_fs" using fs_invD(1) [OF demo_fs_facts(1)] by (simp add: mem_ok_def fs_shape_def)
  from fs_reload [OF fs(1,2) this] fs(3) show ?thesis by blast
qed

text \<open>C19: On the simple disk of the default size, \<open>fs_new\<close> followed by \<open>fs_format\<close> gives an empty
  file system: an empty root directory and nothing else, saved on the disk. This is the state in
  which \<open>sofs_init\<close> leaves the mounted file system, up to the switch of the delays.\<close>

theorem fs_boot:
  assumes "mem_ok mem"
  shows "\<exists>fs0 fs. fs_new block_disk block_disk_init mem n = Inr fs0
    \<and> fs_format block_disk (Some fs0) = Inr (0, Some fs)
    \<and> fs_inv block_view fs \<and> synced block_view fs \<and> fs_abs block_view fs = [1 \<mapsto> DirNode []]
    \<and> sofs_init block_disk block_disk_init mem on = Inr (Some (fs\<lparr>fs_blocks := on (fs_blocks fs)\<rparr>))"
proof -
  from default_boot [OF assms, of n on] show ?thesis by blast
qed

theorem fs_boot_witness:
  "\<exists>fs0 fs. fs_new block_disk block_disk_init demo_fs 0 = Inr fs0
    \<and> fs_format block_disk (Some fs0) = Inr (0, Some fs) \<and> fs_abs block_view fs = [1 \<mapsto> DirNode []]"
proof -
  have "mem_ok demo_fs" using fs_invD(1) [OF demo_fs_facts(1)] by (simp add: mem_ok_def fs_shape_def)
  from fs_boot [OF this] show ?thesis by blast
qed

text \<open>C22: The build on the log cannot start: because of the swapped sizes its blocks have 163840
  bytes, and the first read of the metadata overruns the bitmap of 512 bytes.\<close>

theorem fs_log_boot_overruns:
  assumes "mem_ok mem"
  shows "fs_new log_disk log_disk_init mem n = Inl OutOfBounds"
proof -
  obtain a where a: "block_new 512 163840 = Inr (Some a)" "blocks_wf a" "bks_num_blocks a = 512"
    "bks_block_size a = 163840"
    using block_new_wf [of 512 163840] by auto
  have init: "log_disk_init = Inr (Some \<lparr>registo = replicate 16384 0, livre = 0, array_activo = 0,
      num_reg = 16384, array_1 = Some a, array_2 = Some a, tempo = 0\<rparr>)"
    using a(1) by (simp add: log_disk_init_def logrw_init_def NUM_BLOCKS_def DIM_ACTIVE_ARRAY_def
        BLOCK_SIZE_def word_le_nat_alt)
  have "length (bks_blocks a) = 512 * 163840" using a by (simp add: blocks_wf_def)
  then have "block_read a 0 (blk_bmap mem) = Inl OutOfBounds"
    using a(3,4) assms
    by (simp add: block_read_def mem_read_def mem_write_def mem_ok_def BLOCK_SIZE_def)
  then show ?thesis
    using a(3) by (simp add: fs_new_def init fsi_load_fsdata_def log_disk_def logrw_read_def
        c_nth_def block_num_blocks_def)
qed

theorem fs_log_boot_overruns_witness:
  "fs_new log_disk log_disk_init (demo_on demo_log) 16384 = Inl OutOfBounds"
proof -
  have "mem_ok (demo_on demo_log)"
    using fs_invD(1) [OF demo_log_facts(1)] by (simp add: mem_ok_def fs_shape_def)
  then show ?thesis by (rule fs_log_boot_overruns)
qed

section \<open>Runs\<close>

text \<open>C5: In every state that writes, creations, new directories and truncations lead to from a formatted
  file system, on a disk that the bitmap covers or on one that is larger, the invariant holds, and every further
  such call returns, in a state of the same kind: no access out of bounds, no call of \<open>exit\<close>. The conditions on
  each call, those already made and the next one, are \<open>call_ok\<close>: the buffer of a write is as long as its
  count says, and the end of its range, offset plus count, is below \<open>2 ^ 32\<close>; names are strings, without
  zeros; and \<open>fs_truncate\<close>, which does not check its argument, is called with an inode that is in use. The last
  condition is needed: for the number of an inode that the table does not have, \<open>fs_truncate\<close> accesses
  memory behind the table.\<close>

theorem fs_runs_safely:
  assumes "reach (formatted block_disk block_view) (fs_step block_disk block_view) fs"
    and "call_ok block_view fs call" and "length junk = BLOCK_SIZE"
  shows "fs_inv block_view fs
    \<and> (\<exists>rc fs'. run_call block_disk junk fs call = Inr (rc, Some fs') \<and> fs_inv block_view fs'
        \<and> reach (formatted block_disk block_view) (fs_step block_disk block_view) fs')
    \<and> (\<forall>ino. ITAB_SIZE \<le> unat ino \<longrightarrow> run_call block_disk junk fs (Truncate ino) = Inl OutOfBounds)"
proof -
  have inv: "run_inv block_disk block_view fs" by (rule bd.run.reach_inv [OF assms(1)])
  then have fs: "fs_inv block_view fs" by (simp add: run_inv_def)
  from bd.run_call_safe [OF inv assms(2,3)] obtain rc fs'
    where call: "run_call block_disk junk fs call = Inr (rc, Some fs')" "run_inv block_disk block_view fs'"
    unfolding stays_def by blast
  have "reach (formatted block_disk block_view) (fs_step block_disk block_view) fs'"
    by (rule reach_step [OF assms(1)]) (rule fs_stepI [OF assms(2,3) call(1)])
  moreover have "run_call block_disk junk fs (Truncate ino) = Inl OutOfBounds" if "ITAB_SIZE \<le> unat ino" for ino
    using that fs_shapeD(5) [OF fs_invD(1) [OF fs]] by (simp add: run_call_def fs_truncate_def c_nth_def)
  ultimately show ?thesis using fs call by (auto simp: run_inv_def)
qed

theorem fs_runs_safely_witness:
  "\<exists>fs rc fs'. formatted block_disk block_view fs
    \<and> run_call block_disk (replicate 512 0) fs (Create 1 [0x2F, 0x61]) = Inr (rc, Some fs')
    \<and> fs_inv block_view fs' \<and> run_call block_disk (replicate 512 0) fs (Truncate 64) = Inl OutOfBounds"
proof -
  have view: "dv_ok block_view demo_disk" "10 \<le> dv_cap block_view demo_disk"
    by (simp_all add: demo_disk_view)
  note blank = zero_fs_blank [OF view]
  obtain fs where "fs_format block_disk (Some (zero_fs demo_disk)) = Inr (0, Some fs)"
    using bd.fs_format_ok [OF blank] by blast
  then have fs: "formatted block_disk block_view fs"
    using blank unfolding formatted_def
    by (intro exI [of _ "zero_fs demo_disk"])
      (simp add: block_disk_def block_num_blocks_def zero_fs_def demo_disk_def BMAP_BITS_def BLOCK_SIZE_def)
  then have "reach (formatted block_disk block_view) (fs_step block_disk block_view) fs"
    by (rule reach_init)
  from fs_runs_safely [OF this, of "Create 1 [0x2F, 0x61]" "replicate 512 0"] fs show ?thesis
    by (auto simp: call_ok_def BLOCK_SIZE_def)
qed

section \<open>Delayed storage\<close>

text \<open>C24: The builds of the Makefile delay every access to a block. The delays cannot be seen by the
  callers of the file system: every sequence of its calls, that format, read attributes, look up paths, read and write
  files, create files and directories, list directories and truncate files, gives the same status codes and the
  same results, with the data that are read, and the same file system as on the plain disk, or ends in the same fault.
  Related are two file systems with the same disk of at most \<open>2 ^ 31\<close> blocks, the same bitmaps and inodes, the first with
  any state of the simulator whose last access was to such a block.\<close>

theorem fs_delays_invisible:
  assumes "fs_rel delay_rel fs gs"
  shows "case run_ops (delay_disk SLEEP_ON) junk fs ops of
      Inr (replies, fs') \<Rightarrow> \<exists>gs'. run_ops block_disk junk gs ops = Inr (replies, gs') \<and> fs_rel delay_rel fs' gs'
    | Inl f \<Rightarrow> run_ops block_disk junk gs ops = Inl f"
  using dsim.run_ops_sim [OF assms, of SLEEP_ON junk ops]
  by (cases "run_ops (delay_disk SLEEP_ON) junk fs ops"; cases "run_ops block_disk junk gs ops") auto

text \<open>Three bytes are written and two of them read back.\<close>

theorem fs_delays_invisible_witness:
  "\<exists>fs' :: (blocks_t \<times> io_delay) fs_t. run_ops (delay_disk True) (replicate 512 0)
      (demo_on (demo_disk, \<lparr>Is_off = 0, last_access = 0, slept = []\<rparr>))
      [Op_write 2 0 3 [7, 8, 9], Op_read 2 1 9 [0, 0, 0] 5] =
    Inr ([Status 0, Got_data 0 (Some [8, 9, 0]) (Some 2)], fs')"
proof -
  let ?io = "\<lparr>Is_off = 0, last_access = 0, slept = []\<rparr>"
  let ?ops = "[Op_write 2 0 3 [7, 8, 9], Op_read 2 1 9 [0, 0, 0] 5]"
  have rel: "fs_rel delay_rel (demo_on (demo_disk, ?io)) demo_fs"
    by (simp add: fs_rel_def demo_fs_def demo_on_def delay_rel_def io_small_def demo_disk_def)
  obtain gs where gs: "fs_write block_disk (replicate 512 0) (Some demo_fs) 2 0 3 (Some [7, 8, 9]) = Inr (0, Some gs)"
    "fs_inv block_view gs" "fs_abs block_view gs (unat (2 :: u16)) = Some (FileNode [7, 8, 9])"
    using demo_write by auto
  note f = fs_abs_FileD [OF gs(3)]
  have "fs_read block_disk (replicate 512 0) (Some gs) 2 1 9 (Some [0, 0, 0]) (Some 5) =
      Inr (0, Some gs, Some [8, 9, 0], Some 2)"
    using bd.fs_read_ok [OF gs(2) f(1,2), of 2 9 1 "[0, 0, 0]" "replicate 512 0" 5] f(3,4) by simp
  with gs(1) have "run_ops block_disk (replicate 512 0) demo_fs ?ops =
      Inr ([Status 0, Got_data 0 (Some [8, 9, 0]) (Some 2)], gs)"
    by (simp add: run_op_def)
  with fs_delays_invisible [OF rel, where SLEEP_ON = True and junk = "replicate 512 0" and ops = ?ops]
  show ?thesis by (auto split: sum.splits)
qed

text \<open>C25: Once the delays are on, a sequence of accesses sleeps between one and four seconds for
  each of them, and exactly one second each when the blocks are accessed one after the other.\<close>

theorem io_delay_bounds:
  assumes "Is_off io = 0" and "io_small io" and "\<forall>n \<in> set ns. unat n < 2 ^ 31"
  shows "\<exists>io' t. io_delay_run True io ns = Inr io' \<and> sum_list (slept io') = sum_list (slept io) + t
    \<and> length ns \<le> t \<and> t \<le> 4 * length ns
    \<and> (map unat ns = [Suc (unat (last_access io))..<Suc (unat (last_access io)) + length ns]
        \<longrightarrow> t = length ns)"
  using io_delay_run_ok [OF assms] seek_total_bounds [of "map unat ns" "unat (last_access io)"]
    seek_total_sequential [of "unat (last_access io)" "length ns"] by (auto simp del: upt_Suc)

theorem io_delay_bounds_witness:
  "\<exists>io' t. io_delay_run True (io_delay_on \<lparr>Is_off = 1, last_access = 0, slept = []\<rparr>) [1, 2] = Inr io'
    \<and> sum_list (slept io') = t \<and> 2 \<le> t \<and> t \<le> 8"
  using io_delay_bounds [of "io_delay_on \<lparr>Is_off = 1, last_access = 0, slept = []\<rparr>" "[1, 2]"]
  by (auto simp: io_delay_on_def io_small_def)

section \<open>The mounted file system\<close>

text \<open>C8: A session through the FUSE callbacks: creating a new file in the root directory, writing
  data to it through the handle, opening it by its path and reading it gives the data back; the
  file system has the new file with exactly these bytes and is otherwise unchanged, and saved.\<close>

theorem sofs_session:
  assumes "fs_inv block_view fs" and "fs_abs block_view fs 1 = Some (DirNode es)" and "sofs_name nm"
    and "map_of es (SLASH # nm) = None" and "map_of es nm = None"
    and "used_inodes fs \<noteq> {..<ITAB_SIZE}"
    and "length bytes \<le> 5120" and "length bytes \<le> length buf"
    and "(length bytes + 511) div 512 < card (free_blocks block_disk fs)"
    and "length junk = BLOCK_SIZE"
  shows "\<exists>fh fs1 fs2.
      sofs_create block_disk junk fid0 (Some fs) (SLASH # nm) fh0 = Inr (0, Some fs1, fh)
    \<and> sofs_write block_disk junk (Some fs1) bytes (of_nat (length bytes)) 0 fh =
        Inr (int (length bytes), Some fs2)
    \<and> sofs_open block_disk junk fid1 (Some fs2) (SLASH # nm) fh1 = Inr (0, Some fs2, fh)
    \<and> sofs_read block_disk junk (Some fs2) buf (of_nat (length bytes)) 0 fh =
        Inr (int (length bytes), Some fs2, bytes @ drop (length bytes) buf)
    \<and> fs_inv block_view fs2 \<and> synced block_view fs2
    \<and> (\<exists>n. \<not> live fs (unat n) \<and> fs_abs block_view fs2 = (fs_abs block_view fs)
          (1 \<mapsto> DirNode (es @ [(nm, n)]), unat n \<mapsto> FileNode bytes))"
proof -
  have "length junk = 512" using assms(10) by (simp add: BLOCK_SIZE_def)
  from bd.sofs_session_ok [OF assms(1-9) this] show ?thesis .
qed

theorem sofs_session_witness:
  "\<exists>fh fs1 fs2. sofs_create block_disk (replicate 512 0) 0 (Some demo_fs) [0x2F, 0x61] 0 =
      Inr (0, Some fs1, fh)
    \<and> sofs_write block_disk (replicate 512 0) (Some fs1) [1, 2, 3] 3 0 fh = Inr (3, Some fs2)
    \<and> sofs_read block_disk (replicate 512 0) (Some fs2) [0, 0, 0, 0] 3 0 fh =
      Inr (3, Some fs2, [1, 2, 3, 0])"
proof -
  have "sofs_name [0x61]" by (simp add: sofs_name_def SLASH_def)
  moreover have "used_inodes demo_fs \<noteq> {..<ITAB_SIZE}" by (simp add: demo_fs_facts(4) ITAB_SIZE_def)
  ultimately show ?thesis
    using sofs_session [of demo_fs "[]" "[0x61]" "[1, 2, 3]" "[0, 0, 0, 0]" "replicate 512 0" 0 0 0 0]
    by (force simp: demo_fs_facts SLASH_def BLOCK_SIZE_def)
qed

text \<open>C9: In every state that requests of FUSE lead to from a formatted file system, on the plain disk or a larger one,
  the invariant holds, and every further request that the front end can take returns in such a state again, except one:
  the callback for attributes copies the path to where an uninitialised pointer points, and when the pointer
  is no address, or the memory there is not large enough, that is an access through a wild pointer.
  The requests are in any order, with any handles, offsets and sizes, under the conditions of
  \<open>request_ok\<close>: paths begin with a slash, name something and are shorter than 14 bytes, the size of the
  buffers of the front end; the buffers of reads and writes are as long as they say, and the end of a written
  range fits in 32 bits. In particular the entries of the root directory always fit in the array of
  \<open>sofs_readdir\<close>.\<close>

theorem sofs_serves_safely:
  assumes "reach (formatted block_disk block_view) (serves block_disk) fs"
    and "garbage_ok g" and "request_ok req"
  shows "fs_inv block_view fs
    \<and> (if goes_wild g req then sofs_oper block_disk g (Some fs) req = Inl WildPointer
       else \<exists>answer fs'. sofs_oper block_disk g (Some fs) req = Inr (answer, Some fs') \<and> fs_inv block_view fs'
         \<and> reach (formatted block_disk block_view) (serves block_disk) fs')"
proof (cases "goes_wild g req")
  case True
  then show ?thesis
    using goes_wild_faults bd.mounted.reach_inv [OF assms(1)] by (auto simp: run_inv_def)
next
  case False
  have inv: "run_inv block_disk block_view fs" by (rule bd.mounted.reach_inv [OF assms(1)])
  from bd.sofs_oper_safe [OF this assms(2,3) False] obtain res fs'
    where call: "sofs_oper block_disk g (Some fs) req = Inr (res, Some fs')"
      "run_inv block_disk block_view fs'" unfolding stays_def by blast
  have "reach (formatted block_disk block_view) (serves block_disk) fs'"
    by (rule reach_step [OF assms(1)]) (rule servesI [OF assms(2,3) call(1)])
  then show ?thesis using False inv call by (auto simp: run_inv_def)
qed

text \<open>The attributes of a file that is not there are asked for, with a pointer to 14 bytes and with a wild one; and the
  root directory is listed.\<close>

theorem sofs_serves_safely_witness:
  "\<exists>fs a1 fs1 a2 fs2. formatted block_disk block_view fs
    \<and> sofs_oper block_disk (demo_garbage (Some 14)) (Some fs) (Getattr [0x2F, 0x61]) = Inr (a1, Some fs1)
    \<and> sofs_oper block_disk (demo_garbage None) (Some fs) (Getattr [0x2F, 0x61]) = Inl WildPointer
    \<and> sofs_oper block_disk (demo_garbage None) (Some fs) (Readdir [0x2F]) = Inr (a2, Some fs2)"
proof -
  have view: "dv_ok block_view demo_disk" "10 \<le> dv_cap block_view demo_disk"
    by (simp_all add: demo_disk_view)
  note blank = zero_fs_blank [OF view]
  obtain fs where "fs_format block_disk (Some (zero_fs demo_disk)) = Inr (0, Some fs)"
    using bd.fs_format_ok [OF blank] by blast
  then have fs: "formatted block_disk block_view fs"
    using blank unfolding formatted_def
    by (intro exI [of _ "zero_fs demo_disk"])
      (simp add: block_disk_def block_num_blocks_def zero_fs_def demo_disk_def BMAP_BITS_def BLOCK_SIZE_def)
  then have "reach (formatted block_disk block_view) (serves block_disk) fs" by (rule reach_init)
  note safe = sofs_serves_safely [OF this demo_garbage_ok]
  have req: "request_ok (Getattr [0x2F, 0x61])" "request_ok (Readdir [0x2F])"
    by (simp_all add: request_ok_def path_ok_def SLASH_def MAX_FILE_NAME_SIZE_def)
  have wild: "\<not> goes_wild (demo_garbage (Some 14)) (Getattr [0x2F, 0x61])"
    "goes_wild (demo_garbage None) (Getattr [0x2F, 0x61])" "\<not> goes_wild (demo_garbage None) (Readdir [0x2F])"
    by (simp_all add: goes_wild_def)
  show ?thesis
    using fs safe [OF req(1), of "Some 14"] safe [OF req(1), of None] safe [OF req(2), of None] wild by (simp only: if_True if_False) blast
qed

text \<open>When the uninitialised pointer of \<open>sofs_getattr\<close> happens to point to enough memory, the
  callback reports the type and, for a file, the length of what the path leads to, and \<open>-ENOENT\<close>
  when it leads nowhere; in all other cases it writes through a wild pointer.\<close>

lemma sofs_getattr_reports:
  assumes "fs_inv block_view fs" and "0 \<notin> set path" and "path \<noteq> []" and "hd path = SLASH"
    and "length path < MAX_PATH_NAME_SIZE" and "strtok_tokens [] path \<noteq> []"
    and "length junk = BLOCK_SIZE"
  shows "sofs_getattr block_disk junk fid0 attrs0 filename_room (Some fs) path =
    (if filename_room = None \<or> the filename_room \<le> length path then Inl WildPointer else
     case abs_walk (fs_abs block_view fs) 1 (strtok_tokens [] path) of
       Some j \<Rightarrow> (case fs_abs block_view fs j of
           Some (FileNode bs) \<Rightarrow> Inr (0, Some fs, \<lparr>st_mode = S_IFREG OR 0x1FF, st_nlink = 1,
             st_size = of_nat (length bs)\<rparr>)
         | _ \<Rightarrow> Inr (0, Some fs, \<lparr>st_mode = S_IFDIR OR 0x1FF, st_nlink = 2, st_size = 512\<rparr>))
     | None \<Rightarrow> Inr (- ENOENT, Some fs, \<lparr>st_mode = 0, st_nlink = 0, st_size = 0\<rparr>))"
proof (cases "filename_room = None \<or> the filename_room \<le> length path")
  case True
  then show ?thesis by (auto simp: sofs_getattr_def split: option.splits)
next
  case False
  then obtain room where room: "filename_room = Some room" "length path < room" by auto
  have "length junk = 512" using assms(7) by (simp add: BLOCK_SIZE_def)
  from bd.sofs_getattr_ok [OF assms(1-5) room(2) assms(6) this] room show ?thesis by simp
qed

lemma sofs_getattr_reports_witness:
  "\<exists>fs. fs_inv block_view fs \<and>
    sofs_getattr block_disk (replicate 512 0) 0 \<lparr>at_inodeid = 0, at_type = 0, at_size = 0, at_num_entries = 0\<rparr> (Some 14) (Some fs) [0x2F, 0x62] =
      Inr (-2, Some fs, \<lparr>st_mode = 0, st_nlink = 0, st_size = 0\<rparr>)"
proof -
  have "fs_inv block_view demo_fs" by (rule demo_fs_facts(1))
  moreover have "abs_walk (fs_abs block_view demo_fs) 1 [[0x62]] = None" by (simp add: demo_fs_facts(2))
  ultimately show ?thesis
    using sofs_getattr_reports [of demo_fs "[0x2F, 0x62]" "replicate 512 0" 0 "\<lparr>at_inodeid = 0, at_type = 0, at_size = 0, at_num_entries = 0\<rparr>" "Some 14"]
    by (intro exI [of _ demo_fs]) (simp add: SLASH_def MAX_PATH_NAME_SIZE_def BLOCK_SIZE_def ENOENT_def)
qed

text \<open>\<open>sofs_readdir\<close> hands the names dot, dot dot and those of all entries of the root directory,
  in order, to the library's \<open>filler\<close>.\<close>

lemma sofs_readdir_fills:
  assumes "fs_inv block_view fs" and "fs_abs block_view fs 1 = Some (DirNode es)"
    and "length entries0 = MAX_READDIR_ENTRIES" and "length junk = BLOCK_SIZE"
  shows "sofs_readdir block_disk junk attrs0 max0 entries0 num0 filler (Some fs) [SLASH] buf =
    Inr (0, Some fs, foldl filler buf ([DOT] # [DOT, DOT] # map fst es))"
proof -
  have "length junk = 512" using assms(4) by (simp add: BLOCK_SIZE_def)
  from bd.sofs_readdir_ok [OF assms(1-3) this] show ?thesis .
qed

theorem sofs_readdir_fills_witness:
  "\<exists>fs. sofs_readdir block_disk (replicate 512 0) \<lparr>at_inodeid = 0, at_type = 0, at_size = 0, at_num_entries = 0\<rparr> 0 (replicate 64 ([], 0)) 0
      (\<lambda>buf nm. buf @ [nm]) (Some fs) [0x2F] [] = Inr (0, Some fs, [[0x2E], [0x2E, 0x2E], [0x61]])"
proof -
  obtain fs n where fs: "fs_inv block_view fs" "fs_abs block_view fs 1 = Some (DirNode [([0x61], n)])"
    using demo_created by blast
  have "length (replicate 64 ([] :: byte list, 0 :: u32)) = MAX_READDIR_ENTRIES"
    by (simp add: MAX_READDIR_ENTRIES_def)
  from sofs_readdir_fills [OF fs this, of "replicate 512 0" "\<lparr>at_inodeid = 0, at_type = 0, at_size = 0, at_num_entries = 0\<rparr>" 0 0 "\<lambda>buf nm. buf @ [nm]" "[]"]
  show ?thesis by (auto simp: BLOCK_SIZE_def DOT_def SLASH_def)
qed

text \<open>\<open>sofs_truncate\<close> empties the file, whatever the new size is.\<close>

lemma sofs_truncate_any_size:
  assumes "fs_inv block_view fs" and "fs_abs block_view fs 1 = Some (DirNode es)" and "sofs_name nm"
    and "map_of es nm = Some j" and "fs_abs block_view fs (unat j) = Some (FileNode bs)"
    and "length junk = BLOCK_SIZE"
  shows "\<exists>fs'. sofs_truncate block_disk junk fid0 (Some fs) (SLASH # nm) newsize = Inr (0, Some fs')
    \<and> fs_inv block_view fs' \<and> fs_abs block_view fs' = (fs_abs block_view fs)(unat j \<mapsto> FileNode [])"
proof -
  have "length junk = 512" using assms(6) by (simp add: BLOCK_SIZE_def)
  from bd.sofs_truncate_ok [OF assms(1-5) this] show ?thesis .
qed

theorem sofs_truncate_any_size_witness:
  "\<exists>fs (n :: u16) fs'. fs_abs block_view fs (unat n) = Some (FileNode [1, 2, 3])
    \<and> sofs_truncate block_disk (replicate 512 0) 0 (Some fs) [0x2F, 0x61] 1000 = Inr (0, Some fs')
    \<and> fs_abs block_view fs' (unat n) = Some (FileNode [])"
proof -
  have nm: "sofs_name [0x61]" by (simp add: sofs_name_def SLASH_def)
  have "used_inodes demo_fs \<noteq> {..<ITAB_SIZE}" by (simp add: demo_fs_facts(4) ITAB_SIZE_def)
  then obtain fs n where fs: "fs_inv block_view fs" "\<not> live demo_fs (unat n)"
    "fs_abs block_view fs = (fs_abs block_view demo_fs)
      (1 \<mapsto> DirNode [([0x61], n)], unat n \<mapsto> FileNode [1, 2, 3])"
    using bd.sofs_session_ok [OF demo_fs_facts(1) _ nm, of "[]" "[1, 2, 3]" "[1, 2, 3]" "replicate 512 0"]
    by (force simp: demo_fs_facts)
  have "unat n \<noteq> 1" using fs(2) fs_invD(4) [OF demo_fs_facts(1)] by metis
  then have root: "fs_abs block_view fs 1 = Some (DirNode [([0x61], n)])" using fs(3) by simp
  have f: "fs_abs block_view fs (unat n) = Some (FileNode [1, 2, 3])" using fs(3) by simp
  have look: "map_of [([0x61], n)] [0x61] = Some n" by simp
  have junk: "length (replicate 512 (0 :: byte)) = BLOCK_SIZE" by (simp add: BLOCK_SIZE_def)
  obtain fs' where "sofs_truncate block_disk (replicate 512 0) 0 (Some fs) [0x2F, 0x61] 1000 =
      Inr (0, Some fs')" "fs_abs block_view fs' (unat n) = Some (FileNode [])"
    using sofs_truncate_any_size [OF fs(1) root nm look f junk, of 0 1000] by (auto simp: SLASH_def)
  with f show ?thesis by blast
qed

end
